(* ===== verification/Prelude.thy ===== *)
theory Prelude
  imports Main "HOL-Library.Word"
begin

text \<open>
  Shared vocabulary of the development: machine integers at the width the sources use, byte
  strings, time points, the outcome of a handler that may throw, and the generic facts on lists
  and words that several components use.  The collections \<open>u32_arith\<close> and \<open>handler_defs\<close> gather
  what the component proofs rewrite with.
\<close>

named_theorems u32_arith \<open>unsigned reading of 32-bit arithmetic\<close>
named_theorems handler_defs \<open>small handlers that are always unfolded\<close>

section \<open>Machine integers and byte strings\<close>

type_synonym u8 = "8 word"
type_synonym u16 = "16 word"
type_synonym u32 = "32 word"
type_synonym bytes = "u8 list"

section \<open>Time\<close>

text \<open>
  \<open>std::chrono::system_clock\<close> counts nanoseconds; time points and durations are integers in that
  unit, and the duration literals of the sources are converted to it.
\<close>

type_synonym time = int

definition milliseconds :: "int \<Rightarrow> time" where
  "milliseconds n = n * 1000000"

definition seconds :: "int \<Rightarrow> time" where
  "seconds n = n * 1000000000"

section \<open>End points\<close>

text \<open>
  \<open>boost::asio::ip::udp::endpoint\<close> of the version 4 sockets the sources open: an address and a port, ordered
  by address and then by port, as the maps with end points as keys need.
\<close>

datatype endpoint = Endpoint (ep_address: u32) (ep_port: u16)

instantiation endpoint :: linorder
begin

definition less_eq_endpoint :: "endpoint \<Rightarrow> endpoint \<Rightarrow> bool" where
  "less_eq_endpoint e f \<longleftrightarrow>
     ep_address e < ep_address f \<or> ep_address e = ep_address f \<and> ep_port e \<le> ep_port f"

definition less_endpoint :: "endpoint \<Rightarrow> endpoint \<Rightarrow> bool" where
  "less_endpoint e f \<longleftrightarrow>
     ep_address e < ep_address f \<or> ep_address e = ep_address f \<and> ep_port e < ep_port f"

instance
proof
  fix e f g :: endpoint
  show "e < f \<longleftrightarrow> e \<le> f \<and> \<not> f \<le> e"
    by (auto simp: less_eq_endpoint_def less_endpoint_def)
  show "e \<le> e" by (simp add: less_eq_endpoint_def)
  show "e \<le> f \<Longrightarrow> f \<le> g \<Longrightarrow> e \<le> g" by (auto simp: less_eq_endpoint_def)
  show "e \<le> f \<Longrightarrow> f \<le> e \<Longrightarrow> e = f" by (auto simp: less_eq_endpoint_def endpoint.expand)
  show "e \<le> f \<or> f \<le> e" by (auto simp: less_eq_endpoint_def)
qed

end

section \<open>Generic facts\<close>

lemma take_drop_append [simp]: "take n xs @ take m (drop n xs) = take (n + m) xs"
  by (simp add: take_add)

lemma append_eq_longer:
  assumes "xs @ ys = us @ vs" "length us \<le> length xs"
  shows "us @ drop (length us) xs = xs"
proof -
  have "take (length us) (xs @ ys) = take (length us) (us @ vs)"
    using assms(1) by simp
  with assms(2) have "take (length us) xs = us" by simp
  then show ?thesis by (metis append_take_drop_id)
qed

lemma unat_u8_less: "unat (x :: u8) < 256"
  using unsigned_less [of x, where 'a = nat] by simp

lemma unat_u16_less: "unat (x :: u16) < 65536"
  using unsigned_less [of x, where 'a = nat] by simp

lemma unat_u32_less: "unat (x :: u32) < 4294967296"
  using unsigned_less [of x, where 'a = nat] by simp

lemma unat_add_no_wrap [u32_arith]:
  fixes a b :: u32
  assumes "unat a + unat b < 2 ^ 32"
  shows "unat (a + b) = unat a + unat b"
  using assms by (simp add: unat_word_ariths)

lemma unat_sub_no_wrap [u32_arith]:
  fixes a b :: u32
  assumes "b \<le> a"
  shows "unat (a - b) = unat a - unat b"
  using assms by (simp add: unat_sub)

lemma unat_of_nat_u32 [u32_arith]:
  assumes "n < 2 ^ 32"
  shows "unat (of_nat n :: u32) = n"
  using assms by (simp add: unat_of_nat)

end
