(* ===== verification/Qt_Lib.thy ===== *)
theory Qt_Lib
  imports Prelude
begin

text \<open>
  What the sources use of Qt. Byte arrays and random-access devices are data (a byte list, and a byte list
  with a position). The serialisation of \<open>QDataStream\<close>, \<open>qChecksum\<close> and
  \<open>qCompress\<close>/\<open>qUncompress\<close> are library code, so they are fields of the parameter
  record \<open>qt\<close> that every definition using them takes; the locale \<open>qt_documented\<close>
  lists what their documentation promises. The readers below are the typed extraction of
  \<open>Base/apply_parse.h\<close>.
\<close>

section \<open>Devices\<close>

record device =
  dev_bytes :: bytes
  dev_pos :: nat
  dev_open :: bool

definition new_device :: device where
  "new_device = \<lparr>dev_bytes = [], dev_pos = 0, dev_open = False\<rparr>"

definition dev_size :: "device \<Rightarrow> nat" where
  "dev_size d = length (dev_bytes d)"

definition dev_at_end :: "device \<Rightarrow> bool" where
  "dev_at_end d \<longleftrightarrow> dev_size d \<le> dev_pos d"

definition dev_available :: "device \<Rightarrow> nat" where
  "dev_available d = dev_size d - dev_pos d"

text \<open>Seeking past the end of a writable device fills the gap with zero bytes.\<close>

definition zero_fill :: "nat \<Rightarrow> bytes \<Rightarrow> bytes" where
  "zero_fill n bs = bs @ replicate (n - length bs) 0"

definition dev_seek :: "nat \<Rightarrow> device \<Rightarrow> device" where
  "dev_seek n d = d\<lparr>dev_bytes := zero_fill n (dev_bytes d), dev_pos := n\<rparr>"

definition dev_write :: "bytes \<Rightarrow> device \<Rightarrow> device" where
  "dev_write bs d =
     d\<lparr>dev_bytes := take (dev_pos d) (dev_bytes d) @ bs @ drop (dev_pos d + length bs) (dev_bytes d),
       dev_pos := dev_pos d + length bs\<rparr>"

definition dev_read :: "nat \<Rightarrow> device \<Rightarrow> bytes \<times> device" where
  "dev_read n d =
     (let r = take n (drop (dev_pos d) (dev_bytes d)) in (r, d\<lparr>dev_pos := dev_pos d + length r\<rparr>))"

definition dev_reopen :: "device \<Rightarrow> device" where
  "dev_reopen d = d\<lparr>dev_pos := 0, dev_open := True\<rparr>"

definition dev_close :: "device \<Rightarrow> device" where
  "dev_close d = d\<lparr>dev_open := False\<rparr>"

lemmas device_defs =
  dev_size_def dev_at_end_def dev_available_def zero_fill_def dev_seek_def dev_write_def
  dev_read_def dev_reopen_def dev_close_def

lemma length_zero_fill [simp]: "length (zero_fill n bs) = max n (length bs)"
  by (simp add: zero_fill_def)

lemma nth_zero_fill: "i < length bs \<Longrightarrow> zero_fill n bs ! i = bs ! i"
  by (simp add: zero_fill_def nth_append)

text \<open>A write at a position, read back byte by byte.\<close>

lemma seek_write_nth:
  assumes "i < max (length (dev_bytes d)) (n + length bs)"
  shows "dev_bytes (dev_write bs (dev_seek n d)) ! i =
           (if n \<le> i \<and> i < n + length bs then bs ! (i - n) else zero_fill n (dev_bytes d) ! i)"
  using assms
  by (auto simp: dev_write_def dev_seek_def nth_append min_def max_def not_less add.commute
      split: if_splits)

lemma seek_write_length:
  "length (dev_bytes (dev_write bs (dev_seek n d))) = max (length (dev_bytes d)) (n + length bs)"
  by (auto simp: dev_write_def dev_seek_def max_def)

section \<open>Library functions as a parameter\<close>

record qt =
  put16 :: "u16 \<Rightarrow> bytes"
  get16 :: "bytes \<Rightarrow> u16"
  put32 :: "u32 \<Rightarrow> bytes"
  get32 :: "bytes \<Rightarrow> u32"
  put_array :: "bytes \<Rightarrow> bytes"
  checksum :: "bytes \<Rightarrow> u16"
  compress :: "bytes \<Rightarrow> bytes"
  uncompress :: "bytes \<Rightarrow> bytes"

text \<open>
  Documented behaviour: integers take their width and are read back unchanged; a byte array is its
  size and its bytes, a null array the size \<open>0xffffffff\<close> alone; decompression inverts compression.
\<close>

locale qt_documented =
  fixes Q :: qt
  assumes put16_length: "length (put16 Q x) = 2"
    and get16_put16: "get16 Q (put16 Q x) = x"
    and put32_length: "length (put32 Q y) = 4"
    and get32_put32: "get32 Q (put32 Q y) = y"
    and put_array_format:
      "put_array Q d = put32 Q (of_nat (length d)) @ d \<or> d = [] \<and> put_array Q d = put32 Q 0xffffffff"
    and uncompress_compress: "uncompress Q (compress Q d) = d"
    and compress_not_Nil: "d \<noteq> [] \<Longrightarrow> compress Q d \<noteq> []"

section \<open>Typed extraction (Base/apply_parse.h)\<close>

datatype exn = Parse_Failed | Uncompress_Failed | App_Exception

datatype field_type = T8 | T32

datatype field = F8 u8 | F32 u32

text \<open>
  \<open>ds >> out\<close> on a stream that still holds \<open>bs\<close>: \<open>None\<close> is the status
  \<open>ReadPastEnd\<close>.
\<close>

fun ds_read :: "qt \<Rightarrow> field_type \<Rightarrow> bytes \<Rightarrow> (field \<times> bytes) option" where
  "ds_read Q T8 bs = (case bs of [] \<Rightarrow> None | b # r \<Rightarrow> Some (F8 b, r))"
| "ds_read Q T32 bs =
     (if length bs < 4 then None else Some (F32 (get32 Q (take 4 bs)), drop 4 bs))"

fun ds_write :: "qt \<Rightarrow> field \<Rightarrow> bytes" where
  "ds_write Q (F8 b) = [b]"
| "ds_write Q (F32 w) = put32 Q w"

text \<open>
  \<open>parse_out(ds, args...)\<close>: one extraction per argument, from left to right, throwing at the first
  one whose status is not \<open>Ok\<close>.
\<close>

fun parse_out :: "qt \<Rightarrow> field_type list \<Rightarrow> bytes \<Rightarrow> exn + field list \<times> bytes" where
  "parse_out Q [] bs = Inr ([], bs)"
| "parse_out Q (t # ts) bs =
     (case ds_read Q t bs of
        None \<Rightarrow> Inl Parse_Failed
      | Some (x, r) \<Rightarrow>
          (case parse_out Q ts r of
             Inl e \<Rightarrow> Inl e
           | Inr (xs, r') \<Rightarrow> Inr (x # xs, r')))"

text \<open>
  \<open>apply_parse(ds, f, obj)\<close>: the argument tuple is parsed first and \<open>f\<close> is invoked with it only if
  every extraction succeeded.
\<close>

definition apply_parse ::
    "qt \<Rightarrow> field_type list \<Rightarrow> (field list \<Rightarrow> 'r) \<Rightarrow> bytes \<Rightarrow> exn + 'r" where
  "apply_parse Q ts f bs =
     (case parse_out Q ts bs of Inl e \<Rightarrow> Inl e | Inr (xs, _) \<Rightarrow> Inr (f xs))"

fun type_of :: "field \<Rightarrow> field_type" where
  "type_of (F8 _) = T8"
| "type_of (F32 _) = T32"

fun type_size :: "field_type \<Rightarrow> nat" where
  "type_size T8 = 1"
| "type_size T32 = 4"

context qt_documented begin

lemma ds_read_write: "ds_read Q (type_of x) (ds_write Q x @ r) = Some (x, r)"
  by (cases x) (simp_all add: put32_length get32_put32)

lemma parse_written: "parse_out Q (map type_of xs) (concat (map (ds_write Q) xs) @ r) = Inr (xs, r)"
  by (induction xs) (simp_all add: ds_read_write)

end

lemma ds_read_Some_iff: "(\<exists>x r. ds_read Q t bs = Some (x, r)) \<longleftrightarrow> type_size t \<le> length bs"
  by (cases t) (auto split: list.splits)

lemma ds_read_length: "ds_read Q t bs = Some (x, r) \<Longrightarrow> length bs = type_size t + length r"
  by (cases t) (auto split: list.splits if_splits)

lemma parse_out_fails_iff:
  "(\<exists>e. parse_out Q ts bs = Inl e) \<longleftrightarrow> length bs < sum_list (map type_size ts)"
proof (induction ts arbitrary: bs)
  case Nil
  then show ?case by simp
next
  case (Cons t ts)
  show ?case
  proof (cases "ds_read Q t bs")
    case None
    then have "length bs < type_size t"
      using ds_read_Some_iff [of Q t bs] by auto
    with None show ?thesis by simp
  next
    case (Some xr)
    obtain x r where xr: "xr = (x, r)" by (cases xr)
    with Some have "length bs = type_size t + length r"
      by (simp add: ds_read_length)
    with Some xr Cons [of r] show ?thesis
      by (auto split: sum.splits)
  qed
qed

lemma parse_out_exn: "parse_out Q ts bs = Inl e \<Longrightarrow> e = Parse_Failed"
  by (induction ts arbitrary: bs) (auto split: option.splits sum.splits)

section \<open>An instance\<close>

text \<open>
  An instance of the parameter, on which closed examples evaluate: the big-endian layout that is
  \<open>QDataStream\<close>'s default, a byte sum for the checksum and a stored block for the compression.
\<close>

definition be16 :: "u16 \<Rightarrow> bytes" where
  "be16 x = [of_nat (unat x div 256), of_nat (unat x mod 256)]"

definition be32 :: "u32 \<Rightarrow> bytes" where
  "be32 x = [of_nat (unat x div 16777216), of_nat (unat x div 65536 mod 256),
             of_nat (unat x div 256 mod 256), of_nat (unat x mod 256)]"

definition from_be :: "bytes \<Rightarrow> nat" where
  "from_be bs = foldl (\<lambda>n b. 256 * n + unat b) 0 bs"

definition qt_sample :: qt where
  "qt_sample =
     \<lparr>put16 = be16, get16 = (\<lambda>bs. of_nat (from_be bs)),
      put32 = be32, get32 = (\<lambda>bs. of_nat (from_be bs)),
      put_array = (\<lambda>d. be32 (of_nat (length d)) @ d),
      checksum = (\<lambda>bs. of_nat (sum_list (map unat bs))),
      compress = (\<lambda>d. 0 # d), uncompress = tl\<rparr>"

lemma byte_digit [simp]: "unat (of_nat (n mod 256) :: u8) = n mod 256"
  by (simp add: unat_of_nat)

lemma from_be_be16: "from_be (be16 x) = unat x"
proof -
  have "unat x div 256 < 256"
    using unat_u16_less [of x] by simp
  then show ?thesis
    by (simp add: from_be_def be16_def unat_of_nat)
qed

lemma base256: "256 * (n div (256 * m)) + n div m mod 256 = (n div m :: nat)"
  by (metis div_mult2_eq mult.commute mult_div_mod_eq)

lemma from_be_be32: "from_be (be32 x) = unat x"
proof -
  have "unat x div 16777216 < 256"
    using unat_u32_less [of x] by simp
  then show ?thesis
    using base256 [of "unat x" 65536] base256 [of "unat x" 256] base256 [of "unat x" 1]
    by (simp add: from_be_def be32_def unat_of_nat)
qed

interpretation qt_sample: qt_documented qt_sample
  by unfold_locales
    (simp_all add: qt_sample_def from_be_be16 from_be_be32, simp_all add: be16_def be32_def)

end
