(* ===== verification/Fragmented_Message.thy ===== *)
theory Fragmented_Message
  imports Qt_Lib
begin

text \<open>
  \<open>Network/net_fragmented_message.cpp\<close>: the receiver's record of a message that arrives in pieces.
  \<open>part_vect_\<close> lists the byte ranges still missing; \<open>remove_from_part_vect\<close> takes a received range
  out of it.  The contract is the locale \<open>range_tracker\<close> (a set of missing positions), which the
  vector implements; on top of it stand the facts that a message is complete exactly when every
  byte has arrived, in any order and with any overlaps, and that its content is then the sender's.
\<close>

section \<open>The record and its operations\<close>

type_synonym part = "u32 \<times> u32"

record fragmented_message =
  fm_id :: u8
  fm_cmd :: u8
  max_fragment_size :: u32
  fm_on_disk :: bool
  fm_device :: device
  last_part_time :: time
  part_vect :: "part list"

definition fragmented_message_new :: "u8 \<Rightarrow> u8 \<Rightarrow> u32 \<Rightarrow> u32 \<Rightarrow> fragmented_message" where
  "fragmented_message_new i c max_size full_size =
     \<lparr>fm_id = i, fm_cmd = c, max_fragment_size = max_size,
      fm_on_disk = (\<not> full_size < 1000000), fm_device = new_device,
      last_part_time = 0, part_vect = [(0, full_size)]\<rparr>"

fun remove_from_part_vect :: "u32 \<Rightarrow> u32 \<Rightarrow> part list \<Rightarrow> part list" where
  "remove_from_part_vect s e [] = []"
| "remove_from_part_vect s e ((a, b) # ps) =
     (if e \<le> a then (a, b) # ps
      else if s > b then (a, b) # remove_from_part_vect s e ps
      else if s < a then
        (if e > b then remove_from_part_vect b e ps
         else if e = b then ps
         else (e, b) # ps)
      else if s > a then
        (if e > b then (a, s) # remove_from_part_vect b e ps
         else if e < b then (a, s) # (e, b) # ps
         else (a, s) # ps)
      else
        (if e > b then remove_from_part_vect b e ps
         else if e < b then (e, b) # ps
         else ps))"

definition add_data :: "u32 \<Rightarrow> bytes \<Rightarrow> fragmented_message \<Rightarrow> fragmented_message" where
  "add_data pos data m =
     m\<lparr>part_vect := remove_from_part_vect pos (pos + of_nat (length data)) (part_vect m),
       fm_device := dev_write data (dev_seek (unat pos) (fm_device m))\<rparr>"

definition is_parts_empty :: "fragmented_message \<Rightarrow> bool" where
  "is_parts_empty m \<longleftrightarrow> part_vect m = []"

definition get_next_part :: "fragmented_message \<Rightarrow> u32 \<times> u32" where
  "get_next_part m =
     (case part_vect m of
        [] \<Rightarrow> (0, 0)
      | (a, b) # _ \<Rightarrow>
          if b - a > max_fragment_size m then (a, max_fragment_size m) else (a, b - a))"

section \<open>What is missing\<close>

definition missing :: "part list \<Rightarrow> u32 set" where
  "missing ps = {x. \<exists>(a, b) \<in> set ps. a \<le> x \<and> x < b}"

fun parts_ok :: "part list \<Rightarrow> bool" where
  "parts_ok [] = True"
| "parts_ok ((a, b) # ps) = (a < b \<and> (\<forall>(c, d) \<in> set ps. b \<le> c) \<and> parts_ok ps)"

lemma missing_Nil [simp]: "missing [] = {}"
  by (simp add: missing_def)

lemma missing_Cons [simp]: "missing ((a, b) # ps) = {a..<b} \<union> missing ps"
  by (auto simp: missing_def)

lemma parts_ok_bound: "parts_ok ((a, b) # ps) \<Longrightarrow> x \<in> missing ps \<Longrightarrow> b \<le> x"
  by (auto simp: missing_def)

lemma missing_after: "\<forall>(c, d) \<in> set ps. b \<le> c \<Longrightarrow> x < b \<Longrightarrow> x \<notin> missing ps"
  by (fastforce simp: missing_def)

lemma missing_remove:
  "parts_ok ps \<Longrightarrow> s \<le> e \<Longrightarrow> missing (remove_from_part_vect s e ps) = missing ps - {s..<e}"
proof (induction s e ps rule: remove_from_part_vect.induct)
  case (1 s e)
  then show ?case by simp
next
  case (2 s e a b ps)
  then have ab: "a < b" and after: "\<And>x. x < b \<Longrightarrow> x \<notin> missing ps"
    by (auto dest: missing_after)
  show ?case
    using 2 ab after by (auto simp: not_le not_less)
qed

lemma remove_starts:
  "\<forall>(c, d) \<in> set ps. l \<le> c \<Longrightarrow> \<forall>(c, d) \<in> set (remove_from_part_vect s e ps). l \<le> c"
  by (induction s e ps rule: remove_from_part_vect.induct) (auto simp: not_le)

lemma starts_mono: "\<forall>(c, d) \<in> set ps. b \<le> c \<Longrightarrow> s \<le> b \<Longrightarrow> \<forall>(c, d) \<in> set ps. s \<le> c"
  for s :: u32
  by (auto dest!: bspec)

lemma parts_ok_remove: "parts_ok ps \<Longrightarrow> s \<le> e \<Longrightarrow> parts_ok (remove_from_part_vect s e ps)"
proof (induction s e ps rule: remove_from_part_vect.induct)
  case (1 s e)
  then show ?case by simp
next
  case (2 s e a b ps)
  then have later: "\<forall>(c, d) \<in> set ps. b \<le> c" by simp
  have "\<forall>(c, d) \<in> set (remove_from_part_vect s' e' ps). b \<le> c" for s' e'
    using later by (rule remove_starts)
  moreover have "\<forall>(c, d) \<in> set (remove_from_part_vect s' e' ps). s \<le> c" if "s \<le> b" for s' e'
    using later that by (rule remove_starts [OF starts_mono])
  moreover have "\<forall>(c, d) \<in> set ps. s \<le> c" if "s \<le> b"
    using later that by (rule starts_mono)
  ultimately show ?case
    using 2 by (simp add: not_le not_less)
qed

lemma missing_empty_iff: "parts_ok ps \<Longrightarrow> ps = [] \<longleftrightarrow> missing ps = {}"
  by (induction ps rule: parts_ok.induct) auto

section \<open>The contract of the tracker\<close>

text \<open>
  A tracker of missing positions: receiving a range takes exactly that range out of the missing
  set, and the tracker reports completion exactly when nothing is missing.
\<close>

locale range_tracker =
  fixes tracked :: "'t \<Rightarrow> 'p::linorder set"
    and receive :: "'p \<Rightarrow> 'p \<Rightarrow> 't \<Rightarrow> 't"
    and complete :: "'t \<Rightarrow> bool"
    and invar :: "'t \<Rightarrow> bool"
  assumes tracked_receive: "invar t \<Longrightarrow> s \<le> e \<Longrightarrow> tracked (receive s e t) = tracked t - {s..<e}"
    and invar_receive: "invar t \<Longrightarrow> s \<le> e \<Longrightarrow> invar (receive s e t)"
    and complete_iff: "invar t \<Longrightarrow> complete t \<longleftrightarrow> tracked t = {}"
begin

lemma receive_all:
  assumes "invar t" and "\<forall>(s, e) \<in> set rs. s \<le> e"
  shows "invar (fold (\<lambda>(s, e). receive s e) rs t)"
    and "tracked (fold (\<lambda>(s, e). receive s e) rs t) = tracked t - (\<Union>(s, e) \<in> set rs. {s..<e})"
proof -
  have "invar (fold (\<lambda>(s, e). receive s e) rs t) \<and>
    tracked (fold (\<lambda>(s, e). receive s e) rs t) = tracked t - (\<Union>(s, e) \<in> set rs. {s..<e})"
    using assms
  proof (induction rs arbitrary: t)
    case Nil
    then show ?case by simp
  next
    case (Cons r rs)
    obtain s e where "r = (s, e)" by (cases r)
    with Cons show ?case by (auto simp: tracked_receive invar_receive)
  qed
  then show "invar (fold (\<lambda>(s, e). receive s e) rs t)"
    and "tracked (fold (\<lambda>(s, e). receive s e) rs t) = tracked t - (\<Union>(s, e) \<in> set rs. {s..<e})"
    by simp_all
qed

lemma complete_iff_covered:
  assumes "invar t" and "\<forall>(s, e) \<in> set rs. s \<le> e"
  shows "complete (fold (\<lambda>(s, e). receive s e) rs t) \<longleftrightarrow>
           tracked t \<subseteq> (\<Union>(s, e) \<in> set rs. {s..<e})"
  using receive_all [OF assms] complete_iff by simp

lemma received_order_irrelevant:
  assumes "invar t" and "\<forall>(s, e) \<in> set rs. s \<le> e" and "set rs' = set rs"
  shows "complete (fold (\<lambda>(s, e). receive s e) rs' t) =
           complete (fold (\<lambda>(s, e). receive s e) rs t)"
  using assms by (simp add: complete_iff_covered)

end

interpretation parts: range_tracker missing remove_from_part_vect "\<lambda>ps. ps = []" parts_ok
  by unfold_locales (simp_all add: missing_remove parts_ok_remove missing_empty_iff)

section \<open>Received content\<close>

text \<open>
  What the receiver holds of a message with content \<open>D\<close>: every position that is not missing has
  arrived with the right byte, nothing beyond the end of \<open>D\<close> has been written, and only positions of
  \<open>D\<close> are missing.
\<close>

definition holds_of :: "bytes \<Rightarrow> fragmented_message \<Rightarrow> bool" where
  "holds_of D m \<longleftrightarrow>
     parts_ok (part_vect m) \<and> length D < 2 ^ 32 \<and>
     dev_size (fm_device m) \<le> length D \<and>
     (\<forall>i < length D. of_nat i \<notin> missing (part_vect m) \<longrightarrow>
        i < dev_size (fm_device m) \<and> dev_bytes (fm_device m) ! i = D ! i)"

definition slice :: "nat \<Rightarrow> nat \<Rightarrow> bytes \<Rightarrow> bytes" where
  "slice pos n D = take n (drop pos D)"

lemma holds_of_new:
  assumes "D \<noteq> []" and "length D < 2 ^ 32"
  shows "holds_of D (fragmented_message_new i c n (of_nat (length D)))"
proof -
  have "(0 :: u32) < of_nat (length D)"
    using assms by (simp add: word_less_nat_alt u32_arith)
  moreover have "(of_nat k :: u32) < of_nat (length D)" if "k < length D" for k
    using that assms by (simp add: word_less_nat_alt u32_arith)
  ultimately show ?thesis
    using assms
    by (auto simp: holds_of_def fragmented_message_new_def new_device_def dev_size_def)
qed

lemma holds_of_add_data:
  assumes "holds_of D m" and "unat pos + n \<le> length D"
  shows "holds_of D (add_data pos (slice (unat pos) n D) m)"
proof -
  let ?data = "slice (unat pos) n D" and ?e = "pos + of_nat n :: u32"
  let ?m = "add_data pos ?data m"
  have len: "length ?data = n" and small: "length D < 2 ^ 32"
    using assms by (auto simp: slice_def holds_of_def)
  then have e: "unat ?e = unat pos + n"
    using assms(2) by (simp add: unat_word_ariths unat_of_nat)
  then have le: "pos \<le> ?e"
    by (simp add: word_le_nat_alt)
  have ok: "parts_ok (part_vect m)"
    using assms(1) by (simp add: holds_of_def)
  have miss: "missing (part_vect ?m) = missing (part_vect m) - {pos..<?e}"
    and ok': "parts_ok (part_vect ?m)"
    using parts.tracked_receive [OF ok le] parts.invar_receive [OF ok le]
    by (simp_all add: add_data_def len)
  have size: "dev_size (fm_device ?m) = max (dev_size (fm_device m)) (unat pos + n)"
    by (simp add: add_data_def dev_size_def seek_write_length len)
  have "i < dev_size (fm_device ?m) \<and> dev_bytes (fm_device ?m) ! i = D ! i"
    if i: "i < length D" and gone: "of_nat i \<notin> missing (part_vect ?m)" for i
  proof -
    have ui: "unat (of_nat i :: u32) = i"
      using i small by (simp add: unat_of_nat)
    show ?thesis
    proof (cases "unat pos \<le> i \<and> i < unat pos + n")
      case True
      then have "i < max (length (dev_bytes (fm_device m))) (unat pos + length ?data)"
        by (simp add: len less_max_iff_disj)
      moreover have "?data ! (i - unat pos) = D ! i"
        using True i by (simp add: slice_def less_diff_conv2)
      ultimately show ?thesis
        using True size by (simp add: add_data_def seek_write_nth len less_max_iff_disj)
    next
      case False
      then have "of_nat i \<notin> {pos..<?e}"
        by (auto simp: word_le_nat_alt word_less_nat_alt ui e)
      then have "of_nat i \<notin> missing (part_vect m)"
        using gone miss by auto
      then have old: "i < dev_size (fm_device m)" "dev_bytes (fm_device m) ! i = D ! i"
        using assms(1) i by (auto simp: holds_of_def)
      then have "i < max (length (dev_bytes (fm_device m))) (unat pos + length ?data)"
        by (simp add: dev_size_def)
      then show ?thesis
        using False old size by (auto simp: add_data_def seek_write_nth len nth_zero_fill dev_size_def)
    qed
  qed
  then show ?thesis
    using ok' small size assms by (auto simp: holds_of_def)
qed

lemma holds_of_complete:
  assumes "holds_of D m" and "is_parts_empty m"
  shows "dev_bytes (fm_device m) = D"
proof (rule nth_equalityI)
  have all: "i < dev_size (fm_device m) \<and> dev_bytes (fm_device m) ! i = D ! i" if "i < length D" for i
    using assms that by (simp add: holds_of_def is_parts_empty_def)
  have "length D \<le> dev_size (fm_device m)"
    by (rule ccontr) (use all [of "dev_size (fm_device m)"] in simp)
  then show len: "length (dev_bytes (fm_device m)) = length D"
    using assms(1) by (simp add: holds_of_def dev_size_def)
  show "dev_bytes (fm_device m) ! i = D ! i" if "i < length (dev_bytes (fm_device m))" for i
    using all that len by simp
qed

lemma holds_of_fold:
  assumes "holds_of D m" and "\<forall>(pos, n) \<in> set rs. unat pos + n \<le> length D"
  shows "holds_of D (fold (\<lambda>(pos, n). add_data pos (slice (unat pos) n D)) rs m)"
  using assms by (induction rs arbitrary: m) (auto intro: holds_of_add_data)

lemma part_vect_fold_add_data:
  assumes "\<forall>(pos, n) \<in> set rs. unat pos + n \<le> length D"
  shows "part_vect (fold (\<lambda>(pos, n). add_data pos (slice (unat pos) n D)) rs m) =
           fold (\<lambda>(s, e). remove_from_part_vect s e)
             (map (\<lambda>(pos, n). (pos, pos + of_nat n)) rs) (part_vect m)"
  using assms
  by (induction rs arbitrary: m) (auto simp: add_data_def slice_def)

section \<open>The next part to request\<close>

lemma next_part_fits:
  assumes "parts_ok (part_vect m)" and "\<not> is_parts_empty m" and "0 < max_fragment_size m"
    and np: "get_next_part m = (pos, n)"
  shows "0 < n" and "n \<le> max_fragment_size m" and "unat pos + unat n < 2 ^ 32"
    and "{pos..<pos + n} \<subseteq> missing (part_vect m)" and "pos \<in> missing (part_vect m)"
proof -
  obtain b ps where parts: "part_vect m = (pos, b) # ps" and ab: "pos < b"
    and n: "n = (if b - pos > max_fragment_size m then max_fragment_size m else b - pos)"
    using assms by (auto simp: get_next_part_def is_parts_empty_def split: list.splits if_splits)
  have diff: "unat (b - pos) = unat b - unat pos"
    using ab by (simp add: unat_sub_no_wrap)
  then have n_le: "unat n \<le> unat b - unat pos"
    using n by (auto simp: word_less_nat_alt)
  with ab show fits: "unat pos + unat n < 2 ^ 32"
    using unat_u32_less [of b] by (simp add: word_less_nat_alt)
  show "0 < n" and "n \<le> max_fragment_size m"
    using n ab assms(3) by (auto simp: word_less_nat_alt word_le_nat_alt diff not_less)
  have "unat (pos + n) \<le> unat b"
    using fits n_le ab by (simp add: unat_add_no_wrap word_less_nat_alt)
  then show "{pos..<pos + n} \<subseteq> missing (part_vect m)" and "pos \<in> missing (part_vect m)"
    using ab parts by (auto simp: word_less_nat_alt word_le_nat_alt)
qed

section \<open>Properties\<close>

text \<open>
  Property C1.  Removing a received range from \<open>part_vect_\<close> removes exactly the positions of that
  range from the missing set and keeps the vector a strictly increasing list of non-empty,
  disjoint ranges; all the branches of the loop are covered, whatever overlaps what.
\<close>

theorem part_vect_tracks_missing:
  assumes "parts_ok ps" and "s \<le> e"
  shows "parts_ok (remove_from_part_vect s e ps) \<and>
         missing (remove_from_part_vect s e ps) = missing ps - {s..<e}"
  using assms by (simp add: parts.tracked_receive parts.invar_receive)

theorem part_vect_tracks_missing_witness:
  "missing (remove_from_part_vect 3 12 [(0, 5), (7, 9), (10, 20)]) =
     missing [(0, 5), (7, 9), (10, 20)] - {3..<12} \<and>
   remove_from_part_vect 3 12 [(0, 5), (7, 9), (10, 20)] = [(0, 3), (12, 20)]"
  using part_vect_tracks_missing [of "[(0, 5), (7, 9), (10, 20)]" 3 12] by simp

text \<open>
  A message of \<open>n\<close> bytes is reported complete after a sequence of received ranges
  exactly when these ranges together cover every position below \<open>n\<close>: the order of arrival,
  duplicates and overlaps do not matter, and a single missing byte prevents completion.
\<close>

theorem complete_iff_ranges_cover:
  assumes "0 < full_size" and "\<forall>(s, e) \<in> set rs. s \<le> e"
  shows "fold (\<lambda>(s, e). remove_from_part_vect s e) rs
             (part_vect (fragmented_message_new i c m full_size)) = [] \<longleftrightarrow>
         {0..<full_size} \<subseteq> (\<Union>(s, e) \<in> set rs. {s..<e})"
  using assms parts.complete_iff_covered [of "[(0, full_size)]" rs]
  by (simp add: fragmented_message_new_def)

theorem complete_iff_ranges_cover_witness:
  "{0..<100} \<subseteq> (\<Union>(s, e) \<in> set [(40, 100), (0, 60)]. {s..<e :: u32})"
  using complete_iff_ranges_cover [of 100 "[(40, 100), (0, 60)]" 1 2 64]
  by (simp add: fragmented_message_new_def)

text \<open>
  Property C11.  Reassembly is correct: if every received fragment is the slice of the sender's
  data at the position it announces, then a message reported complete holds exactly the sender's
  data, whatever the order, the overlaps and the number of fragments were.
\<close>

theorem reassembled_content:
  assumes "D \<noteq> []" and "length D < 2 ^ 31"
    and "\<forall>(pos, n) \<in> set rs. unat pos + n \<le> length D"
    and "is_parts_empty (fold (\<lambda>(pos, n). add_data pos (slice (unat pos) n D)) rs
           (fragmented_message_new i c m (of_nat (length D))))"
  shows "dev_bytes (fm_device (fold (\<lambda>(pos, n). add_data pos (slice (unat pos) n D)) rs
           (fragmented_message_new i c m (of_nat (length D))))) = D"
  using assms by (intro holds_of_complete holds_of_fold holds_of_new) auto

theorem reassembled_content_witness:
  "dev_bytes (fm_device (fold (\<lambda>(pos, n). add_data pos (slice (unat pos) n [1, 2, 3, 4, 5]))
     [(2, 3), (0, 3)] (fragmented_message_new 7 9 64 (of_nat (length [1, 2, 3, 4, 5 :: u8]))))) =
   [1, 2, 3, 4, 5]"
  by (rule reassembled_content)
    (simp_all add: is_parts_empty_def add_data_def slice_def fragmented_message_new_def)

text \<open>
  Property C12.  While a message is incomplete, the part requested next is not empty, fits the
  maximal fragment size, does not wrap around, and consists of missing bytes only, starting with
  the first of them.
\<close>

theorem next_part_is_missing:
  assumes "parts_ok (part_vect m)" and "\<not> is_parts_empty m" and "0 < max_fragment_size m"
  shows "case get_next_part m of (pos, n) \<Rightarrow>
           0 < n \<and> n \<le> max_fragment_size m \<and> unat pos + unat n < 2 ^ 32 \<and>
           {pos..<pos + n} \<subseteq> missing (part_vect m) \<and> pos \<in> missing (part_vect m)"
  using next_part_fits [OF assms] by (simp split: prod.splits)

theorem next_part_is_missing_witness:
  "get_next_part (fragmented_message_new 1 2 128 1000) = (0, 128) \<and>
   {0..<128} \<subseteq> missing (part_vect (fragmented_message_new 1 2 128 1000))"
  using next_part_is_missing [of "fragmented_message_new 1 2 128 1000"]
  by (simp add: fragmented_message_new_def is_parts_empty_def get_next_part_def)

end
