(* ===== verification/Std_Map.thy ===== *)
theory Std_Map
  imports Prelude
begin

text \<open>
  \<open>std::map\<close> as an association list in increasing key order: the state of the lost-message list,
  the fragment table, the waiting list, the timer and the client table.  \<open>emplace\<close> keeps an
  existing entry, as the standard prescribes, and iteration goes in key order.  The interface the
  components rely on is the locale \<open>ordered_map\<close>, interpreted on these operations.
\<close>

type_synonym ('k, 'v) std_map = "('k \<times> 'v) list"

fun map_emplace :: "'k::linorder \<Rightarrow> 'v \<Rightarrow> ('k, 'v) std_map \<Rightarrow> ('k, 'v) std_map" where
  "map_emplace k v [] = [(k, v)]"
| "map_emplace k v ((a, w) # m) =
     (if k < a then (k, v) # (a, w) # m
      else if k = a then (a, w) # m
      else (a, w) # map_emplace k v m)"

definition map_find :: "('k, 'v) std_map \<Rightarrow> 'k \<Rightarrow> 'v option" where
  "map_find m k = map_of m k"

definition map_erase :: "'k \<Rightarrow> ('k, 'v) std_map \<Rightarrow> ('k, 'v) std_map" where
  "map_erase k m = filter (\<lambda>(a, _). a \<noteq> k) m"

text \<open>Writing through an iterator or a reference to an existing entry.\<close>

definition map_set :: "'k \<Rightarrow> 'v \<Rightarrow> ('k, 'v) std_map \<Rightarrow> ('k, 'v) std_map" where
  "map_set k v m = map (\<lambda>(a, w). if a = k then (a, v) else (a, w)) m"

definition map_ok :: "('k::linorder, 'v) std_map \<Rightarrow> bool" where
  "map_ok m \<longleftrightarrow> sorted_wrt (<) (map fst m)"

section \<open>The interface\<close>

locale ordered_map =
  fixes empty :: "'m"
    and find :: "'m \<Rightarrow> 'k \<Rightarrow> 'v option"
    and emplace :: "'k \<Rightarrow> 'v \<Rightarrow> 'm \<Rightarrow> 'm"
    and erase :: "'k \<Rightarrow> 'm \<Rightarrow> 'm"
    and overwrite :: "'k \<Rightarrow> 'v \<Rightarrow> 'm \<Rightarrow> 'm"
    and invar :: "'m \<Rightarrow> bool"
  assumes find_empty: "find empty k = None"
    and find_emplace:
      "invar m \<Longrightarrow> find (emplace k v m) k' =
         (if k' = k \<and> find m k = None then Some v else find m k')"
    and find_erase: "invar m \<Longrightarrow> find (erase k m) k' = (if k' = k then None else find m k')"
    and find_overwrite:
      "invar m \<Longrightarrow> find (overwrite k v m) k' =
         (if k' = k \<and> find m k \<noteq> None then Some v else find m k')"
    and invar_empty: "invar empty"
    and invar_emplace: "invar m \<Longrightarrow> invar (emplace k v m)"
    and invar_erase: "invar m \<Longrightarrow> invar (erase k m)"
    and invar_overwrite: "invar m \<Longrightarrow> invar (overwrite k v m)"
begin

lemma emplace_keeps: "invar m \<Longrightarrow> find m k = Some w \<Longrightarrow> find (emplace k v m) k' = find m k'"
  by (simp add: find_emplace)

lemma emplace_erase_absent:
  "invar m \<Longrightarrow> find m k = None \<Longrightarrow> find (erase k (emplace k v m)) k' = find m k'"
  by (simp add: find_erase find_emplace invar_emplace)

lemma emplace_then_overwrite:
  "invar m \<Longrightarrow> find (overwrite k v (emplace k v m)) k' = (if k' = k then Some v else find m k')"
  by (auto simp add: find_overwrite find_emplace invar_emplace)

end

section \<open>The association list provides it\<close>

lemma map_of_emplace:
  "map_ok m \<Longrightarrow> map_of (map_emplace k v m) k' =
     (if k' = k \<and> map_of m k = None then Some v else map_of m k')"
proof (induction m)
  case Nil
  then show ?case by simp
next
  case (Cons e m)
  obtain a w where [simp]: "e = (a, w)" by (cases e)
  have "map_of m k = None" if "k \<le> a"
  proof (rule ccontr)
    assume "map_of m k \<noteq> None"
    then have "k \<in> fst ` set m" by (auto simp: map_of_eq_None_iff)
    with Cons.prems have "a < k" by (auto simp: map_ok_def)
    with that show False by simp
  qed
  with Cons show ?case by (auto simp: map_ok_def)
qed

lemma map_ok_Nil: "map_ok []"
  by (simp add: map_ok_def)

lemma set_map_emplace: "fst ` set (map_emplace k v m) = insert k (fst ` set m)"
  by (induction k v m rule: map_emplace.induct) auto

lemma map_ok_emplace: "map_ok m \<Longrightarrow> map_ok (map_emplace k v m)"
  unfolding map_ok_def
  by (induction k v m rule: map_emplace.induct) (auto simp: set_map_emplace simp flip: image_set)

lemma map_of_erase: "map_of (map_erase k m) k' = (if k' = k then None else map_of m k')"
  by (induction m) (auto simp: map_erase_def)

lemma map_ok_erase: "map_ok m \<Longrightarrow> map_ok (map_erase k m)"
  by (auto simp: map_ok_def map_erase_def sorted_wrt_map sorted_wrt_filter)

lemma map_of_set:
  "map_of (map_set k v m) k' = (if k' = k \<and> map_of m k \<noteq> None then Some v else map_of m k')"
  by (induction m) (auto simp: map_set_def)

lemma keys_map_set: "map fst (map_set k v m) = map fst m"
  by (auto simp: map_set_def)

lemma map_ok_set: "map_ok m \<Longrightarrow> map_ok (map_set k v m)"
  by (simp add: map_ok_def keys_map_set)

interpretation smap: ordered_map "[] :: ('k::linorder \<times> 'v) list" map_find map_emplace map_erase
  map_set map_ok
  by unfold_locales
    (simp_all add: map_find_def map_of_emplace map_of_erase map_of_set map_ok_emplace map_ok_erase
      map_ok_set map_ok_Nil)

lemmas map_laws [simp] =
  smap.find_empty smap.find_emplace smap.find_erase smap.find_overwrite
lemmas map_invars [simp, intro] =
  smap.invar_empty smap.invar_emplace smap.invar_erase smap.invar_overwrite

lemma map_ok_Cons: "map_ok ((k, v) # m) \<longleftrightarrow> (\<forall>x \<in> fst ` set m. k < x) \<and> map_ok m"
  by (auto simp: map_ok_def)

lemma map_ok_filter: "map_ok m \<Longrightarrow> map_ok (filter P m)"
  by (auto simp: map_ok_def sorted_wrt_map sorted_wrt_filter)

lemma map_find_filter:
  assumes "map_ok m"
  shows "map_find (filter P m) k =
           (case map_find m k of Some v \<Rightarrow> if P (k, v) then Some v else None | None \<Rightarrow> None)"
  using assms
proof (induction m)
  case Nil
  then show ?case by (simp add: map_find_def)
next
  case (Cons e m)
  obtain a w where [simp]: "e = (a, w)" by (cases e)
  have "map_of m a = None"
    using Cons.prems by (force simp: map_ok_Cons map_of_eq_None_iff)
  with Cons show ?case by (auto simp: map_find_def map_ok_Cons split: option.splits)
qed

text \<open>In key order, the entries up to a bound are a prefix.\<close>

lemma sorted_takeWhile_filter:
  "map_ok w \<Longrightarrow> takeWhile (\<lambda>e. fst e \<le> t) w = filter (\<lambda>e. fst e \<le> t) w"
  "map_ok w \<Longrightarrow> dropWhile (\<lambda>e. fst e \<le> t) w = filter (\<lambda>e. t < fst e) w"
proof -
  have none: "filter (\<lambda>e. fst e \<le> t) w = [] \<and> filter (\<lambda>e. t < fst e) w = w"
    if "\<forall>x \<in> fst ` set w. a < x" "t < a" for a w
    using that by (induction w) auto
  show "map_ok w \<Longrightarrow> takeWhile (\<lambda>e. fst e \<le> t) w = filter (\<lambda>e. fst e \<le> t) w"
  proof (induction w)
    case (Cons e w)
    then show ?case using none [of w "fst e"] by (cases e) (auto simp: map_ok_Cons not_le)
  qed simp
  show "map_ok w \<Longrightarrow> dropWhile (\<lambda>e. fst e \<le> t) w = filter (\<lambda>e. t < fst e) w"
  proof (induction w)
    case (Cons e w)
    then show ?case using none [of w "fst e"] by (cases e) (auto simp: map_ok_Cons not_le)
  qed simp
qed

lemma emplace_taken: "map_find m k = Some w \<Longrightarrow> map_ok m \<Longrightarrow> map_emplace k v m = m"
proof (induction m)
  case (Cons e m)
  then show ?case
    by (cases e) (auto simp: map_find_def map_ok_Cons dest!: map_of_SomeD split: if_splits)
qed (simp add: map_find_def)

end
