(* ===== verification/Message_Item.thy ===== *)
theory Message_Item
  imports Qt_Lib Std_Map
begin

text \<open>
  \<open>Network/net_message_item.cpp\<close> and \<open>Network/net_protocol_sender.cpp\<close>: a message with its
  retransmission data, and the stream object that fills a message and hands it to the protocol
  when it is destroyed.  The three callbacks of a message are represented by the identity of the
  function object; calling one is an effect in the protocol's trace.
\<close>

section \<open>Limits (Network/net_defs.h)\<close>

definition max_udp_packet_size :: u32 where
  "max_udp_packet_size = 65507"

definition max_packet_data_size :: u32 where
  "max_packet_data_size = max_udp_packet_size - 17"

definition max_message_data_size :: u32 where
  "max_message_data_size = max_packet_data_size div 2"

definition protocol_max_message_size :: u32 where
  "protocol_max_message_size = 2147483648"

lemmas limit_defs =
  max_udp_packet_size_def max_packet_data_size_def max_message_data_size_def
  protocol_max_message_size_def

lemma limits [simp]:
  "max_packet_data_size = 65490" "max_message_data_size = 32745"
  "protocol_max_message_size = 2147483648"
  by (simp_all add: limit_defs)

section \<open>Message_Item\<close>

type_synonym func = nat

record message_item =
  mi_id :: "u8 option"
  mi_answer_id :: "u8 option"
  mi_resend_timeout :: time
  mi_begin_time :: time
  mi_end_time :: time
  mi_data_device :: "device option"
  mi_answer_func :: "func option"
  mi_timeout_func :: "func option"
  mi_finally_func :: "func option"
  mi_cmd :: u8
  mi_flags :: u8
  mi_fragment_size :: u32
  mi_min_compress_size :: u32

definition message_item_new :: "u8 \<Rightarrow> u8 option \<Rightarrow> device option \<Rightarrow> time \<Rightarrow> message_item" where
  "message_item_new command answer_id dev resend_timeout =
     \<lparr>mi_id = None, mi_answer_id = answer_id, mi_resend_timeout = resend_timeout,
      mi_begin_time = 0, mi_end_time = 0, mi_data_device = dev,
      mi_answer_func = None, mi_timeout_func = None, mi_finally_func = None,
      mi_cmd = command, mi_flags = 0,
      mi_fragment_size = max_message_data_size, mi_min_compress_size = 512\<rparr>"

definition set_flags :: "u8 \<Rightarrow> message_item \<Rightarrow> message_item" where
  "set_flags flags m = m\<lparr>mi_flags := flags\<rparr>"

definition set_fragment_size :: "u32 \<Rightarrow> message_item \<Rightarrow> message_item" where
  "set_fragment_size n m =
     m\<lparr>mi_fragment_size :=
         (if n < 32 then 32
          else if n > max_packet_data_size then max_packet_data_size
          else n)\<rparr>"

definition set_min_compress_size :: "u32 \<Rightarrow> message_item \<Rightarrow> message_item" where
  "set_min_compress_size n m = m\<lparr>mi_min_compress_size := n\<rparr>"

text \<open>\<open>id_.value_or(0)\<close>\<close>

definition id_or_zero :: "message_item \<Rightarrow> u8" where
  "id_or_zero m = (case mi_id m of None \<Rightarrow> 0 | Some i \<Rightarrow> i)"

section \<open>Effects\<close>

text \<open>
  What the protocol does to its surroundings, in the order it does it: calls of the application's
  virtual functions and of a message's callbacks, messages handed to the writer, time points
  registered with it.
\<close>

datatype effect =
    Process_Message u8 u8 bytes
  | Process_Answer_Message u8 u8 bytes
  | Lost_Msg_Detected u8 u8
  | Answer_Func func bytes
  | Timeout_Func func
  | Finally_Func func bool
  | Writer_Write message_item
  | Writer_Add_Timeout time int

text \<open>The destructor: \<open>finally_func_\<close> learns whether an expected answer is still outstanding.\<close>

definition message_item_destroy :: "message_item \<Rightarrow> effect list" where
  "message_item_destroy m =
     (case mi_finally_func m of
        None \<Rightarrow> []
      | Some f \<Rightarrow> [Finally_Func f (mi_answer_func m = None)])"

section \<open>Protocol_Sender\<close>

text \<open>\<open>ps_protocol\<close> tells whether the sender still has a protocol to send through.\<close>

record protocol_sender =
  ps_protocol :: bool
  ps_msg :: message_item

definition protocol_sender_new ::
    "bool \<Rightarrow> u8 \<Rightarrow> u8 option \<Rightarrow> device option \<Rightarrow> time \<Rightarrow> protocol_sender" where
  "protocol_sender_new has_protocol command answer_id dev resend_timeout =
     (let d = (case dev of None \<Rightarrow> new_device | Some d \<Rightarrow> d);
          d' = (if dev_open d then d else dev_reopen d)
      in \<lparr>ps_protocol = has_protocol,
          ps_msg = message_item_new command answer_id (Some d') resend_timeout\<rparr>)"

text \<open>\<open>operator <<\<close>: the serialised item goes to the device at its position.\<close>

definition sender_put :: "bytes \<Rightarrow> protocol_sender \<Rightarrow> protocol_sender" where
  "sender_put bs s =
     s\<lparr>ps_msg := (ps_msg s)\<lparr>mi_data_device := map_option (dev_write bs) (mi_data_device (ps_msg s))\<rparr>\<rparr>"

definition sender_release :: "protocol_sender \<Rightarrow> protocol_sender" where
  "sender_release s = s\<lparr>ps_protocol := False\<rparr>"

definition sender_set_fragment_size :: "u32 \<Rightarrow> protocol_sender \<Rightarrow> protocol_sender" where
  "sender_set_fragment_size n s = s\<lparr>ps_msg := set_fragment_size n (ps_msg s)\<rparr>"

definition sender_set_min_compress_size :: "u32 \<Rightarrow> protocol_sender \<Rightarrow> protocol_sender" where
  "sender_set_min_compress_size n s = s\<lparr>ps_msg := set_min_compress_size n (ps_msg s)\<rparr>"

definition sender_set_data_device :: "device option \<Rightarrow> u32 \<Rightarrow> protocol_sender \<Rightarrow> protocol_sender" where
  "sender_set_data_device dev n s =
     (case dev of
        None \<Rightarrow> s
      | Some d \<Rightarrow> s\<lparr>ps_msg := (set_fragment_size n (ps_msg s))\<lparr>mi_data_device := Some d\<rparr>\<rparr>)"

text \<open>\<open>None\<close> is the failed assertion: an answer is not waited for on an answer.\<close>

definition sender_answer :: "time \<Rightarrow> func \<Rightarrow> protocol_sender \<Rightarrow> protocol_sender option" where
  "sender_answer now f s =
     (if mi_answer_id (ps_msg s) \<noteq> None then None
      else Some (s\<lparr>ps_msg := (ps_msg s)\<lparr>mi_answer_func := Some f,
             mi_end_time := (if mi_end_time (ps_msg s) < now then now + seconds 10
                             else mi_end_time (ps_msg s))\<rparr>\<rparr>))"

definition sender_timeout ::
    "time \<Rightarrow> func option \<Rightarrow> time \<Rightarrow> time \<Rightarrow> protocol_sender \<Rightarrow> protocol_sender" where
  "sender_timeout now f duration resend_timeout s =
     s\<lparr>ps_msg := (ps_msg s)\<lparr>mi_timeout_func := f, mi_end_time := now + duration,
        mi_resend_timeout := resend_timeout\<rparr>\<rparr>"

definition sender_finally :: "func \<Rightarrow> protocol_sender \<Rightarrow> protocol_sender" where
  "sender_finally f s = s\<lparr>ps_msg := (ps_msg s)\<lparr>mi_finally_func := Some f\<rparr>\<rparr>"

text \<open>
  The destructor: with a protocol and a device the message is handed over, positioned at the end
  of its data; otherwise it dies with the sender.
\<close>

definition protocol_sender_destroy :: "protocol_sender \<Rightarrow> message_item option \<times> effect list" where
  "protocol_sender_destroy s =
     (case mi_data_device (ps_msg s) of
        Some d \<Rightarrow>
          if ps_protocol s
          then (Some ((ps_msg s)\<lparr>mi_data_device := Some (dev_seek (dev_size d) d)\<rparr>), [])
          else (None, message_item_destroy (ps_msg s))
      | None \<Rightarrow> (None, message_item_destroy (ps_msg s)))"

section \<open>Facts\<close>

lemma set_fragment_size_bounds:
  "32 \<le> mi_fragment_size (set_fragment_size n m)"
  "mi_fragment_size (set_fragment_size n m) \<le> max_packet_data_size"
  by (auto simp: set_fragment_size_def not_less)

lemma set_fragment_size_other [simp]:
  "mi_id (set_fragment_size n m) = mi_id m" "mi_answer_id (set_fragment_size n m) = mi_answer_id m"
  "mi_end_time (set_fragment_size n m) = mi_end_time m" "mi_cmd (set_fragment_size n m) = mi_cmd m"
  "mi_flags (set_fragment_size n m) = mi_flags m"
  "mi_data_device (set_fragment_size n m) = mi_data_device m"
  "mi_answer_func (set_fragment_size n m) = mi_answer_func m"
  "mi_finally_func (set_fragment_size n m) = mi_finally_func m"
  "mi_timeout_func (set_fragment_size n m) = mi_timeout_func m"
  "mi_min_compress_size (set_fragment_size n m) = mi_min_compress_size m"
  "mi_resend_timeout (set_fragment_size n m) = mi_resend_timeout m"
  by (simp_all add: set_fragment_size_def)

text \<open>
  The sender fills its own device from the start: what the device holds at the end is the
  concatenation of the items put into it.
\<close>

lemma sender_puts_device:
  "mi_data_device (ps_msg s) = Some d \<Longrightarrow> dev_pos d = dev_size d \<Longrightarrow>
   mi_data_device (ps_msg (fold sender_put bss s)) =
     Some (d\<lparr>dev_bytes := dev_bytes d @ concat bss, dev_pos := dev_pos d + length (concat bss)\<rparr>)"
proof (induction bss arbitrary: s d)
  case Nil
  then show ?case by simp
next
  case (Cons bs bss)
  let ?d = "dev_write bs d"
  have "mi_data_device (ps_msg (sender_put bs s)) = Some ?d"
    using Cons.prems by (simp add: sender_put_def)
  moreover have "dev_pos ?d = dev_size ?d"
    using Cons.prems by (simp add: dev_write_def dev_size_def)
  ultimately have "mi_data_device (ps_msg (fold sender_put bss (sender_put bs s))) =
     Some (?d\<lparr>dev_bytes := dev_bytes ?d @ concat bss, dev_pos := dev_pos ?d + length (concat bss)\<rparr>)"
    by (rule Cons.IH)
  then show ?case
    using Cons.prems by (simp add: dev_write_def dev_size_def)
qed

end
