(* ===== verification/Net_Protocol.thy ===== *)
theory Net_Protocol
  imports Fragmented_Message Message_Item
begin

unbundle bit_operations_syntax

text \<open>
  \<open>Network/net_protocol.cpp\<close>: the state of one end of a connection and every operation on it.  The
  sending side turns messages into packets and keeps those that wait for an answer or for fragment
  queries; the receiving side finds messages in the byte stream, tracks message numbers, and
  dispatches.  Handlers that may throw return the state reached together with the exception,
  because what was changed before the throw stays changed.  Logging is not modelled.
\<close>

section \<open>Commands and flags (Network/net_protocol.h)\<close>

definition cmd_ping :: u8 where "cmd_ping = 1"
definition cmd_remove_fragment :: u8 where "cmd_remove_fragment = 2"

definition REPEATED :: u8 where "REPEATED = 0x08"
definition FRAGMENT_QUERY :: u8 where "FRAGMENT_QUERY = 0x10"
definition FRAGMENT :: u8 where "FRAGMENT = 0x20"
definition ANSWER :: u8 where "ANSWER = 0x40"
definition COMPRESSED :: u8 where "COMPRESSED = 0x80"

lemmas flag_defs = REPEATED_def FRAGMENT_QUERY_def FRAGMENT_def ANSWER_def COMPRESSED_def
lemmas cmd_defs = cmd_ping_def cmd_remove_fragment_def

definition has_flag :: "u8 \<Rightarrow> u8 \<Rightarrow> bool" where
  "has_flag flags f \<longleftrightarrow> flags AND f \<noteq> 0"

section \<open>State\<close>

text \<open>
  The part of \<open>Protocol_Writer\<close> the protocol reads and writes: when data last arrived, and whether
  \<open>protocol()\<close> yields a protocol to send through.
\<close>

record writer =
  last_msg_recv_time :: time
  w_has_protocol :: bool

record protocol =
  next_rx_msg_id :: u8
  next_tx_msg_id :: u8
  lost_msg_list :: "(u8, time) std_map"
  rx_device :: device
  last_msg_send_time :: time
  fragmented_messages :: "(u8, fragmented_message) std_map"
  waiting_messages :: "(time, message_item) std_map"
  protocol_writer :: "writer option"
  packet_end_position :: "nat list"
  effects :: "effect list"

definition protocol_new :: protocol where
  "protocol_new =
     \<lparr>next_rx_msg_id = 0, next_tx_msg_id = 0, lost_msg_list = [],
      rx_device = dev_reopen new_device, last_msg_send_time = 0, fragmented_messages = [],
      waiting_messages = [], protocol_writer = None, packet_end_position = [], effects = []\<rparr>"

text \<open>
  The surroundings of one call: the reading of the clock, whether a temporary file can be opened,
  and which calls of application code throw.
\<close>

record env =
  now :: time
  file_ok :: bool
  throws :: "effect \<Rightarrow> bool"

definition emit :: "effect \<Rightarrow> protocol \<Rightarrow> protocol" where
  "emit e p = p\<lparr>effects := effects p @ [e]\<rparr>"

definition emit_all :: "effect list \<Rightarrow> protocol \<Rightarrow> protocol" where
  "emit_all es p = p\<lparr>effects := effects p @ es\<rparr>"

definition call_app :: "env \<Rightarrow> effect \<Rightarrow> protocol \<Rightarrow> protocol \<times> exn option" where
  "call_app E e p = (emit e p, if throws E e then Some App_Exception else None)"

definition reset_msg_id :: "protocol \<Rightarrow> protocol" where
  "reset_msg_id p = p\<lparr>next_rx_msg_id := 0, next_tx_msg_id := 0\<rparr>"

definition set_writer :: "writer option \<Rightarrow> protocol \<Rightarrow> protocol" where
  "set_writer w p = p\<lparr>protocol_writer := w\<rparr>"

section \<open>Handing messages to the writer\<close>

definition send_message :: "message_item option \<Rightarrow> protocol \<Rightarrow> protocol" where
  "send_message msg p =
     (case msg of
        None \<Rightarrow> p
      | Some m \<Rightarrow>
          if mi_data_device m \<noteq> None \<and> protocol_writer p \<noteq> None
          then emit (Writer_Write m) p
          else emit_all (message_item_destroy m) p)"

definition writer_has_protocol :: "protocol \<Rightarrow> bool" where
  "writer_has_protocol p =
     (case protocol_writer p of None \<Rightarrow> False | Some w \<Rightarrow> w_has_protocol w)"

text \<open>\<open>send(cmd)\<close> and \<open>send_answer(cmd, msg_id)\<close>\<close>

definition send :: "u8 \<Rightarrow> protocol \<Rightarrow> protocol_sender" where
  "send cmd p = protocol_sender_new (writer_has_protocol p) cmd None None (milliseconds 3000)"

definition send_answer :: "u8 \<Rightarrow> u8 option \<Rightarrow> protocol \<Rightarrow> protocol_sender" where
  "send_answer cmd msg_id p =
     protocol_sender_new (writer_has_protocol p) cmd msg_id None (milliseconds 3000)"

text \<open>A sender goes out of scope.\<close>

definition finish_sender :: "protocol_sender \<Rightarrow> protocol \<Rightarrow> protocol" where
  "finish_sender s p =
     (case protocol_sender_destroy s of (m, es) \<Rightarrow> emit_all es (send_message m p))"

definition send_byte :: "u8 \<Rightarrow> u8 \<Rightarrow> protocol \<Rightarrow> protocol" where
  "send_byte cmd b p = finish_sender (sender_put [b] (send cmd p)) p"

definition send_array :: "qt \<Rightarrow> u8 \<Rightarrow> bytes \<Rightarrow> protocol \<Rightarrow> protocol" where
  "send_array Q cmd buff p = finish_sender (sender_put (put_array Q buff) (send cmd p)) p"

text \<open>The query for a part of a fragmented message.\<close>

definition fragment_query_sender :: "qt \<Rightarrow> u8 \<Rightarrow> u8 \<Rightarrow> u32 \<Rightarrow> u32 \<Rightarrow> protocol \<Rightarrow> protocol_sender" where
  "fragment_query_sender Q cmd msg_id pos n p =
     (let s = send cmd p;
          s1 = s\<lparr>ps_msg := set_flags (mi_flags (ps_msg s) OR FRAGMENT_QUERY) (ps_msg s)\<rparr>
      in sender_put (put32 Q n) (sender_put (put32 Q pos) (sender_put [msg_id] s1)))"

section \<open>The waiting list\<close>

text \<open>The first element, in key order, that satisfies the predicate is taken out.\<close>

fun pop_first :: "('v \<Rightarrow> bool) \<Rightarrow> ('k, 'v) std_map \<Rightarrow> 'v option \<times> ('k, 'v) std_map" where
  "pop_first P [] = (None, [])"
| "pop_first P ((k, v) # m) =
     (if P v then (Some v, m)
      else (case pop_first P m of (r, m') \<Rightarrow> (r, (k, v) # m')))"

definition pop_waiting_message ::
    "(message_item \<Rightarrow> bool) \<Rightarrow> protocol \<Rightarrow> message_item option \<times> protocol" where
  "pop_waiting_message P p =
     (case pop_first P (waiting_messages p) of (r, w) \<Rightarrow> (r, p\<lparr>waiting_messages := w\<rparr>))"

definition pop_waiting_answer :: "u8 \<Rightarrow> u8 \<Rightarrow> protocol \<Rightarrow> message_item option \<times> protocol" where
  "pop_waiting_answer answer_id cmd =
     pop_waiting_message (\<lambda>i. id_or_zero i = answer_id \<and> mi_cmd i = cmd)"

definition pop_waiting_fragment :: "u8 \<Rightarrow> protocol \<Rightarrow> message_item option \<times> protocol" where
  "pop_waiting_fragment fid = pop_waiting_message (\<lambda>i. id_or_zero i = fid)"

definition drop_message :: "message_item option \<Rightarrow> protocol \<Rightarrow> protocol" where
  "drop_message m p =
     (case m of None \<Rightarrow> p | Some i \<Rightarrow> emit_all (message_item_destroy i) p)"

text \<open>
  \<open>add_to_waiting\<close> replaces an entry with the same message number; the entry is refused when its
  time point is taken, which the second result reports.
\<close>

definition add_to_waiting :: "time \<Rightarrow> message_item \<Rightarrow> protocol \<Rightarrow> protocol \<times> bool" where
  "add_to_waiting t m p =
     (case pop_waiting_message (\<lambda>i. id_or_zero i = id_or_zero m) p of
        (old, p1) \<Rightarrow>
          let p2 = drop_message old p1
          in (p2\<lparr>waiting_messages := map_emplace t m (waiting_messages p2)\<rparr>,
              map_find (waiting_messages p2) t \<noteq> None))"

definition pop_waiting_messages :: "time \<Rightarrow> protocol \<Rightarrow> message_item list \<times> protocol" where
  "pop_waiting_messages t p =
     (let due = (\<lambda>e. fst e \<le> t + milliseconds 20)
      in (map snd (takeWhile due (waiting_messages p)),
          p\<lparr>waiting_messages := dropWhile due (waiting_messages p)\<rparr>))"

section \<open>Sending: prepare_packet_to_send\<close>

text \<open>
  \<open>add_raw_data_to_packet\<close>: the bytes of the device from \<open>pos\<close> on, at most
  \<open>max_data_size\<close> of them, are appended; the device is left behind them. Bytes that a short
  read does not deliver are not initialised in the code and zero here.
\<close>

definition add_raw_data_to_packet ::
    "bytes \<Rightarrow> u32 \<Rightarrow> u32 \<Rightarrow> device \<Rightarrow> bytes \<times> device" where
  "add_raw_data_to_packet data pos max_data_size dev =
     (let raw_size = min max_data_size (of_int (int (dev_size dev) - uint pos));
          (raw, dev') = dev_read (unat raw_size) (dev_seek (unat pos) dev)
      in (data @ zero_fill (unat raw_size) raw, dev'))"

text \<open>
  The payload before compression, the flags it sets and the message it leaves: an answer number,
  then for a message larger than its fragment size the fragment header and either the fragment at
  the device's position or, at the end of the device, the fragment size alone.
\<close>

definition packet_payload :: "qt \<Rightarrow> time \<Rightarrow> message_item \<Rightarrow> device \<Rightarrow> u8 \<times> bytes \<times> message_item" where
  "packet_payload Q t m dev =
     (let fs = mi_fragment_size m;
          big = dev_size dev > unat fs;
          (flags1, data1) =
            (case mi_answer_id m of
               None \<Rightarrow> (mi_flags m, [])
             | Some a \<Rightarrow> (mi_flags m OR ANSWER, [a]))
      in if big then
           (let data2 = data1 @ put32 Q (of_nat (dev_size dev)) @ put32 Q (of_nat (dev_pos dev));
                (data3, dev') =
                  (if dev_at_end dev then (data2 @ put32 Q fs, dev)
                   else add_raw_data_to_packet data2 (of_nat (dev_pos dev)) fs dev)
            in (flags1 OR FRAGMENT, data3,
                m\<lparr>mi_data_device := Some dev', mi_end_time := t + seconds 10\<rparr>))
         else
           (let (data2, dev') = add_raw_data_to_packet data1 0 fs dev
            in (flags1, data2, m\<lparr>mi_data_device := Some dev'\<rparr>)))"

text \<open>
  The packet: a header of checksum, number, command and flags, and the payload as a byte array;
  the checksum over the seven bytes that follow it is written over the zero put there first.
\<close>

definition packet_bytes :: "qt \<Rightarrow> u8 \<Rightarrow> u8 \<Rightarrow> u8 \<Rightarrow> bytes \<Rightarrow> bytes" where
  "packet_bytes Q i cmd flags data =
     (let packet = put16 Q 0 @ [i, cmd, flags] @ put_array Q data
      in put16 Q (checksum Q (take 7 (drop 2 packet))) @ drop 2 packet)"

text \<open>
  \<open>t1\<close> and \<open>t2\<close> are the two readings of the clock.  The result is the packet and the new state; a
  message with an end time in the future goes to the waiting list, any other one is the caller's to
  release.
\<close>

definition prepare_packet_to_send ::
    "qt \<Rightarrow> time \<Rightarrow> time \<Rightarrow> message_item option \<Rightarrow> protocol \<Rightarrow> bytes \<times> protocol" where
  "prepare_packet_to_send Q t1 t2 msg p =
     (case msg of
        None \<Rightarrow> ([], p)
      | Some m \<Rightarrow>
          (case mi_data_device m of
             None \<Rightarrow> ([], p)
           | Some dev \<Rightarrow>
               let (flags1, data1, m1) = packet_payload Q t1 m dev;
                   (flags, data) =
                     (if unat (mi_min_compress_size m) < unat (of_nat (length data1) :: u32)
                      then (flags1 OR COMPRESSED, compress Q data1) else (flags1, data1));
                   (i, p1) =
                     (case mi_id m of
                        Some i \<Rightarrow> (i, p)
                      | None \<Rightarrow> (next_tx_msg_id p, p\<lparr>next_tx_msg_id := next_tx_msg_id p + 1\<rparr>));
                   m2 = m1\<lparr>mi_id := Some i\<rparr>;
                   packet = packet_bytes Q i (mi_cmd m) flags data;
                   p2 = p1\<lparr>last_msg_send_time := t2\<rparr>
               in if mi_end_time m2 > t2 then
                    (let t = (if mi_resend_timeout m2 < mi_end_time m2 - t2
                              then t2 + mi_resend_timeout m2 else mi_end_time m2);
                         (p3, refused) = add_to_waiting t m2 p2;
                         p4 = (if refused then drop_message (Some m2) p3 else p3);
                         p5 = (if protocol_writer p4 \<noteq> None
                               then emit (Writer_Add_Timeout t 0) p4 else p4)
                     in (packet, p5))
                  else (packet, p2)))"

section \<open>Receiving: message numbers\<close>

definition is_lost_message :: "time \<Rightarrow> u8 \<Rightarrow> protocol \<Rightarrow> bool \<times> protocol" where
  "is_lost_message t msg_id p =
     (case map_find (lost_msg_list p) msg_id of
        None \<Rightarrow> (False, p)
      | Some tp \<Rightarrow>
          (t - tp < seconds 10, p\<lparr>lost_msg_list := map_erase msg_id (lost_msg_list p)\<rparr>))"

text \<open>The entries that \<open>fill_lost_msg\<close> gives up: too old, or outside the window of numbers.\<close>

definition lost_is_stale :: "time \<Rightarrow> u8 \<Rightarrow> u8 \<times> time \<Rightarrow> bool" where
  "lost_is_stale t msg_id e =
     (case e of (k, tp) \<Rightarrow>
        t - seconds 10 > tp \<or>
        (255 + unat (msg_id - 100) > 255 + unat k \<and> 255 + unat k > 255 + unat msg_id))"

text \<open>\<open>while (msg_id != next_rx_msg_id_) lost_msg_list_.emplace(next_rx_msg_id_++, now)\<close>\<close>

function emplace_lost :: "time \<Rightarrow> u8 \<Rightarrow> u8 \<Rightarrow> (u8, time) std_map \<Rightarrow> (u8, time) std_map" where
  "emplace_lost t msg_id k m =
     (if msg_id = k then m else emplace_lost t msg_id (k + 1) (map_emplace k t m))"
  by pat_completeness auto
termination
proof (relation "measure (\<lambda>(t, msg_id, k, m). unat (msg_id - k))")
  fix msg_id k :: u8
  assume "msg_id \<noteq> k"
  then have "0 < unat (msg_id - k)"
    by (simp add: unat_gt_0)
  moreover have "msg_id - (k + 1) = (msg_id - k) - 1" by simp
  ultimately have "unat (msg_id - (k + 1)) < unat (msg_id - k)"
    by (metis measure_unat unat_gt_0)
  then show "((t, msg_id, k + 1, map_emplace k t m), t, msg_id, k, m)
      \<in> measure (\<lambda>(t, msg_id, k, m). unat (msg_id - k))" for t :: time and m :: "(u8, time) std_map"
    by simp
qed simp

declare emplace_lost.simps [simp del]

definition fill_lost_msg :: "time \<Rightarrow> u8 \<Rightarrow> protocol \<Rightarrow> protocol" where
  "fill_lost_msg t msg_id p =
     (let stale = filter (lost_is_stale t msg_id) (lost_msg_list p);
          kept = filter (\<lambda>e. \<not> lost_is_stale t msg_id e) (lost_msg_list p);
          fragments = filter (\<lambda>(k, _). k \<notin> fst ` set stale) (fragmented_messages p);
          start = (if unat msg_id > unat (next_rx_msg_id p) + 100 then msg_id - 100
                   else next_rx_msg_id p)
      in p\<lparr>lost_msg_list := emplace_lost t msg_id start kept,
           fragmented_messages := fragments,
           next_rx_msg_id := msg_id\<rparr>)"

text \<open>
  The first part of \<open>internal_process_message\<close>.  The second result is false for a repeated message
  that is not expected any more, which is dropped.
\<close>

definition track_msg_id :: "env \<Rightarrow> u8 \<Rightarrow> u8 \<Rightarrow> protocol \<Rightarrow> protocol \<times> bool \<times> exn option" where
  "track_msg_id E msg_id flags p =
     (if has_flag flags REPEATED \<or>
         (msg_id < next_rx_msg_id p \<and> unat (next_rx_msg_id p) - unat msg_id < 100)
      then (case is_lost_message (now E) msg_id p of
              (found, p1) \<Rightarrow> (p1, found \<or> \<not> has_flag flags REPEATED, None))
      else
        (let (p1, ex) =
           (if msg_id > next_rx_msg_id p \<or> unat (next_rx_msg_id p) - unat msg_id > 100
            then (case call_app E (Lost_Msg_Detected msg_id (next_rx_msg_id p)) p of
                    (p', Some e) \<Rightarrow> (p', Some e)
                  | (p', None) \<Rightarrow> (fill_lost_msg (now E) msg_id p', None))
            else (p, None))
         in case ex of
              Some e \<Rightarrow> (p1, True, Some e)
            | None \<Rightarrow>
                (if unat msg_id + 1 \<ge> unat (next_rx_msg_id p1) + 1
                 then p1\<lparr>next_rx_msg_id := msg_id + 1\<rparr> else p1, True, None)))"

section \<open>Receiving: answers and fragments\<close>

text \<open>
  A waiting message meets its answer: its callback runs and is cleared, then the message dies.  When
  the callback throws it is not cleared, and the message dies during the unwinding.
\<close>

definition run_answer_func :: "env \<Rightarrow> message_item \<Rightarrow> func \<Rightarrow> bytes \<Rightarrow> protocol \<Rightarrow> protocol \<times> exn option" where
  "run_answer_func E m f data p =
     (case call_app E (Answer_Func f data) p of
        (p1, Some e) \<Rightarrow> (drop_message (Some m) p1, Some e)
      | (p1, None) \<Rightarrow> (drop_message (Some (m\<lparr>mi_answer_func := None\<rparr>)) p1, None))"

definition process_fragment_query :: "qt \<Rightarrow> u8 \<Rightarrow> u32 \<Rightarrow> u32 \<Rightarrow> protocol \<Rightarrow> protocol" where
  "process_fragment_query Q fid pos fragment_size p =
     (case pop_waiting_fragment fid p of
        (msg, p1) \<Rightarrow>
          let refuse = (\<lambda>p. finish_sender (sender_put [fid] (send cmd_remove_fragment p)) p)
          in case msg of
               None \<Rightarrow> refuse p1
             | Some m \<Rightarrow>
                 (case mi_data_device m of
                    Some d \<Rightarrow>
                      if unat pos < dev_size d then
                        send_message (Some ((set_fragment_size fragment_size m)
                          \<lparr>mi_data_device := Some (dev_seek (unat pos) d)\<rparr>)) p1
                      else if mi_answer_func m \<noteq> None then
                        (case add_to_waiting (mi_end_time m) m p1 of
                           (p2, refused) \<Rightarrow>
                             if refused then drop_message (Some m) (refuse p2) else refuse p2)
                      else drop_message (Some m) (refuse p1)
                  | None \<Rightarrow>
                      if mi_answer_func m \<noteq> None then
                        (case add_to_waiting (mi_end_time m) m p1 of
                           (p2, refused) \<Rightarrow>
                             if refused then drop_message (Some m) (refuse p2) else refuse p2)
                      else drop_message (Some m) (refuse p1)))"

text \<open>\<open>open\<close> fails on a file that is open already and on one the system refuses; a buffer can always be opened.\<close>

definition fragment_opens :: "env \<Rightarrow> fragmented_message \<Rightarrow> bool" where
  "fragment_opens E m \<longleftrightarrow> (fm_on_disk m \<longrightarrow> \<not> dev_open (fm_device m) \<and> file_ok E)"

text \<open>A fragmented message is complete: it is delivered, then forgotten.\<close>

definition deliver_fragmented ::
    "env \<Rightarrow> u8 \<Rightarrow> u8 \<Rightarrow> u8 option \<Rightarrow> bytes \<Rightarrow> protocol \<Rightarrow> protocol \<times> exn option" where
  "deliver_fragmented E msg_id cmd answer_id data p =
     (let (p1, ex) =
        (case answer_id of
           None \<Rightarrow> call_app E (Process_Message msg_id cmd data) p
         | Some a \<Rightarrow>
             (case pop_waiting_answer a cmd p of
                (Some w, p') \<Rightarrow>
                  (case mi_answer_func w of
                     Some f \<Rightarrow> run_answer_func E w f data p'
                   | None \<Rightarrow>
                       (case call_app E (Process_Answer_Message msg_id cmd data) p' of
                          (p'', e) \<Rightarrow> (drop_message (Some w) p'', e)))
              | (None, p') \<Rightarrow> call_app E (Process_Answer_Message msg_id cmd data) p'))
      in case ex of
           Some e \<Rightarrow> (p1, Some e)
         | None \<Rightarrow> (p1\<lparr>fragmented_messages := map_erase msg_id (fragmented_messages p1)\<rparr>, None))"

text \<open>The size of the fragments grows by a fifth with every fragment that arrives, up to the limit.\<close>

definition grow_fragment_size :: "u32 \<Rightarrow> u32" where
  "grow_fragment_size n =
     (if n < max_message_data_size
      then (if n + n div 5 > max_message_data_size then max_message_data_size else n + n div 5)
      else n)"

definition request_next_part ::
    "qt \<Rightarrow> env \<Rightarrow> u8 \<Rightarrow> u8 \<Rightarrow> fragmented_message \<Rightarrow> protocol \<Rightarrow> protocol" where
  "request_next_part Q E msg_id cmd m p =
     (let m1 = m\<lparr>fm_device := dev_close (fm_device m), last_part_time := now E,
                 max_fragment_size := grow_fragment_size (max_fragment_size m)\<rparr>;
          (pos, n) = get_next_part m1;
          p1 = p\<lparr>lost_msg_list := map_set msg_id (now E) (map_emplace msg_id (now E) (lost_msg_list p)),
                 fragmented_messages := map_set msg_id m1 (fragmented_messages p)\<rparr>;
          p2 = (if protocol_writer p1 \<noteq> None
                then emit (Writer_Add_Timeout (now E + milliseconds 1505) (int (unat FRAGMENT))) p1
                else p1)
      in finish_sender (fragment_query_sender Q cmd msg_id pos n p1) p2)"

text \<open>A part of a message whose table entry is open: stored, then the message is complete or not.\<close>

definition store_fragment ::
    "qt \<Rightarrow> env \<Rightarrow> u8 \<Rightarrow> u8 \<Rightarrow> u8 option \<Rightarrow> u32 \<Rightarrow> u32 \<Rightarrow> bytes \<Rightarrow> fragmented_message \<Rightarrow> protocol
     \<Rightarrow> protocol \<times> exn option" where
  "store_fragment Q E msg_id cmd answer_id full_size pos data m p1 =
     (let m1 = m\<lparr>fm_device := dev_reopen (fm_device m)\<rparr>;
          m2 = (if data = [] then m1 else add_data pos data m1)
      in if is_parts_empty m2 then
           (let m3 = m2\<lparr>fm_device := dev_seek 0 (fm_device m2)\<rparr>;
                p2 = p1\<lparr>fragmented_messages := map_set msg_id m3 (fragmented_messages p1)\<rparr>;
                out = fragment_query_sender Q cmd msg_id full_size (max_fragment_size m2) p2;
                (p3, ex) = deliver_fragmented E msg_id cmd answer_id (dev_bytes (fm_device m3)) p2
            in (finish_sender out p3, ex))
         else (request_next_part Q E msg_id cmd m2 p1, None))"

text \<open>A parsed fragment: the size limit, the table entry, which is made for a new message, its device.\<close>

definition accept_fragment ::
    "qt \<Rightarrow> env \<Rightarrow> u8 \<Rightarrow> u8 \<Rightarrow> u8 option \<Rightarrow> u32 \<Rightarrow> u32 \<Rightarrow> u32 \<Rightarrow> bytes \<Rightarrow> protocol
     \<Rightarrow> protocol \<times> exn option" where
  "accept_fragment Q E msg_id cmd answer_id full_size pos max_size data p =
     (if full_size \<ge> protocol_max_message_size then
        (p\<lparr>fragmented_messages := map_erase msg_id (fragmented_messages p)\<rparr>, None)
      else
        (let p1 =
           (if map_find (fragmented_messages p) msg_id = None then
              p\<lparr>fragmented_messages := map_emplace msg_id
                 (fragmented_message_new msg_id cmd
                    (if max_size = 0 \<or> max_size > max_packet_data_size
                     then max_message_data_size else max_size) full_size)
                 (fragmented_messages p)\<rparr>
            else p)
         in case map_find (fragmented_messages p1) msg_id of
              None \<Rightarrow> (p1, None)
            | Some m \<Rightarrow>
                if \<not> fragment_opens E m then
                  (p1\<lparr>fragmented_messages := map_erase msg_id (fragmented_messages p1)\<rparr>, None)
                else store_fragment Q E msg_id cmd answer_id full_size pos data m p1))"

text \<open>
  The branch for the flag \<open>FRAGMENT\<close>; \<open>rest\<close> is what the stream holds after the answer number.
\<close>

definition process_fragment ::
    "qt \<Rightarrow> env \<Rightarrow> u8 \<Rightarrow> u8 \<Rightarrow> u8 option \<Rightarrow> bytes \<Rightarrow> protocol \<Rightarrow> protocol \<times> exn option" where
  "process_fragment Q E msg_id cmd answer_id rest p =
     (case parse_out Q [T32, T32] rest of
        Inr ([F32 full_size, F32 pos], rest1) \<Rightarrow>
          (case (if full_size = pos then parse_out Q [T32] rest1 else Inr ([F32 0], rest1)) of
             Inr ([F32 max_size], data) \<Rightarrow>
               accept_fragment Q E msg_id cmd answer_id full_size pos max_size data p
           | _ \<Rightarrow> (p, Some Parse_Failed))
      | _ \<Rightarrow> (p, Some Parse_Failed))"

section \<open>Receiving: dispatch\<close>

definition process_answer :: "env \<Rightarrow> u8 \<Rightarrow> u8 \<Rightarrow> bytes \<Rightarrow> protocol \<Rightarrow> protocol \<times> exn option" where
  "process_answer E answer_id cmd data p =
     (case pop_waiting_answer answer_id cmd p of
        (None, p1) \<Rightarrow> (p1, None)
      | (Some m, p1) \<Rightarrow>
          (case mi_answer_func m of
             Some f \<Rightarrow> run_answer_func E m f (drop 1 data) p1
           | None \<Rightarrow> (drop_message (Some m) p1, None)))"

text \<open>The dispatch on command and flags, on the uncompressed data.\<close>

definition dispatch :: "qt \<Rightarrow> env \<Rightarrow> u8 \<Rightarrow> u8 \<Rightarrow> u8 \<Rightarrow> bytes \<Rightarrow> protocol \<Rightarrow> protocol \<times> exn option" where
  "dispatch Q E msg_id cmd flags data p =
     (if cmd = cmd_remove_fragment then
        (case parse_out Q [T8] data of
           Inr ([F8 fid], _) \<Rightarrow>
             (p\<lparr>fragmented_messages := map_erase fid (fragmented_messages p)\<rparr>, None)
         | _ \<Rightarrow> (p, Some Parse_Failed))
      else if has_flag flags FRAGMENT_QUERY then
        (case parse_out Q [T8, T32, T32] data of
           Inr ([F8 fid, F32 pos, F32 n], _) \<Rightarrow> (process_fragment_query Q fid pos n p, None)
         | _ \<Rightarrow> (p, Some Parse_Failed))
      else if has_flag flags (FRAGMENT OR ANSWER) then
        (if has_flag flags ANSWER then
           (case parse_out Q [T8] data of
              Inr ([F8 a], rest) \<Rightarrow>
                if has_flag flags FRAGMENT then process_fragment Q E msg_id cmd (Some a) rest p
                else process_answer E a cmd data p
            | _ \<Rightarrow> (p, Some Parse_Failed))
         else process_fragment Q E msg_id cmd None data p)
      else if cmd = cmd_ping then
        (finish_sender (send_answer cmd (Some msg_id) p) p, None)
      else call_app E (Process_Message msg_id cmd data) p)"

definition internal_process_message ::
    "qt \<Rightarrow> env \<Rightarrow> u8 \<Rightarrow> u8 \<Rightarrow> u8 \<Rightarrow> bytes \<Rightarrow> protocol \<Rightarrow> protocol \<times> exn option" where
  "internal_process_message Q E msg_id cmd flags data p =
     (case track_msg_id E msg_id flags p of
        (p1, _, Some e) \<Rightarrow> (p1, Some e)
      | (p1, False, None) \<Rightarrow> (p1, None)
      | (p1, True, None) \<Rightarrow>
          if data = [] \<and> has_flag flags (COMPRESSED OR FRAGMENT) then (p1, None)
          else if has_flag flags COMPRESSED then
            (let u = uncompress Q data
             in if u = [] then (p1, Some Uncompress_Failed)
                else dispatch Q E msg_id cmd flags u p1)
          else dispatch Q E msg_id cmd flags data p1)"

section \<open>Receiving: the byte stream\<close>

record header =
  h_checksum :: u16
  h_msg_id :: u8
  h_cmd :: u8
  h_flags :: u8
  h_size :: u32

text \<open>The nine header bytes at the front of \<open>bs\<close>.\<close>

definition read_header :: "qt \<Rightarrow> bytes \<Rightarrow> header" where
  "read_header Q bs =
     \<lparr>h_checksum = get16 Q (take 2 bs), h_msg_id = bs ! 2, h_cmd = bs ! 3, h_flags = bs ! 4,
      h_size = get32 Q (take 4 (drop 5 bs))\<rparr>"

text \<open>
  \<open>process_stream\<close> on the buffer \<open>buf\<close> from position \<open>pos\<close>: the new
  state, the position the device is left at, and the returned value. The handlers do not touch the buffer.
\<close>

function process_stream :: "qt \<Rightarrow> env \<Rightarrow> bytes \<Rightarrow> nat \<Rightarrow> protocol \<Rightarrow> protocol \<times> nat \<times> bool" where
  "process_stream Q E buf pos p =
     (if length buf - pos < 9 then (p, pos, True)
      else
        (let bs = drop pos buf;
             h = read_header Q bs;
             n = (if h_size h = 0xffffffff then 0 else h_size h)
         in if n > protocol_max_message_size then (p, length buf, True)
            else if h_checksum h \<noteq> checksum Q (take 7 (drop 2 bs)) then (p, pos, False)
            else if length buf - (pos + 9) < unat n then (p, pos, True)
            else
              (case internal_process_message Q E (h_msg_id h) (h_cmd h) (h_flags h)
                      (take (unat n) (drop (pos + 9) buf)) p of
                 (p1, Some e) \<Rightarrow> (p1, pos + 9, False)
               | (p1, None) \<Rightarrow> process_stream Q E buf (pos + 9 + unat n) p1)))"
  by pat_completeness auto
termination
  by (relation "measure (\<lambda>(Q, E, buf, pos, p). length buf - pos)") auto

declare process_stream.simps [simp del]

text \<open>The sizes of the packets that end at or before \<open>pos\<close> are taken off the queue.\<close>

fun skip_packets :: "nat list \<Rightarrow> nat \<Rightarrow> nat list \<times> nat" where
  "skip_packets [] pos = ([], pos)"
| "skip_packets (q # qs) pos = (if q \<le> pos then skip_packets qs (pos - q) else (q # qs, pos))"

lemma length_skip_packets: "length (fst (skip_packets qs pos)) \<le> length qs"
  by (induction qs pos rule: skip_packets.induct) (auto intro: le_SucI)

datatype undefined_behaviour = Front_Of_Empty_Queue

text \<open>
  The loop of \<open>process_bytes\<close> over the buffer and the queue of packet sizes.  After a failure the
  sizes of processed packets leave the queue and as many bytes as the next packet has are removed
  from the front of the buffer; \<open>front()\<close> of an empty queue is undefined behaviour.
\<close>

function receive_loop ::
    "qt \<Rightarrow> env \<Rightarrow> bytes \<Rightarrow> nat list \<Rightarrow> protocol \<Rightarrow>
     undefined_behaviour + bytes \<times> nat \<times> nat list \<times> protocol" where
  "receive_loop Q E buf qs p =
     (case process_stream Q E buf 0 p of
        (p1, pos, ok) \<Rightarrow>
          if ok \<or> qs = [] then Inr (buf, pos, qs, p1)
          else (case fst (skip_packets qs pos) of
                  [] \<Rightarrow> Inl Front_Of_Empty_Queue
                | q # qs' \<Rightarrow> receive_loop Q E (drop q buf) qs' p1))"
  by pat_completeness auto
termination
proof (relation "measure (\<lambda>(Q, E, buf, qs, p). length qs)")
  fix Q E buf qs p x p1 y pos ok q qs'
  assume "fst (skip_packets qs pos) = q # qs'"
  then show "((Q, E, drop q buf, qs', p1), Q, E, buf, qs, p) \<in> measure (\<lambda>(Q, E, buf, qs, p). length qs)"
    using length_skip_packets [of qs pos] by simp
qed simp

declare receive_loop.simps [simp del]

text \<open>The bookkeeping after the loop: consumed sizes leave the queue, consumed bytes the buffer.\<close>

definition settle_queue :: "nat list \<Rightarrow> nat \<Rightarrow> nat list" where
  "settle_queue qs pos =
     (case skip_packets qs pos of
        ([], _) \<Rightarrow> []
      | (q # qs', rest) \<Rightarrow> (if rest \<noteq> 0 then (q - rest) # qs' else q # qs'))"

definition mark_received :: "time \<Rightarrow> protocol \<Rightarrow> protocol" where
  "mark_received t p =
     p\<lparr>protocol_writer := map_option (last_msg_recv_time_update (\<lambda>_. t)) (protocol_writer p)\<rparr>"

definition process_bytes ::
    "qt \<Rightarrow> env \<Rightarrow> bytes \<Rightarrow> protocol \<Rightarrow> undefined_behaviour + protocol" where
  "process_bytes Q E data p =
     (if data = [] then Inr p
      else
        (let p1 = mark_received (now E) p
         in case receive_loop Q E (dev_bytes (rx_device p1) @ data)
                   (packet_end_position p1 @ [length data]) p1 of
              Inl u \<Rightarrow> Inl u
            | Inr (buf, pos, qs, p2) \<Rightarrow>
                Inr (p2\<lparr>packet_end_position := settle_queue qs pos,
                        rx_device := (rx_device p2)\<lparr>dev_bytes := drop pos buf, dev_pos := 0\<rparr>\<rparr>)))"

section \<open>The wait list\<close>

text \<open>One incomplete message whose last part is older than 1.5 seconds is asked for again.\<close>

definition renew_fragment ::
    "qt \<Rightarrow> time \<Rightarrow> u8 \<times> fragmented_message \<Rightarrow> protocol \<Rightarrow> protocol" where
  "renew_fragment Q t e p =
     (case e of (k, m) \<Rightarrow>
        if \<not> is_parts_empty m \<and> t - last_part_time m \<ge> milliseconds 1500 then
          (let half = max_fragment_size m div 2;
               m1 = m\<lparr>max_fragment_size := (if half < 128 then 128 else half), last_part_time := t\<rparr>;
               (pos, n) = get_next_part m1;
               p1 = p\<lparr>lost_msg_list := map_emplace (fm_id m) t (lost_msg_list p),
                      fragmented_messages := map_set k m1 (fragmented_messages p)\<rparr>;
               p2 = (if protocol_writer p1 \<noteq> None
                     then emit (Writer_Add_Timeout (t + milliseconds 1505) (int (unat FRAGMENT))) p1
                     else p1)
           in finish_sender (fragment_query_sender Q (fm_cmd m) (fm_id m) pos n p1) p2)
        else p)"

text \<open>
  One expired message: it is sent again, marked as repeated and with half the fragment size, or its time is
  up. The second result holds the messages that die when the call ends. The callback for the timeout
  returns; one that throws is not modelled.
\<close>

definition resend_or_timeout ::
    "time \<Rightarrow> message_item \<Rightarrow> protocol \<times> message_item list \<Rightarrow> protocol \<times> message_item list" where
  "resend_or_timeout t m s =
     (case s of (p, dead) \<Rightarrow>
        if mi_end_time m > t \<and> mi_data_device m \<noteq> None then
          (send_message (Some (set_flags (mi_flags m OR REPEATED)
             (set_fragment_size (mi_fragment_size m div 2) m))) p, dead)
        else
          (case mi_timeout_func m of
             None \<Rightarrow> (p, dead @ [m])
           | Some f \<Rightarrow> (emit (Timeout_Func f) p, dead @ [m])))"

text \<open>\<open>t1\<close> is the reading of the clock for the selection, \<open>t2\<close> the one for the decision.\<close>

definition process_wait_list :: "qt \<Rightarrow> time \<Rightarrow> time \<Rightarrow> int \<Rightarrow> protocol \<Rightarrow> protocol" where
  "process_wait_list Q t1 t2 data p =
     (if data = int (unat FRAGMENT) then
        fold (renew_fragment Q t1) (fragmented_messages p) p
      else
        (case pop_waiting_messages t1 p of
           (messages, p1) \<Rightarrow>
             (case fold (resend_or_timeout t2) messages (p1, []) of
                (p2, dead) \<Rightarrow> emit_all (concat (map message_item_destroy dead)) p2)))"

end
