(* ===== verification/Protocol_Stream.thy ===== *)
theory Protocol_Stream
  imports Net_Protocol
begin

text \<open>
  The byte stream of \<open>Network/net_protocol.cpp\<close>: packets written by
  \<open>prepare_packet_to_send\<close> are found again by \<open>process_stream\<close>, however the
  transport cuts the stream; damaged input is dropped; and the two ways in which the resynchronisation of
  \<open>process_bytes\<close> goes wrong.
\<close>

section \<open>One packet\<close>

type_synonym msg = "u8 \<times> u8 \<times> u8 \<times> bytes"

definition encode :: "qt \<Rightarrow> msg \<Rightarrow> bytes" where
  "encode Q m = (case m of (i, cmd, flags, data) \<Rightarrow> packet_bytes Q i cmd flags data)"

definition fits :: "msg \<Rightarrow> bool" where
  "fits m = (case m of (i, cmd, flags, data) \<Rightarrow> length data \<le> 2 ^ 31)"

text \<open>What a sequence of messages does to the protocol, without any byte stream.\<close>

fun process_messages :: "qt \<Rightarrow> env \<Rightarrow> msg list \<Rightarrow> protocol \<Rightarrow> protocol \<times> exn option" where
  "process_messages Q E [] p = (p, None)"
| "process_messages Q E ((i, cmd, flags, data) # ms) p =
     (case internal_process_message Q E i cmd flags data p of
        (p1, Some e) \<Rightarrow> (p1, Some e)
      | (p1, None) \<Rightarrow> process_messages Q E ms p1)"

section \<open>Rules for the loop\<close>

lemma process_stream_short:
  "length buf - pos < 9 \<Longrightarrow> process_stream Q E buf pos p = (p, pos, True)"
  by (subst process_stream.simps) simp

lemma process_stream_step:
  assumes "9 \<le> length bs" and "read_header Q bs = h"
    and "n = (if h_size h = 0xffffffff then 0 else h_size h)"
    and "c = checksum Q (take 7 (drop 2 bs))"
  shows "process_stream Q E bs 0 p =
    (if n > protocol_max_message_size then (p, length bs, True)
     else if h_checksum h \<noteq> c then (p, 0, False)
     else if length bs - 9 < unat n then (p, 0, True)
     else (case internal_process_message Q E (h_msg_id h) (h_cmd h) (h_flags h)
                  (take (unat n) (drop 9 bs)) p of
             (p1, Some e) \<Rightarrow> (p1, 9, False)
           | (p1, None) \<Rightarrow> process_stream Q E bs (9 + unat n) p1))"
  using assms by (subst process_stream.simps) (simp add: Let_def)

text \<open>Only what lies ahead of the position matters.\<close>

lemma process_stream_shift:
  assumes "pos \<le> length buf"
  shows "process_stream Q E buf pos p =
    (case process_stream Q E (drop pos buf) 0 p of (p1, k, ok) \<Rightarrow> (p1, pos + k, ok))"
  using assms
proof (induction "length buf - pos" arbitrary: buf pos p rule: less_induct)
  case less
  show ?case
  proof (cases "length buf - pos < 9")
    case True
    then show ?thesis by (simp add: process_stream_short)
  next
    case False
    define h where "h = read_header Q (drop pos buf)"
    define n where "n = (if h_size h = 0xffffffff then 0 else h_size h)"
    have eq: "process_stream Q E buf (pos + 9 + unat n) p1 =
      (case process_stream Q E (drop pos buf) (9 + unat n) p1 of (p2, k, ok) \<Rightarrow> (p2, pos + k, ok))"
      if "\<not> length buf - (pos + 9) < unat n" for p1
    proof -
      have "process_stream Q E buf (pos + 9 + unat n) p1 =
        (case process_stream Q E (drop (pos + 9 + unat n) buf) 0 p1 of
           (p2, k, ok) \<Rightarrow> (p2, pos + 9 + unat n + k, ok))"
        using that False less.prems by (intro less.hyps) auto
      moreover have "process_stream Q E (drop pos buf) (9 + unat n) p1 =
        (case process_stream Q E (drop (9 + unat n) (drop pos buf)) 0 p1 of
           (p2, k, ok) \<Rightarrow> (p2, 9 + unat n + k, ok))"
      proof (cases "pos = 0")
        case True
        then show ?thesis using calculation that False by (simp split: prod.splits)
      next
        case pos: False
        then show ?thesis using that False less.prems by (intro less.hyps) auto
      qed
      ultimately show ?thesis by (simp add: ac_simps split: prod.splits)
    qed
    have lhs: "process_stream Q E buf pos p =
      (if n > protocol_max_message_size then (p, length buf, True)
       else if h_checksum h \<noteq> checksum Q (take 7 (drop 2 (drop pos buf))) then (p, pos, False)
       else if length buf - (pos + 9) < unat n then (p, pos, True)
       else (case internal_process_message Q E (h_msg_id h) (h_cmd h) (h_flags h)
                    (take (unat n) (drop (pos + 9) buf)) p of
               (p1, Some e) \<Rightarrow> (p1, pos + 9, False)
             | (p1, None) \<Rightarrow> process_stream Q E buf (pos + 9 + unat n) p1))"
      using False by (subst process_stream.simps) (simp add: Let_def h_def n_def)
    show ?thesis
      unfolding lhs
      using False less.prems eq
      by (subst process_stream_step [OF _ h_def [symmetric] n_def refl])
        (auto simp: add.commute split: prod.splits option.splits)
  qed
qed

context qt_documented begin

lemma put_array_parts:
  obtains size where "put_array Q d = put32 Q size @ d"
    and "size = of_nat (length d) \<or> d = [] \<and> size = 0xffffffff"
  using put_array_format [of d] by auto

lemma packet_bytes_parts:
  obtains size where
    "packet_bytes Q i c f d =
       put16 Q (checksum Q ([i, c, f] @ put32 Q size)) @ [i, c, f] @ put32 Q size @ d"
    and "size = of_nat (length d) \<or> d = [] \<and> size = 0xffffffff"
proof -
  obtain size where s: "put_array Q d = put32 Q size @ d"
    "size = of_nat (length d) \<or> d = [] \<and> size = 0xffffffff"
    by (rule put_array_parts)
  have "packet_bytes Q i c f d =
       put16 Q (checksum Q ([i, c, f] @ put32 Q size)) @ [i, c, f] @ put32 Q size @ d"
    by (simp add: packet_bytes_def s put16_length put32_length)
  with s show ?thesis by (intro that)
qed

lemma length_packet_bytes: "length (packet_bytes Q i c f d) = 9 + length d"
  by (rule packet_bytes_parts [of i c f d]) (simp add: put16_length put32_length)

lemma length_encode [simp]: "length (encode Q (i, c, f, d)) = 9 + length d"
  by (simp add: encode_def length_packet_bytes)

lemma encode_not_Nil [simp]: "encode Q m \<noteq> []"
proof -
  obtain i c f d where "m = (i, c, f, d)" by (cases m)
  then have "length (encode Q m) \<noteq> 0" by simp
  then show ?thesis by auto
qed

text \<open>The header of a packet is recognised as soon as it is there.\<close>

lemma packet_header:
  assumes fits: "length d \<le> 2 ^ 31"
    and bs: "take 9 bs = take 9 (packet_bytes Q i c f d)" "9 \<le> length bs"
  obtains h where "read_header Q bs = h" "h_checksum h = checksum Q (take 7 (drop 2 bs))"
    "h_msg_id h = i" "h_cmd h = c" "h_flags h = f"
    "unat (if h_size h = 0xffffffff then 0 else h_size h) = length d"
proof -
  obtain size where pk: "packet_bytes Q i c f d =
       put16 Q (checksum Q ([i, c, f] @ put32 Q size)) @ [i, c, f] @ put32 Q size @ d"
    and size: "size = of_nat (length d) \<or> d = [] \<and> size = 0xffffffff"
    by (rule packet_bytes_parts)
  let ?H = "put16 Q (checksum Q ([i, c, f] @ put32 Q size)) @ [i, c, f] @ put32 Q size"
  have H: "bs = ?H @ drop 9 bs"
    using bs append_take_drop_id [of 9 bs] by (simp add: pk put16_length put32_length)
  have u: "unat (of_nat (length d) :: u32) = length d"
    using fits by (simp add: unat_of_nat)
  have n: "unat (if size = 0xffffffff then 0 else size) = length d"
  proof (cases "d = []")
    case True
    then show ?thesis using size by auto
  next
    case False
    with size have "size = of_nat (length d)" by simp
    moreover have "size \<noteq> 0xffffffff"
    proof
      assume "size = 0xffffffff"
      then have "unat size = 4294967295" by simp
      with \<open>size = of_nat (length d)\<close> u fits show False by simp
    qed
    ultimately show ?thesis using u by simp
  qed
  have h: "read_header Q bs =
      \<lparr>h_checksum = checksum Q ([i, c, f] @ put32 Q size), h_msg_id = i, h_cmd = c, h_flags = f,
       h_size = size\<rparr>"
    by (subst H)
      (simp add: read_header_def put16_length put32_length get16_put16 get32_put32 nth_append)
  have cs: "take 7 (drop 2 bs) = [i, c, f] @ put32 Q size"
    by (subst H) (simp add: put16_length put32_length)
  show ?thesis
    by (rule that [OF h]) (use cs n in \<open>auto split: if_splits\<close>)
qed

text \<open>A complete packet at the front is checked and handled, and the loop goes on behind it.\<close>

lemma process_stream_packet:
  assumes fits: "length d \<le> 2 ^ 31"
  shows "process_stream Q E (packet_bytes Q i c f d @ rest) 0 p =
    (case internal_process_message Q E i c f d p of
       (p1, Some e) \<Rightarrow> (p1, 9, False)
     | (p1, None) \<Rightarrow>
         (case process_stream Q E rest 0 p1 of (p2, k, ok) \<Rightarrow> (p2, 9 + length d + k, ok)))"
proof -
  let ?bs = "packet_bytes Q i c f d @ rest"
  obtain h where h: "read_header Q ?bs = h" "h_checksum h = checksum Q (take 7 (drop 2 ?bs))"
    "h_msg_id h = i" "h_cmd h = c" "h_flags h = f"
    "unat (if h_size h = 0xffffffff then 0 else h_size h) = length d"
    by (rule packet_header [OF fits, of ?bs i c f]) (simp_all add: length_packet_bytes)
  define n where "n = (if h_size h = 0xffffffff then 0 else h_size h)"
  have n: "unat n = length d" using h by (simp add: n_def)
  have max: "\<not> n > protocol_max_message_size"
    using n fits by (simp add: word_le_nat_alt not_less)
  have d: "take (length d) (drop 9 ?bs) = d"
    by (rule packet_bytes_parts [of i c f d]) (simp add: put16_length put32_length)
  have next_packet: "process_stream Q E ?bs (9 + length d) p1 =
      (case process_stream Q E rest 0 p1 of (p2, k, ok) \<Rightarrow> (p2, 9 + length d + k, ok))" for p1
    by (subst process_stream_shift) (simp_all add: length_packet_bytes)
  have len: "9 \<le> length ?bs" "\<not> length ?bs - 9 < length d"
    by (simp_all add: length_packet_bytes)
  show ?thesis
    unfolding process_stream_step [OF len(1) h(1) n_def refl] n d h(3-5) next_packet
    using max len(2) h(2) by simp
qed

text \<open>A packet of which bytes are missing waits at the front.\<close>

lemma process_stream_partial:
  assumes fits: "length d \<le> 2 ^ 31"
    and bs: "packet_bytes Q i c f d = bs @ r" "r \<noteq> []"
  shows "process_stream Q E bs 0 p = (p, 0, True)"
proof (cases "length bs < 9")
  case True
  then show ?thesis by (simp add: process_stream_short)
next
  case False
  then have len: "9 \<le> length bs" by simp
  have "take 9 bs = take 9 (packet_bytes Q i c f d)"
    using len by (simp add: bs(1))
  then obtain h where h: "read_header Q bs = h" "h_checksum h = checksum Q (take 7 (drop 2 bs))"
    "unat (if h_size h = 0xffffffff then 0 else h_size h) = length d"
    using len by (rule packet_header [OF fits])
  define n where "n = (if h_size h = 0xffffffff then 0 else h_size h)"
  have n: "unat n = length d" using h by (simp add: n_def)
  have "length bs + length r = 9 + length d"
    by (metis bs(1) length_append length_packet_bytes)
  then have "length bs - 9 < length d"
    using bs(2) len by (cases r) auto
  moreover have "\<not> n > protocol_max_message_size"
    using n fits by (simp add: word_le_nat_alt not_less)
  ultimately show ?thesis
    unfolding process_stream_step [OF len h(1) n_def refl] n using h(2) by simp
qed

end

section \<open>Handlers and the buffer\<close>

text \<open>
  The handlers neither read nor change the receive buffer and its queue of packet sizes: they
  commute with replacing both.
\<close>

definition put_rx :: "device \<Rightarrow> nat list \<Rightarrow> (time \<Rightarrow> time) \<Rightarrow> protocol \<Rightarrow> protocol" where
  "put_rx d qs u p =
     p\<lparr>rx_device := d, packet_end_position := qs,
       protocol_writer := map_option (last_msg_recv_time_update u) (protocol_writer p)\<rparr>"

named_theorems frame \<open>handlers commute with replacing the receive buffer\<close>

lemma put_rx_fields [simp]:
  "next_rx_msg_id (put_rx d qs u p) = next_rx_msg_id p"
  "lost_msg_list (put_rx d qs u p) = lost_msg_list p"
  "fragmented_messages (put_rx d qs u p) = fragmented_messages p"
  "waiting_messages (put_rx d qs u p) = waiting_messages p"
  "protocol_writer (put_rx d qs u p) =
     map_option (last_msg_recv_time_update u) (protocol_writer p)"
  "writer_has_protocol (put_rx d qs u p) = writer_has_protocol p"
  "effects (put_rx d qs u p) = effects p"
  "rx_device (put_rx d qs u p) = d"
  "packet_end_position (put_rx d qs u p) = qs"
  "put_rx d' qs' u' (put_rx d qs u p) = put_rx d' qs' (u' \<circ> u) p"
  by (simp_all add: put_rx_def writer_has_protocol_def option.map_comp comp_def split: option.splits)

lemma put_rx_same: "put_rx (rx_device p) (packet_end_position p) id p = p"
proof -
  have "last_msg_recv_time_update id = (id :: writer \<Rightarrow> writer)"
    by (rule ext) (simp add: id_def)
  then show ?thesis by (simp add: put_rx_def option.map_id)
qed

lemma mark_received_put_rx:
  "mark_received t p = put_rx (rx_device p) (packet_end_position p) (\<lambda>_. t) p"
  by (simp add: mark_received_def put_rx_def)

lemma put_rx_update [frame]:
  "(put_rx d qs u p)\<lparr>next_rx_msg_id := i\<rparr> = put_rx d qs u (p\<lparr>next_rx_msg_id := i\<rparr>)"
  "(put_rx d qs u p)\<lparr>lost_msg_list := l\<rparr> = put_rx d qs u (p\<lparr>lost_msg_list := l\<rparr>)"
  "(put_rx d qs u p)\<lparr>fragmented_messages := f\<rparr> = put_rx d qs u (p\<lparr>fragmented_messages := f\<rparr>)"
  "(put_rx d qs u p)\<lparr>waiting_messages := w\<rparr> = put_rx d qs u (p\<lparr>waiting_messages := w\<rparr>)"
  "(put_rx d qs u p)\<lparr>effects := es\<rparr> = put_rx d qs u (p\<lparr>effects := es\<rparr>)"
  by (simp_all add: put_rx_def)

lemma send_frame [frame]:
  "emit e (put_rx d qs u p) = put_rx d qs u (emit e p)"
  "emit_all es (put_rx d qs u p) = put_rx d qs u (emit_all es p)"
  "send_message m (put_rx d qs u p) = put_rx d qs u (send_message m p)"
  "drop_message m (put_rx d qs u p) = put_rx d qs u (drop_message m p)"
  "finish_sender s (put_rx d qs u p) = put_rx d qs u (finish_sender s p)"
  "send cmd (put_rx d qs u p) = send cmd p"
  "send_answer cmd a (put_rx d qs u p) = send_answer cmd a p"
  "fragment_query_sender Q cmd i x n (put_rx d qs u p) = fragment_query_sender Q cmd i x n p"
  by (simp_all add: emit_def emit_all_def send_message_def drop_message_def finish_sender_def
      send_def send_answer_def fragment_query_sender_def put_rx_def writer_has_protocol_def
      split: option.splits prod.splits)

abbreviation frame1 :: "device \<Rightarrow> nat list \<Rightarrow> (time \<Rightarrow> time) \<Rightarrow> protocol \<times> 'a \<Rightarrow> protocol \<times> 'a" where
  "frame1 d qs u \<equiv> map_prod (put_rx d qs u) id"

lemma waiting_frame [frame]:
  "call_app E e (put_rx d qs u p) = frame1 d qs u (call_app E e p)"
  "run_answer_func E m f bs (put_rx d qs u p) = frame1 d qs u (run_answer_func E m f bs p)"
  "add_to_waiting t m (put_rx d qs u p) = frame1 d qs u (add_to_waiting t m p)"
  "is_lost_message t i (put_rx d qs u p) = map_prod id (put_rx d qs u) (is_lost_message t i p)"
  "pop_waiting_message P (put_rx d qs u p) = map_prod id (put_rx d qs u) (pop_waiting_message P p)"
  "pop_waiting_answer a c (put_rx d qs u p) = map_prod id (put_rx d qs u) (pop_waiting_answer a c p)"
  "pop_waiting_fragment i (put_rx d qs u p) = map_prod id (put_rx d qs u) (pop_waiting_fragment i p)"
  by (simp_all add: call_app_def run_answer_func_def add_to_waiting_def is_lost_message_def
      pop_waiting_message_def pop_waiting_answer_def pop_waiting_fragment_def frame Let_def
      split: prod.splits option.splits)

lemma track_frame [frame]:
  "fill_lost_msg t i (put_rx d qs u p) = put_rx d qs u (fill_lost_msg t i p)"
  "track_msg_id E i f (put_rx d qs u p) = frame1 d qs u (track_msg_id E i f p)"
proof -
  show fill: "fill_lost_msg t i (put_rx d qs u p) = put_rx d qs u (fill_lost_msg t i p)" for t i p
    by (simp add: fill_lost_msg_def Let_def put_rx_def)
  show "track_msg_id E i f (put_rx d qs u p) = frame1 d qs u (track_msg_id E i f p)"
    by (auto simp: track_msg_id_def call_app_def Let_def frame fill split: prod.splits option.splits)
qed

lemma handler_frame [frame]:
  "process_fragment_query Q i x n (put_rx d qs u p) = put_rx d qs u (process_fragment_query Q i x n p)"
  "deliver_fragmented E i c a bs (put_rx d qs u p) = frame1 d qs u (deliver_fragmented E i c a bs p)"
  "request_next_part Q E i c m (put_rx d qs u p) = put_rx d qs u (request_next_part Q E i c m p)"
  "process_answer E i c bs (put_rx d qs u p) = frame1 d qs u (process_answer E i c bs p)"
  by (auto simp: process_fragment_query_def deliver_fragmented_def request_next_part_def
      process_answer_def Let_def frame split: prod.splits option.splits)

lemma process_fragment_frame [frame]:
  "process_fragment Q E i c a bs (put_rx d qs u p) = frame1 d qs u (process_fragment Q E i c a bs p)"
proof -
  have "store_fragment Q E i c a f x bs m (put_rx d qs u p) =
      frame1 d qs u (store_fragment Q E i c a f x bs m p)" for f x bs m p
    by (simp add: store_fragment_def Let_def frame split: prod.splits)
  then have "accept_fragment Q E i c a f x n bs (put_rx d qs u p) =
      frame1 d qs u (accept_fragment Q E i c a f x n bs p)" for f x n bs
    by (simp add: accept_fragment_def Let_def frame split: option.splits)
  then show ?thesis
    by (simp add: process_fragment_def split: prod.splits sum.splits list.splits field.splits)
qed

lemma internal_process_message_frame [frame]:
  "internal_process_message Q E i c f bs (put_rx d qs u p) =
     frame1 d qs u (internal_process_message Q E i c f bs p)"
proof -
  have "dispatch Q E i c f bs (put_rx d qs u p) = frame1 d qs u (dispatch Q E i c f bs p)" for bs p
    by (auto simp: dispatch_def Let_def frame split: sum.splits list.splits field.splits)
  then show ?thesis
    by (auto simp: internal_process_message_def Let_def frame split: prod.splits option.splits bool.splits)
qed

section \<open>Any cutting of a stream of packets\<close>

text \<open>\<open>r\<close> is what has arrived of the first packet of \<open>ms\<close>, which is not complete.\<close>

definition incomplete :: "qt \<Rightarrow> bytes \<Rightarrow> msg list \<Rightarrow> bool" where
  "incomplete Q r ms \<longleftrightarrow> (case ms of [] \<Rightarrow> r = [] | m # _ \<Rightarrow> length r < length (encode Q m))"

lemma process_messages_append:
  "process_messages Q E (ms1 @ ms2) p =
     (case process_messages Q E ms1 p of
        (p1, Some e) \<Rightarrow> (p1, Some e) | (p1, None) \<Rightarrow> process_messages Q E ms2 p1)"
  by (induction Q E ms1 p rule: process_messages.induct)
    (auto split: prod.splits option.splits)

lemma process_messages_frame [frame]:
  "process_messages Q E ms (put_rx d qs u p) = frame1 d qs u (process_messages Q E ms p)"
  by (induction Q E ms p rule: process_messages.induct)
    (auto simp: frame split: prod.splits option.splits)

context qt_documented begin

lemma process_stream_prefix:
  assumes "bs @ rest = concat (map (encode Q) ms)" "\<forall>m \<in> set ms. fits m"
    and "process_messages Q E ms p = (p', None)"
  shows "\<exists>ms1 ms2 r p1. ms = ms1 @ ms2 \<and> bs = concat (map (encode Q) ms1) @ r \<and>
    r @ rest = concat (map (encode Q) ms2) \<and> incomplete Q r ms2 \<and>
    process_messages Q E ms1 p = (p1, None) \<and> process_messages Q E ms2 p1 = (p', None) \<and>
    process_stream Q E bs 0 p = (p1, length bs - length r, True)"
  using assms
proof (induction ms arbitrary: bs p)
  case Nil
  then show ?case
    by (intro exI [of _ "[]"]) (simp add: incomplete_def process_stream_short)
next
  case (Cons m ms)
  obtain i c f d where m: "m = (i, c, f, d)" by (cases m)
  have fits: "length d \<le> 2 ^ 31" using Cons.prems(2) by (simp add: m fits_def)
  show ?case
  proof (cases "length bs < length (encode Q m)")
    case True
    have "encode Q m = bs @ drop (length bs) (encode Q m)"
      using append_eq_longer [of "encode Q m" "concat (map (encode Q) ms)" bs rest] Cons.prems(1) True
      by simp
    moreover have "drop (length bs) (encode Q m) \<noteq> []" using True by simp
    ultimately have "process_stream Q E bs 0 p = (p, 0, True)"
      using process_stream_partial [OF fits] by (simp add: m encode_def)
    then show ?thesis
      using True Cons.prems
      by (intro exI [of _ "[]"] exI [of _ "m # ms"] exI [of _ bs] exI [of _ p])
        (simp add: incomplete_def)
  next
    case False
    define bs' where "bs' = drop (length (encode Q m)) bs"
    have bs: "bs = encode Q m @ bs'"
      using append_eq_longer [of bs rest "encode Q m" "concat (map (encode Q) ms)"]
        Cons.prems(1) False
      by (simp add: bs'_def)
    obtain p1 where p1: "internal_process_message Q E i c f d p = (p1, None)"
      "process_messages Q E ms p1 = (p', None)"
      using Cons.prems(3) by (auto simp: m split: prod.splits option.splits)
    have "bs' @ rest = concat (map (encode Q) ms)" "\<forall>m \<in> set ms. fits m"
      using Cons.prems bs by auto
    from Cons.IH [OF this p1(2)] obtain ms1 ms2 r p2 where IH:
      "ms = ms1 @ ms2" "bs' = concat (map (encode Q) ms1) @ r"
      "r @ rest = concat (map (encode Q) ms2)" "incomplete Q r ms2"
      "process_messages Q E ms1 p1 = (p2, None)" "process_messages Q E ms2 p2 = (p', None)"
      "process_stream Q E bs' 0 p1 = (p2, length bs' - length r, True)"
      by blast
    have "process_stream Q E bs 0 p = (p2, length bs - length r, True)"
      using process_stream_packet [OF fits, of E i c f bs' p] p1(1) IH(2,7)
      by (simp add: bs encode_def m length_packet_bytes)
    then show ?thesis
      using IH bs p1
      by (intro exI [of _ "m # ms1"] exI [of _ ms2] exI [of _ r] exI [of _ p2]) (simp add: m)
  qed
qed

lemma length_stream: "length (concat (map (encode Q) ms)) = sum_list (map (length \<circ> encode Q) ms)"
  by (simp add: length_concat comp_def)

end

subsection \<open>The queue of packet sizes\<close>

text \<open>While nothing fails, the queue holds the sizes of the pieces the buffer is made of.\<close>

definition queue_ok :: "nat list \<Rightarrow> bytes \<Rightarrow> bool" where
  "queue_ok qs buf \<longleftrightarrow> sum_list qs = length buf \<and> (\<forall>q \<in> set qs. 0 < q)"

lemma skip_packets_sum:
  assumes "skip_packets qs pos = (qs', k)"
  shows "sum_list qs' + pos = sum_list qs + k \<and> set qs' \<subseteq> set qs \<and> (qs' \<noteq> [] \<longrightarrow> k < hd qs')"
  using assms by (induction qs pos rule: skip_packets.induct) (auto split: if_splits)

lemma queue_ok_settle:
  assumes "queue_ok qs buf" "pos \<le> length buf"
  shows "queue_ok (settle_queue qs pos) (drop pos buf)"
proof -
  obtain qs' k where sk: "skip_packets qs pos = (qs', k)" by (cases "skip_packets qs pos")
  note s = skip_packets_sum [OF sk]
  show ?thesis
  proof (cases qs')
    case Nil
    then have "settle_queue qs pos = []" by (simp add: settle_queue_def sk)
    then show ?thesis using assms s Nil by (simp add: queue_ok_def)
  next
    case (Cons q qs1)
    then have "settle_queue qs pos = (q - k) # qs1" by (simp add: settle_queue_def sk)
    then show ?thesis using assms s Cons by (auto simp: queue_ok_def)
  qed
qed

lemma queue_ok_Nil [simp]: "queue_ok qs [] \<longleftrightarrow> qs = []"
  by (cases qs) (auto simp: queue_ok_def)

fun process_chunks :: "qt \<Rightarrow> env \<Rightarrow> bytes list \<Rightarrow> protocol \<Rightarrow> undefined_behaviour + protocol" where
  "process_chunks Q E [] p = Inr p"
| "process_chunks Q E (c # cs) p =
     (case process_bytes Q E c p of Inl u \<Rightarrow> Inl u | Inr p1 \<Rightarrow> process_chunks Q E cs p1)"

context qt_documented begin

lemma process_bytes_prefix:
  assumes "dev_bytes (rx_device p) @ c @ rest = concat (map (encode Q) ms)" "c \<noteq> []"
    and "\<forall>m \<in> set ms. fits m" "process_messages Q E ms p = (p', None)"
    and "queue_ok (packet_end_position p) (dev_bytes (rx_device p))"
  shows "\<exists>ms1 ms2 r p1 d qs. ms = ms1 @ ms2 \<and> r @ rest = concat (map (encode Q) ms2) \<and>
    incomplete Q r ms2 \<and> process_messages Q E ms2 p1 = (p', None) \<and>
    d = (rx_device p)\<lparr>dev_bytes := r, dev_pos := 0\<rparr> \<and> queue_ok qs r \<and>
    process_bytes Q E c p = Inr (put_rx d qs (\<lambda>_. now E) p1)"
proof -
  let ?bs = "dev_bytes (rx_device p) @ c" and ?mark = "put_rx (rx_device p) (packet_end_position p) (\<lambda>_. now E)"
  have pm: "process_messages Q E ms (?mark p) = (?mark p', None)"
    by (simp add: frame assms(4))
  have bs: "?bs @ rest = concat (map (encode Q) ms)" using assms(1) by simp
  from process_stream_prefix [OF bs assms(3) pm]
  obtain ms1 ms2 r p1 where S: "ms = ms1 @ ms2" "?bs = concat (map (encode Q) ms1) @ r"
    "r @ rest = concat (map (encode Q) ms2)" "incomplete Q r ms2"
    "process_messages Q E ms1 (?mark p) = (p1, None)" "process_messages Q E ms2 p1 = (?mark p', None)"
    "process_stream Q E ?bs 0 (?mark p) = (p1, length ?bs - length r, True)"
    by blast
  obtain p2 e where p2: "process_messages Q E ms1 p = (p2, e)" by (cases "process_messages Q E ms1 p")
  with S(5) have p1: "p1 = ?mark p2" "e = None" by (simp_all add: frame)
  have p': "process_messages Q E ms2 p2 = (p', None)"
    using assms(4) p2 p1 S(1) by (simp add: process_messages_append)
  let ?qs = "settle_queue (packet_end_position p @ [length c]) (length ?bs - length r)"
  have r: "drop (length ?bs - length r) ?bs = r"
    by (simp add: S(2))
  have "queue_ok (packet_end_position p @ [length c]) ?bs"
    using assms(2,5) by (simp add: queue_ok_def)
  then have q: "queue_ok ?qs r"
    using queue_ok_settle [of _ ?bs "length ?bs - length r"] r by simp
  have "receive_loop Q E ?bs (packet_end_position p @ [length c]) (?mark p) =
      Inr (?bs, length ?bs - length r, packet_end_position p @ [length c], p1)"
    by (subst receive_loop.simps) (simp add: S(7) del: length_append)
  then have "process_bytes Q E c p =
      Inr (put_rx ((rx_device p)\<lparr>dev_bytes := r, dev_pos := 0\<rparr>) ?qs (\<lambda>_. now E) p2)"
    using assms(2) r
    by (simp add: process_bytes_def mark_received_put_rx p1 put_rx_def del: length_append drop_append)
  with S(1,3,4) p' q show ?thesis by blast
qed

lemma process_chunks_stream:
  assumes "dev_bytes (rx_device p) @ concat cs = concat (map (encode Q) ms)"
    and "incomplete Q (dev_bytes (rx_device p)) ms" "dev_pos (rx_device p) = 0"
    and "\<forall>m \<in> set ms. fits m" "process_messages Q E ms p = (p', None)"
    and "queue_ok (packet_end_position p) (dev_bytes (rx_device p))"
  shows "process_chunks Q E cs p =
    Inr (put_rx ((rx_device p)\<lparr>dev_bytes := [], dev_pos := 0\<rparr>) []
           (if concat cs = [] then id else (\<lambda>_. now E)) p')"
  using assms
proof (induction cs arbitrary: p ms p')
  case Nil
  then have "ms = []"
    by (cases ms) (auto simp: incomplete_def dest: arg_cong [of _ _ length])
  then have buf: "dev_bytes (rx_device p) = []" and p': "p' = p"
    using Nil.prems by simp_all
  then have "packet_end_position p = []" using Nil.prems by simp
  moreover have "(rx_device p)\<lparr>dev_bytes := [], dev_pos := 0\<rparr> = rx_device p"
    using buf Nil.prems(3) by (cases "rx_device p") simp
  ultimately show ?case
    using put_rx_same [of p] by (simp add: p' id_def)
next
  case (Cons c cs)
  show ?case
  proof (cases "c = []")
    case True
    then show ?thesis using Cons.IH [of p ms p'] Cons.prems by (simp add: process_bytes_def)
  next
    case False
    have "dev_bytes (rx_device p) @ c @ concat cs = concat (map (encode Q) ms)"
      using Cons.prems(1) by simp
    from process_bytes_prefix [OF this False Cons.prems(4-6)]
    obtain ms1 ms2 r p1 d qs where S: "ms = ms1 @ ms2" "r @ concat cs = concat (map (encode Q) ms2)"
      "incomplete Q r ms2" "process_messages Q E ms2 p1 = (p', None)"
      "d = (rx_device p)\<lparr>dev_bytes := r, dev_pos := 0\<rparr>" "queue_ok qs r"
      "process_bytes Q E c p = Inr (put_rx d qs (\<lambda>_. now E) p1)"
      by blast
    let ?p = "put_rx d qs (\<lambda>_. now E) p1"
    have "process_messages Q E ms2 ?p = (put_rx d qs (\<lambda>_. now E) p', None)"
      by (simp add: frame S(4))
    with Cons.IH [of ?p ms2] S Cons.prems(4)
    have "process_chunks Q E cs ?p =
        Inr (put_rx (d\<lparr>dev_bytes := [], dev_pos := 0\<rparr>) []
           (if concat cs = [] then id else (\<lambda>_. now E)) (put_rx d qs (\<lambda>_. now E) p'))"
      by simp
    with S(5,7) False show ?thesis by (simp add: comp_def)
  qed
qed

lemma process_stream_messages:
  assumes "\<forall>m \<in> set ms. fits m" "process_messages Q E ms p = (p1, None)"
  shows "process_stream Q E (concat (map (encode Q) ms) @ rest) 0 p =
    (case process_stream Q E rest 0 p1 of
       (p2, k, ok) \<Rightarrow> (p2, length (concat (map (encode Q) ms)) + k, ok))"
  using assms
proof (induction ms arbitrary: p)
  case Nil
  then show ?case by simp
next
  case (Cons m ms)
  obtain i c f d where m: "m = (i, c, f, d)" by (cases m)
  obtain p2 where p2: "internal_process_message Q E i c f d p = (p2, None)"
    "process_messages Q E ms p2 = (p1, None)"
    using Cons.prems(2) by (auto simp: m split: prod.splits option.splits)
  have "length d \<le> 2 ^ 31" using Cons.prems(1) by (simp add: m fits_def)
  from process_stream_packet [OF this, of E i c f "concat (map (encode Q) ms) @ rest" p]
    Cons.IH [OF _ p2(2)] Cons.prems(1) p2(1)
  moreover have "encode Q m = packet_bytes Q i c f d" by (simp add: encode_def m)
  ultimately show ?case by (simp add: length_packet_bytes ac_simps split: prod.splits)
qed

end

text \<open>A damaged header: enough bytes, a plausible size, a checksum that does not match.\<close>

definition damaged :: "qt \<Rightarrow> bytes \<Rightarrow> bool" where
  "damaged Q bs \<longleftrightarrow> 9 \<le> length bs \<and>
     (let h = read_header Q bs
      in (h_size h = 0xffffffff \<or> h_size h \<le> protocol_max_message_size) \<and>
         h_checksum h \<noteq> checksum Q (take 7 (drop 2 bs)))"

lemma damaged_stops:
  assumes "damaged Q bs"
  shows "process_stream Q E bs 0 p = (p, 0, False)"
proof -
  have len: "9 \<le> length bs" using assms by (simp add: damaged_def)
  show ?thesis
    unfolding process_stream_step [OF len refl refl refl]
    using assms by (auto simp: damaged_def Let_def not_less)
qed

lemma damaged_append: "damaged Q bs \<Longrightarrow> damaged Q (bs @ bs')"
  by (auto simp: damaged_def read_header_def Let_def nth_append)

definition clean :: "protocol \<Rightarrow> bool" where
  "clean p \<longleftrightarrow> dev_bytes (rx_device p) = [] \<and> dev_pos (rx_device p) = 0 \<and> packet_end_position p = []"

definition emptied :: "device \<Rightarrow> device" where
  "emptied d = d\<lparr>dev_bytes := [], dev_pos := 0\<rparr>"

section \<open>Properties\<close>

lemma stream_delivered:
  assumes "qt_documented Q" "clean p"
    and "concat cs = concat (map (encode Q) ms)" "\<forall>m \<in> set ms. fits m" "ms \<noteq> []"
    and "process_messages Q E ms p = (p', None)"
  shows "process_chunks Q E cs p = Inr (put_rx (emptied (rx_device p)) [] (\<lambda>_. now E) p')"
proof -
  have "incomplete Q [] ms"
    using assms(5) qt_documented.encode_not_Nil [OF assms(1)]
    by (cases ms) (simp_all add: incomplete_def)
  moreover have "concat cs \<noteq> []"
    using assms(3,5) qt_documented.encode_not_Nil [OF assms(1)] by (cases ms) simp_all
  ultimately show ?thesis
    using qt_documented.process_chunks_stream [OF assms(1), of p cs ms E p'] assms
    by (simp add: clean_def emptied_def) blast
qed

text \<open>
  Property C9.  A stream of packets is handled message by message however the transport cuts it:
  whatever pieces the bytes of the packets of \<open>ms\<close> arrive in, as long as no handler throws the
  protocol ends in the state that handling the messages one after the other gives, with an empty
  buffer and an empty queue of packet sizes, and only the time of the last reception set.
\<close>

theorem stream_cut_anyhow:
  assumes "qt_documented Q" "clean p"
    and "concat cs = concat (map (encode Q) ms)" "\<forall>m \<in> set ms. fits m" "ms \<noteq> []"
    and "process_messages Q E ms p = (p', None)"
  shows "process_chunks Q E cs p = Inr (put_rx (emptied (rx_device p)) [] (\<lambda>_. now E) p')"
  using assms by (rule stream_delivered)

text \<open>
  Property C14.  When nothing is left over from an earlier datagram, a datagram of whole messages, which are
  handled without an exception, that ends in a damaged packet loses only that packet: the messages before it
  are handled, the rest of the datagram is dropped, and the receiver has again nothing left over and is
  ready for the next one. (With something left over it can get out of step:
  \<open>leftover_hides_datagram\<close>.)
\<close>

theorem damaged_tail_dropped:
  assumes "qt_documented Q" "clean p"
    and "\<forall>m \<in> set ms. fits m" "process_messages Q E ms p = (p', None)" "damaged Q bad"
  shows "process_bytes Q E (concat (map (encode Q) ms) @ bad) p =
    Inr (put_rx (emptied (rx_device p)) [] (\<lambda>_. now E) p')"
proof -
  let ?S = "concat (map (encode Q) ms)" and ?mark = "put_rx (rx_device p) [] (\<lambda>_. now E)"
  have bad: "bad \<noteq> []" using assms(5) by (auto simp: damaged_def)
  have pm: "process_messages Q E ms (?mark p) = (?mark p', None)"
    by (simp add: frame assms(4))
  have "process_stream Q E (?S @ bad) 0 (?mark p) = (?mark p', length ?S, False)"
    using qt_documented.process_stream_messages [OF assms(1,3) pm, of bad] damaged_stops [OF assms(5)]
    by simp
  then have "receive_loop Q E (?S @ bad) [length (?S @ bad)] (?mark p) = Inr ([], 0, [], ?mark p')"
    using bad
    by (subst receive_loop.simps, subst receive_loop.simps) (simp add: process_stream_short)
  then show ?thesis
    using assms(2) bad
    by (simp add: process_bytes_def clean_def mark_received_put_rx emptied_def put_rx_def
        settle_queue_def)
qed

text \<open>
  A packet without payload whose handler throws makes \<open>process_bytes\<close> call \<open>front()\<close> on
  an empty queue: the nine header bytes are already consumed when the exception arrives, so the
  packet counts as processed, its size leaves the queue, and nothing is left to drop.
\<close>

theorem throwing_empty_packet_is_undefined:
  assumes "qt_documented Q" "clean p"
    and "internal_process_message Q E i c f [] p = (p', Some e)"
  shows "process_bytes Q E (packet_bytes Q i c f []) p = Inl Front_Of_Empty_Queue"
proof -
  let ?mark = "put_rx (rx_device p) [] (\<lambda>_. now E)" and ?b = "packet_bytes Q i c f []"
  have len: "length ?b = 9" by (simp add: qt_documented.length_packet_bytes [OF assms(1)])
  then have ne: "?b \<noteq> []" by auto
  have "process_stream Q E ?b 0 (?mark p) = (?mark p', 9, False)"
    using qt_documented.process_stream_packet [OF assms(1), of "[]" E i c f "[]" "?mark p"] assms(3)
    by (simp add: frame)
  then have "receive_loop Q E ?b [9] (?mark p) = Inl Front_Of_Empty_Queue"
    by (subst receive_loop.simps) simp
  then show ?thesis
    using assms(2) ne by (simp add: process_bytes_def clean_def mark_received_put_rx len)
qed

text \<open>
  Once the buffer starts with damaged bytes while the queue of sizes is empty, the
  receiver stays out of step: of the buffer and a new datagram, as many bytes as the datagram has are
  removed from the front, so that of a datagram not shorter than the leftover only its last bytes, as
  many as were left over, are ever looked at.
\<close>

theorem leftover_hides_datagram:
  assumes "damaged Q (dev_bytes (rx_device p))" "packet_end_position p = []"
    and "length (dev_bytes (rx_device p)) \<le> length data"
  shows "process_bytes Q E data p =
    (let tail = drop (length data - length (dev_bytes (rx_device p))) data
     in case process_stream Q E tail 0 (mark_received (now E) p) of
          (p1, pos, ok) \<Rightarrow>
            Inr (p1\<lparr>packet_end_position := [],
                    rx_device := (rx_device p1)\<lparr>dev_bytes := drop pos tail, dev_pos := 0\<rparr>\<rparr>))"
proof -
  let ?p = "mark_received (now E) p" and ?j = "dev_bytes (rx_device p)"
  have data: "data \<noteq> []" using assms(1,3) by (auto simp: damaged_def)
  have p: "rx_device ?p = rx_device p" "packet_end_position ?p = []"
    using assms(2) by (simp_all add: mark_received_def)
  have tail: "drop (length data) (?j @ data) = drop (length data - length ?j) data"
    using assms(3) by simp
  have "receive_loop Q E (?j @ data) [length data] ?p =
      receive_loop Q E (drop (length data - length ?j) data) [] ?p"
    using data tail
    by (subst receive_loop.simps) (simp add: damaged_stops [OF damaged_append [OF assms(1)]])
  also have "\<dots> = (case process_stream Q E (drop (length data - length ?j) data) 0 ?p of
      (p1, pos, ok) \<Rightarrow> Inr (drop (length data - length ?j) data, pos, [], p1))"
    by (subst receive_loop.simps) (simp split: prod.splits)
  finally show ?thesis
    using data p
    by (simp add: process_bytes_def settle_queue_def Let_def split: prod.splits)
qed

section \<open>Examples\<close>

definition quiet :: env where
  "quiet = \<lparr>now = 0, file_ok = True, throws = (\<lambda>_. False)\<rparr>"

lemma protocol_new_clean: "clean protocol_new"
  by (simp add: clean_def protocol_new_def new_device_def dev_reopen_def)

lemma qt_sample_documented: "qt_documented qt_sample" ..

lemmas eval_receive =
  internal_process_message_def track_msg_id_def has_flag_def flag_defs cmd_defs dispatch_def
  call_app_def emit_def protocol_new_def quiet_def Let_def

lemmas eval_packet =
  encode_def packet_bytes_def qt_sample_def be16_def be32_def from_be_def

theorem stream_cut_anyhow_witness:
  "process_chunks qt_sample quiet
     [[0, 18], [0, 16, 0, 0, 0, 0], [2, 7, 9, 0, 17, 1, 16], [], [0, 0, 0, 0, 0]] protocol_new =
   Inr (put_rx (emptied (rx_device protocol_new)) [] (\<lambda>_. now quiet)
     (protocol_new\<lparr>next_rx_msg_id := 2,
        effects := [Process_Message 0 16 [7, 9], Process_Message 1 16 []]\<rparr>))"
proof -
  let ?ms = "[(0, 16, 0, [7, 9]), (1, 16, 0, [])]"
  have 1: "concat [[0, 18], [0, 16, 0, 0, 0, 0], [2, 7, 9, 0, 17, 1, 16], [], [0, 0, 0, 0, 0]] =
      concat (map (encode qt_sample) ?ms)"
    by (simp add: eval_packet)
  have 2: "\<forall>m \<in> set ?ms. fits m" by (simp add: fits_def)
  have 3: "process_messages qt_sample quiet ?ms protocol_new =
      (protocol_new\<lparr>next_rx_msg_id := 2,
        effects := [Process_Message 0 16 [7, 9], Process_Message 1 16 []]\<rparr>, None)"
    by (simp add: eval_receive)
  show ?thesis
    by (rule stream_cut_anyhow [OF qt_sample_documented protocol_new_clean 1 2 _ 3]) simp
qed

theorem damaged_tail_dropped_witness:
  "damaged qt_sample [1, 1, 1, 1, 1, 1, 1, 1, 1] \<and>
   process_bytes qt_sample quiet
     (concat (map (encode qt_sample) [(0, 16, 0, [7])]) @ [1, 1, 1, 1, 1, 1, 1, 1, 1]) protocol_new =
   Inr (put_rx (emptied (rx_device protocol_new)) [] (\<lambda>_. now quiet)
     (protocol_new\<lparr>next_rx_msg_id := 1, effects := [Process_Message 0 16 [7]]\<rparr>))"
proof
  show bad: "damaged qt_sample [1, 1, 1, 1, 1, 1, 1, 1, 1]"
    by (simp add: damaged_def read_header_def eval_packet Let_def)
  have "process_messages qt_sample quiet [(0, 16, 0, [7])] protocol_new =
      (protocol_new\<lparr>next_rx_msg_id := 1, effects := [Process_Message 0 16 [7]]\<rparr>, None)"
    by (simp add: eval_receive)
  then show "process_bytes qt_sample quiet
     (concat (map (encode qt_sample) [(0, 16, 0, [7])]) @ [1, 1, 1, 1, 1, 1, 1, 1, 1]) protocol_new =
   Inr (put_rx (emptied (rx_device protocol_new)) [] (\<lambda>_. now quiet)
     (protocol_new\<lparr>next_rx_msg_id := 1, effects := [Process_Message 0 16 [7]]\<rparr>))"
    by (intro damaged_tail_dropped [OF qt_sample_documented protocol_new_clean _ _ bad])
      (simp_all add: fits_def)
qed

text \<open>Command \<open>REMOVE_FRAGMENT\<close> without its argument is such a packet.\<close>

theorem throwing_empty_packet_is_undefined_witness:
  "process_bytes qt_sample quiet (packet_bytes qt_sample 0 cmd_remove_fragment 0 []) protocol_new =
   Inl Front_Of_Empty_Queue"
proof -
  have "internal_process_message qt_sample quiet 0 cmd_remove_fragment 0 [] protocol_new =
      (protocol_new\<lparr>next_rx_msg_id := 1\<rparr>, Some Parse_Failed)"
    by (simp add: eval_receive)
  then show ?thesis
    by (rule throwing_empty_packet_is_undefined [OF qt_sample_documented protocol_new_clean])
qed

text \<open>
  The state of \<open>leftover_hides_datagram\<close> is reached by a message cut in two, the second piece being
  followed by damaged bytes; the intact packet that comes next is lost.
\<close>

theorem leftover_hides_datagram_witness:
  "\<exists>p. process_chunks qt_sample quiet
         [[0, 19, 0, 16, 0, 0, 0, 0, 3, 5, 5], [5] @ [1, 1, 1, 1, 1, 1, 1, 1, 1, 1, 1, 1]]
         protocol_new = Inr p \<and>
       effects p = [Process_Message 0 16 [5, 5, 5]] \<and>
       dev_bytes (rx_device p) = [1, 1, 1, 1, 1, 1, 1, 1, 1, 1, 1] \<and> packet_end_position p = [] \<and>
       process_bytes qt_sample quiet (encode qt_sample (1, 16, 0, [6, 6, 6])) p =
         Inr (p\<lparr>rx_device :=
           (rx_device p)\<lparr>dev_bytes := tl (encode qt_sample (1, 16, 0, [6, 6, 6]))\<rparr>\<rparr>)"
proof -
  let ?j = "[1, 1, 1, 1, 1, 1, 1, 1, 1, 1, 1]"
  define p where "p = protocol_new\<lparr>next_rx_msg_id := 1,
    effects := [Process_Message 0 16 [5, 5, 5]],
    rx_device := (rx_device protocol_new)\<lparr>dev_bytes := ?j\<rparr>\<rparr>"
  have 1: "process_chunks qt_sample quiet
         [[0, 19, 0, 16, 0, 0, 0, 0, 3, 5, 5], [5] @ [1, 1, 1, 1, 1, 1, 1, 1, 1, 1, 1, 1]]
         protocol_new = Inr p"
    by (simp add: p_def process_bytes_def mark_received_def receive_loop.simps process_stream.simps
      read_header_def settle_queue_def eval_packet eval_receive new_device_def dev_reopen_def)
  have dam: "damaged qt_sample ?j"
    by (simp add: damaged_def read_header_def eval_packet Let_def)
  have "process_stream qt_sample quiet (tl (encode qt_sample (1, 16, 0, [6, 6, 6]))) 0 p = (p, 0, False)"
    by (rule damaged_stops) (simp add: damaged_def read_header_def eval_packet Let_def)
  with leftover_hides_datagram [of qt_sample p "encode qt_sample (1, 16, 0, [6, 6, 6])" quiet] dam
  have "process_bytes qt_sample quiet (encode qt_sample (1, 16, 0, [6, 6, 6])) p =
      Inr (p\<lparr>rx_device :=
        (rx_device p)\<lparr>dev_bytes := tl (encode qt_sample (1, 16, 0, [6, 6, 6]))\<rparr>\<rparr>)"
    by (simp add: p_def protocol_new_def mark_received_def qt_sample.length_encode new_device_def
        dev_reopen_def drop_Suc)
  with 1 show ?thesis by (auto simp: p_def protocol_new_def)
qed

end
