(* ===== verification/Protocol_Numbers.thy ===== *)
theory Protocol_Numbers
  imports Protocol_Stream
begin

text \<open>
  Message numbers of \<open>Network/net_protocol.cpp\<close> (\<open>is_lost_message\<close>,
  \<open>fill_lost_msg\<close>, the first part of \<open>internal_process_message\<close>): numbers in
  order, gaps, messages sent again, and what a late packet does across the wrap-around of the eight-bit
  number.
\<close>

section \<open>The numbers a gap leaves behind\<close>

text \<open>\<open>j\<close> is met when counting up from \<open>k\<close> before \<open>msg_id\<close> is.\<close>

definition skipped :: "u8 \<Rightarrow> u8 \<Rightarrow> u8 \<Rightarrow> bool" where
  "skipped k msg_id j \<longleftrightarrow> unat (j - k) < unat (msg_id - k)"

lemma skipped_same [simp]: "\<not> skipped k k j"
  by (simp add: skipped_def)

lemma skipped_step:
  assumes "msg_id \<noteq> k"
  shows "skipped k msg_id j \<longleftrightarrow> j = k \<or> skipped (k + 1) msg_id j"
proof (cases "j = k")
  case True
  then show ?thesis using assms by (simp add: skipped_def unat_gt_0)
next
  case False
  have dec: "unat (x - (k + 1)) = unat (x - k) - 1 \<and> 0 < unat (x - k)" if "x \<noteq> k" for x
  proof -
    have "x - k \<noteq> 0" using that by simp
    moreover have "x - (k + 1) = (x - k) - 1" by simp
    ultimately show ?thesis by (metis unat_gt_0 unat_minus_one)
  qed
  show ?thesis
    using dec [OF False] dec [OF assms] False by (auto simp: skipped_def)
qed

lemma emplace_lost_ok: "map_ok m \<Longrightarrow> map_ok (emplace_lost t msg_id k m)"
proof (induction t msg_id k m rule: emplace_lost.induct)
  case (1 t msg_id k m)
  then show ?case by (subst emplace_lost.simps) simp
qed

lemma find_emplace_lost:
  "map_ok m \<Longrightarrow> map_find (emplace_lost t msg_id k m) j =
     (if skipped k msg_id j \<and> map_find m j = None then Some t else map_find m j)"
proof (induction t msg_id k m rule: emplace_lost.induct)
  case (1 t msg_id k m)
  show ?case
  proof (cases "msg_id = k")
    case True
    then show ?thesis by (subst emplace_lost.simps) simp
  next
    case False
    then show ?thesis
      using 1 skipped_step [OF False] by (subst emplace_lost.simps) auto
  qed
qed

definition gap_start :: "u8 \<Rightarrow> u8 \<Rightarrow> u8" where
  "gap_start msg_id expected =
     (if unat msg_id > unat expected + 100 then msg_id - 100 else expected)"

lemma find_fill_lost_msg:
  assumes "map_ok (lost_msg_list p)"
  shows "map_find (lost_msg_list (fill_lost_msg t msg_id p)) j =
    (case map_find (lost_msg_list p) j of
       Some tp \<Rightarrow>
         if lost_is_stale t msg_id (j, tp)
         then (if skipped (gap_start msg_id (next_rx_msg_id p)) msg_id j then Some t else None)
         else Some tp
     | None \<Rightarrow> if skipped (gap_start msg_id (next_rx_msg_id p)) msg_id j then Some t else None)"
  using assms
  by (auto simp: fill_lost_msg_def Let_def gap_start_def find_emplace_lost map_ok_filter
      map_find_filter split: option.splits)

section \<open>Where a number stands\<close>

text \<open>The three cases of the code: behind (or marked as repeated), ahead, and neither.\<close>

definition behind :: "u8 \<Rightarrow> u8 \<Rightarrow> bool" where
  "behind msg_id expected \<longleftrightarrow> msg_id < expected \<and> unat expected - unat msg_id < 100"

definition ahead :: "u8 \<Rightarrow> u8 \<Rightarrow> bool" where
  "ahead msg_id expected \<longleftrightarrow> msg_id > expected \<or> unat expected - unat msg_id > 100"

lemma track_repeated:
  assumes "has_flag f REPEATED \<or> behind i (next_rx_msg_id p)"
  shows "track_msg_id E i f p =
    (p\<lparr>lost_msg_list := if map_find (lost_msg_list p) i = None then lost_msg_list p
                        else map_erase i (lost_msg_list p)\<rparr>,
     (case map_find (lost_msg_list p) i of Some tp \<Rightarrow> now E - tp < seconds 10 | None \<Rightarrow> False) \<or>
     \<not> has_flag f REPEATED, None)"
  using assms
  by (auto simp: track_msg_id_def is_lost_message_def behind_def split: option.splits)

lemma track_in_order:
  assumes "\<not> has_flag f REPEATED" "i = next_rx_msg_id p"
  shows "track_msg_id E i f p = (p\<lparr>next_rx_msg_id := i + 1\<rparr>, True, None)"
  using assms by (simp add: track_msg_id_def)

lemma track_ahead:
  assumes "\<not> has_flag f REPEATED" "\<not> behind i (next_rx_msg_id p)" "ahead i (next_rx_msg_id p)"
    and "\<not> throws E (Lost_Msg_Detected i (next_rx_msg_id p))"
  shows "track_msg_id E i f p =
    ((fill_lost_msg (now E) i (emit (Lost_Msg_Detected i (next_rx_msg_id p)) p))
       \<lparr>next_rx_msg_id := i + 1\<rparr>, True, None)"
proof -
  have "next_rx_msg_id (fill_lost_msg t i q) = i" for t q
    by (simp add: fill_lost_msg_def Let_def)
  with assms show ?thesis
    by (auto simp: track_msg_id_def call_app_def behind_def ahead_def)
qed

section \<open>What the handlers leave alone\<close>

text \<open>A handler other than the one for fragments does not touch the numbers.\<close>

definition same_numbers :: "protocol \<Rightarrow> protocol \<Rightarrow> bool" where
  "same_numbers p q \<longleftrightarrow>
     next_rx_msg_id p = next_rx_msg_id q \<and> lost_msg_list p = lost_msg_list q"

lemma same_numbers_refl [simp]: "same_numbers p p"
  by (simp add: same_numbers_def)

lemma same_numbers_steps [simp]:
  "same_numbers (emit e p) q = same_numbers p q"
  "same_numbers (emit_all es p) q = same_numbers p q"
  "same_numbers (send_message m p) q = same_numbers p q"
  "same_numbers (drop_message m p) q = same_numbers p q"
  "same_numbers (finish_sender s p) q = same_numbers p q"
  "same_numbers (p\<lparr>fragmented_messages := f\<rparr>) q = same_numbers p q"
  "same_numbers (p\<lparr>waiting_messages := w\<rparr>) q = same_numbers p q"
  "same_numbers (fst (call_app E e p)) q = same_numbers p q"
  "same_numbers (fst (run_answer_func E mi g d p)) q = same_numbers p q"
  "same_numbers (snd (pop_waiting_message P p)) q = same_numbers p q"
  "same_numbers (fst (add_to_waiting t mi p)) q = same_numbers p q"
  by (auto simp: same_numbers_def emit_def emit_all_def send_message_def drop_message_def
      finish_sender_def call_app_def run_answer_func_def pop_waiting_message_def add_to_waiting_def
      Let_def split: option.splits prod.splits)

lemma process_answer_numbers: "same_numbers (fst (process_answer E a c d p)) p"
proof -
  obtain r p1 where r: "pop_waiting_answer a c p = (r, p1)" by (cases "pop_waiting_answer a c p")
  then have "same_numbers p1 p"
    using same_numbers_steps(10) [of _ p p] by (metis pop_waiting_answer_def same_numbers_refl snd_conv)
  then show ?thesis
    by (auto simp: process_answer_def r split: option.splits)
qed

lemma process_fragment_query_numbers: "same_numbers (process_fragment_query Q i x n p) p"
proof -
  obtain r p1 where r: "pop_waiting_fragment i p = (r, p1)" by (cases "pop_waiting_fragment i p")
  then have p1: "same_numbers p1 p"
    using same_numbers_steps(10) [of _ p p] by (metis pop_waiting_fragment_def same_numbers_refl snd_conv)
  have "same_numbers p2 p" if "add_to_waiting t m p1 = (p2, b)" for t m p2 b
    using same_numbers_steps(11) [of t m p1 p] p1 that by simp
  with p1 show ?thesis
    by (auto simp: process_fragment_query_def r Let_def split: option.splits prod.splits)
qed

lemma has_flag_or: "has_flag f (a OR b) \<longleftrightarrow> has_flag f a \<or> has_flag f b"
  by (simp add: has_flag_def bit.conj_disj_distrib or_eq_0_iff)

lemma dispatch_numbers:
  assumes "\<not> has_flag f FRAGMENT"
  shows "same_numbers (fst (dispatch Q E i c f d p)) p"
  using assms process_answer_numbers [of E] process_fragment_query_numbers [of Q]
  by (auto simp: dispatch_def has_flag_or split: sum.splits list.splits field.splits prod.splits)

lemma internal_process_message_numbers:
  assumes "\<not> has_flag f FRAGMENT" "track_msg_id E i f p = (p1, b, None)"
  shows "same_numbers (fst (internal_process_message Q E i c f d p)) p1"
proof -
  have d: "same_numbers (fst (dispatch Q E i c f d' p1)) p1" for d'
    using assms(1) by (rule dispatch_numbers)
  show ?thesis
    by (cases b) (auto simp: internal_process_message_def assms(2) Let_def d)
qed

section \<open>A number that is not missing\<close>

definition not_missing :: "u8 \<Rightarrow> protocol \<Rightarrow> bool" where
  "not_missing i p \<longleftrightarrow> map_ok (lost_msg_list p) \<and> map_find (lost_msg_list p) i = None"

lemma not_missing_same: "same_numbers p q \<Longrightarrow> not_missing i p = not_missing i q"
  by (simp add: same_numbers_def not_missing_def)

lemma deliver_fragmented_numbers: "same_numbers (fst (deliver_fragmented E j c a d p)) p"
proof -
  have pop: "same_numbers p1 p" if "pop_waiting_answer x y p = (r, p1)" for x y r p1
    using same_numbers_steps(10) [of _ p p] that by (metis pop_waiting_answer_def same_numbers_refl snd_conv)
  have app: "same_numbers p2 q" if "call_app E e p1 = (p2, x)" "same_numbers p1 q" for e p1 p2 x q
    using same_numbers_steps(8) [of E e p1 q] that by simp
  have run: "same_numbers p2 q" if "run_answer_func E mi g z p1 = (p2, x)" "same_numbers p1 q" for mi g z p1 p2 x q
    using same_numbers_steps(9) [of E mi g z p1 q] that by simp
  show ?thesis
    by (auto simp: deliver_fragmented_def split: option.splits prod.splits
        dest!: pop app run intro: app run)
qed

lemma request_next_part_not_missing:
  assumes "not_missing i p" "j \<noteq> i"
  shows "not_missing i (request_next_part Q E j c m p)"
proof -
  let ?l = "map_set j (now E) (map_emplace j (now E) (lost_msg_list p))"
  have "lost_msg_list (request_next_part Q E j c m p) = ?l"
    by (auto simp: request_next_part_def Let_def finish_sender_def send_message_def emit_def emit_all_def
        split: prod.splits option.splits)
  with assms show ?thesis by (simp add: not_missing_def)
qed

lemma store_fragment_not_missing:
  assumes "not_missing i p" "j \<noteq> i"
  shows "not_missing i (fst (store_fragment Q E j c a n x d m p))"
proof -
  have "same_numbers (fst (deliver_fragmented E j c a z (p\<lparr>fragmented_messages := f\<rparr>))) p" for z f
    using deliver_fragmented_numbers [of E j c a z "p\<lparr>fragmented_messages := f\<rparr>"] by (simp add: same_numbers_def)
  then have "not_missing i (finish_sender s (fst (deliver_fragmented E j c a z (p\<lparr>fragmented_messages := f\<rparr>))))" for s z f
    using not_missing_same [of "finish_sender s (fst (deliver_fragmented E j c a z (p\<lparr>fragmented_messages := f\<rparr>)))" p i]
      assms(1) by simp
  then show ?thesis
    using request_next_part_not_missing [OF assms] by (simp add: store_fragment_def Let_def split_beta)
qed

lemma process_fragment_not_missing:
  assumes "not_missing i p" "j \<noteq> i"
  shows "not_missing i (fst (process_fragment Q E j c a d p))"
proof -
  have f: "not_missing i (p\<lparr>fragmented_messages := f\<rparr>)" for f
    using assms(1) by (simp add: not_missing_def)
  have "not_missing i (fst (accept_fragment Q E j c a n x mx z p))" for n x mx z
    using assms f [THEN store_fragment_not_missing [OF _ assms(2)]] store_fragment_not_missing [OF assms] f
    by (auto simp: accept_fragment_def Let_def split: option.splits)
  then show ?thesis
    using assms(1) by (auto simp: process_fragment_def split: sum.splits list.splits field.splits prod.splits)
qed

lemma dispatch_not_missing:
  assumes "not_missing i p" "j \<noteq> i \<or> \<not> has_flag f FRAGMENT"
  shows "not_missing i (fst (dispatch Q E j c f d p))"
proof (cases "has_flag f FRAGMENT")
  case False
  then show ?thesis
    using assms(1) dispatch_numbers not_missing_same by blast
next
  case True
  then have "j \<noteq> i" using assms(2) by simp
  note keeps = process_fragment_not_missing [OF assms(1) this]
  have "not_missing i (process_fragment_query Q x y z p)" "not_missing i (p\<lparr>fragmented_messages := w\<rparr>)" for x y z w
    using assms(1) not_missing_same [OF process_fragment_query_numbers] by (auto simp: not_missing_def)
  then show ?thesis
    using True assms(1) keeps
    by (auto simp: dispatch_def has_flag_or split: sum.splits list.splits field.splits prod.splits)
qed

text \<open>
  The messages that can make the number \<open>i\<close> missing: one that jumps ahead over it, and a part
  of a fragmented message with this number.
\<close>

definition makes_missing :: "u8 \<Rightarrow> u8 \<Rightarrow> u8 \<Rightarrow> protocol \<Rightarrow> bool" where
  "makes_missing i j f p \<longleftrightarrow>
     (\<not> has_flag f REPEATED \<and> \<not> behind j (next_rx_msg_id p) \<and> ahead j (next_rx_msg_id p) \<and>
       skipped (gap_start j (next_rx_msg_id p)) j i) \<or>
     (j = i \<and> has_flag f FRAGMENT)"

lemma track_not_missing:
  assumes "not_missing i p" "\<not> makes_missing i j f p" "track_msg_id E j f p = (p1, b, e)"
  shows "not_missing i p1"
proof (cases "has_flag f REPEATED \<or> behind j (next_rx_msg_id p)")
  case True
  then show ?thesis
    using track_repeated [OF True, of E] assms(1,3) by (auto simp: not_missing_def)
next
  case False
  then have nb: "\<not> has_flag f REPEATED" "\<not> behind j (next_rx_msg_id p)" by simp_all
  show ?thesis
  proof (cases "ahead j (next_rx_msg_id p)")
    case True
    have q: "lost_msg_list (emit x p) = lost_msg_list p" "next_rx_msg_id (emit x p) = next_rx_msg_id p" for x
      by (simp_all add: emit_def)
    show ?thesis
    proof (cases "throws E (Lost_Msg_Detected j (next_rx_msg_id p))")
      case True
      then have "lost_msg_list p1 = lost_msg_list p"
        using assms(3) nb \<open>ahead j _\<close>
        by (auto simp: track_msg_id_def call_app_def behind_def ahead_def q split: if_splits)
      with assms(1) show ?thesis by (simp add: not_missing_def)
    next
      case F: False
      have "map_find (lost_msg_list (fill_lost_msg (now E) j (emit (Lost_Msg_Detected j (next_rx_msg_id p)) p))) i = None"
        using find_fill_lost_msg [of "emit (Lost_Msg_Detected j (next_rx_msg_id p)) p" "now E" j i] assms(1,2) nb True
        by (simp add: q not_missing_def makes_missing_def)
      moreover have "map_ok (lost_msg_list (fill_lost_msg (now E) j (emit (Lost_Msg_Detected j (next_rx_msg_id p)) p)))"
        using assms(1) by (simp add: fill_lost_msg_def Let_def q emplace_lost_ok map_ok_filter not_missing_def)
      ultimately show ?thesis
        using track_ahead [OF nb True F] assms(3) by (auto simp: not_missing_def)
    qed
  next
    case False
    then have "lost_msg_list p1 = lost_msg_list p"
      using assms(3) nb by (auto simp: track_msg_id_def behind_def ahead_def split: if_splits)
    with assms(1) show ?thesis by (simp add: not_missing_def)
  qed
qed

lemma internal_process_message_not_missing:
  assumes "not_missing i p" "\<not> makes_missing i j f p"
  shows "not_missing i (fst (internal_process_message Q E j c f d p))"
proof -
  obtain p1 b e where t: "track_msg_id E j f p = (p1, b, e)" by (metis prod_cases3)
  have p1: "not_missing i p1" by (rule track_not_missing [OF assms t])
  have "j \<noteq> i \<or> \<not> has_flag f FRAGMENT" using assms(2) by (auto simp: makes_missing_def)
  from dispatch_not_missing [OF p1 this] show ?thesis
    using p1 by (cases e; cases b) (auto simp: internal_process_message_def t Let_def)
qed

text \<open>Messages that arrive one after the other, each at a time of its own, also after one that failed.\<close>

fun handle_all :: "qt \<Rightarrow> (env \<times> msg) list \<Rightarrow> protocol \<Rightarrow> protocol" where
  "handle_all Q [] p = p"
| "handle_all Q ((E, j, c, f, d) # ms) p = handle_all Q ms (fst (internal_process_message Q E j c f d p))"

fun never_missing :: "qt \<Rightarrow> u8 \<Rightarrow> (env \<times> msg) list \<Rightarrow> protocol \<Rightarrow> bool" where
  "never_missing Q i [] p \<longleftrightarrow> True"
| "never_missing Q i ((E, j, c, f, d) # ms) p \<longleftrightarrow>
     \<not> makes_missing i j f p \<and> never_missing Q i ms (fst (internal_process_message Q E j c f d p))"

lemma handle_all_not_missing: "not_missing i p \<Longrightarrow> never_missing Q i ms p \<Longrightarrow> not_missing i (handle_all Q ms p)"
  by (induction Q ms p rule: handle_all.induct) (auto simp: internal_process_message_not_missing)

section \<open>Properties\<close>

text \<open>
  A message ahead of the expected number: exactly the numbers between the expected one
  (or the hundred before the message, if it is further ahead) and the message's own enter the list
  of lost messages, entries that are too old or out of the window leave it, all others stay as they
  were, the message itself is handled and its successor is expected next.
\<close>

theorem gap_fills_lost_list:
  assumes "\<not> has_flag f REPEATED" "\<not> behind i (next_rx_msg_id p)" "ahead i (next_rx_msg_id p)"
    and "\<not> throws E (Lost_Msg_Detected i (next_rx_msg_id p))" "map_ok (lost_msg_list p)"
  shows "\<exists>p1. track_msg_id E i f p = (p1, True, None) \<and> next_rx_msg_id p1 = i + 1 \<and>
    effects p1 = effects p @ [Lost_Msg_Detected i (next_rx_msg_id p)] \<and>
    waiting_messages p1 = waiting_messages p \<and> map_ok (lost_msg_list p1) \<and>
    (\<forall>j. map_find (lost_msg_list p1) j =
       (let kept = (case map_find (lost_msg_list p) j of
                      Some tp \<Rightarrow> if lost_is_stale (now E) i (j, tp) then None else Some tp
                    | None \<Rightarrow> None)
        in if kept = None \<and> skipped (gap_start i (next_rx_msg_id p)) i j
           then Some (now E) else kept))"
proof -
  let ?q = "emit (Lost_Msg_Detected i (next_rx_msg_id p)) p"
  have q: "next_rx_msg_id ?q = next_rx_msg_id p" "lost_msg_list ?q = lost_msg_list p"
    "waiting_messages ?q = waiting_messages p"
    by (simp_all add: emit_def)
  have "map_ok (lost_msg_list (fill_lost_msg (now E) i ?q))"
    using assms(5) by (simp add: fill_lost_msg_def Let_def q emplace_lost_ok map_ok_filter)
  moreover have "waiting_messages (fill_lost_msg (now E) i ?q) = waiting_messages p"
    "effects (fill_lost_msg (now E) i ?q) = effects p @ [Lost_Msg_Detected i (next_rx_msg_id p)]"
    by (simp_all add: fill_lost_msg_def Let_def emit_def)
  ultimately show ?thesis
    using track_ahead [OF assms(1-4)] find_fill_lost_msg [of ?q "now E" i] assms(5)
    by (auto simp: q split: option.splits)
qed

text \<open>
  Property C13.  A message that is not a fragment and was sent again, marked \<open>REPEATED\<close>, is
  handled at most once until its number is entered as lost again: when it has met the receiver, in any
  state, and any further messages have been handled after it, at any times, successful or not, of which none
  jumps ahead over its number and none is a part of a fragmented message with this number, then a further
  copy that carries the flag \<open>REPEATED\<close> is dropped and changes nothing.
\<close>

theorem repeated_handled_at_most_once:
  assumes "has_flag f REPEATED" "\<not> has_flag f FRAGMENT" "has_flag f' REPEATED"
    and "map_ok (lost_msg_list p)" "internal_process_message Q E i c f d p = (p1, e)"
    and "never_missing Q i ms p1" "p2 = handle_all Q ms p1"
  shows "internal_process_message Q E' i c' f' d' p2 = (p2, None)"
proof -
  let ?l = "if map_find (lost_msg_list p) i = None then lost_msg_list p
            else map_erase i (lost_msg_list p)"
  obtain b where t: "track_msg_id E i f p = (p\<lparr>lost_msg_list := ?l\<rparr>, b, None)"
    using track_repeated [of f i p E] assms(1) by blast
  have "same_numbers p1 (p\<lparr>lost_msg_list := ?l\<rparr>)"
    using internal_process_message_numbers [OF assms(2) t, of Q c d] assms(5) by simp
  then have "not_missing i p1"
    using assms(4) by (auto simp: same_numbers_def not_missing_def)
  then have "not_missing i p2"
    unfolding assms(7) using assms(6) by (rule handle_all_not_missing)
  then show ?thesis
    using track_repeated [of f' i p2 E'] assms(3) by (simp add: internal_process_message_def not_missing_def)
qed

text \<open>Messages that carry consecutive numbers from \<open>k\<close> on, among copies marked as repeated.\<close>

fun in_order :: "u8 \<Rightarrow> msg list \<Rightarrow> bool" where
  "in_order k [] \<longleftrightarrow> True"
| "in_order k ((i, c, f, d) # ms) \<longleftrightarrow>
     (if has_flag f REPEATED then in_order k ms
      else i = k \<and> \<not> has_flag f FRAGMENT \<and> in_order (k + 1) ms)"

definition is_repeated :: "msg \<Rightarrow> bool" where
  "is_repeated m = (case m of (i, c, f, d) \<Rightarrow> has_flag f REPEATED)"

text \<open>
  Exactly once on a line that loses nothing: when the numbers arrive in order, through
  any wrap-around, and nothing is missing, all repeated copies are dropped without a trace, so that
  the messages are handled exactly as if no copy had been sent.
\<close>

theorem repeated_copies_ignored:
  assumes "in_order (next_rx_msg_id p) ms" "lost_msg_list p = []"
  shows "process_messages Q E ms p = process_messages Q E (filter (\<lambda>m. \<not> is_repeated m) ms) p"
  using assms
proof (induction ms arbitrary: p)
  case Nil
  then show ?case by simp
next
  case (Cons m ms)
  obtain i c f d where m: "m = (i, c, f, d)" by (cases m)
  show ?case
  proof (cases "has_flag f REPEATED")
    case True
    have "internal_process_message Q E i c f d p = (p, None)"
      using track_repeated [of f i p E] True Cons.prems(2) by (simp add: internal_process_message_def)
    then show ?thesis using Cons True by (simp add: m is_repeated_def)
  next
    case False
    then have i: "i = next_rx_msg_id p" and nf: "\<not> has_flag f FRAGMENT"
      and rest: "in_order (next_rx_msg_id p + 1) ms"
      using Cons.prems(1) by (auto simp: m)
    obtain p1 e where p1: "internal_process_message Q E i c f d p = (p1, e)"
      by (cases "internal_process_message Q E i c f d p")
    have "same_numbers p1 (p\<lparr>next_rx_msg_id := i + 1\<rparr>)"
      using internal_process_message_numbers [OF nf track_in_order [OF False i, of E], of Q c d] p1 by simp
    then have n: "next_rx_msg_id p1 = next_rx_msg_id p + 1" "lost_msg_list p1 = []"
      using Cons.prems(2) i by (simp_all add: same_numbers_def)
    have "process_messages Q E ms p1 = process_messages Q E (filter (\<lambda>m. \<not> is_repeated m) ms) p1"
      by (rule Cons.IH) (use n rest in simp_all)
    then show ?thesis
      using False by (simp add: m is_repeated_def p1 split: option.splits)
  qed
qed

lemma skipped_before_wrap:
  assumes "155 \<le> j" "j < 255"
  shows "skipped (gap_start 255 0) 255 j"
proof -
  have "unat (j - 155) = unat j - 155"
    using assms(1) by (simp add: unat_sub)
  then show ?thesis
    using assms(2) by (simp add: skipped_def gap_start_def word_less_nat_alt)
qed

text \<open>
  The window does not wrap: a late packet with a number just below the wrap-around that
  arrives after it is taken for one far ahead.  When the next expected number is 0, a second copy of
  packet 255 enters all of 155 to 254 into the list of lost messages, and a repeated copy of any of
  them is then handled again.
\<close>

theorem late_packet_across_wrap:
  assumes "next_rx_msg_id p = 0" "\<not> has_flag f REPEATED" "map_ok (lost_msg_list p)"
    and "\<not> throws E (Lost_Msg_Detected 255 0)" "lost_msg_list p = []"
    and "155 \<le> j" "j < 255" "has_flag f' REPEATED"
  shows "\<exists>p1 p2. track_msg_id E 255 f p = (p1, True, None) \<and> next_rx_msg_id p1 = 0 \<and>
    track_msg_id E j f' p1 = (p2, True, None)"
proof -
  have a: "\<not> behind 255 (next_rx_msg_id p)" "ahead 255 (next_rx_msg_id p)"
    using assms(1) by (simp_all add: behind_def ahead_def)
  note sk = skipped_before_wrap [OF assms(6,7)]
  let ?p1 = "(fill_lost_msg (now E) 255 (emit (Lost_Msg_Detected 255 0) p))\<lparr>next_rx_msg_id := 0\<rparr>"
  have t: "track_msg_id E 255 f p = (?p1, True, None)"
    using track_ahead [OF assms(2) a] assms(1,4) by simp
  have "map_find (lost_msg_list ?p1) j = Some (now E)"
    using find_fill_lost_msg [of "emit (Lost_Msg_Detected 255 0) p" "now E" 255 j] assms(1,3,5) sk
    by (simp add: emit_def)
  then have "snd (track_msg_id E j f' ?p1) = (True, None)"
    using track_repeated [of f' j ?p1 E] assms(8) by (simp add: seconds_def)
  then show ?thesis using t by (metis (no_types, lifting) prod.collapse protocol.select_convs(1) protocol.surjective protocol.update_convs(1))
qed

section \<open>Examples\<close>

theorem gap_fills_lost_list_witness:
  "\<exists>p1. track_msg_id quiet 3 0 protocol_new = (p1, True, None) \<and> next_rx_msg_id p1 = 4 \<and>
     map_find (lost_msg_list p1) 2 = Some 0 \<and> map_find (lost_msg_list p1) 3 = None"
proof -
  have "\<not> behind 3 (next_rx_msg_id protocol_new)" "ahead 3 (next_rx_msg_id protocol_new)"
    "map_ok (lost_msg_list protocol_new)" "\<not> has_flag 0 REPEATED"
    "\<not> throws quiet (Lost_Msg_Detected 3 (next_rx_msg_id protocol_new))"
    by (simp_all add: behind_def ahead_def protocol_new_def has_flag_def quiet_def)
  from gap_fills_lost_list [OF this(4,1,2,5,3)] show ?thesis
    by (auto simp: protocol_new_def skipped_def gap_start_def quiet_def)
qed

definition one_lost :: protocol where
  "one_lost = protocol_new\<lparr>next_rx_msg_id := 9, lost_msg_list := [(5, 0)]\<rparr>"

text \<open>The lost message 5 arrives, then 9 and, with a gap, 11; another copy of 5 is dropped.\<close>

theorem repeated_handled_at_most_once_witness:
  "\<exists>p1 p2. internal_process_message qt_sample quiet 5 16 REPEATED [1] one_lost = (p1, None) \<and>
     effects p1 = [Process_Message 5 16 [1]] \<and>
     p2 = handle_all qt_sample [(quiet, 9, 16, 0, [2]), (quiet, 11, 16, 0, [3])] p1 \<and>
     internal_process_message qt_sample quiet 5 16 REPEATED [1] p2 = (p2, None)"
proof -
  have r: "has_flag REPEATED REPEATED" "\<not> has_flag REPEATED FRAGMENT"
    by (simp_all add: has_flag_def flag_defs)
  have ok: "map_ok (lost_msg_list one_lost)"
    by (simp add: one_lost_def map_ok_def)
  let ?p1 = "one_lost\<lparr>lost_msg_list := [], effects := [Process_Message 5 16 [1]]\<rparr>"
  have 1: "internal_process_message qt_sample quiet 5 16 REPEATED [1] one_lost = (?p1, None)"
    by (simp add: one_lost_def eval_receive is_lost_message_def map_find_def map_erase_def seconds_def)
  have "never_missing qt_sample 5 [(quiet, 9, 16, 0, [2]), (quiet, 11, 16, 0, [3])] ?p1"
    by (simp add: one_lost_def eval_receive makes_missing_def skipped_def gap_start_def behind_def ahead_def has_flag_def flag_defs)
  from repeated_handled_at_most_once [OF r r(1) ok 1 this refl, of quiet 16 "[1]"] 1 show ?thesis by auto
qed

theorem repeated_copies_ignored_witness:
  "process_messages qt_sample quiet
     [(255, 16, 0, [1]), (255, 16, REPEATED, [1]), (0, 16, 0, [2]), (255, 16, REPEATED, [1])]
     (protocol_new\<lparr>next_rx_msg_id := 255\<rparr>) =
   process_messages qt_sample quiet [(255, 16, 0, [1]), (0, 16, 0, [2])]
     (protocol_new\<lparr>next_rx_msg_id := 255\<rparr>)"
  using repeated_copies_ignored [of "protocol_new\<lparr>next_rx_msg_id := 255\<rparr>"
      "[(255, 16, 0, [1]), (255, 16, REPEATED, [1]), (0, 16, 0, [2]), (255, 16, REPEATED, [1])]"
      qt_sample quiet]
  by (simp add: protocol_new_def is_repeated_def has_flag_def flag_defs)

theorem late_packet_across_wrap_witness:
  "\<exists>p1 p2. track_msg_id quiet 255 0 protocol_new = (p1, True, None) \<and> next_rx_msg_id p1 = 0 \<and>
     track_msg_id quiet 200 REPEATED p1 = (p2, True, None)"
  by (rule late_packet_across_wrap)
    (simp_all add: protocol_new_def has_flag_def flag_defs quiet_def)

end
