(* ===== verification/Protocol_Waiting.thy ===== *)
theory Protocol_Waiting
  imports Protocol_Numbers
begin

text \<open>
  The waiting list of \<open>Network/net_protocol.cpp\<close> and the invariant of the protocol's tables:
  every operation keeps the maps ordered and the numbers of waiting messages distinct. Then what the wait
  list promises: due messages are sent again or time out, an answer reaches the callback of its question
  once, and the one way to lose a waiting message, two messages with the same time point.
\<close>

section \<open>Taking out the first match\<close>

lemma pop_first_None:
  "pop_first P m = (None, m') \<Longrightarrow> m' = m \<and> (\<forall>e \<in> set m. \<not> P (snd e))"
  by (induction P m arbitrary: m' rule: pop_first.induct) (auto split: if_splits prod.splits)

lemma pop_first_no_match: "\<forall>e \<in> set m. \<not> P (snd e) \<Longrightarrow> pop_first P m = (None, m)"
  by (induction P m rule: pop_first.induct) auto

lemma pop_first_Some:
  "pop_first P m = (Some v, m') \<Longrightarrow>
   \<exists>xs k ys. m = xs @ (k, v) # ys \<and> m' = xs @ ys \<and> P v \<and> (\<forall>e \<in> set xs. \<not> P (snd e))"
proof (induction P m arbitrary: m' rule: pop_first.induct)
  case (1 P)
  then show ?case by simp
next
  case (2 P k v1 m)
  show ?case
  proof (cases "P v1")
    case True
    then show ?thesis using "2.prems" by (intro exI [of _ "[]"]) auto
  next
    case False
    obtain m1 where m1: "pop_first P m = (Some v, m1)" "m' = (k, v1) # m1"
      using "2.prems" False by (auto split: prod.splits)
    from "2.IH" [OF False m1(1)] obtain xs k' ys where
      "m = xs @ (k', v) # ys" "m1 = xs @ ys" "P v" "\<forall>e \<in> set xs. \<not> P (snd e)" by blast
    then show ?thesis using m1(2) False by (intro exI [of _ "(k, v1) # xs"]) auto
  qed
qed

section \<open>The invariant\<close>

abbreviation waiting_ids :: "(time, message_item) std_map \<Rightarrow> u8 list" where
  "waiting_ids w \<equiv> map (id_or_zero \<circ> snd) w"

definition wait_ok :: "(time, message_item) std_map \<Rightarrow> bool" where
  "wait_ok w \<longleftrightarrow> map_ok w \<and> distinct (waiting_ids w)"

definition proto_ok :: "protocol \<Rightarrow> bool" where
  "proto_ok p \<longleftrightarrow> map_ok (lost_msg_list p) \<and> map_ok (fragmented_messages p) \<and>
     wait_ok (waiting_messages p)"

lemma map_ok_append_remove: "map_ok (xs @ e # ys) \<Longrightarrow> map_ok (xs @ ys)"
  by (auto simp: map_ok_def sorted_wrt_append)

lemma wait_ok_pop:
  assumes "wait_ok w" "pop_first P w = (r, w')"
  shows "wait_ok w'" "set w' \<subseteq> set w"
proof -
  have "wait_ok w' \<and> set w' \<subseteq> set w"
  proof (cases r)
    case None
    then show ?thesis using assms pop_first_None [of P w w'] by simp
  next
    case (Some v)
    then obtain xs k ys where "w = xs @ (k, v) # ys" "w' = xs @ ys"
      using assms(2) pop_first_Some [of P w v w'] by auto
    then show ?thesis using assms(1) map_ok_append_remove [of xs "(k, v)" ys] by (auto simp: wait_ok_def)
  qed
  then show "wait_ok w'" "set w' \<subseteq> set w" by simp_all
qed

lemma pop_removes_id:
  assumes "wait_ok w" "pop_first (\<lambda>i. id_or_zero i = a) w = (r, w')"
  shows "\<forall>e \<in> set w'. id_or_zero (snd e) \<noteq> a"
proof (cases r)
  case None
  then show ?thesis using assms pop_first_None by blast
next
  case (Some v)
  then obtain xs k ys where "w = xs @ (k, v) # ys" "w' = xs @ ys" "id_or_zero v = a"
    using assms(2) pop_first_Some [of _ w v w'] by blast
  with assms(1) show ?thesis by (force simp: wait_ok_def)
qed

lemma set_emplace_subset: "set (map_emplace k v m) \<subseteq> insert (k, v) (set m)"
  by (induction k v m rule: map_emplace.induct) auto

lemma ids_emplace_subset:
  "set (waiting_ids (map_emplace k v w)) \<subseteq> insert (id_or_zero v) (set (waiting_ids w))"
  by (induction k v w rule: map_emplace.induct) auto

lemma distinct_emplace:
  "distinct (waiting_ids w) \<Longrightarrow> id_or_zero v \<notin> set (waiting_ids w) \<Longrightarrow>
   distinct (waiting_ids (map_emplace k v w))"
proof (induction k v w rule: map_emplace.induct)
  case (1 k v)
  then show ?case by simp
next
  case (2 k v a w m)
  have "id_or_zero w \<notin> set (waiting_ids (map_emplace k v m))"
    using ids_emplace_subset [of k v m] "2.prems" by auto
  with 2 show ?case by auto
qed

lemma wait_ok_emplace:
  "wait_ok w \<Longrightarrow> \<forall>e \<in> set w. id_or_zero (snd e) \<noteq> id_or_zero v \<Longrightarrow> wait_ok (map_emplace k v w)"
  unfolding wait_ok_def by (intro conjI map_ok_emplace distinct_emplace) auto

lemma wait_ok_filter: "wait_ok w \<Longrightarrow> wait_ok (filter P w)"
  by (simp add: wait_ok_def map_ok_filter distinct_map_filter)

subsection \<open>Every operation keeps it\<close>

named_theorems keeps \<open>operations that keep the invariant of the protocol's tables\<close>

lemma send_tables [simp]:
  "lost_msg_list (emit e p) = lost_msg_list p" "fragmented_messages (emit e p) = fragmented_messages p"
  "waiting_messages (emit e p) = waiting_messages p"
  "lost_msg_list (emit_all es p) = lost_msg_list p"
  "fragmented_messages (emit_all es p) = fragmented_messages p"
  "waiting_messages (emit_all es p) = waiting_messages p"
  "lost_msg_list (send_message m p) = lost_msg_list p"
  "fragmented_messages (send_message m p) = fragmented_messages p"
  "waiting_messages (send_message m p) = waiting_messages p"
  "lost_msg_list (drop_message m p) = lost_msg_list p"
  "fragmented_messages (drop_message m p) = fragmented_messages p"
  "waiting_messages (drop_message m p) = waiting_messages p"
  "lost_msg_list (finish_sender s p) = lost_msg_list p"
  "fragmented_messages (finish_sender s p) = fragmented_messages p"
  "waiting_messages (finish_sender s p) = waiting_messages p"
  by (auto simp: emit_def emit_all_def send_message_def drop_message_def finish_sender_def
      split: option.splits prod.splits)

lemma send_keeps [keeps]:
  "proto_ok (emit e p) = proto_ok p" "proto_ok (emit_all es p) = proto_ok p"
  "proto_ok (send_message m p) = proto_ok p" "proto_ok (drop_message m p) = proto_ok p"
  "proto_ok (finish_sender s p) = proto_ok p"
  by (simp_all add: proto_ok_def)

lemma call_keeps [keeps]:
  "proto_ok (fst (call_app E e p)) = proto_ok p"
  "proto_ok (fst (run_answer_func E m f d p)) = proto_ok p"
  by (auto simp: call_app_def run_answer_func_def keeps split: option.splits)

lemma pop_waiting_keeps [keeps]:
  "proto_ok p \<Longrightarrow> proto_ok (snd (pop_waiting_message P p))"
  "proto_ok p \<Longrightarrow> proto_ok (snd (pop_waiting_answer a c p))"
  "proto_ok p \<Longrightarrow> proto_ok (snd (pop_waiting_fragment i p))"
  by (auto simp: pop_waiting_answer_def pop_waiting_fragment_def pop_waiting_message_def proto_ok_def
      dest: wait_ok_pop split: prod.splits)

lemma add_to_waiting_keeps [keeps]:
  assumes "proto_ok p"
  shows "proto_ok (fst (add_to_waiting t m p))"
proof -
  obtain r w where w: "pop_first (\<lambda>i. id_or_zero i = id_or_zero m) (waiting_messages p) = (r, w)"
    by (cases "pop_first (\<lambda>i. id_or_zero i = id_or_zero m) (waiting_messages p)")
  have "wait_ok w"
    using assms wait_ok_pop(1) [OF _ w] by (simp add: proto_ok_def)
  moreover have "\<forall>e \<in> set w. id_or_zero (snd e) \<noteq> id_or_zero m"
    using assms by (intro pop_removes_id [OF _ w]) (simp add: proto_ok_def)
  ultimately have "wait_ok (map_emplace t m w)" by (rule wait_ok_emplace)
  with assms show ?thesis
    by (simp add: add_to_waiting_def pop_waiting_message_def w Let_def proto_ok_def)
qed

lemma track_keeps:
  assumes "proto_ok p" "track_msg_id E i f p = (p1, b, e)"
  shows "proto_ok p1"
proof -
  have "proto_ok (fill_lost_msg t i q)" if "proto_ok q" for t q
    using that by (simp add: proto_ok_def fill_lost_msg_def Let_def emplace_lost_ok map_ok_filter)
  moreover have "proto_ok q" if "is_lost_message t i p = (x, q)" for t x q
    using assms(1) that by (auto simp: proto_ok_def is_lost_message_def split: option.splits)
  moreover have "proto_ok (q\<lparr>next_rx_msg_id := k\<rparr>) = proto_ok q" for q k
    by (simp add: proto_ok_def)
  ultimately show ?thesis
    using assms
    by (auto simp: track_msg_id_def call_app_def keeps Let_def split: if_splits prod.splits)
qed

lemma process_fragment_query_keeps [keeps]:
  assumes "proto_ok p"
  shows "proto_ok (process_fragment_query Q i x n p)"
proof -
  obtain r p1 where r: "pop_waiting_fragment i p = (r, p1)" by (cases "pop_waiting_fragment i p")
  then have p1: "proto_ok p1" using pop_waiting_keeps(3) [OF assms, of i] by simp
  have "proto_ok p2" if "add_to_waiting t m p1 = (p2, b)" for t m p2 b
    using add_to_waiting_keeps [OF p1, of t m] that by simp
  with p1 show ?thesis
    by (auto simp: process_fragment_query_def r Let_def keeps split: option.splits prod.splits)
qed

lemma process_answer_keeps [keeps]:
  assumes "proto_ok p"
  shows "proto_ok (fst (process_answer E a c d p))"
proof -
  obtain r p1 where r: "pop_waiting_answer a c p = (r, p1)" by (cases "pop_waiting_answer a c p")
  then have "proto_ok p1" using pop_waiting_keeps(2) [OF assms, of a c] by simp
  then show ?thesis
    by (auto simp: process_answer_def r keeps split: option.splits)
qed

lemma table_updates [keeps]:
  "proto_ok p \<Longrightarrow> map_ok fs \<Longrightarrow> proto_ok (p\<lparr>fragmented_messages := fs\<rparr>)"
  "proto_ok p \<Longrightarrow> map_ok (fragmented_messages p)"
  by (simp_all add: proto_ok_def)

lemma deliver_fragmented_keeps:
  assumes "proto_ok p" "deliver_fragmented E i c a d p = (p', e)"
  shows "proto_ok p'"
proof -
  have pop: "proto_ok p1" if "pop_waiting_answer x c p = (r, p1)" for x r p1
    using pop_waiting_keeps(2) [OF assms(1), of x c] that by simp
  have call: "proto_ok p2" if "call_app E x p1 = (p2, y)" "proto_ok p1" for x p1 p2 y
    using call_keeps(1) [of E x p1] that by simp
  have run: "proto_ok p2" if "run_answer_func E m f d p1 = (p2, y)" "proto_ok p1" for m f p1 p2 y
    using call_keeps(2) [of E m f d p1] that by simp
  show ?thesis
    using assms(2)
    by (auto simp: deliver_fragmented_def Let_def keeps assms(1)
        dest!: pop split: option.splits prod.splits intro!: table_updates dest: call run)
qed

lemma request_next_part_keeps [keeps]:
  assumes "proto_ok p"
  shows "proto_ok (request_next_part Q E i c m p)"
proof -
  have "proto_ok (p\<lparr>lost_msg_list := map_set i t (map_emplace i t (lost_msg_list p)),
      fragmented_messages := map_set i m1 (fragmented_messages p)\<rparr>)" for t m1
    using assms by (simp add: proto_ok_def)
  then show ?thesis
    by (simp add: request_next_part_def Let_def keeps split: prod.splits)
qed

lemma process_fragment_keeps [keeps]:
  assumes "proto_ok p"
  shows "proto_ok (fst (process_fragment Q E i c a d p))"
proof -
  have store: "proto_ok (fst (store_fragment Q E i c a f x d m q))" if "proto_ok q" for f x d m q
    using that
    by (auto simp: store_fragment_def Let_def keeps split: prod.splits
        dest: deliver_fragmented_keeps [rotated])
  have "proto_ok (fst (accept_fragment Q E i c a f x n d p))" for f x n d
    using assms by (auto simp: accept_fragment_def Let_def keeps store split: option.splits)
  then show ?thesis
    using assms by (auto simp: process_fragment_def split: sum.splits list.splits field.splits prod.splits)
qed

lemma internal_process_message_keeps:
  assumes "proto_ok p" "internal_process_message Q E i c f d p = (p', e)"
  shows "proto_ok p'"
proof -
  have disp: "proto_ok (fst (dispatch Q E i c f x q))" if "proto_ok q" for x q
    using that by (auto simp: dispatch_def keeps split: sum.splits list.splits field.splits prod.splits)
  have "proto_ok (fst (internal_process_message Q E i c f d p))"
    using track_keeps [OF assms(1)]
    by (auto simp: internal_process_message_def Let_def disp split: prod.splits option.splits bool.splits)
  with assms(2) show ?thesis by simp
qed

lemma process_stream_keeps:
  "proto_ok p \<Longrightarrow> process_stream Q E buf pos p = (p', k, b) \<Longrightarrow> proto_ok p'"
proof (induction Q E buf pos p arbitrary: p' k b rule: process_stream.induct)
  case (1 Q E buf pos p)
  show ?case
    using "1.prems" "1.IH" internal_process_message_keeps [OF "1.prems"(1)]
    by (subst (asm) process_stream.simps)
      (fastforce simp: Let_def split: if_splits prod.splits option.splits)
qed

lemma receive_loop_keeps:
  "proto_ok p \<Longrightarrow> receive_loop Q E buf qs p = Inr (buf', k, qs', p') \<Longrightarrow> proto_ok p'"
proof (induction Q E buf qs p rule: receive_loop.induct)
  case (1 Q E buf qs p)
  show ?case
    using "1.prems" "1.IH" process_stream_keeps [OF "1.prems"(1)]
    by (subst (asm) receive_loop.simps) (fastforce split: if_splits prod.splits list.splits)
qed

lemma process_bytes_keeps:
  assumes "proto_ok p" "process_bytes Q E data p = Inr p'"
  shows "proto_ok p'"
proof -
  have "proto_ok (mark_received t p)" for t
    using assms(1) by (simp add: proto_ok_def mark_received_def)
  then have "proto_ok p2" if "receive_loop Q E buf qs (mark_received t p) = Inr (buf', k, qs', p2)"
    for buf qs t buf' k qs' p2
    using receive_loop_keeps that by blast
  then show ?thesis
    using assms by (force simp: process_bytes_def Let_def proto_ok_def split: if_splits sum.splits prod.splits)
qed

lemma prepare_packet_keeps:
  assumes "proto_ok p"
  shows "proto_ok (snd (prepare_packet_to_send Q t1 t2 msg p))"
proof -
  have upd: "proto_ok (q\<lparr>next_tx_msg_id := k\<rparr>) = proto_ok q"
    "proto_ok (q\<lparr>last_msg_send_time := t\<rparr>) = proto_ok q" for q k t
    by (simp_all add: proto_ok_def)
  have add: "proto_ok r" if "add_to_waiting t m q = (r, b)" "proto_ok q" for t m q r b
    using add_to_waiting_keeps [OF that(2), of t m] that(1) by simp
  show ?thesis
    using assms
    by (auto simp: prepare_packet_to_send_def Let_def upd keeps dest!: add
        split: option.splits prod.splits)
qed

lemma renew_fragment_keeps [keeps]:
  assumes "proto_ok p"
  shows "proto_ok (renew_fragment Q t e p)"
proof -
  have "proto_ok (p\<lparr>lost_msg_list := map_emplace i t (lost_msg_list p),
      fragmented_messages := map_set k m1 (fragmented_messages p)\<rparr>)" for i k m1
    using assms by (simp add: proto_ok_def)
  then show ?thesis
    using assms by (simp add: renew_fragment_def Let_def keeps split: prod.splits)
qed

lemma resend_keeps:
  "proto_ok (fst (fold (resend_or_timeout t) ms (p, dead))) = proto_ok p"
proof (induction ms arbitrary: p dead)
  case Nil
  then show ?case by simp
next
  case (Cons m ms)
  then show ?case
    by (cases "resend_or_timeout t m (p, dead)")
      (auto simp: resend_or_timeout_def keeps split: if_splits option.splits)
qed

lemma process_wait_list_keeps:
  assumes "proto_ok p"
  shows "proto_ok (process_wait_list Q t1 t2 data p)"
proof (cases "data = int (unat FRAGMENT)")
  case True
  have "proto_ok (fold (renew_fragment Q t1) fs p)" for fs
    using assms by (induction fs arbitrary: p) (simp_all add: keeps)
  with True show ?thesis by (simp add: process_wait_list_def)
next
  case False
  let ?due = "\<lambda>e. fst e \<le> t1 + milliseconds 20"
  obtain n where "dropWhile ?due (waiting_messages p) = drop n (waiting_messages p)"
    using dropWhile_eq_drop by blast
  then have "wait_ok (dropWhile ?due (waiting_messages p))"
    using assms by (auto simp: proto_ok_def wait_ok_def map_ok_def sorted_wrt_drop simp flip: drop_map)
  then have "proto_ok (snd (pop_waiting_messages t1 p))"
    using assms by (simp add: pop_waiting_messages_def Let_def proto_ok_def)
  with False resend_keeps [of t2 "fst (pop_waiting_messages t1 p)"] show ?thesis
    by (auto simp: process_wait_list_def keeps split: prod.splits) (metis fst_conv)
qed

section \<open>Reachable states\<close>

text \<open>The calls that the transport, the timer and the application make on a protocol.\<close>

inductive protocol_step :: "qt \<Rightarrow> protocol \<Rightarrow> protocol \<Rightarrow> bool" for Q where
  Prepare: "protocol_step Q p (snd (prepare_packet_to_send Q t1 t2 msg p))"
| Receive: "process_bytes Q E data p = Inr p' \<Longrightarrow> protocol_step Q p p'"
| Timer: "protocol_step Q p (process_wait_list Q t1 t2 data p)"
| Reset: "protocol_step Q p (reset_msg_id p)"
| Set_Writer: "protocol_step Q p (set_writer w p)"
| Send: "protocol_step Q p (finish_sender s p)"

inductive_cases protocol_stepE: "protocol_step Q p p'"

lemma protocol_step_keeps:
  assumes "protocol_step Q p p'" "proto_ok p"
  shows "proto_ok p'"
  using assms
  by (cases rule: protocol_step.cases)
    (simp_all add: prepare_packet_keeps process_bytes_keeps process_wait_list_keeps keeps,
      simp_all add: proto_ok_def reset_msg_id_def set_writer_def)

text \<open>
  Property C10.  In every state that the calls of the transport, the timer and the application reach
  from a fresh protocol, the three tables are ordered maps and no two waiting messages carry the same
  number.
\<close>

theorem reachable_tables_ok:
  assumes "(protocol_step Q)\<^sup>*\<^sup>* protocol_new p"
  shows "proto_ok p"
  using assms
proof (induction rule: rtranclp_induct)
  case base
  then show ?case by (simp add: proto_ok_def protocol_new_def wait_ok_def map_ok_def)
next
  case (step p p')
  then show ?case using protocol_step_keeps by blast
qed

theorem reachable_tables_ok_witness:
  "proto_ok (snd (prepare_packet_to_send qt_sample 0 0
     (Some (message_item_new 16 None (Some new_device) 0)) protocol_new))"
  by (rule reachable_tables_ok [of qt_sample]) (rule r_into_rtranclp, rule protocol_step.Prepare)

section \<open>Due messages\<close>

text \<open>Where a message whose packet was prepared at \<open>t\<close> waits: its next repetition, or its end if that comes first.\<close>

definition wait_point :: "time \<Rightarrow> message_item \<Rightarrow> time" where
  "wait_point t m = (if mi_resend_timeout m < mi_end_time m - t then t + mi_resend_timeout m else mi_end_time m)"

definition due_at :: "time \<Rightarrow> protocol \<Rightarrow> message_item list" where
  "due_at t p = map snd (filter (\<lambda>e. fst e \<le> t + milliseconds 20) (waiting_messages p))"

text \<open>What happens to one due message: it is handed to the writer again, or its time is up.\<close>

definition alive :: "time \<Rightarrow> message_item \<Rightarrow> bool" where
  "alive t m \<longleftrightarrow> mi_end_time m > t \<and> mi_data_device m \<noteq> None"

definition repeated_copy :: "message_item \<Rightarrow> message_item" where
  "repeated_copy m =
     m\<lparr>mi_flags := mi_flags m OR REPEATED,
       mi_fragment_size := mi_fragment_size (set_fragment_size (mi_fragment_size m div 2) m)\<rparr>"

definition wait_reaction :: "time \<Rightarrow> bool \<Rightarrow> message_item \<Rightarrow> effect list" where
  "wait_reaction t has_writer m =
     (if alive t m then
        (if has_writer then [Writer_Write (repeated_copy m)]
         else message_item_destroy (repeated_copy m))
      else (case mi_timeout_func m of None \<Rightarrow> [] | Some f \<Rightarrow> [Timeout_Func f]))"

lemma repeated_copy_eq:
  "set_flags (mi_flags m OR REPEATED) (set_fragment_size (mi_fragment_size m div 2) m) = repeated_copy m"
  by (simp add: repeated_copy_def set_flags_def set_fragment_size_def)

lemma emit_all_append [simp]: "emit_all es' (emit_all es p) = emit_all (es @ es') p"
  by (simp add: emit_all_def)

lemma emit_emit_all: "emit e p = emit_all [e] p"
  by (simp add: emit_def emit_all_def)

lemma emit_all_Nil [simp]: "emit_all [] p = p"
  by (simp add: emit_all_def)

lemma resend_or_timeout_effects:
  "resend_or_timeout t m (emit_all es p, dead) =
     (emit_all (es @ wait_reaction t (protocol_writer p \<noteq> None) m) p,
      if alive t m then dead else dead @ [m])"
proof -
  have "mi_data_device (repeated_copy m) = mi_data_device m" by (simp add: repeated_copy_def)
  moreover have "protocol_writer (emit_all es p) = protocol_writer p" by (simp add: emit_all_def)
  ultimately show ?thesis
    by (auto simp: resend_or_timeout_def alive_def wait_reaction_def repeated_copy_eq
        send_message_def emit_emit_all split: option.splits)
qed

lemma resend_fold_effects:
  "fold (resend_or_timeout t) ms (emit_all es p, dead) =
     (emit_all (es @ concat (map (wait_reaction t (protocol_writer p \<noteq> None)) ms)) p,
      dead @ filter (\<lambda>m. \<not> alive t m) ms)"
proof (induction ms arbitrary: es dead)
  case (Cons m ms)
  then show ?case by (cases "alive t m") (simp_all add: resend_or_timeout_effects)
qed simp

text \<open>
  A timer call treats exactly the messages whose time point is at most 20 ms away:
  they leave the list, in the order of their time points each is sent again (marked as repeated, with
  half the fragment size but at least 32 bytes) if its end time lies ahead and otherwise has its
  timeout callback run once, the timed-out ones are then destroyed, and nothing else changes.
\<close>

lemma wait_list_effects:
  assumes "proto_ok p" "data \<noteq> int (unat FRAGMENT)"
  shows "process_wait_list Q t1 t2 data p =
    emit_all
      (concat (map (wait_reaction t2 (protocol_writer p \<noteq> None)) (due_at t1 p)) @
       concat (map message_item_destroy (filter (\<lambda>m. \<not> alive t2 m) (due_at t1 p))))
      (p\<lparr>waiting_messages := filter (\<lambda>e. t1 + milliseconds 20 < fst e) (waiting_messages p)\<rparr>)"
proof -
  let ?p = "p\<lparr>waiting_messages := filter (\<lambda>e. t1 + milliseconds 20 < fst e) (waiting_messages p)\<rparr>"
  have ok: "map_ok (waiting_messages p)"
    using assms(1) by (simp add: proto_ok_def wait_ok_def)
  have "pop_waiting_messages t1 p = (due_at t1 p, ?p)"
    using sorted_takeWhile_filter [OF ok]
    by (simp add: pop_waiting_messages_def due_at_def Let_def)
  moreover have "fold (resend_or_timeout t2) (due_at t1 p) (?p, []) =
      (emit_all (concat (map (wait_reaction t2 (protocol_writer p \<noteq> None)) (due_at t1 p))) ?p,
       filter (\<lambda>m. \<not> alive t2 m) (due_at t1 p))"
    using resend_fold_effects [of t2 "due_at t1 p" "[]" ?p "[]"] by simp
  ultimately show ?thesis
    using assms(2) by (simp add: process_wait_list_def)
qed

section \<open>Answers\<close>

text \<open>
  An answer reaches the callback of the question it names, once: the callback of the
  waiting message with that number and command runs on the answer's payload, the message leaves the
  list and is destroyed as answered, and a second answer with the same number does nothing.
\<close>

theorem answer_runs_callback_once:
  assumes "proto_ok p" "(t, m) \<in> set (waiting_messages p)" "mi_answer_func m = Some f"
    and "\<not> throws E (Answer_Func f d)"
  defines "p1 \<equiv> fst (process_answer E (id_or_zero m) (mi_cmd m) (id_or_zero m # d) p)"
  shows "process_answer E (id_or_zero m) (mi_cmd m) (id_or_zero m # d) p = (p1, None) \<and>
    effects p1 = effects p @ [Answer_Func f d] @
      (case mi_finally_func m of None \<Rightarrow> [] | Some g \<Rightarrow> [Finally_Func g True]) \<and>
    set (waiting_messages p1) = set (waiting_messages p) - {(t, m)} \<and>
    process_answer E' (id_or_zero m) (mi_cmd m) d' p1 = (p1, None)"
proof -
  let ?P = "\<lambda>i. id_or_zero i = id_or_zero m \<and> mi_cmd i = mi_cmd m"
  have wok: "wait_ok (waiting_messages p)" using assms(1) by (simp add: proto_ok_def)
  have same: "m' = m \<and> t' = t" if "(t', m') \<in> set (waiting_messages p)" "id_or_zero m' = id_or_zero m"
    for t' m'
  proof -
    have "inj_on (id_or_zero \<circ> snd) (set (waiting_messages p))"
      using wok by (simp add: wait_ok_def distinct_map)
    from inj_onD [OF this _ that(1) assms(2)] that(2) show ?thesis by simp
  qed
  obtain r w where rw: "pop_first ?P (waiting_messages p) = (r, w)"
    by (cases "pop_first ?P (waiting_messages p)")
  obtain v where r: "r = Some v"
    using rw pop_first_None [of ?P "waiting_messages p" w] assms(2) by (cases r) auto
  from pop_first_Some [OF rw [unfolded r]] obtain xs k ys where
    w: "waiting_messages p = xs @ (k, v) # ys" "w = xs @ ys" "id_or_zero v = id_or_zero m" by auto
  have v: "v = m" "k = t" using same [of k v] w by simp_all
  have "distinct (waiting_messages p)"
    using wok by (auto simp: wait_ok_def distinct_map)
  then have set: "set w = set (waiting_messages p) - {(t, m)}"
    using w v by auto
  have none: "pop_first ?P w = (None, w)"
  proof -
    have "\<not> ?P (snd e)" if "e \<in> set w" for e
    proof
      assume "?P (snd e)"
      moreover have "(fst e, snd e) \<in> set (waiting_messages p)" "e \<noteq> (t, m)"
        using that set by simp_all
      ultimately show False using same [of "fst e" "snd e"] by (metis prod.collapse)
    qed
    then show ?thesis by (intro pop_first_no_match) blast
  qed
  have p1: "p1 = emit_all (Answer_Func f d #
      message_item_destroy (m\<lparr>mi_answer_func := None\<rparr>)) (p\<lparr>waiting_messages := w\<rparr>)"
    using assms(3,4) rw r v
    by (simp add: p1_def process_answer_def pop_waiting_answer_def pop_waiting_message_def
        run_answer_func_def call_app_def drop_message_def emit_emit_all)
  have "process_answer E (id_or_zero m) (mi_cmd m) (id_or_zero m # d) p = (p1, None)"
    using assms(3,4) rw r v
    by (simp add: p1 process_answer_def pop_waiting_answer_def pop_waiting_message_def
        run_answer_func_def call_app_def drop_message_def emit_emit_all)
  moreover have "process_answer E' (id_or_zero m) (mi_cmd m) d' p1 = (p1, None)"
    using none
    by (simp add: p1 process_answer_def pop_waiting_answer_def pop_waiting_message_def emit_all_def)
  ultimately show ?thesis
    using set by (simp add: p1 emit_all_def message_item_destroy_def split: option.splits)
qed

section \<open>Two messages at one time point\<close>

text \<open>
  The waiting list is keyed by the time point alone, so a message whose time point is
  taken is not stored: it is destroyed, and neither a repetition nor its timeout callback will follow.
\<close>

theorem equal_time_points_lose_message:
  assumes "proto_ok p" "map_find (waiting_messages p) t = Some other"
    and "id_or_zero other \<noteq> id_or_zero m"
  shows "snd (add_to_waiting t m p) \<and>
    (\<forall>e \<in> set (waiting_messages (fst (add_to_waiting t m p))). id_or_zero (snd e) \<noteq> id_or_zero m)"
proof -
  let ?P = "\<lambda>i. id_or_zero i = id_or_zero m"
  obtain r w where rw: "pop_first ?P (waiting_messages p) = (r, w)"
    by (cases "pop_first ?P (waiting_messages p)")
  have wok: "wait_ok (waiting_messages p)" using assms(1) by (simp add: proto_ok_def)
  note gone = pop_removes_id [OF wok rw]
  have "(t, other) \<in> set (waiting_messages p)"
    using assms(2) by (simp add: map_find_def map_of_SomeD)
  then have mem: "(t, other) \<in> set w"
    using assms(3) rw pop_first_None [of ?P "waiting_messages p" w]
      pop_first_Some [of ?P "waiting_messages p" _ w] by (cases r) fastforce+
  have ok: "map_ok w" using wait_ok_pop(1) [OF wok rw] by (simp add: wait_ok_def)
  then have "distinct (map fst w)" by (auto simp: map_ok_def strict_sorted_iff)
  then have find: "map_find w t = Some other"
    using mem by (simp add: map_find_def)
  then have "map_emplace t m w = w"
    using ok by (rule emplace_taken)
  with gone find show ?thesis
    by (simp add: add_to_waiting_def pop_waiting_message_def rw Let_def)
qed

section \<open>Examples\<close>

definition waiting_item :: "u8 \<Rightarrow> time \<Rightarrow> message_item" where
  "waiting_item i t =
     (message_item_new 16 None (Some new_device) (milliseconds 3000))
       \<lparr>mi_id := Some i, mi_end_time := t, mi_answer_func := Some 1, mi_timeout_func := Some 2\<rparr>"

definition two_waiting :: protocol where
  "two_waiting = protocol_new\<lparr>waiting_messages := [(0, waiting_item 3 0), (seconds 1, waiting_item 4 (seconds 9))]\<rparr>"

lemma two_waiting_ok: "proto_ok two_waiting"
  by (simp add: proto_ok_def two_waiting_def protocol_new_def wait_ok_def map_ok_def waiting_item_def
      message_item_new_def id_or_zero_def seconds_def)

lemma two_waiting_treated:
  "process_wait_list qt_sample 0 0 0 two_waiting =
     emit_all [Timeout_Func 2] (protocol_new\<lparr>waiting_messages := [(seconds 1, waiting_item 4 (seconds 9))]\<rparr>)"
  using wait_list_effects [OF two_waiting_ok, of 0 qt_sample 0 0]
  by (simp add: two_waiting_def protocol_new_def due_at_def milliseconds_def seconds_def
      wait_reaction_def alive_def waiting_item_def message_item_new_def message_item_destroy_def
      FRAGMENT_def)

theorem answer_runs_callback_once_witness:
  "\<exists>p1. process_answer quiet 3 16 [3, 7] two_waiting = (p1, None) \<and>
     effects p1 = [Answer_Func 1 [7]] \<and> process_answer quiet 3 16 [3, 7] p1 = (p1, None)"
proof -
  have "(0, waiting_item 3 0) \<in> set (waiting_messages two_waiting)"
    "mi_answer_func (waiting_item 3 0) = Some 1" "\<not> throws quiet (Answer_Func 1 [7])"
    by (simp_all add: two_waiting_def waiting_item_def quiet_def)
  from answer_runs_callback_once [OF two_waiting_ok this, of quiet "[3, 7]"] show ?thesis
    by (auto simp: waiting_item_def message_item_new_def id_or_zero_def two_waiting_def protocol_new_def)
qed

theorem equal_time_points_lose_message_witness:
  "waiting_ids (waiting_messages (fst (add_to_waiting 0 (waiting_item 5 0) two_waiting))) = [3, 4]"
proof -
  have "map_find (waiting_messages two_waiting) 0 = Some (waiting_item 3 0)"
    "id_or_zero (waiting_item 3 0) \<noteq> id_or_zero (waiting_item 5 0)"
    by (simp_all add: two_waiting_def map_find_def waiting_item_def id_or_zero_def)
  from equal_time_points_lose_message [OF two_waiting_ok this] show ?thesis
    by (simp add: two_waiting_def add_to_waiting_def pop_waiting_message_def drop_message_def Let_def
        waiting_item_def id_or_zero_def)
qed

end
