(* ===== verification/Protocol_Exchange.thy ===== *)
theory Protocol_Exchange
  imports Protocol_Waiting
begin

text \<open>
  Both ends together: what \<open>prepare_packet_to_send\<close> writes is what the other side's \<open>process_bytes\<close>
  reads.  The exact size of a packet against the limit of a UDP datagram, the numbers given to
  messages, and the delivery of a sequence of messages over a line that loses nothing but may cut
  the stream anywhere.
\<close>

section \<open>Payloads\<close>

definition content :: "message_item \<Rightarrow> bytes" where
  "content m = (case mi_data_device m of None \<Rightarrow> [] | Some d \<Rightarrow> dev_bytes d)"

definition answer_prefix :: "message_item \<Rightarrow> bytes" where
  "answer_prefix m = (case mi_answer_id m of None \<Rightarrow> [] | Some a \<Rightarrow> [a])"

definition answer_flag :: "message_item \<Rightarrow> u8" where
  "answer_flag m = (case mi_answer_id m of None \<Rightarrow> mi_flags m | Some _ \<Rightarrow> mi_flags m OR ANSWER)"

text \<open>The bytes that are copied behind the header, for a position inside the device.\<close>

lemma add_raw_data_slice:
  assumes "unat pos \<le> dev_size d" "dev_size d < 2 ^ 32"
  shows "add_raw_data_to_packet data pos n d =
    (data @ take (unat n) (drop (unat pos) (dev_bytes d)),
     d\<lparr>dev_pos := unat pos + min (unat n) (dev_size d - unat pos)\<rparr>)"
proof -
  define r where "r = min n (of_nat (dev_size d) - pos)"
  have size: "unat (of_nat (dev_size d) :: u32) = dev_size d"
    using assms(2) by (simp add: unat_of_nat_u32)
  then have rest: "unat (of_nat (dev_size d) - pos) = dev_size d - unat pos"
    using assms(1) by (simp add: unat_sub word_le_nat_alt)
  have r: "unat r = min (unat n) (dev_size d - unat pos)"
    using rest by (simp add: r_def min_def word_le_nat_alt)
  have z: "zero_fill (unat pos) (dev_bytes d) = dev_bytes d"
    using assms(1) by (simp add: zero_fill_def dev_size_def)
  have t: "take (unat r) (drop (unat pos) (dev_bytes d)) = take (unat n) (drop (unat pos) (dev_bytes d))"
    by (simp add: r dev_size_def min_def)
  have l: "length (take (unat n) (drop (unat pos) (dev_bytes d))) = unat r"
    by (simp add: r dev_size_def min.commute)
  have "add_raw_data_to_packet data pos n d =
      (data @ take (unat n) (drop (unat pos) (dev_bytes d)), d\<lparr>dev_pos := unat pos + unat r\<rparr>)"
    using l t z [unfolded zero_fill_def]
    by (simp add: add_raw_data_to_packet_def Let_def r_def [symmetric] dev_seek_def z dev_read_def
        zero_fill_def)
  then show ?thesis by (simp add: r)
qed

lemma packet_payload_small:
  assumes "mi_data_device m = Some d" "dev_size d \<le> unat (mi_fragment_size m)"
  shows "packet_payload Q t m d =
    (answer_flag m, answer_prefix m @ dev_bytes d,
     m\<lparr>mi_data_device := Some (d\<lparr>dev_pos := dev_size d\<rparr>)\<rparr>)"
proof -
  have lt: "dev_size d < 2 ^ 32"
    using assms(2) unat_u32_less [of "mi_fragment_size m"] by simp
  have "add_raw_data_to_packet data 0 (mi_fragment_size m) d = (data @ dev_bytes d, d\<lparr>dev_pos := dev_size d\<rparr>)"
    for data
    using add_raw_data_slice [of 0 d data "mi_fragment_size m"] lt assms(2)
    by (simp add: min_def dev_size_def)
  then show ?thesis
    using assms
    by (simp add: packet_payload_def Let_def answer_flag_def answer_prefix_def split: option.splits)
qed

lemma packet_payload_fragment:
  assumes "dev_size d > unat (mi_fragment_size m)" "dev_pos d < dev_size d" "dev_size d < 2 ^ 32"
  shows "packet_payload Q t m d =
    (answer_flag m OR FRAGMENT,
     answer_prefix m @ put32 Q (of_nat (dev_size d)) @ put32 Q (of_nat (dev_pos d)) @
       take (unat (mi_fragment_size m)) (drop (dev_pos d) (dev_bytes d)),
     m\<lparr>mi_data_device := Some (d\<lparr>dev_pos := dev_pos d + min (unat (mi_fragment_size m)) (dev_size d - dev_pos d)\<rparr>),
       mi_end_time := t + seconds 10\<rparr>)"
proof -
  have "unat (of_nat (dev_pos d) :: u32) = dev_pos d"
    using assms(2,3) by (simp add: unat_of_nat_u32)
  with add_raw_data_slice [of "of_nat (dev_pos d)" d _ "mi_fragment_size m"] assms
  show ?thesis
    by (simp add: packet_payload_def Let_def answer_flag_def answer_prefix_def dev_at_end_def
        split: option.splits)
qed

lemma packet_payload_announce:
  assumes "dev_size d > unat (mi_fragment_size m)" "dev_size d \<le> dev_pos d"
  shows "packet_payload Q t m d =
    (answer_flag m OR FRAGMENT,
     answer_prefix m @ put32 Q (of_nat (dev_size d)) @ put32 Q (of_nat (dev_pos d)) @
       put32 Q (mi_fragment_size m),
     m\<lparr>mi_data_device := Some d, mi_end_time := t + seconds 10\<rparr>)"
  using assms
  by (simp add: packet_payload_def Let_def answer_flag_def answer_prefix_def dev_at_end_def
      split: option.splits)

lemma prepare_packet_fst:
  assumes "mi_data_device m = Some d" "packet_payload Q t1 m d = (flags, data, m1)"
  shows "fst (prepare_packet_to_send Q t1 t2 (Some m) p) =
    (let big = unat (mi_min_compress_size m) < unat (of_nat (length data) :: u32)
     in packet_bytes Q (case mi_id m of Some i \<Rightarrow> i | None \<Rightarrow> next_tx_msg_id p) (mi_cmd m)
          (if big then flags OR COMPRESSED else flags) (if big then compress Q data else data))"
  using assms
  by (auto simp: prepare_packet_to_send_def Let_def split: option.splits prod.splits)

lemma prepare_packet_next_id:
  assumes "mi_data_device m = Some d"
  shows "next_tx_msg_id (snd (prepare_packet_to_send Q t1 t2 (Some m) p)) =
    (if mi_id m = None then next_tx_msg_id p + 1 else next_tx_msg_id p)"
proof -
  have step: "next_tx_msg_id (emit e q) = next_tx_msg_id q"
    "next_tx_msg_id (drop_message x q) = next_tx_msg_id q" for e q x
    by (auto simp: emit_def drop_message_def emit_all_def split: option.splits)
  have add: "next_tx_msg_id (fst (add_to_waiting t i q)) = next_tx_msg_id q" for t i q
    by (simp add: step add_to_waiting_def pop_waiting_message_def Let_def split_beta)
  show ?thesis
    using assms
    by (cases "mi_id m") (simp_all add: prepare_packet_to_send_def Let_def split_beta step add)
qed

section \<open>The size of a packet\<close>

text \<open>
  The length of an uncompressed packet, exactly: nine bytes of header, one for an
  answer number, eight for the fragment header, and the bytes themselves.
\<close>

lemma prepared_length:
  assumes "qt_documented Q" "mi_data_device m = Some d" "dev_size d < 2 ^ 31"
    and "dev_size d + 17 \<le> unat (mi_min_compress_size m)"
  shows "length (fst (prepare_packet_to_send Q t1 t2 (Some m) p)) =
    9 + length (answer_prefix m) +
    (if dev_size d \<le> unat (mi_fragment_size m) then dev_size d
     else 8 + (if dev_pos d < dev_size d
               then min (unat (mi_fragment_size m)) (dev_size d - dev_pos d) else 4))"
proof -
  obtain flags data m1 where pl: "packet_payload Q t1 m d = (flags, data, m1)"
    by (cases "packet_payload Q t1 m d")
  have p32: "length (put32 Q x) = 4" for x
    by (rule qt_documented.put32_length [OF assms(1)])
  have ans: "length (answer_prefix m) \<le> 1"
    by (simp add: answer_prefix_def split: option.splits)
  have len: "length data = length (answer_prefix m) +
    (if dev_size d \<le> unat (mi_fragment_size m) then dev_size d
     else 8 + (if dev_pos d < dev_size d
               then min (unat (mi_fragment_size m)) (dev_size d - dev_pos d) else 4))"
    using pl packet_payload_small [OF assms(2), of Q t1] packet_payload_fragment [of m d Q t1]
      packet_payload_announce [of m d Q t1] assms(3)
    by (auto simp: p32 not_le not_less dev_size_def min.commute)
  then have small: "length data \<le> unat (mi_min_compress_size m)" "length data < 2 ^ 32"
    using assms(3,4) ans by (auto split: if_splits)
  have "fst (prepare_packet_to_send Q t1 t2 (Some m) p) =
      packet_bytes Q (case mi_id m of Some i \<Rightarrow> i | None \<Rightarrow> next_tx_msg_id p) (mi_cmd m) flags data"
    using prepare_packet_fst [OF assms(2) pl, of t2 p] small by (simp add: unat_of_nat_u32)
  with len show ?thesis
    by (simp add: qt_documented.length_packet_bytes [OF assms(1)])
qed

text \<open>
  With any fragment size that \<open>set_fragment_size\<close> admits, an uncompressed packet without
  an answer number fits a UDP datagram.
\<close>

theorem packet_fits_datagram:
  assumes "qt_documented Q" "mi_data_device m = Some d" "dev_size d < 2 ^ 31"
    and "dev_size d + 17 \<le> unat (mi_min_compress_size m)"
    and "32 \<le> mi_fragment_size m" "mi_fragment_size m \<le> max_packet_data_size" "mi_answer_id m = None"
  shows "length (fst (prepare_packet_to_send Q t1 t2 (Some m) p)) \<le> unat max_udp_packet_size"
proof -
  have "unat (mi_fragment_size m) \<le> 65490"
    using assms(6) by (simp add: word_le_nat_alt)
  with prepared_length [OF assms(1-4), of t1 t2 p] assms(7) show ?thesis
    by (simp add: answer_prefix_def max_udp_packet_size_def split: if_splits)
qed

text \<open>
  The reserve of 17 bytes does not count the answer number: a full-sized fragment of an
  answer gives a packet one byte longer than a UDP datagram can carry.
\<close>

theorem answer_fragment_exceeds_datagram:
  assumes "qt_documented Q" "mi_data_device m = Some d" "dev_size d < 2 ^ 31"
    and "dev_size d + 17 \<le> unat (mi_min_compress_size m)"
    and "mi_fragment_size m = max_packet_data_size" "mi_answer_id m = Some a"
    and "unat max_packet_data_size < dev_size d" "dev_pos d + unat max_packet_data_size \<le> dev_size d"
  shows "length (fst (prepare_packet_to_send Q t1 t2 (Some m) p)) = unat max_udp_packet_size + 1"
  using prepared_length [OF assms(1-4), of t1 t2 p] assms(5-8)
  by (simp add: answer_prefix_def max_udp_packet_size_def min_def)

section \<open>A sequence of messages\<close>

text \<open>A message of the application that fits one packet and is not an answer.\<close>

definition plain :: "message_item \<Rightarrow> bool" where
  "plain m \<longleftrightarrow> mi_data_device m \<noteq> None \<and> length (content m) \<le> unat (mi_fragment_size m) \<and>
     mi_id m = None \<and> mi_answer_id m = None \<and> mi_flags m = 0 \<and>
     mi_cmd m \<noteq> cmd_ping \<and> mi_cmd m \<noteq> cmd_remove_fragment"

fun prepare_all ::
    "qt \<Rightarrow> (time \<times> time \<times> message_item) list \<Rightarrow> protocol \<Rightarrow> bytes list \<times> protocol" where
  "prepare_all Q [] p = ([], p)"
| "prepare_all Q ((t1, t2, m) # ms) p =
     (case prepare_packet_to_send Q t1 t2 (Some m) p of
        (packet, p1) \<Rightarrow> (case prepare_all Q ms p1 of (packets, p2) \<Rightarrow> (packet # packets, p2)))"

fun deliveries :: "u8 \<Rightarrow> message_item list \<Rightarrow> effect list" where
  "deliveries k [] = []"
| "deliveries k (m # ms) = Process_Message k (mi_cmd m) (content m) # deliveries (k + 1) ms"

definition wire_form :: "qt \<Rightarrow> u8 \<Rightarrow> message_item \<Rightarrow> msg" where
  "wire_form Q k m =
     (if unat (mi_min_compress_size m) < length (content m)
      then (k, mi_cmd m, COMPRESSED, compress Q (content m)) else (k, mi_cmd m, 0, content m))"

lemma prepare_plain:
  assumes "plain m"
  shows "fst (prepare_packet_to_send Q t1 t2 (Some m) p) = encode Q (wire_form Q (next_tx_msg_id p) m)"
    and "next_tx_msg_id (snd (prepare_packet_to_send Q t1 t2 (Some m) p)) = next_tx_msg_id p + 1"
proof -
  obtain d where d: "mi_data_device m = Some d" using assms by (auto simp: plain_def)
  have c: "content m = dev_bytes d" by (simp add: content_def d)
  then have len: "dev_size d \<le> unat (mi_fragment_size m)"
    using assms by (simp add: plain_def dev_size_def)
  then have "unat (of_nat (length (content m)) :: u32) = length (content m)"
    using c unat_u32_less [of "mi_fragment_size m"] by (simp add: unat_of_nat_u32 dev_size_def)
  then have "fst (prepare_packet_to_send Q t1 t2 (Some m) p) =
      packet_bytes Q (next_tx_msg_id p) (mi_cmd m)
        (if unat (mi_min_compress_size m) < length (content m) then COMPRESSED else 0)
        (if unat (mi_min_compress_size m) < length (content m) then compress Q (content m) else content m)"
    using prepare_packet_fst [OF d packet_payload_small [OF d len, of Q t1], of t2 p] assms c
    by (simp add: plain_def answer_flag_def answer_prefix_def Let_def)
  then show "fst (prepare_packet_to_send Q t1 t2 (Some m) p) = encode Q (wire_form Q (next_tx_msg_id p) m)"
    by (simp add: encode_def wire_form_def)
  show "next_tx_msg_id (snd (prepare_packet_to_send Q t1 t2 (Some m) p)) = next_tx_msg_id p + 1"
    using prepare_packet_next_id [OF d] assms by (simp add: plain_def)
qed

fun wire_forms :: "qt \<Rightarrow> u8 \<Rightarrow> message_item list \<Rightarrow> msg list" where
  "wire_forms Q k [] = []"
| "wire_forms Q k (m # ms) = wire_form Q k m # wire_forms Q (k + 1) ms"

lemma prepare_all_plain:
  assumes "\<forall>(t1, t2, m) \<in> set ms. plain m" "prepare_all Q ms p = (packets, p')"
  shows "packets = map (encode Q) (wire_forms Q (next_tx_msg_id p) (map (snd \<circ> snd) ms))"
    and "next_tx_msg_id p' = next_tx_msg_id p + of_nat (length ms)"
  using assms
proof (induction Q ms p arbitrary: packets p' rule: prepare_all.induct)
  case (2 Q t1 t2 m ms p)
  obtain pk p1 where pk: "prepare_packet_to_send Q t1 t2 (Some m) p = (pk, p1)"
    by (cases "prepare_packet_to_send Q t1 t2 (Some m) p")
  obtain pks p2 where rest: "prepare_all Q ms p1 = (pks, p2)" by (cases "prepare_all Q ms p1")
  note pl = prepare_plain [of m Q t1 t2 p]
  {
    case 1
    then show ?case using "2.IH"(1) [OF pk [symmetric] _ rest] pl by (simp add: pk rest)
  next
    case 2
    then show ?case using "2.IH"(2) [OF pk [symmetric] _ rest] pl by (simp add: pk rest)
  }
qed simp_all

lemma wire_forms_fit:
  "\<forall>m \<in> set ms. length (compress Q (content m)) \<le> 2 ^ 31 \<and> length (content m) \<le> 2 ^ 31 \<Longrightarrow>
   \<forall>m \<in> set (wire_forms Q k ms). fits m"
  by (induction ms arbitrary: k) (auto simp: fits_def wire_form_def)

lemma receive_plain:
  assumes "qt_documented Q" "plain m" "next_rx_msg_id p = k"
    and "\<not> throws E (Process_Message k (mi_cmd m) (content m))"
  shows "process_messages Q E [wire_form Q k m] p =
    (emit (Process_Message k (mi_cmd m) (content m)) (p\<lparr>next_rx_msg_id := k + 1\<rparr>), None)"
proof (cases "unat (mi_min_compress_size m) < length (content m)")
  case True
  then have "content m \<noteq> []" by auto
  then have "compress Q (content m) \<noteq> []" "uncompress Q (compress Q (content m)) = content m"
    using qt_documented.compress_not_Nil [OF assms(1)] qt_documented.uncompress_compress [OF assms(1)]
    by simp_all
  moreover have "\<not> has_flag COMPRESSED REPEATED" "has_flag COMPRESSED COMPRESSED"
    "\<not> has_flag COMPRESSED FRAGMENT_QUERY" "\<not> has_flag COMPRESSED (FRAGMENT OR ANSWER)"
    by (simp_all add: has_flag_def flag_defs)
  ultimately show ?thesis
    using assms(2-4) True \<open>content m \<noteq> []\<close>
    by (simp add: wire_form_def internal_process_message_def track_in_order dispatch_def plain_def
        call_app_def)
next
  case False
  have "\<not> has_flag 0 f" for f by (simp add: has_flag_def)
  with assms(2-4) False show ?thesis
    by (simp add: wire_form_def internal_process_message_def track_in_order dispatch_def plain_def
        call_app_def)
qed

lemma receive_all_plain:
  assumes "qt_documented Q" "\<forall>m \<in> set ms. plain m" "\<forall>e. \<not> throws E e"
  shows "process_messages Q E (wire_forms Q (next_rx_msg_id p) ms) p =
    (p\<lparr>next_rx_msg_id := next_rx_msg_id p + of_nat (length ms),
       effects := effects p @ deliveries (next_rx_msg_id p) ms\<rparr>, None)"
  using assms(2)
proof (induction ms arbitrary: p)
  case (Cons m ms)
  let ?k = "next_rx_msg_id p"
  let ?p = "emit (Process_Message ?k (mi_cmd m) (content m)) (p\<lparr>next_rx_msg_id := ?k + 1\<rparr>)"
  have 1: "process_messages Q E [wire_form Q ?k m] p = (?p, None)"
    using receive_plain [OF assms(1), of m p ?k E] Cons.prems assms(3) by simp
  have "process_messages Q E (wire_forms Q ?k (m # ms)) p =
      process_messages Q E (wire_forms Q (?k + 1) ms) ?p"
    using process_messages_append [of Q E "[wire_form Q ?k m]" "wire_forms Q (?k + 1) ms" p] 1 by simp
  also have "?k + 1 = next_rx_msg_id ?p" by (simp add: emit_def)
  finally show ?case
    using Cons.IH [of ?p] Cons.prems by (simp add: emit_def ac_simps)
qed simp

lemma delivery:
  assumes "qt_documented Q" "clean r" "next_rx_msg_id r = next_tx_msg_id s" "ms \<noteq> []"
    and "\<forall>(t1, t2, m) \<in> set ms. plain m \<and> length (compress Q (content m)) \<le> 2 ^ 31 \<and>
           length (content m) \<le> 2 ^ 31"
    and "\<forall>e. \<not> throws E e" "prepare_all Q ms s = (packets, s')" "concat cs = concat packets"
  shows "\<exists>r'. process_chunks Q E cs r = Inr r' \<and> clean r' \<and>
    next_rx_msg_id r' = next_tx_msg_id s' \<and>
    effects r' = effects r @ deliveries (next_tx_msg_id s) (map (snd \<circ> snd) ms)"
proof -
  let ?ms = "map (snd \<circ> snd) ms" and ?k = "next_rx_msg_id r"
  have plain: "\<forall>(t1, t2, m) \<in> set ms. plain m" "\<forall>m \<in> set ?ms. plain m"
    using assms(5) by fastforce+
  have pk: "packets = map (encode Q) (wire_forms Q ?k ?ms)"
    "next_tx_msg_id s' = ?k + of_nat (length ms)"
    using prepare_all_plain [OF plain(1) assms(7)] assms(3) by simp_all
  have "\<forall>m \<in> set ?ms. length (compress Q (content m)) \<le> 2 ^ 31 \<and> length (content m) \<le> 2 ^ 31"
    using assms(5) by fastforce
  then have fit: "\<forall>m \<in> set (wire_forms Q ?k ?ms). fits m"
    by (rule wire_forms_fit)
  have ne: "wire_forms Q ?k ?ms \<noteq> []" using assms(4) by (cases ms) simp_all
  note got = receive_all_plain [OF assms(1) plain(2) assms(6), of r]
  have "process_chunks Q E cs r = Inr (put_rx (emptied (rx_device r)) [] (\<lambda>_. now E)
      (r\<lparr>next_rx_msg_id := ?k + of_nat (length ?ms), effects := effects r @ deliveries ?k ?ms\<rparr>))"
    using assms(8) pk(1) by (intro stream_delivered [OF assms(1,2) _ fit ne got]) simp
  then show ?thesis
    using pk(2) assms(3) by (simp add: clean_def emptied_def put_rx_def)
qed

text \<open>
  Property C7.  Delivery: the packets one side prepares for a sequence of messages, cut into whatever
  pieces, make the other side, if it expects the sender's next number, hand exactly these messages,
  unpacked, to the application, in order, under consecutive numbers; afterwards both sides agree on
  the next number and the receiver's buffer is empty.
\<close>

theorem messages_delivered_in_order:
  assumes "qt_documented Q" "clean r" "next_rx_msg_id r = next_tx_msg_id s" "ms \<noteq> []"
    and "\<forall>(t1, t2, m) \<in> set ms. plain m \<and> length (compress Q (content m)) \<le> 2 ^ 31 \<and>
           length (content m) \<le> 2 ^ 31"
    and "\<forall>e. \<not> throws E e" "prepare_all Q ms s = (packets, s')" "concat cs = concat packets"
  shows "\<exists>r'. process_chunks Q E cs r = Inr r' \<and> clean r' \<and>
    next_rx_msg_id r' = next_tx_msg_id s' \<and>
    effects r' = effects r @ deliveries (next_tx_msg_id s) (map (snd \<circ> snd) ms)"
  by (rule delivery [OF assms])

section \<open>Examples\<close>

definition sample_item :: "u8 option \<Rightarrow> bytes \<Rightarrow> message_item" where
  "sample_item a bs =
     (message_item_new 16 a (Some \<lparr>dev_bytes = bs, dev_pos = 0, dev_open = True\<rparr>) (milliseconds 3000))
       \<lparr>mi_fragment_size := 65490, mi_min_compress_size := 100000\<rparr>"

theorem packet_fits_datagram_witness:
  "length (fst (prepare_packet_to_send qt_sample 0 0 (Some (sample_item None (replicate 70000 0)))
     protocol_new)) \<le> 65507"
  using packet_fits_datagram [OF qt_sample_documented, of "sample_item None (replicate 70000 0)"
      "\<lparr>dev_bytes = replicate 70000 0, dev_pos = 0, dev_open = True\<rparr>" 0 0 protocol_new]
  by (simp add: sample_item_def message_item_new_def dev_size_def max_udp_packet_size_def)

theorem answer_fragment_exceeds_datagram_witness:
  "length (fst (prepare_packet_to_send qt_sample 0 0 (Some (sample_item (Some 7) (replicate 70000 0)))
     protocol_new)) = 65508"
  using answer_fragment_exceeds_datagram [OF qt_sample_documented,
      of "sample_item (Some 7) (replicate 70000 0)"
      "\<lparr>dev_bytes = replicate 70000 0, dev_pos = 0, dev_open = True\<rparr>" 7 0 0 protocol_new]
  by (simp add: sample_item_def message_item_new_def dev_size_def max_udp_packet_size_def)

theorem messages_delivered_in_order_witness:
  "\<exists>r'. process_chunks qt_sample quiet
      [concat (fst (prepare_all qt_sample [(0, 0, sample_item None [4, 5]), (0, 0, sample_item None [])]
         protocol_new))] protocol_new = Inr r' \<and>
    effects r' = [Process_Message 0 16 [4, 5], Process_Message 1 16 []]"
proof -
  let ?ms = "[(0, 0, sample_item None [4, 5]), (0, 0, sample_item None [])]"
  obtain packets s' where p: "prepare_all qt_sample ?ms protocol_new = (packets, s')"
    by (cases "prepare_all qt_sample ?ms protocol_new")
  have "\<forall>(t1, t2, m) \<in> set ?ms. plain m \<and> length (compress qt_sample (content m)) \<le> 2 ^ 31 \<and>
      length (content m) \<le> 2 ^ 31"
    by (simp add: plain_def content_def sample_item_def message_item_new_def cmd_defs qt_sample_def)
  from messages_delivered_in_order [OF qt_sample_documented protocol_new_clean _ _ this _ p, of quiet
      "[concat packets]"] p
  show ?thesis
    by (simp add: protocol_new_def quiet_def content_def sample_item_def message_item_new_def) blast
qed

end
