(* ===== verification/Fragment_Parts.thy ===== *)
theory Fragment_Parts
  imports Protocol_Exchange
begin

unbundle bit_operations_syntax

text \<open>
  The steps of the transfer of a message in fragments between two protocols: how what an end has handed to
  its writer reaches the other end, what the sender does when it sends a part and when a query arrives, what
  the receiver does with the announcement, with a part and with the last part.
\<close>

section \<open>A line between two protocols\<close>

text \<open>The messages a protocol has handed to its writer, and the state without them.\<close>

fun written :: "effect list \<Rightarrow> message_item list" where
  "written [] = []"
| "written (Writer_Write m # es) = m # written es"
| "written (_ # es) = written es"

definition is_write :: "effect \<Rightarrow> bool" where
  "is_write e = (case e of Writer_Write _ \<Rightarrow> True | _ \<Rightarrow> False)"

definition drain :: "qt \<Rightarrow> time \<Rightarrow> protocol \<Rightarrow> bytes list \<times> protocol" where
  "drain Q t p =
     prepare_all Q (map (\<lambda>m. (t, t, m)) (written (effects p)))
       (p\<lparr>effects := filter (\<lambda>e. \<not> is_write e) (effects p)\<rparr>)"

text \<open>
  One round: the packets of the first end reach the second, and what that hands to its writer then
  reaches the first.
\<close>

definition line_round ::
    "qt \<Rightarrow> env \<Rightarrow> protocol \<times> protocol \<Rightarrow> undefined_behaviour + protocol \<times> protocol" where
  "line_round Q E s =
     (case s of (a, b) \<Rightarrow>
        case drain Q (now E) a of (pa, a1) \<Rightarrow>
          (case process_chunks Q E pa b of
             Inl u \<Rightarrow> Inl u
           | Inr b1 \<Rightarrow>
               (case drain Q (now E) b1 of (pb, b2) \<Rightarrow>
                  (case process_chunks Q E pb a1 of
                     Inl u \<Rightarrow> Inl u
                   | Inr a2 \<Rightarrow> Inr (a2, b2)))))"

fun line_rounds ::
    "qt \<Rightarrow> env list \<Rightarrow> protocol \<times> protocol \<Rightarrow> undefined_behaviour + protocol \<times> protocol" where
  "line_rounds Q [] s = Inr s"
| "line_rounds Q (E # Es) s =
     (case line_round Q E s of Inl u \<Rightarrow> Inl u | Inr s' \<Rightarrow> line_rounds Q Es s')"

lemma written_append [simp]: "written (es @ fs) = written es @ written fs"
  by (induction es rule: written.induct) simp_all

lemma is_write_simps [simp]:
  "is_write (Writer_Write m)" "\<not> is_write (Writer_Add_Timeout t x)" "\<not> is_write (Process_Message i c d)"
  "\<not> is_write (Finally_Func f ok)"
  by (simp_all add: is_write_def)

lemma unwritten [simp]: "written es = [] \<Longrightarrow> filter (\<lambda>e. \<not> is_write e) es = es"
  by (induction es rule: written.induct) (simp_all add: is_write_def)

text \<open>An end with one message for its writer.\<close>

lemma drain_one:
  assumes "written (effects p) = [m]"
  shows "drain Q t p =
    (case prepare_packet_to_send Q t t (Some m) (p\<lparr>effects := filter (\<lambda>e. \<not> is_write e) (effects p)\<rparr>) of
       (packet, p1) \<Rightarrow> ([packet], p1))"
  using assms by (simp add: drain_def split: prod.splits)

lemma drain_none: "written (effects p) = [] \<Longrightarrow> drain Q t p = ([], p)"
  by (simp add: drain_def unwritten)

section \<open>Packets\<close>

definition packed :: "qt \<Rightarrow> u32 \<Rightarrow> u8 \<Rightarrow> u8 \<Rightarrow> u8 \<Rightarrow> bytes \<Rightarrow> msg" where
  "packed Q min_size k cmd flags data =
     (if unat min_size < length data then (k, cmd, flags OR COMPRESSED, compress Q data)
      else (k, cmd, flags, data))"

lemma has_flag_compressed:
  "has_flag (flags OR COMPRESSED) f \<longleftrightarrow> has_flag flags f \<or> has_flag COMPRESSED f"
  by (metis (no_types, lifting) has_flag_def bit.conj_disj_distrib2 or_eq_0_iff)

lemma dispatch_compressed: "dispatch Q E i cmd (flags OR COMPRESSED) data p = dispatch Q E i cmd flags data p"
proof -
  have "has_flag (flags OR COMPRESSED) FRAGMENT_QUERY = has_flag flags FRAGMENT_QUERY"
    "has_flag (flags OR COMPRESSED) (FRAGMENT OR ANSWER) = has_flag flags (FRAGMENT OR ANSWER)"
    "has_flag (flags OR COMPRESSED) ANSWER = has_flag flags ANSWER"
    "has_flag (flags OR COMPRESSED) FRAGMENT = has_flag flags FRAGMENT"
    by (simp_all add: has_flag_compressed) (simp_all add: has_flag_def flag_defs)
  then show ?thesis by (simp only: dispatch_def)
qed

text \<open>What the receiver does with a packed message whose number it accepts.\<close>

lemma receive_packed:
  assumes "qt_documented Q" "\<not> has_flag flags COMPRESSED" "data \<noteq> []"
    and "track_msg_id E k flags p = (p1, True, None)" "dispatch Q E k cmd flags data p1 = (p2, None)"
  shows "process_messages Q E [packed Q min_size k cmd flags data] p = (p2, None)"
proof -
  have r: "track_msg_id E k (flags OR COMPRESSED) p = track_msg_id E k flags p"
    by (simp add: track_msg_id_def has_flag_compressed) (simp add: has_flag_def flag_defs)
  have c: "compress Q data \<noteq> []" "uncompress Q (compress Q data) = data"
    using qt_documented.compress_not_Nil [OF assms(1)] qt_documented.uncompress_compress [OF assms(1)]
      assms(3) by simp_all
  have f: "has_flag (flags OR COMPRESSED) COMPRESSED"
    by (simp add: has_flag_compressed) (simp add: has_flag_def flag_defs)
  show ?thesis
    using assms(2-5) r c f
    by (simp add: packed_def internal_process_message_def dispatch_compressed)
qed

lemma prepare_packed:
  assumes "mi_data_device m = Some d" "packet_payload Q t m d = (flags, data, m1)"
    and "length data < 2 ^ 32" "mi_id m = Some k \<or> mi_id m = None \<and> k = next_tx_msg_id p"
  shows "fst (prepare_packet_to_send Q t t (Some m) p) =
    encode Q (packed Q (mi_min_compress_size m) k (mi_cmd m) flags data)"
proof -
  have "(case mi_id m of Some i \<Rightarrow> i | None \<Rightarrow> next_tx_msg_id p) = k" using assms(4) by auto
  with prepare_packet_fst [OF assms(1,2), of t p] assms(3) show ?thesis
    by (simp add: encode_def packed_def Let_def unat_of_nat_u32)
qed

text \<open>
  The state after a packet was prepared: a message whose time is up is gone, any other one goes to
  an empty waiting list.
\<close>

lemma prepare_released:
  assumes "mi_data_device m = Some d" "packet_payload Q t m d = (flags, data, m1)"
    and "mi_end_time m1 \<le> t2" "mi_id m = None"
  shows "snd (prepare_packet_to_send Q t t2 (Some m) p) =
    p\<lparr>next_tx_msg_id := next_tx_msg_id p + 1, last_msg_send_time := t2\<rparr>"
  using assms by (simp add: prepare_packet_to_send_def Let_def split_beta)

lemma prepare_waiting_at:
  assumes "mi_data_device m = Some d" "packet_payload Q t m d = (flags, data, m1)"
    and "t < mi_end_time m1" "waiting_messages p = []" "protocol_writer p \<noteq> None"
    and "mi_id m = Some i \<or> mi_id m = None \<and> i = next_tx_msg_id p"
  shows "snd (prepare_packet_to_send Q t t (Some m) p) =
    p\<lparr>next_tx_msg_id := next_tx_msg_id p + (if mi_id m = None then 1 else 0),
      last_msg_send_time := t, waiting_messages := [(wait_point t m1, m1\<lparr>mi_id := Some i\<rparr>)],
      effects := effects p @ [Writer_Add_Timeout (wait_point t m1) 0]\<rparr>"
proof -
  have add: "add_to_waiting w x q = (q\<lparr>waiting_messages := [(w, x)]\<rparr>, False)"
    if "waiting_messages q = []" for w x q
    using that by (simp add: add_to_waiting_def pop_waiting_message_def drop_message_def map_find_def)
  show ?thesis
    using assms(6) assms(1-5)
    by (elim disjE) (simp_all add: prepare_packet_to_send_def Let_def split_beta add emit_def wait_point_def)
qed

section \<open>Queries\<close>

definition query_item :: "qt \<Rightarrow> u8 \<Rightarrow> bytes \<Rightarrow> u8 \<Rightarrow> message_item" where
  "query_item Q cmd data flags =
     (message_item_new cmd None
        (Some \<lparr>dev_bytes = data, dev_pos = length data, dev_open = True\<rparr>) (milliseconds 3000))
       \<lparr>mi_flags := flags\<rparr>"

lemma finish_query:
  assumes "writer_has_protocol p1" "protocol_writer p2 \<noteq> None"
  shows "finish_sender (fragment_query_sender Q cmd i pos n p1) p2 =
    emit (Writer_Write (query_item Q cmd ([i] @ put32 Q pos @ put32 Q n) FRAGMENT_QUERY)) p2"
  using assms
  by (auto simp: finish_sender_def fragment_query_sender_def Let_def send_def protocol_sender_new_def
      sender_put_def protocol_sender_destroy_def send_message_def query_item_def message_item_new_def
      set_flags_def new_device_def device_defs emit_all_def emit_def)

lemma finish_remove:
  assumes "writer_has_protocol p1" "protocol_writer p2 \<noteq> None"
  shows "finish_sender (sender_put [i] (send cmd_remove_fragment p1)) p2 =
    emit (Writer_Write (query_item Q cmd_remove_fragment [i] 0)) p2"
  using assms
  by (auto simp: finish_sender_def Let_def send_def protocol_sender_new_def
      sender_put_def protocol_sender_destroy_def send_message_def query_item_def message_item_new_def
      set_flags_def new_device_def device_defs emit_all_def emit_def)

text \<open>A short message that nobody waits for is drained and forgotten.\<close>

lemma drain_query:
  assumes "written (effects p) = [query_item Q cmd data flags]" "0 \<le> t" "length data \<le> 512"
  shows "drain Q t p =
    ([encode Q (next_tx_msg_id p, cmd, flags, data)],
     p\<lparr>next_tx_msg_id := next_tx_msg_id p + 1, last_msg_send_time := t,
       effects := filter (\<lambda>e. \<not> is_write e) (effects p)\<rparr>)"
proof -
  let ?m = "query_item Q cmd data flags" and ?d = "\<lparr>dev_bytes = data, dev_pos = length data, dev_open = True\<rparr>"
  have m: "mi_data_device ?m = Some ?d" "mi_id ?m = None" "mi_min_compress_size ?m = 512"
    "mi_cmd ?m = cmd" "mi_end_time ?m = 0" "mi_fragment_size ?m = 32745" "mi_answer_id ?m = None"
    "mi_flags ?m = flags"
    by (simp_all add: query_item_def message_item_new_def)
  have "packet_payload Q t ?m ?d = (flags, data, ?m\<lparr>mi_data_device := Some (?d\<lparr>dev_pos := dev_size ?d\<rparr>)\<rparr>)"
    using packet_payload_small [OF m(1), of Q t] assms(3) m
    by (simp add: dev_size_def answer_flag_def answer_prefix_def)
  from prepare_packed [OF m(1) this] prepare_released [OF m(1) this] m assms(2,3)
  have "prepare_packet_to_send Q t t (Some ?m) (p\<lparr>effects := filter (\<lambda>e. \<not> is_write e) (effects p)\<rparr>) =
    (encode Q (next_tx_msg_id p, cmd, flags, data),
     p\<lparr>next_tx_msg_id := next_tx_msg_id p + 1, last_msg_send_time := t,
       effects := filter (\<lambda>e. \<not> is_write e) (effects p)\<rparr>)"
    by (intro prod_eqI) (auto simp: packed_def)
  with drain_one [OF assms(1)] show ?thesis by simp
qed

section \<open>The sender of a fragmented message\<close>

text \<open>The message in the course of its transfer: number, device, fragment size and end time vary.\<close>

definition in_course :: "message_item \<Rightarrow> u8 \<Rightarrow> bytes \<Rightarrow> message_item \<Rightarrow> bool" where
  "in_course m0 i D m \<longleftrightarrow>
     (\<exists>d fs et. m = m0\<lparr>mi_id := Some i, mi_data_device := Some d, mi_fragment_size := fs, mi_end_time := et\<rparr> \<and>
        dev_bytes d = D)"

definition fragmentable :: "message_item \<Rightarrow> bool" where
  "fragmentable m \<longleftrightarrow> mi_answer_id m = None \<and> mi_flags m \<in> {0, REPEATED} \<and> mi_cmd m \<noteq> cmd_remove_fragment"

text \<open>A part is drained: it goes to the line, and the message to the waiting list.\<close>

lemma drain_part_at:
  assumes "fragmentable m0" "effects p = es @ [Writer_Write m]" "written es = []"
    and m: "m = m0\<lparr>mi_id := mid, mi_data_device := Some d, mi_fragment_size := fs, mi_end_time := et\<rparr>"
    and "mid = Some i \<or> mid = None \<and> i = next_tx_msg_id p"
    and d: "dev_bytes d = D" "unat fs < length D" "length D < 2 ^ 31" "dev_pos d \<le> length D" "unat fs \<le> 65490"
    and "waiting_messages p = []" "protocol_writer p \<noteq> None" "qt_documented Q"
  shows "\<exists>w m' d'. m' = m\<lparr>mi_id := Some i, mi_data_device := Some d', mi_end_time := t + seconds 10\<rparr> \<and> dev_bytes d' = D \<and>
    (length D \<le> dev_pos d \<longrightarrow> d' = d) \<and> w = wait_point t m' \<and> drain Q t p =
    ([encode Q (packed Q (mi_min_compress_size m0) i (mi_cmd m0) (mi_flags m0 OR FRAGMENT)
        (put32 Q (of_nat (length D)) @ put32 Q (of_nat (dev_pos d)) @
         (if dev_pos d < length D then take (unat fs) (drop (dev_pos d) D) else put32 Q fs)))],
     p\<lparr>next_tx_msg_id := next_tx_msg_id p + (if mid = None then 1 else 0),
       last_msg_send_time := t, waiting_messages := [(w, m')],
       effects := es @ [Writer_Add_Timeout w 0]\<rparr>)"
proof -
  let ?data = "put32 Q (of_nat (length D)) @ put32 Q (of_nat (dev_pos d)) @
         (if dev_pos d < length D then take (unat fs) (drop (dev_pos d) D) else put32 Q fs)"
  have f: "mi_data_device m = Some d" "mi_id m = mid" "mi_fragment_size m = fs"
    "mi_min_compress_size m = mi_min_compress_size m0" "mi_cmd m = mi_cmd m0" "answer_flag m = mi_flags m0"
    "answer_prefix m = []"
    using assms(1) by (simp_all add: m fragmentable_def answer_flag_def answer_prefix_def)
  have s: "dev_size d = length D" by (simp add: dev_size_def d)
  have "\<exists>d'. packet_payload Q t m d =
      (mi_flags m0 OR FRAGMENT, ?data, m\<lparr>mi_data_device := Some d', mi_end_time := t + seconds 10\<rparr>) \<and> dev_bytes d' = D \<and>
      (length D \<le> dev_pos d \<longrightarrow> d' = d)"
  proof (cases "dev_pos d < length D")
    case True
    with packet_payload_fragment [of m d Q t] d s f show ?thesis
      by (intro exI [of _ "d\<lparr>dev_pos := dev_pos d + min (unat fs) (length D - dev_pos d)\<rparr>"]) simp
  next
    case False
    with packet_payload_announce [of m d Q t] d s f show ?thesis by (intro exI [of _ d]) simp
  qed
  then obtain d' where d': "dev_bytes d' = D" "length D \<le> dev_pos d \<longrightarrow> d' = d" and pl: "packet_payload Q t m d =
      (mi_flags m0 OR FRAGMENT, ?data, m\<lparr>mi_data_device := Some d', mi_end_time := t + seconds 10\<rparr>)"
    by blast
  have len: "length ?data < 2 ^ 32"
    using d(5) by (simp add: qt_documented.put32_length [OF assms(13)] min_def)
  let ?p = "p\<lparr>effects := es\<rparr>"
  have id: "mi_id m = Some i \<or> mi_id m = None \<and> i = next_tx_msg_id ?p"
    using assms(5) f by simp
  have "t < mi_end_time (m\<lparr>mi_data_device := Some d', mi_end_time := t + seconds 10\<rparr>)"
    by (simp add: seconds_def)
  let ?m = "m\<lparr>mi_data_device := Some d', mi_end_time := t + seconds 10\<rparr>\<lparr>mi_id := Some i\<rparr>"
  let ?w = "wait_point t ?m"
  have "wait_point t (m\<lparr>mi_data_device := Some d', mi_end_time := t + seconds 10\<rparr>) = ?w" by (simp add: wait_point_def)
  with prepare_waiting_at [OF f(1) pl \<open>t < _\<close> _ _ id] assms(11,12) have
    st: "snd (prepare_packet_to_send Q t t (Some m) ?p) =
     ?p\<lparr>next_tx_msg_id := next_tx_msg_id ?p + (if mi_id m = None then 1 else 0),
       last_msg_send_time := t, waiting_messages := [(?w, ?m)],
       effects := effects ?p @ [Writer_Add_Timeout ?w 0]\<rparr>"
    by simp
  have "drain Q t p =
    ([encode Q (packed Q (mi_min_compress_size m0) i (mi_cmd m0) (mi_flags m0 OR FRAGMENT) ?data)],
     p\<lparr>next_tx_msg_id := next_tx_msg_id p + (if mid = None then 1 else 0),
       last_msg_send_time := t, waiting_messages := [(?w, ?m)],
       effects := es @ [Writer_Add_Timeout ?w 0]\<rparr>)"
    using drain_one [of p m Q t] assms(2,3) prepare_packed [OF f(1) pl len id] st f
    by (simp add: split_beta)
  then show ?thesis using d' by (intro exI [of _ ?w] exI [of _ ?m] exI [of _ d']) simp
qed

lemma drain_part:
  assumes "fragmentable m0" "effects p = es @ [Writer_Write m]" "written es = []"
    and m: "m = m0\<lparr>mi_id := mid, mi_data_device := Some d, mi_fragment_size := fs, mi_end_time := et\<rparr>"
    and "mid = Some i \<or> mid = None \<and> i = next_tx_msg_id p"
    and d: "dev_bytes d = D" "unat fs < length D" "length D < 2 ^ 31" "dev_pos d \<le> length D" "unat fs \<le> 65490"
    and "waiting_messages p = []" "protocol_writer p \<noteq> None" "qt_documented Q"
  shows "\<exists>w m'. in_course m0 i D m' \<and> drain Q t p =
    ([encode Q (packed Q (mi_min_compress_size m0) i (mi_cmd m0) (mi_flags m0 OR FRAGMENT)
        (put32 Q (of_nat (length D)) @ put32 Q (of_nat (dev_pos d)) @
         (if dev_pos d < length D then take (unat fs) (drop (dev_pos d) D) else put32 Q fs)))],
     p\<lparr>next_tx_msg_id := next_tx_msg_id p + (if mid = None then 1 else 0),
       last_msg_send_time := t, waiting_messages := [(w, m')],
       effects := es @ [Writer_Add_Timeout w 0]\<rparr>)"
proof -
  have "in_course m0 i D (m\<lparr>mi_id := Some i, mi_data_device := Some d', mi_end_time := t + seconds 10\<rparr>)"
    if "dev_bytes d' = D" for d'
    unfolding in_course_def m using that by (intro exI [of _ d'] exI [of _ fs] exI [of _ "t + seconds 10"]) simp
  then show ?thesis using drain_part_at [OF assms, of t] by blast
qed

section \<open>The receiver\<close>

text \<open>The receiver's record when the first \<open>k\<close> bytes have arrived.\<close>

definition receiving :: "bytes \<Rightarrow> nat \<Rightarrow> fragmented_message \<Rightarrow> bool" where
  "receiving D k f \<longleftrightarrow> holds_of D f \<and> k < length D \<and>
     part_vect f = [(of_nat k, of_nat (length D))] \<and> \<not> dev_open (fm_device f)"

lemma holds_of_device:
  "dev_bytes d = dev_bytes (fm_device m) \<Longrightarrow> holds_of D (m\<lparr>fm_device := d\<rparr>) = holds_of D m"
  by (simp add: holds_of_def dev_size_def)

lemma u32_of_nat: "n < 2 ^ 31 \<Longrightarrow> unat (of_nat n :: u32) = n"
  by (simp add: unat_of_nat_u32)

definition query_for :: "qt \<Rightarrow> u8 \<Rightarrow> u8 \<Rightarrow> nat \<Rightarrow> u32 \<Rightarrow> message_item" where
  "query_for Q i cmd k n = query_item Q cmd ([i] @ put32 Q (of_nat k) @ put32 Q n) FRAGMENT_QUERY"

definition part_size :: "u32 \<Rightarrow> nat \<Rightarrow> u32" where
  "part_size mx rest = of_nat (min (unat mx) rest)"

lemma part_size_unat: "rest < 2 ^ 31 \<Longrightarrow> unat (part_size mx rest) = min (unat mx) rest"
  by (simp add: part_size_def u32_of_nat)

lemma writer_has_protocolD: "writer_has_protocol p \<Longrightarrow> protocol_writer p \<noteq> None"
  by (auto simp: writer_has_protocol_def split: option.splits)

lemma next_part_single:
  assumes "part_vect m = [(of_nat k, of_nat (length D))]" "k < length D" "length D < 2 ^ 31"
  shows "get_next_part m = (of_nat k, part_size (max_fragment_size m) (length D - k))"
proof -
  have diff: "(of_nat (length D) - of_nat k :: u32) = of_nat (length D - k)"
    using assms(2) by (simp add: of_nat_diff)
  have "unat (of_nat (length D - k) :: u32) = length D - k"
    using assms(3) by (simp add: u32_of_nat)
  then show ?thesis
    by (simp add: get_next_part_def assms(1) diff part_size_def min_def word_less_nat_alt)
qed

text \<open>The next part is asked for.\<close>

lemma find_renewed: "map_find (map_set i v (map_emplace i v m)) i = Some v"
proof -
  have "map_of (map_emplace i v m) i \<noteq> None" by (simp add: map_of_eq_None_iff set_map_emplace)
  then show ?thesis by (simp add: map_find_def map_of_set)
qed

lemma request_part:
  assumes "part_vect m = [(of_nat k, of_nat (length D))]" "k < length D" "length D < 2 ^ 31"
    and "writer_has_protocol p"
  shows "\<exists>l w. map_find l i = Some (now E) \<and> request_next_part Q E i cmd m p =
    p\<lparr>lost_msg_list := l,
      fragmented_messages := map_set i (m\<lparr>fm_device := dev_close (fm_device m), last_part_time := now E,
         max_fragment_size := grow_fragment_size (max_fragment_size m)\<rparr>) (fragmented_messages p),
      effects := effects p @ [Writer_Add_Timeout w 32,
         Writer_Write (query_for Q i cmd k
           (part_size (grow_fragment_size (max_fragment_size m)) (length D - k)))]\<rparr>"
proof -
  have next_part: "get_next_part (m\<lparr>fm_device := dev, last_part_time := t, max_fragment_size := n\<rparr>) =
      (of_nat k, part_size n (length D - k))" for dev t n
    using next_part_single [OF _ assms(2,3), of "m\<lparr>fm_device := dev, last_part_time := t, max_fragment_size := n\<rparr>"]
      assms(1) by simp
  have w: "writer_has_protocol (p\<lparr>lost_msg_list := l, fragmented_messages := fr\<rparr>)" for l fr
    using assms(4) by (simp add: writer_has_protocol_def)
  show ?thesis
    using writer_has_protocolD [OF assms(4)]
    by (intro exI [of _ "map_set i (now E) (map_emplace i (now E) (lost_msg_list p))"] exI [of _ "now E + milliseconds 1505"])
      (auto simp: request_next_part_def Let_def next_part finish_query w emit_def query_for_def FRAGMENT_def find_renewed)
qed

lemma remove_front:
  "a < e \<Longrightarrow> e \<le> b \<Longrightarrow> remove_from_part_vect a e [(a, b)] = (if e = b then [] else [(e, b)])"
  by (auto simp: not_le not_less)

text \<open>A stored part takes its bytes out of what is missing.\<close>

lemma part_stored:
  assumes "receiving D k f" "length D < 2 ^ 31" "0 < n" "k + n \<le> length D"
  defines "g \<equiv> add_data (of_nat k) (take n (drop k D)) (f\<lparr>fm_device := dev_reopen (fm_device f)\<rparr>)"
  shows "holds_of D g"
    and "part_vect g = (if k + n = length D then [] else [(of_nat (k + n), of_nat (length D))])"
    and "max_fragment_size g = max_fragment_size f"
proof -
  have k: "unat (of_nat k :: u32) = k" "unat (of_nat (k + n) :: u32) = k + n"
    "unat (of_nat (length D) :: u32) = length D"
    using assms(2,4) by (simp_all add: u32_of_nat del: of_nat_add)
  have "holds_of D (f\<lparr>fm_device := dev_reopen (fm_device f)\<rparr>)"
    using assms(1) by (simp add: receiving_def holds_of_device dev_reopen_def)
  from holds_of_add_data [OF this, of "of_nat k" n] assms(4)
  show "holds_of D g" by (simp add: g_def slice_def k(1))
  have e: "(of_nat k + of_nat (length (take n (drop k D))) :: u32) = of_nat (k + n)"
    using assms(4) by simp
  have o: "(of_nat k :: u32) < of_nat (k + n)" "(of_nat (k + n) :: u32) \<le> of_nat (length D)"
    "(of_nat (k + n) :: u32) = of_nat (length D) \<longleftrightarrow> k + n = length D"
    using assms(3,4) k by (simp_all only: word_less_nat_alt word_le_nat_alt word_unat_eq_iff)
  show "part_vect g = (if k + n = length D then [] else [(of_nat (k + n), of_nat (length D))])"
  proof -
    have "part_vect g = remove_from_part_vect (of_nat k) (of_nat (k + n)) [(of_nat k, of_nat (length D))]"
      using assms(1) e by (simp add: g_def add_data_def receiving_def)
    with remove_front [OF o(1,2)] o(3) show ?thesis by simp
  qed
  show "max_fragment_size g = max_fragment_size f" by (simp add: g_def add_data_def)
qed

lemma erase_set: "map_erase i (map_set i v m) = map_erase i m"
  by (induction m) (auto simp: map_erase_def map_set_def)

text \<open>
  The receiver takes a packet of the message: its number is among the last ones before the next, or the
  packet is marked as repeated and the number is on the list of lost ones, no more than ten seconds old.
\<close>

definition takes :: "env \<Rightarrow> u8 \<Rightarrow> u8 \<Rightarrow> protocol \<Rightarrow> bool" where
  "takes E i fl p \<longleftrightarrow> fl = 0 \<and> behind i (next_rx_msg_id p) \<or>
     fl = REPEATED \<and> (\<exists>t. map_find (lost_msg_list p) i = Some t \<and> now E - t < seconds 10)"

lemma fragment_flags [simp]:
  "fl \<in> {0, REPEATED} \<Longrightarrow> \<not> has_flag (fl OR FRAGMENT) COMPRESSED" "has_flag (fl OR FRAGMENT) FRAGMENT"
  "fl \<in> {0, REPEATED} \<Longrightarrow> \<not> has_flag (fl OR FRAGMENT) FRAGMENT_QUERY" "fl \<in> {0, REPEATED} \<Longrightarrow> has_flag (fl OR FRAGMENT) (FRAGMENT OR ANSWER)"
  "fl \<in> {0, REPEATED} \<Longrightarrow> \<not> has_flag (fl OR FRAGMENT) ANSWER"
  "has_flag (fl OR FRAGMENT) REPEATED \<longleftrightarrow> has_flag fl REPEATED"
  by (auto simp: has_flag_def flag_defs bit.conj_disj_distrib2)

lemma takesD: "takes E i fl p \<Longrightarrow> fl \<in> {0, REPEATED}"
  by (auto simp: takes_def)

lemma track_part:
  assumes "takes E i fl p"
  shows "\<exists>l. track_msg_id E i (fl OR FRAGMENT) p = (p\<lparr>lost_msg_list := l\<rparr>, True, None)"
proof -
  have "has_flag (fl OR FRAGMENT) REPEATED \<or> behind i (next_rx_msg_id p)"
    using assms by (auto simp: takes_def has_flag_def flag_defs)
  note tr = track_repeated [OF this, of E]
  show ?thesis unfolding tr using assms
    by (intro exI [of _ "if map_find (lost_msg_list p) i = None then lost_msg_list p else map_erase i (lost_msg_list p)"])
      (auto simp: takes_def has_flag_def flag_defs)
qed

lemma behind_next: "i < 255 \<Longrightarrow> behind i (i + 1)"
proof -
  assume "i < 255"
  then have "unat (i + 1) = unat i + 1" by (simp add: word_less_nat_alt unatSuc unat_word_ariths)
  then show ?thesis by (simp add: behind_def word_less_nat_alt)
qed

lemma dispatch_fragment:
  assumes "fl \<in> {0, REPEATED}" "qt_documented Q" "cmd \<noteq> cmd_remove_fragment" "full \<noteq> pos"
  shows "dispatch Q E i cmd (fl OR FRAGMENT) (put32 Q full @ put32 Q pos @ data) p =
    accept_fragment Q E i cmd None full pos 0 data p"
proof -
  from assms qt_documented.parse_written [OF assms(2), of "[F32 full, F32 pos]" data] show ?thesis
    by (simp add: dispatch_def process_fragment_def)
qed

lemma dispatch_announce:
  assumes "fl \<in> {0, REPEATED}" "qt_documented Q" "cmd \<noteq> cmd_remove_fragment"
  shows "dispatch Q E i cmd (fl OR FRAGMENT) (put32 Q full @ put32 Q full @ put32 Q mx) p =
    accept_fragment Q E i cmd None full full mx [] p"
proof -
  from assms qt_documented.parse_written [OF assms(2), of "[F32 full, F32 full]" "put32 Q mx"]
    qt_documented.parse_written [OF assms(2), of "[F32 mx]" "[]"] show ?thesis
    by (simp add: dispatch_def process_fragment_def)
qed

text \<open>The surroundings in which a transfer succeeds: files can be opened and no handler throws.\<close>

definition fair :: "env \<Rightarrow> bool" where
  "fair E \<longleftrightarrow> 0 \<le> now E \<and> file_ok E \<and> (\<forall>e. \<not> throws E e)"

text \<open>The record of a message after another part: its number and command stay, the time is that of the part.\<close>

definition renewed :: "time \<Rightarrow> fragmented_message \<Rightarrow> fragmented_message \<Rightarrow> bool" where
  "renewed t f g \<longleftrightarrow> fm_id g = fm_id f \<and> fm_cmd g = fm_cmd f \<and> last_part_time g = t"

lemma store_part:
  assumes "receiving D k f" "length D < 2 ^ 31" "0 < n" "k + n < length D" "writer_has_protocol p"
  shows "\<exists>l w g. map_find l i = Some (now E) \<and> store_fragment Q E i cmd None full (of_nat k) (take n (drop k D)) f p =
      (p\<lparr>lost_msg_list := l, fragmented_messages := map_set i g (fragmented_messages p),
         effects := effects p @ [Writer_Add_Timeout w 32,
           Writer_Write (query_for Q i cmd (k + n) (part_size (max_fragment_size g) (length D - (k + n))))]\<rparr>,
       None) \<and> receiving D (k + n) g \<and> max_fragment_size g = grow_fragment_size (max_fragment_size f) \<and>
      renewed (now E) f g"
proof -
  let ?g = "add_data (of_nat k) (take n (drop k D)) (f\<lparr>fm_device := dev_reopen (fm_device f)\<rparr>)"
  let ?h = "?g\<lparr>fm_device := dev_close (fm_device ?g), last_part_time := now E,
      max_fragment_size := grow_fragment_size (max_fragment_size f)\<rparr>"
  note st = part_stored [OF assms(1-3) less_imp_le [OF assms(4)]]
  have pv: "part_vect ?g = [(of_nat (k + n), of_nat (length D))]" using st(2) assms(4) by simp
  have ne: "take n (drop k D) \<noteq> []" using assms(3,4) by simp
  obtain l w where l: "map_find l i = Some (now E)" and rq: "request_next_part Q E i cmd ?g p =
    p\<lparr>lost_msg_list := l, fragmented_messages := map_set i ?h (fragmented_messages p),
      effects := effects p @ [Writer_Add_Timeout w 32,
         Writer_Write (query_for Q i cmd (k + n) (part_size (max_fragment_size ?h) (length D - (k + n))))]\<rparr>"
    using request_part [OF pv assms(4,2,5), of i E Q cmd] unfolding st(3) by auto
  have "holds_of D ?h"
    using st(1) by (simp add: holds_of_def dev_size_def dev_close_def)
  then have "receiving D (k + n) ?h"
    using pv assms(4) by (simp add: receiving_def dev_close_def)
  moreover have "store_fragment Q E i cmd None full (of_nat k) (take n (drop k D)) f p =
      (request_next_part Q E i cmd ?g p, None)"
    using ne pv by (simp add: store_fragment_def is_parts_empty_def Let_def)
  moreover have "max_fragment_size ?h = grow_fragment_size (max_fragment_size f)" by simp
  moreover have "renewed (now E) f ?h" by (simp add: renewed_def add_data_def)
  ultimately show ?thesis using l unfolding rq by blast
qed

lemma store_last_part:
  assumes "receiving D k f" "length D < 2 ^ 31" "0 < n" "k + n = length D" "writer_has_protocol p"
    and "fair E"
  shows "\<exists>x. store_fragment Q E i cmd None (of_nat (length D)) (of_nat k) (take n (drop k D)) f p =
      (p\<lparr>fragmented_messages := map_erase i (fragmented_messages p),
         effects := effects p @ [Process_Message i cmd D, Writer_Write (query_for Q i cmd (length D) x)]\<rparr>,
       None)"
proof -
  let ?g = "add_data (of_nat k) (take n (drop k D)) (f\<lparr>fm_device := dev_reopen (fm_device f)\<rparr>)"
  note st = part_stored [OF assms(1-3) eq_imp_le [OF assms(4)]]
  have em: "is_parts_empty ?g" using st(2) assms(4) by (simp add: is_parts_empty_def)
  have D: "dev_bytes (fm_device ?g) = D" by (rule holds_of_complete [OF st(1) em])
  then have D': "dev_bytes (dev_seek 0 (fm_device ?g)) = D"
    by (simp add: dev_seek_def zero_fill_def)
  have ne: "take n (drop k D) \<noteq> []" using assms(3,4) by auto
  have w: "writer_has_protocol (p\<lparr>fragmented_messages := fr\<rparr>)" for fr
    using assms(5) by (simp add: writer_has_protocol_def)
  show ?thesis
    using em D' ne assms(5,6) writer_has_protocolD [OF assms(5)]
    by (auto simp: store_fragment_def Let_def deliver_fragmented_def call_app_def fair_def
        finish_query w emit_def query_for_def erase_set)
qed

lemma accept_known:
  assumes "map_find (fragmented_messages p) i = Some f" "\<not> dev_open (fm_device f)" "file_ok E"
    and "\<not> full \<ge> protocol_max_message_size"
  shows "accept_fragment Q E i cmd ans full pos mx data p = store_fragment Q E i cmd ans full pos data f p"
  using assms by (simp add: accept_fragment_def fragment_opens_def)

lemma size_ok: "length D < 2 ^ 31 \<Longrightarrow> \<not> (of_nat (length D) :: u32) \<ge> protocol_max_message_size"
  by (simp add: word_le_nat_alt u32_of_nat)

definition part_msg :: "qt \<Rightarrow> u32 \<Rightarrow> u8 \<Rightarrow> u8 \<Rightarrow> u8 \<Rightarrow> bytes \<Rightarrow> nat \<Rightarrow> nat \<Rightarrow> msg" where
  "part_msg Q c i cmd fl D k n = packed Q c i cmd (fl OR FRAGMENT)
     (put32 Q (of_nat (length D)) @ put32 Q (of_nat k) @ take n (drop k D))"

definition announcement :: "qt \<Rightarrow> u32 \<Rightarrow> u8 \<Rightarrow> u8 \<Rightarrow> u8 \<Rightarrow> bytes \<Rightarrow> u32 \<Rightarrow> msg" where
  "announcement Q c i cmd fl D fs = packed Q c i cmd (fl OR FRAGMENT)
     (put32 Q (of_nat (length D)) @ put32 Q (of_nat (length D)) @ put32 Q fs)"

lemma put32_not_Nil: "qt_documented Q \<Longrightarrow> put32 Q x @ r \<noteq> []"
  using qt_documented.put32_length [of Q x] by auto

text \<open>A part arrives: it is stored.\<close>

lemma part_reaches_store:
  assumes "qt_documented Q" "fair E" "length D < 2 ^ 31"
    and "takes E i fl p" "cmd \<noteq> cmd_remove_fragment"
    and f: "map_find (fragmented_messages p) i = Some f" "receiving D k f"
  shows "\<exists>l. \<forall>p2. store_fragment Q E i cmd None (of_nat (length D)) (of_nat k) (take n (drop k D)) f
      (p\<lparr>lost_msg_list := l\<rparr>) = (p2, None) \<longrightarrow> process_messages Q E [part_msg Q c i cmd fl D k n] p = (p2, None)"
proof -
  obtain l where tr: "track_msg_id E i (fl OR FRAGMENT) p = (p\<lparr>lost_msg_list := l\<rparr>, True, None)"
    using track_part [OF assms(4)] by blast
  note fl = takesD [OF assms(4)]
  have "unat (of_nat (length D) :: u32) \<noteq> unat (of_nat k :: u32)"
    using f(2) assms(3) by (simp add: u32_of_nat receiving_def)
  then have ne: "(of_nat (length D) :: u32) \<noteq> of_nat k" by metis
  have op: "\<not> dev_open (fm_device f)" "file_ok E"
    using f(2) assms(2) by (simp_all add: receiving_def fair_def)
  have "dispatch Q E i cmd (fl OR FRAGMENT)
       (put32 Q (of_nat (length D)) @ put32 Q (of_nat k) @ take n (drop k D)) (p\<lparr>lost_msg_list := l\<rparr>) =
      store_fragment Q E i cmd None (of_nat (length D)) (of_nat k) (take n (drop k D)) f (p\<lparr>lost_msg_list := l\<rparr>)"
    using dispatch_fragment [OF fl assms(1,5) ne]
      accept_known [OF _ op size_ok [OF assms(3)], of "p\<lparr>lost_msg_list := l\<rparr>" i] f(1)
    by simp
  then show ?thesis
    using receive_packed [OF assms(1) fragment_flags(1) [OF fl] put32_not_Nil [OF assms(1)] tr]
    unfolding part_msg_def by (intro exI [of _ l]) simp
qed

text \<open>A part arrives that leaves others missing; the last part arrives; the announcement arrives.\<close>

lemma receive_part:
  assumes "qt_documented Q" "fair E" "length D < 2 ^ 31" "writer_has_protocol p"
    and "takes E i fl p" "cmd \<noteq> cmd_remove_fragment"
    and f: "map_find (fragmented_messages p) i = Some f" "receiving D k f" "0 < n" "k + n < length D"
  shows "\<exists>l w g. map_find l i = Some (now E) \<and> process_messages Q E [part_msg Q c i cmd fl D k n] p =
      (p\<lparr>lost_msg_list := l, fragmented_messages := map_set i g (fragmented_messages p),
         effects := effects p @ [Writer_Add_Timeout w 32,
           Writer_Write (query_for Q i cmd (k + n) (part_size (max_fragment_size g) (length D - (k + n))))]\<rparr>,
       None) \<and> receiving D (k + n) g \<and> max_fragment_size g = grow_fragment_size (max_fragment_size f) \<and>
      renewed (now E) f g"
proof -
  obtain l where l: "\<And>p2. store_fragment Q E i cmd None (of_nat (length D)) (of_nat k) (take n (drop k D)) f
      (p\<lparr>lost_msg_list := l\<rparr>) = (p2, None) \<Longrightarrow> process_messages Q E [part_msg Q c i cmd fl D k n] p = (p2, None)"
    using part_reaches_store [OF assms(1-3,5-6) f(1,2), of n c] by blast
  have wr: "writer_has_protocol (p\<lparr>lost_msg_list := l\<rparr>)" using assms(4) by (simp add: writer_has_protocol_def)
  from store_part [OF f(2) assms(3) f(3,4) wr, of i E] obtain l' w g where
    l': "map_find l' i = Some (now E)" and st: "store_fragment Q E i cmd None (of_nat (length D)) (of_nat k) (take n (drop k D)) f (p\<lparr>lost_msg_list := l\<rparr>) =
      (p\<lparr>lost_msg_list := l', fragmented_messages := map_set i g (fragmented_messages p),
         effects := effects p @ [Writer_Add_Timeout w 32,
           Writer_Write (query_for Q i cmd (k + n) (part_size (max_fragment_size g) (length D - (k + n))))]\<rparr>,
       None)" and g: "receiving D (k + n) g" "max_fragment_size g = grow_fragment_size (max_fragment_size f)"
      "renewed (now E) f g"
    by fastforce
  show ?thesis using l [OF st] l' g by blast
qed

lemma receive_last_part:
  assumes "qt_documented Q" "fair E" "length D < 2 ^ 31" "writer_has_protocol p"
    and "takes E i fl p" "cmd \<noteq> cmd_remove_fragment"
    and f: "map_find (fragmented_messages p) i = Some f" "receiving D k f" "0 < n" "k + n = length D"
  shows "\<exists>l x. process_messages Q E [part_msg Q c i cmd fl D k n] p =
      (p\<lparr>lost_msg_list := l, fragmented_messages := map_erase i (fragmented_messages p),
         effects := effects p @ [Process_Message i cmd D, Writer_Write (query_for Q i cmd (length D) x)]\<rparr>,
       None)"
proof -
  obtain l where l: "\<And>p2. store_fragment Q E i cmd None (of_nat (length D)) (of_nat k) (take n (drop k D)) f
      (p\<lparr>lost_msg_list := l\<rparr>) = (p2, None) \<Longrightarrow> process_messages Q E [part_msg Q c i cmd fl D k n] p = (p2, None)"
    using part_reaches_store [OF assms(1-3,5-6) f(1,2), of n c] by blast
  have wr: "writer_has_protocol (p\<lparr>lost_msg_list := l\<rparr>)" using assms(4) by (simp add: writer_has_protocol_def)
  from store_last_part [OF f(2) assms(3) f(3,4) wr assms(2)] obtain x where
    st: "store_fragment Q E i cmd None (of_nat (length D)) (of_nat k) (take n (drop k D)) f (p\<lparr>lost_msg_list := l\<rparr>) =
      (p\<lparr>lost_msg_list := l, fragmented_messages := map_erase i (fragmented_messages p),
         effects := effects p @ [Process_Message i cmd D, Writer_Write (query_for Q i cmd (length D) x)]\<rparr>, None)"
    by fastforce
  show ?thesis using l [OF st] by blast
qed

lemma erase_absent: "map_of m i = None \<Longrightarrow> map_erase i m = m"
  by (induction m) (auto simp: map_erase_def split: if_splits)

lemma erase_emplace_new: "map_find m i = None \<Longrightarrow> map_erase i (map_emplace i v m) = m"
  unfolding map_find_def
proof (induction i v m rule: map_emplace.induct)
  case (2 k v a w m)
  then show ?case using erase_absent [of m k] by (auto simp: map_erase_def split: if_splits)
qed (simp add: map_erase_def)

lemma receive_announcement:
  assumes "qt_documented Q" "fair E" "D \<noteq> []" "length D < 2 ^ 31" "writer_has_protocol p"
    and "track_msg_id E i (fl OR FRAGMENT) p0 = (p, True, None)" "fl \<in> {0, REPEATED}" "cmd \<noteq> cmd_remove_fragment"
    and "map_find (fragmented_messages p) i = None" "map_ok (fragmented_messages p)"
    and "0 < fs" "fs \<le> max_packet_data_size"
  shows "\<exists>l w fr g. process_messages Q E [announcement Q c i cmd fl D fs] p0 =
      (p\<lparr>lost_msg_list := l, fragmented_messages := fr,
         effects := effects p @ [Writer_Add_Timeout w 32,
           Writer_Write (query_for Q i cmd 0 (part_size (max_fragment_size g) (length D)))]\<rparr>, None) \<and>
      map_find l i = Some (now E) \<and>
      map_find fr i = Some g \<and> map_erase i fr = fragmented_messages p \<and> map_ok fr \<and>
      receiving D 0 g \<and> max_fragment_size g = grow_fragment_size fs \<and>
      fm_id g = i \<and> fm_cmd g = cmd \<and> last_part_time g = now E"
proof -
  let ?new = "fragmented_message_new i cmd fs (of_nat (length D))"
  let ?m = "?new\<lparr>fm_device := dev_reopen (fm_device ?new)\<rparr>"
  let ?g = "?m\<lparr>fm_device := dev_close (fm_device ?m), last_part_time := now E,
      max_fragment_size := grow_fragment_size fs\<rparr>"
  let ?fr = "map_emplace i ?new (fragmented_messages p)"
  let ?q = "p\<lparr>fragmented_messages := ?fr\<rparr>"
  have found: "map_find ?fr i = Some ?new"
    using assms(9,10) by (simp add: smap.find_emplace)
  have sz: "\<not> fs = 0" "\<not> fs > max_packet_data_size" using assms(11,12) by auto
  have pv: "part_vect ?m = [(of_nat 0, of_nat (length D))]"
    by (simp add: fragmented_message_new_def)
  have wr: "writer_has_protocol ?q" using assms(5) by (simp add: writer_has_protocol_def)
  obtain l w where l: "map_find l i = Some (now E)" and rq: "request_next_part Q E i cmd ?m ?q =
    ?q\<lparr>lost_msg_list := l, fragmented_messages := map_set i ?g ?fr,
      effects := effects p @ [Writer_Add_Timeout w 32,
         Writer_Write (query_for Q i cmd 0 (part_size (max_fragment_size ?g) (length D)))]\<rparr>"
    using request_part [OF pv _ assms(4) wr, of i E Q cmd] assms(3) by (auto simp: fragmented_message_new_def)
  have "accept_fragment Q E i cmd None (of_nat (length D)) (of_nat (length D)) fs [] p =
      (request_next_part Q E i cmd ?m ?q, None)"
    using assms(2,9) sz found size_ok [OF assms(4)] pv
    by (simp add: accept_fragment_def fragment_opens_def fair_def store_fragment_def is_parts_empty_def Let_def
        fragmented_message_new_def new_device_def)
  then have "process_messages Q E [announcement Q c i cmd fl D fs] p0 = (request_next_part Q E i cmd ?m ?q, None)"
    unfolding announcement_def
    by (intro receive_packed [OF assms(1) fragment_flags(1) [OF assms(7)] put32_not_Nil [OF assms(1)] assms(6)])
      (simp add: dispatch_announce [OF assms(7,1,8)])
  then have pm: "process_messages Q E [announcement Q c i cmd fl D fs] p0 =
      (p\<lparr>lost_msg_list := l, fragmented_messages := map_set i ?g ?fr,
         effects := effects p @ [Writer_Add_Timeout w 32,
           Writer_Write (query_for Q i cmd 0 (part_size (max_fragment_size ?g) (length D)))]\<rparr>, None)"
    unfolding rq by simp
  have "holds_of D ?g"
    using holds_of_new [OF assms(3), of i cmd fs] assms(4)
    by (simp add: holds_of_def dev_size_def dev_close_def dev_reopen_def)
  then have rc: "receiving D 0 ?g"
    using assms(3) pv by (simp add: receiving_def dev_close_def)
  have mf: "map_find (map_set i ?g ?fr) i = Some ?g" using found assms(10)
    by simp
  have er: "map_erase i (map_set i ?g ?fr) = fragmented_messages p"
    by (simp add: erase_set erase_emplace_new assms(9))
  have "map_ok (map_set i ?g ?fr)" using assms(10) by simp
  moreover have "max_fragment_size ?g = grow_fragment_size fs" by simp
  moreover have "fm_id ?g = i" "fm_cmd ?g = cmd" "last_part_time ?g = now E"
    by (simp_all add: fragmented_message_new_def)
  ultimately show ?thesis using pm l rc mf er by blast
qed

section \<open>Queries reach the sender\<close>

lemma receive_query:
  assumes "qt_documented Q" "next_rx_msg_id p = j" "cmd \<noteq> cmd_remove_fragment"
  shows "process_messages Q E [(j, cmd, FRAGMENT_QUERY, [i] @ put32 Q (of_nat k) @ put32 Q n)] p =
    (process_fragment_query Q i (of_nat k) n (p\<lparr>next_rx_msg_id := j + 1\<rparr>), None)"
proof -
  have fl: "\<not> has_flag FRAGMENT_QUERY REPEATED" "\<not> has_flag FRAGMENT_QUERY COMPRESSED"
    "has_flag FRAGMENT_QUERY FRAGMENT_QUERY"
    by (simp_all add: has_flag_def flag_defs)
  have ps: "parse_out Q [T8, T32, T32] ([i] @ put32 Q (of_nat k) @ put32 Q n) =
      Inr ([F8 i, F32 (of_nat k), F32 n], [])"
    using qt_documented.parse_written [OF assms(1), of "[F8 i, F32 (of_nat k), F32 n]" "[]"] by simp
  show ?thesis
    using track_in_order [OF fl(1), of j p E] assms(2,3) fl ps
    by (simp add: internal_process_message_def dispatch_def del: parse_out.simps)
qed

definition clamp :: "u32 \<Rightarrow> u32" where
  "clamp n = (if n < 32 then 32 else if n > max_packet_data_size then max_packet_data_size else n)"

lemma query_answered:
  assumes "in_course m0 i D m" "waiting_messages p = [(w, m)]" "protocol_writer p \<noteq> None"
    and "k < length D" "length D < 2 ^ 31"
  shows "\<exists>d et. process_fragment_query Q i (of_nat k) n p =
    p\<lparr>waiting_messages := [], effects := effects p @
      [Writer_Write (m0\<lparr>mi_id := Some i, mi_data_device := Some d, mi_fragment_size := clamp n,
         mi_end_time := et\<rparr>)]\<rparr> \<and> dev_bytes d = D \<and> dev_pos d = k"
proof -
  obtain d fs et where m: "m = m0\<lparr>mi_id := Some i, mi_data_device := Some d, mi_fragment_size := fs, mi_end_time := et\<rparr>"
    and D: "dev_bytes d = D"
    using assms(1) by (auto simp: in_course_def)
  have k: "unat (of_nat k :: u32) = k" using assms(4,5) by (simp add: u32_of_nat)
  show ?thesis
    using assms(2-4) D
    by (intro exI [of _ "dev_seek k d"] exI [of _ et])
      (auto simp: process_fragment_query_def pop_waiting_fragment_def pop_waiting_message_def m k
        id_or_zero_def dev_size_def send_message_def set_fragment_size_def clamp_def emit_def
        dev_seek_def zero_fill_def)
qed

text \<open>What the sender still keeps of a message after its transfer: it, when an answer is expected.\<close>

definition kept :: "message_item \<Rightarrow> bool" where
  "kept m \<longleftrightarrow> mi_answer_func m \<noteq> None"

lemma final_query_answered:
  assumes "in_course m0 i D m" "waiting_messages p = [(w, m)]" "writer_has_protocol p"
    and "length D < 2 ^ 31"
  shows "process_fragment_query Q i (of_nat (length D)) n p =
    p\<lparr>waiting_messages := (if kept m0 then [(mi_end_time m, m)] else []), effects := effects p @
      [Writer_Write (query_item Q cmd_remove_fragment [i] 0)] @ (if kept m0 then [] else message_item_destroy m0)\<rparr>"
proof -
  obtain d fs et where m: "m = m0\<lparr>mi_id := Some i, mi_data_device := Some d, mi_fragment_size := fs, mi_end_time := et\<rparr>"
    and D: "dev_bytes d = D"
    using assms(1) by (auto simp: in_course_def)
  have k: "unat (of_nat (length D) :: u32) = length D" using assms(4) by (simp add: u32_of_nat)
  have w: "writer_has_protocol (p\<lparr>waiting_messages := wl\<rparr>)" for wl
    using assms(3) by (simp add: writer_has_protocol_def)
  have rm: "finish_sender (sender_put [i] (send cmd_remove_fragment q)) q =
      emit (Writer_Write (query_item Q cmd_remove_fragment [i] 0)) q" if "writer_has_protocol q" for q
    using finish_remove [OF that writer_has_protocolD [OF that]] .
  show ?thesis
    using assms(2) D w
    by (simp add: process_fragment_query_def pop_waiting_fragment_def pop_waiting_message_def m k
        id_or_zero_def dev_size_def kept_def rm add_to_waiting_def drop_message_def map_find_def Let_def
        emit_def emit_all_def message_item_destroy_def split: option.split)
qed

end
