(* ===== verification/Fragment_Transfer.thy ===== *)
theory Fragment_Transfer
  imports Fragment_Parts
begin

text \<open>
  A message larger than its fragment size, from one end of a line to the other. The sender announces it, the
  receiver asks for part after part (\<open>FRAGMENT_QUERY\<close>), the sender answers each query from its
  waiting list, and the last query makes it release the message. A round passes what each end has handed to
  its writer through \<open>prepare_packet_to_send\<close> to the \<open>process_bytes\<close> of the other.
  The states of a transfer are those of \<open>at_byte\<close>; each round takes it one part further, so
  that it ends after a number of rounds that is known in advance.
\<close>

section \<open>Rounds\<close>

definition app_calls :: "effect list \<Rightarrow> effect list" where
  "app_calls es =
     filter (\<lambda>e. case e of Writer_Write _ \<Rightarrow> False | Writer_Add_Timeout _ _ \<Rightarrow> False | _ \<Rightarrow> True) es"

lemma app_calls_simps [simp]:
  "app_calls [] = []" "app_calls (xs @ ys) = app_calls xs @ app_calls ys"
  "app_calls (Writer_Write m # es) = app_calls es" "app_calls (Writer_Add_Timeout t x # es) = app_calls es"
  "app_calls (Process_Message i c d # es) = Process_Message i c d # app_calls es"
  by (simp_all add: app_calls_def)

text \<open>The sender has a part to send; the receiver waits for it.\<close>

definition pending :: "message_item \<Rightarrow> u8 \<Rightarrow> u8 \<Rightarrow> bytes \<Rightarrow> nat \<Rightarrow> u32 \<Rightarrow> protocol \<Rightarrow> bool" where
  "pending m0 i j D k n a \<longleftrightarrow> clean a \<and> writer_has_protocol a \<and> waiting_messages a = [] \<and>
     next_tx_msg_id a = j \<and>
     (\<exists>es d et. effects a = es @ [Writer_Write (m0\<lparr>mi_id := Some i, mi_data_device := Some d,
          mi_fragment_size := clamp n, mi_end_time := et\<rparr>)] \<and>
        written es = [] \<and> dev_bytes d = D \<and> dev_pos d = k)"

definition expecting :: "u8 \<Rightarrow> u8 \<Rightarrow> bytes \<Rightarrow> nat \<Rightarrow> u32 \<Rightarrow> (u8, fragmented_message) std_map \<Rightarrow> protocol \<Rightarrow> bool" where
  "expecting i j D k mx fr b \<longleftrightarrow> clean b \<and> writer_has_protocol b \<and> next_rx_msg_id b = j \<and>
     written (effects b) = [] \<and> map_erase i (fragmented_messages b) = fr \<and>
     map_ok (fragmented_messages b) \<and>
     (\<exists>f. map_find (fragmented_messages b) i = Some f \<and> receiving D k f \<and> max_fragment_size f = mx)"

definition compress_bounded :: "qt \<Rightarrow> bool" where
  "compress_bounded Q \<longleftrightarrow> (\<forall>bs. length bs \<le> 2 ^ 20 \<longrightarrow> length (compress Q bs) \<le> 2 ^ 31)"

lemma deliver_one:
  assumes "qt_documented Q" "clean p" "fits m" "process_messages Q E [m] p = (p', None)"
  shows "process_chunks Q E [encode Q m] p = Inr (put_rx (emptied (rx_device p)) [] (\<lambda>_. now E) p')"
  by (rule stream_delivered [OF assms(1,2) _ _ _ assms(4)]) (simp_all add: assms(3))

lemma put_rx_clean [simp]: "clean (put_rx (emptied d) [] u p)"
  by (simp add: clean_def put_rx_def emptied_def)

lemma put_rx_writer [simp]: "writer_has_protocol (put_rx d qs u p) = writer_has_protocol p"
  by (simp add: writer_has_protocol_def put_rx_def split: option.splits)

lemma packed_fits:
  "compress_bounded Q \<Longrightarrow> length data \<le> 2 ^ 20 \<Longrightarrow> fits (packed Q c i cmd fl data)"
  by (auto simp: compress_bounded_def packed_def fits_def)

lemma clamp_part:
  assumes "32 \<le> unat mx" "unat mx \<le> 65490" "k < length D" "length D < 2 ^ 31"
  shows "take (unat (clamp (part_size mx (length D - k)))) (drop k D) =
         take (unat (part_size mx (length D - k))) (drop k D)"
    and "0 < unat (part_size mx (length D - k))" "k + unat (part_size mx (length D - k)) \<le> length D"
    and "unat (clamp n) \<le> 65490"
proof -
  have u: "unat (part_size mx (length D - k)) = min (unat mx) (length D - k)"
    using assms(4) by (simp add: part_size_unat)
  show "0 < unat (part_size mx (length D - k))" "k + unat (part_size mx (length D - k)) \<le> length D"
    using u assms(1,3) by auto
  show "take (unat (clamp (part_size mx (length D - k)))) (drop k D) =
      take (unat (part_size mx (length D - k))) (drop k D)"
    using u assms(1,2) by (auto simp: clamp_def word_less_nat_alt min_def)
  show "unat (clamp n) \<le> 65490" by (simp add: clamp_def word_less_nat_alt)
qed

lemma line_roundI:
  assumes "drain Q (now E) a = (pa, a1)" "process_chunks Q E pa b = Inr b1"
    and "drain Q (now E) b1 = (pb, b2)" "process_chunks Q E pb a1 = Inr a2"
  shows "line_round Q E (a, b) = Inr (a2, b2)"
  using assms by (simp add: line_round_def)

text \<open>The sender's half of a round.\<close>

lemma send_part:
  assumes "qt_documented Q" "fragmentable m0" "length D < 2 ^ 31" "k < length D"
    and "pending m0 i j D k n a" "unat (clamp n) < length D"
  shows "\<exists>w m' es. drain Q t a =
     ([encode Q (part_msg Q (mi_min_compress_size m0) i (mi_cmd m0) (mi_flags m0) D k (unat (clamp n)))],
      a\<lparr>last_msg_send_time := t, waiting_messages := [(w, m')], effects := es\<rparr>) \<and>
     in_course m0 i D m' \<and> written es = [] \<and> app_calls es = app_calls (effects a)"
proof -
  obtain es d et where a: "effects a = es @ [Writer_Write (m0\<lparr>mi_id := Some i, mi_data_device := Some d,
        mi_fragment_size := clamp n, mi_end_time := et\<rparr>)]" "written es = []" "dev_bytes d = D" "dev_pos d = k"
      "clean a" "writer_has_protocol a" "waiting_messages a = []"
    using assms(5) by (auto simp: pending_def)
  have "unat (clamp n) \<le> 65490" by (simp add: clamp_def word_less_nat_alt)
  from drain_part [OF assms(2) a(1,2) refl _ a(3) assms(6,3) _ this a(7) writer_has_protocolD [OF a(6)] assms(1),
      of i t] assms(4) a(4)
  obtain w m' where "in_course m0 i D m'" "drain Q t a =
     ([encode Q (part_msg Q (mi_min_compress_size m0) i (mi_cmd m0) (mi_flags m0) D k (unat (clamp n)))],
      a\<lparr>last_msg_send_time := t, waiting_messages := [(w, m')], effects := es @ [Writer_Add_Timeout w 0]\<rparr>)"
    by (auto simp: part_msg_def)
  then show ?thesis using a(1,2)
    by (intro exI [of _ w] exI [of _ m'] exI [of _ "es @ [Writer_Add_Timeout w 0]"]) simp
qed

text \<open>The receiver's half: its query reaches the sender.\<close>

lemma ask:
  assumes "qt_documented Q" "fair E" "clean a1" "next_rx_msg_id a1 = next_tx_msg_id b1"
    and "effects b1 = es @ [Writer_Write (query_for Q i cmd k x)]" "written es = []"
    and "cmd \<noteq> cmd_remove_fragment"
  shows "\<exists>pb. drain Q (now E) b1 =
      (pb, b1\<lparr>next_tx_msg_id := next_tx_msg_id b1 + 1, last_msg_send_time := now E, effects := es\<rparr>) \<and>
    process_chunks Q E pb a1 = Inr (put_rx (emptied (rx_device a1)) [] (\<lambda>_. now E)
      (process_fragment_query Q i (of_nat k) x (a1\<lparr>next_rx_msg_id := next_tx_msg_id b1 + 1\<rparr>)))"
proof -
  let ?data = "[i] @ put32 Q (of_nat k) @ put32 Q x"
  have "length ?data = 9" by (simp add: qt_documented.put32_length [OF assms(1)])
  then have le: "length ?data \<le> 512" "fits (next_tx_msg_id b1, cmd, FRAGMENT_QUERY, ?data)"
    by (simp_all add: fits_def)
  show ?thesis
    using drain_query [of b1 Q cmd ?data FRAGMENT_QUERY "now E"] le(1) assms(2,5,6)
      deliver_one [OF assms(1,3) le(2) receive_query [OF assms(1,4,7)], of E]
    by (simp add: fair_def query_for_def del: process_chunks.simps append.simps)
qed

lemma put_rx_tx [simp]:
  "next_tx_msg_id (put_rx d qs u p) = next_tx_msg_id p" "waiting_messages (put_rx d qs u p) = waiting_messages p"
  "effects (put_rx d qs u p) = effects p" "fragmented_messages (put_rx d qs u p) = fragmented_messages p"
  "lost_msg_list (put_rx d qs u p) = lost_msg_list p"
  by (simp_all add: put_rx_def)

lemma writer_has_protocol_frame [simp]:
  "writer_has_protocol (p\<lparr>effects := es\<rparr>) = writer_has_protocol p"
  "writer_has_protocol (p\<lparr>next_tx_msg_id := k\<rparr>) = writer_has_protocol p"
  "writer_has_protocol (p\<lparr>next_rx_msg_id := k\<rparr>) = writer_has_protocol p"
  "writer_has_protocol (p\<lparr>last_msg_send_time := t\<rparr>) = writer_has_protocol p"
  "writer_has_protocol (p\<lparr>waiting_messages := w\<rparr>) = writer_has_protocol p"
  "writer_has_protocol (p\<lparr>lost_msg_list := l\<rparr>) = writer_has_protocol p"
  "writer_has_protocol (p\<lparr>fragmented_messages := f\<rparr>) = writer_has_protocol p"
  by (simp_all add: writer_has_protocol_def)

lemma clean_frame [simp]:
  "clean (p\<lparr>effects := es\<rparr>) = clean p" "clean (p\<lparr>next_tx_msg_id := k\<rparr>) = clean p"
  "clean (p\<lparr>next_rx_msg_id := k\<rparr>) = clean p" "clean (p\<lparr>last_msg_send_time := t\<rparr>) = clean p"
  "clean (p\<lparr>waiting_messages := w\<rparr>) = clean p" "clean (p\<lparr>lost_msg_list := l\<rparr>) = clean p"
  "clean (p\<lparr>fragmented_messages := f\<rparr>) = clean p"
  by (simp_all add: clean_def)

lemma grow_bounds:
  assumes "32 \<le> unat mx" "unat mx \<le> 65490"
  shows "unat mx \<le> unat (grow_fragment_size mx)" "unat (grow_fragment_size mx) \<le> 65490"
proof -
  have "unat (mx + mx div 5) = unat mx + unat mx div 5"
    using assms(2) by (simp add: unat_word_ariths unat_div_distrib)
  with assms show "unat mx \<le> unat (grow_fragment_size mx)" "unat (grow_fragment_size mx) \<le> 65490"
    by (auto simp: grow_fragment_size_def word_less_nat_alt)
qed

lemma clamp_less: "unat x < n \<Longrightarrow> 32 < n \<Longrightarrow> unat (clamp x) < n"
  by (auto simp: clamp_def word_less_nat_alt)

lemma part_size_le: "rest < 2 ^ 31 \<Longrightarrow> unat (part_size mx rest) \<le> rest"
  by (simp add: part_size_unat)

text \<open>A round in which a message makes the receiver ask.\<close>

lemma round_with_query:
  assumes "qt_documented Q" "fair E" "clean b" "clean a1" "cmd \<noteq> cmd_remove_fragment"
    and "drain Q (now E) a = ([encode Q m], a1)" "fits m" "process_messages Q E [m] b = (b1, None)"
    and "effects b1 = es @ [Writer_Write (query_for Q i cmd k x)]" "written es = []"
    and "next_rx_msg_id a1 = next_tx_msg_id b1"
  shows "line_round Q E (a, b) = Inr
    (put_rx (emptied (rx_device a1)) [] (\<lambda>_. now E)
       (process_fragment_query Q i (of_nat k) x (a1\<lparr>next_rx_msg_id := next_tx_msg_id b1 + 1\<rparr>)),
     (put_rx (emptied (rx_device b)) [] (\<lambda>_. now E) b1)
       \<lparr>next_tx_msg_id := next_tx_msg_id b1 + 1, last_msg_send_time := now E, effects := es\<rparr>)"
proof -
  let ?b1 = "put_rx (emptied (rx_device b)) [] (\<lambda>_. now E) b1"
  have "effects ?b1 = es @ [Writer_Write (query_for Q i cmd k x)]" "next_rx_msg_id a1 = next_tx_msg_id ?b1"
    using assms(9,11) by simp_all
  from ask [OF assms(1,2,4) this(2,1) assms(10,5)] obtain pb where
    "drain Q (now E) ?b1 = (pb, ?b1\<lparr>next_tx_msg_id := next_tx_msg_id ?b1 + 1, last_msg_send_time := now E, effects := es\<rparr>)"
    "process_chunks Q E pb a1 = Inr (put_rx (emptied (rx_device a1)) [] (\<lambda>_. now E)
      (process_fragment_query Q i (of_nat k) x (a1\<lparr>next_rx_msg_id := next_tx_msg_id ?b1 + 1\<rparr>)))"
    by blast
  from line_roundI [OF assms(6) deliver_one [OF assms(1,3,7,8)] this] show ?thesis by simp
qed

text \<open>The ends of a transfer that has come to byte \<open>k\<close>, with the calls of the two applications so far.\<close>

definition at_byte ::
    "message_item \<Rightarrow> u8 \<Rightarrow> u8 \<Rightarrow> bytes \<Rightarrow> nat \<Rightarrow> u32 \<Rightarrow> (u8, fragmented_message) std_map \<Rightarrow> effect list \<Rightarrow> effect list
     \<Rightarrow> protocol \<times> protocol \<Rightarrow> bool" where
  "at_byte m0 i j D k mx fr ca cb s = (case s of (a, b) \<Rightarrow>
     pending m0 i j D k (part_size mx (length D - k)) a \<and> expecting i j D k mx fr b \<and>
     next_rx_msg_id a = next_tx_msg_id b \<and> app_calls (effects a) = ca \<and> app_calls (effects b) = cb \<and>
     k < length D \<and> 32 \<le> unat mx \<and> unat mx \<le> 65490 \<and>
     unat (clamp (part_size mx (length D - k))) < length D)"

lemma part_msg_size: "qt_documented Q \<Longrightarrow> length (put32 Q x @ put32 Q y @ take n z) \<le> 8 + n"
  by (simp add: qt_documented.put32_length min_def)

text \<open>What a round needs of the message and of the library.\<close>

definition transferable :: "qt \<Rightarrow> message_item \<Rightarrow> u8 \<Rightarrow> u8 \<Rightarrow> bytes \<Rightarrow> bool" where
  "transferable Q m0 i j D \<longleftrightarrow> qt_documented Q \<and> compress_bounded Q \<and> fragmentable m0 \<and> (mi_flags m0 = 0 \<longrightarrow> behind i j) \<and>
     32 < length D \<and> length D < 2 ^ 31"

text \<open>The sender after a packet of the message has left: it waits for a query.\<close>

definition sent_out :: "message_item \<Rightarrow> u8 \<Rightarrow> u8 \<Rightarrow> bytes \<Rightarrow> u8 \<Rightarrow> effect list \<Rightarrow> protocol \<Rightarrow> bool" where
  "sent_out m0 i j D r ca a \<longleftrightarrow> clean a \<and> writer_has_protocol a \<and> next_tx_msg_id a = j \<and>
     next_rx_msg_id a = r \<and> written (effects a) = [] \<and> app_calls (effects a) = ca \<and>
     (\<exists>w m. waiting_messages a = [(w, m)] \<and> in_course m0 i D m)"

lemma part_leaves:
  assumes "transferable Q m0 i j D" "at_byte m0 i j D k mx fr ca cb (a, b)"
  defines "msg \<equiv> part_msg Q (mi_min_compress_size m0) i (mi_cmd m0) (mi_flags m0) D k (unat (part_size mx (length D - k)))"
  obtains a1 where "drain Q t a = ([encode Q msg], a1)" "sent_out m0 i j D (next_tx_msg_id b) ca a1" "fits msg"
proof -
  let ?n = "part_size mx (length D - k)"
  have t: "qt_documented Q" "compress_bounded Q" "fragmentable m0" "length D < 2 ^ 31"
    using assms(1) by (simp_all add: transferable_def)
  have s: "pending m0 i j D k ?n a" "k < length D" "32 \<le> unat mx" "unat mx \<le> 65490" "unat (clamp ?n) < length D"
    "app_calls (effects a) = ca" "next_rx_msg_id a = next_tx_msg_id b"
    using assms(2) by (simp_all add: at_byte_def)
  have cl: "take (unat (clamp ?n)) (drop k D) = take (unat ?n) (drop k D)"
    by (rule clamp_part(1) [OF s(3,4,2) t(4)])
  have "unat ?n \<le> 65490" using s(4) t(4) by (simp add: part_size_unat)
  then have fit: "fits msg"
    unfolding msg_def part_msg_def
    using part_msg_size [OF t(1), of "of_nat (length D)" "of_nat k" "unat ?n" "drop k D"]
    by (intro packed_fits t(2)) simp
  obtain w m' es where dr: "drain Q t a =
     ([encode Q msg], a\<lparr>last_msg_send_time := t, waiting_messages := [(w, m')], effects := es\<rparr>)"
    "in_course m0 i D m'" "written es = []" "app_calls es = ca"
    using send_part [OF t(1,3,4) s(2,1,5), of t] cl s(6) unfolding msg_def part_msg_def by metis
  moreover have "sent_out m0 i j D (next_tx_msg_id b) ca
      (a\<lparr>last_msg_send_time := t, waiting_messages := [(w, m')], effects := es\<rparr>)"
    using dr s(1,7) by (simp add: sent_out_def pending_def)
  ultimately show thesis using that fit by blast
qed

text \<open>When the receiver asks for the part at \<open>k\<close> and the sender waits for it, the transfer comes to \<open>k\<close>.\<close>

lemma query_to_part:
  assumes "transferable Q m0 i j D" "fair E" "sent_out m0 i j D (next_tx_msg_id b1) ca a1"
    and "effects b1 = es @ [Writer_Write (query_for Q i (mi_cmd m0) k (part_size mx (length D - k)))]"
    and "expecting i j D k mx fr (b1\<lparr>effects := es\<rparr>)" "app_calls es = cb" "k < length D"
    and "32 \<le> unat mx" "unat mx \<le> 65490" "unat (clamp (part_size mx (length D - k))) < length D"
  shows "\<exists>pb a2 b2. drain Q (now E) b1 = (pb, b2) \<and> process_chunks Q E pb a1 = Inr a2 \<and>
    at_byte m0 i j D k mx fr ca cb (a2, b2) \<and> fragmented_messages b2 = fragmented_messages b1 \<and>
    lost_msg_list b2 = lost_msg_list b1"
proof -
  have t: "qt_documented Q" "length D < 2 ^ 31" "mi_cmd m0 \<noteq> cmd_remove_fragment"
    using assms(1) by (simp_all add: transferable_def fragmentable_def)
  obtain w m' where a1: "clean a1" "writer_has_protocol a1" "next_tx_msg_id a1 = j"
    "next_rx_msg_id a1 = next_tx_msg_id b1" "written (effects a1) = []" "app_calls (effects a1) = ca"
    "waiting_messages a1 = [(w, m')]" "in_course m0 i D m'"
    using assms(3) by (auto simp: sent_out_def)
  have es: "written es = []" using assms(5) by (simp add: expecting_def)
  let ?a2 = "a1\<lparr>next_rx_msg_id := next_tx_msg_id b1 + 1\<rparr>"
  let ?b2 = "b1\<lparr>next_tx_msg_id := next_tx_msg_id b1 + 1, last_msg_send_time := now E, effects := es\<rparr>"
  have a2: "waiting_messages ?a2 = [(w, m')]" "protocol_writer ?a2 \<noteq> None"
    using a1(7) writer_has_protocolD [OF a1(2)] by simp_all
  obtain d et where q: "process_fragment_query Q i (of_nat k) (part_size mx (length D - k)) ?a2 =
    ?a2\<lparr>waiting_messages := [], effects := effects ?a2 @
      [Writer_Write (m0\<lparr>mi_id := Some i, mi_data_device := Some d,
         mi_fragment_size := clamp (part_size mx (length D - k)), mi_end_time := et\<rparr>)]\<rparr>"
    "dev_bytes d = D" "dev_pos d = k"
    using query_answered [OF a1(8) a2 assms(7) t(2)] by blast
  let ?a3 = "put_rx (emptied (rx_device a1)) [] (\<lambda>_. now E)
      (process_fragment_query Q i (of_nat k) (part_size mx (length D - k)) ?a2)"
  have "pending m0 i j D k (part_size mx (length D - k)) ?a3"
    using a1 q(2,3) unfolding q(1) by (auto simp: pending_def)
  moreover have "expecting i j D k mx fr ?b2"
    using assms(5) by (auto simp: expecting_def)
  moreover have "app_calls (effects ?a3) = ca" "app_calls (effects ?b2) = cb"
    "next_rx_msg_id ?a3 = next_tx_msg_id ?b2"
    using a1(6) assms(6) unfolding q(1) by simp_all
  ultimately have "at_byte m0 i j D k mx fr ca cb (?a3, ?b2)"
    using assms(7-10) unfolding at_byte_def by blast
  moreover have "fragmented_messages ?b2 = fragmented_messages b1" "lost_msg_list ?b2 = lost_msg_list b1" by simp_all
  ultimately show ?thesis using ask [OF t(1) assms(2) a1(1,4) assms(4) es t(3)] by blast
qed

text \<open>A round that makes the receiver ask for the part at \<open>k\<close> brings the transfer to \<open>k\<close>.\<close>

lemma round_to_part:
  assumes "transferable Q m0 i j D" "fair E" "clean b"
    and "drain Q (now E) a = ([encode Q m], a1)" "sent_out m0 i j D (next_tx_msg_id b1) ca a1" "fits m"
    and "process_messages Q E [m] b = (b1, None)"
    and "effects b1 = es @ [Writer_Write (query_for Q i (mi_cmd m0) k (part_size mx (length D - k)))]"
    and "expecting i j D k mx fr (b1\<lparr>effects := es\<rparr>)" "app_calls es = cb" "k < length D"
    and "32 \<le> unat mx" "unat mx \<le> 65490" "unat (clamp (part_size mx (length D - k))) < length D"
  shows "\<exists>s'. line_round Q E (a, b) = Inr s' \<and> at_byte m0 i j D k mx fr ca cb s' \<and>
    fragmented_messages (snd s') = fragmented_messages b1 \<and> lost_msg_list (snd s') = lost_msg_list b1"
proof -
  let ?b1 = "put_rx (emptied (rx_device b)) [] (\<lambda>_. now E) b1"
  have q: "qt_documented Q" using assms(1) by (simp add: transferable_def)
  have b1: "next_tx_msg_id ?b1 = next_tx_msg_id b1" "effects ?b1 = effects b1"
    "fragmented_messages ?b1 = fragmented_messages b1" "lost_msg_list ?b1 = lost_msg_list b1" by simp_all
  have "expecting i j D k mx fr (?b1\<lparr>effects := es\<rparr>)"
    using assms(9) by (auto simp: expecting_def)
  with query_to_part [OF assms(1,2), of ?b1 ca a1 es k mx fr cb] assms(5,8,10-14) obtain pb a2 b2 where
    "drain Q (now E) ?b1 = (pb, b2)" "process_chunks Q E pb a1 = Inr a2"
    "at_byte m0 i j D k mx fr ca cb (a2, b2)" "fragmented_messages b2 = fragmented_messages b1" "lost_msg_list b2 = lost_msg_list b1"
    unfolding b1 by blast
  with line_roundI [OF assms(4) deliver_one [OF q assms(3,6,7)] this(1,2)] show ?thesis by auto
qed

text \<open>When the receiver has last asked for a part.\<close>

definition asked :: "u8 \<Rightarrow> u8 \<Rightarrow> time \<Rightarrow> protocol \<times> protocol \<Rightarrow> bool" where
  "asked i cmd t s \<longleftrightarrow> (\<exists>f. map_find (fragmented_messages (snd s)) i = Some f \<and>
     fm_id f = i \<and> fm_cmd f = cmd \<and> last_part_time f = t)"

lemma asked_renewed:
  assumes "map_find (fragmented_messages b) i = Some f" "renewed t f g" "asked i cmd t0 (a, b)"
    and "map_ok (fragmented_messages b)" "fragmented_messages (snd s) = map_set i g (fragmented_messages b)"
  shows "asked i cmd t s"
  using assms by (auto simp: asked_def renewed_def)

text \<open>A message that is not marked as repeated is taken as long as few others were sent behind it.\<close>

lemma takes_plain:
  assumes "transferable Q m0 i j D" "at_byte m0 i j D k mx fr ca cb (a, b)" "mi_flags m0 = 0"
  shows "takes E i (mi_flags m0) b"
  using assms by (simp add: takes_def transferable_def at_byte_def expecting_def)

lemma round_part:
  assumes "transferable Q m0 i j D" "fair E" "at_byte m0 i j D k mx fr ca cb (a, b)" "takes E i (mi_flags m0) b"
  defines "n \<equiv> unat (part_size mx (length D - k))"
  assumes "k + n < length D"
  shows "\<exists>s'. line_round Q E (a, b) = Inr s' \<and> at_byte m0 i j D (k + n) (grow_fragment_size mx) fr ca cb s' \<and>
    map_find (lost_msg_list (snd s')) i = Some (now E) \<and> (asked i cmd t0 (a, b) \<longrightarrow> asked i cmd (now E) s')"
proof -
  let ?msg = "part_msg Q (mi_min_compress_size m0) i (mi_cmd m0) (mi_flags m0) D k n" and ?mx = "grow_fragment_size mx"
  have t: "qt_documented Q" "length D < 2 ^ 31" "mi_cmd m0 \<noteq> cmd_remove_fragment"
    using assms(1) by (simp_all add: transferable_def fragmentable_def)
  obtain f where b: "clean b" "writer_has_protocol b" "next_rx_msg_id b = j" "written (effects b) = []"
    "map_erase i (fragmented_messages b) = fr" "map_ok (fragmented_messages b)"
    "map_find (fragmented_messages b) i = Some f" "receiving D k f" "max_fragment_size f = mx"
    "app_calls (effects b) = cb"
    using assms(3) by (auto simp: at_byte_def expecting_def)
  obtain a1 where a1: "drain Q (now E) a = ([encode Q ?msg], a1)" "sent_out m0 i j D (next_tx_msg_id b) ca a1" "fits ?msg"
    using part_leaves [OF assms(1,3), of "now E"] unfolding n_def by blast
  have n0: "0 < n" using clamp_part(2) [of mx k D] assms(3) t(2) by (simp add: n_def at_byte_def)
  obtain l v g where l: "map_find l i = Some (now E)" and pm: "process_messages Q E [?msg] b =
      (b\<lparr>lost_msg_list := l, fragmented_messages := map_set i g (fragmented_messages b),
         effects := effects b @ [Writer_Add_Timeout v 32,
           Writer_Write (query_for Q i (mi_cmd m0) (k + n) (part_size ?mx (length D - (k + n))))]\<rparr>, None)"
    and g: "receiving D (k + n) g" "max_fragment_size g = ?mx" "renewed (now E) f g"
    using receive_part [OF t(1) assms(2) t(2) b(2) assms(4) t(3) b(7,8) n0 assms(6)] b(9) by metis
  have ex: "expecting i j D (k + n) ?mx fr (b\<lparr>lost_msg_list := l,
      fragmented_messages := map_set i g (fragmented_messages b), effects := effects b @ [Writer_Add_Timeout v 32]\<rparr>)"
    using b g by (auto simp: expecting_def erase_set)
  have rest: "length D - (k + n) < 2 ^ 31" using t(2) by simp
  have "unat (clamp (part_size ?mx (length D - (k + n)))) < length D"
    using assms(1,6) n0 part_size_le [OF rest, of ?mx] by (intro clamp_less) (simp_all add: transferable_def)
  then have "\<exists>s'. line_round Q E (a, b) = Inr s' \<and> at_byte m0 i j D (k + n) ?mx fr ca cb s' \<and>
      fragmented_messages (snd s') = fragmented_messages (b\<lparr>lost_msg_list := l,
        fragmented_messages := map_set i g (fragmented_messages b), effects := effects b @ [Writer_Add_Timeout v 32,
          Writer_Write (query_for Q i (mi_cmd m0) (k + n) (part_size ?mx (length D - (k + n))))]\<rparr>) \<and> lost_msg_list (snd s') = lost_msg_list (b\<lparr>lost_msg_list := l,
        fragmented_messages := map_set i g (fragmented_messages b), effects := effects b @ [Writer_Add_Timeout v 32,
          Writer_Write (query_for Q i (mi_cmd m0) (k + n) (part_size ?mx (length D - (k + n))))]\<rparr>)"
    using grow_bounds [of mx] assms(3) ex a1 b(10)
    by (intro round_to_part [OF assms(1,2) b(1) a1(1) _ a1(3) pm, of ca "effects b @ [Writer_Add_Timeout v 32]"])
      (auto simp: at_byte_def assms(6))
  then show ?thesis using l asked_renewed [OF b(7) g(3) _ b(6)] by fastforce
qed

text \<open>
  The message has been delivered; the sender is about to tell the receiver to forget it, and keeps it
  when an answer is expected.
\<close>

definition last_words :: "message_item \<Rightarrow> effect list" where
  "last_words m0 = (if kept m0 then [] else message_item_destroy m0)"

definition still_waiting :: "message_item \<Rightarrow> u8 \<Rightarrow> bytes \<Rightarrow> (time, message_item) std_map \<Rightarrow> bool" where
  "still_waiting m0 i D wl \<longleftrightarrow>
     (if kept m0 then \<exists>w m. wl = [(w, m)] \<and> in_course m0 i D m else wl = [])"

definition delivered ::
    "qt \<Rightarrow> message_item \<Rightarrow> u8 \<Rightarrow> bytes \<Rightarrow> (u8, fragmented_message) std_map \<Rightarrow> effect list \<Rightarrow> effect list
     \<Rightarrow> protocol \<times> protocol \<Rightarrow> bool" where
  "delivered Q m0 i D fr ca cb s = (case s of (a, b) \<Rightarrow>
     clean a \<and> clean b \<and> writer_has_protocol a \<and> writer_has_protocol b \<and>
     still_waiting m0 i D (waiting_messages a) \<and>
     written (effects a) = [query_item Q cmd_remove_fragment [i] 0] \<and> app_calls (effects a) = ca \<and>
     written (effects b) = [] \<and> app_calls (effects b) = cb \<and>
     next_rx_msg_id b = next_tx_msg_id a \<and> next_rx_msg_id a = next_tx_msg_id b \<and>
     fragmented_messages b = fr)"

lemma destroy_calls [simp]:
  "written (message_item_destroy m) = []" "app_calls (message_item_destroy m) = message_item_destroy m"
  by (simp_all add: message_item_destroy_def app_calls_def split: option.splits)

lemma round_last_part:
  assumes "transferable Q m0 i j D" "fair E" "at_byte m0 i j D k mx fr ca cb (a, b)" "takes E i (mi_flags m0) b"
  defines "n \<equiv> unat (part_size mx (length D - k))"
  assumes "k + n = length D"
  shows "\<exists>s'. line_round Q E (a, b) = Inr s' \<and>
    delivered Q m0 i D fr (ca @ last_words m0) (cb @ [Process_Message i (mi_cmd m0) D]) s'"
proof -
  let ?msg = "part_msg Q (mi_min_compress_size m0) i (mi_cmd m0) (mi_flags m0) D k n"
  let ?es = "effects b @ [Process_Message i (mi_cmd m0) D]"
  have t: "qt_documented Q" "length D < 2 ^ 31" "mi_cmd m0 \<noteq> cmd_remove_fragment"
    using assms(1) by (simp_all add: transferable_def fragmentable_def)
  obtain f where b: "clean b" "writer_has_protocol b" "next_rx_msg_id b = j" "written (effects b) = []"
    "map_erase i (fragmented_messages b) = fr" "map_find (fragmented_messages b) i = Some f" "receiving D k f"
    "app_calls (effects b) = cb"
    using assms(3) by (auto simp: at_byte_def expecting_def)
  obtain a1 where a1: "drain Q (now E) a = ([encode Q ?msg], a1)" "sent_out m0 i j D (next_tx_msg_id b) ca a1" "fits ?msg"
    using part_leaves [OF assms(1,3), of "now E"] unfolding n_def by blast
  then obtain w m' where w: "clean a1" "next_rx_msg_id a1 = next_tx_msg_id b" "writer_has_protocol a1"
    "next_tx_msg_id a1 = j" "written (effects a1) = []" "app_calls (effects a1) = ca"
    "waiting_messages a1 = [(w, m')]" "in_course m0 i D m'"
    by (auto simp: sent_out_def)
  have n0: "0 < n" using clamp_part(2) [of mx k D] assms(3) t(2) by (simp add: n_def at_byte_def)
  obtain l x where pm: "process_messages Q E [?msg] b =
      (b\<lparr>lost_msg_list := l, fragmented_messages := fr,
         effects := ?es @ [Writer_Write (query_for Q i (mi_cmd m0) (length D) x)]\<rparr>, None)"
    using receive_last_part [OF t(1) assms(2) t(2) b(2) assms(4) t(3) b(6,7) n0 assms(6)] b(5) by fastforce
  let ?a2 = "a1\<lparr>next_rx_msg_id := next_tx_msg_id b + 1\<rparr>"
  have a2: "waiting_messages ?a2 = [(w, m')]" "writer_has_protocol ?a2" using w by simp_all
  note q = final_query_answered [OF w(8) a2 t(2), of Q x]
  let ?b2 = "(put_rx (emptied (rx_device b)) [] (\<lambda>_. now E) (b\<lparr>lost_msg_list := l, fragmented_messages := fr,
         effects := ?es @ [Writer_Write (query_for Q i (mi_cmd m0) (length D) x)]\<rparr>))
       \<lparr>next_tx_msg_id := next_tx_msg_id b + 1, last_msg_send_time := now E, effects := ?es\<rparr>"
  let ?a3 = "put_rx (emptied (rx_device a1)) [] (\<lambda>_. now E) (process_fragment_query Q i (of_nat (length D)) x ?a2)"
  have "line_round Q E (a, b) = Inr (?a3, ?b2)"
    using round_with_query [OF t(1) assms(2) b(1) w(1) t(3) a1(1,3) pm, of ?es] b(4) w(2) by simp
  moreover have "delivered Q m0 i D fr (ca @ last_words m0) (cb @ [Process_Message i (mi_cmd m0) D]) (?a3, ?b2)"
    using w b unfolding q by (auto simp: delivered_def last_words_def still_waiting_def)
  ultimately show ?thesis by blast
qed

text \<open>
  The announcement of a message, and the first query. The sender gives it a number, or repeats it under the
  number it has; the receiver takes it.
\<close>

lemma round_announcement:
  assumes "transferable Q m0 i j D" "fair E"
    and a: "clean a" "writer_has_protocol a" "waiting_messages a = []" "effects a = es @ [Writer_Write m]" "written es = []"
    and id: "mid = Some i \<and> next_tx_msg_id a = j \<or> mid = None \<and> next_tx_msg_id a = i \<and> j = i + 1"
    and b: "clean b" "writer_has_protocol b" "written (effects b) = []"
      "map_ok (fragmented_messages b)" "map_find (fragmented_messages b) i = None" "next_rx_msg_id a = next_tx_msg_id b"
    and tr: "track_msg_id E i (mi_flags m0 OR FRAGMENT) b = (b\<lparr>next_rx_msg_id := j, lost_msg_list := l0\<rparr>, True, None)"
    and m: "m = m0\<lparr>mi_id := mid, mi_data_device := Some d, mi_fragment_size := fs, mi_end_time := et\<rparr>"
      "dev_bytes d = D" "dev_pos d = length D" "32 \<le> unat fs" "unat fs \<le> 65490" "unat (grow_fragment_size fs) < length D"
  shows "\<exists>s'. line_round Q E (a, b) = Inr s' \<and>
    at_byte m0 i j D 0 (grow_fragment_size fs) (fragmented_messages b)
      (app_calls (effects a)) (app_calls (effects b)) s' \<and> asked i (mi_cmd m0) (now E) s' \<and>
    map_find (lost_msg_list (snd s')) i = Some (now E)"
proof -
  let ?cmd = "mi_cmd m0" and ?fr = "fragmented_messages b" and ?mx = "grow_fragment_size fs"
  let ?msg = "announcement Q (mi_min_compress_size m0) i ?cmd (mi_flags m0) D fs"
  have t: "qt_documented Q" "compress_bounded Q" "fragmentable m0" "32 < length D" "length D < 2 ^ 31"
      "?cmd \<noteq> cmd_remove_fragment" "D \<noteq> []" "mi_flags m0 \<in> {0, REPEATED}"
    using assms(1) by (auto simp: transferable_def fragmentable_def)
  note gb = grow_bounds [OF m(4,5)]
  have lt: "unat fs < length D" using gb m(6) by simp
  have id': "mid = Some i \<or> mid = None \<and> i = next_tx_msg_id a" using id by auto
  obtain w m' where dr: "in_course m0 i D m'" "drain Q (now E) a =
     ([encode Q ?msg], a\<lparr>next_tx_msg_id := j, last_msg_send_time := now E, waiting_messages := [(w, m')],
        effects := es @ [Writer_Add_Timeout w 0]\<rparr>)"
    using drain_part [OF t(3) a(4,5) m(1) id' m(2) lt t(5) _ m(5) a(3) writer_has_protocolD [OF a(2)] t(1), of "now E"]
      id m(3) by (auto simp: announcement_def)
  have "length (put32 Q (of_nat (length D)) @ put32 Q (of_nat (length D)) @ put32 Q fs) = 12"
    by (simp add: qt_documented.put32_length [OF t(1)])
  then have fit: "fits ?msg" unfolding announcement_def by (intro packed_fits [OF t(2)]) simp
  have fs: "0 < fs" "fs \<le> max_packet_data_size"
    using m(4,5) by (auto simp: word_less_nat_alt word_le_nat_alt)
  let ?b0 = "b\<lparr>next_rx_msg_id := j, lost_msg_list := l0\<rparr>"
  have b0: "writer_has_protocol ?b0" "map_find (fragmented_messages ?b0) i = None" "map_ok (fragmented_messages ?b0)"
    using b by simp_all
  obtain l v fr g where
    pm: "process_messages Q E [?msg] b = (?b0\<lparr>lost_msg_list := l, fragmented_messages := fr,
         effects := effects b @ [Writer_Add_Timeout v 32,
           Writer_Write (query_for Q i ?cmd 0 (part_size ?mx (length D)))]\<rparr>, None)"
    and g: "map_find fr i = Some g" "map_erase i fr = ?fr" "receiving D 0 g" "max_fragment_size g = ?mx"
      "map_ok fr" "fm_id g = i" "fm_cmd g = ?cmd" "last_part_time g = now E" and l: "map_find l i = Some (now E)"
    using receive_announcement [OF t(1) assms(2) t(7,5) b0(1) tr t(8,6) b0(2,3) fs] by fastforce
  have "sent_out m0 i j D (next_tx_msg_id b) (app_calls (effects a)) (a\<lparr>next_tx_msg_id := j,
      last_msg_send_time := now E, waiting_messages := [(w, m')], effects := es @ [Writer_Add_Timeout w 0]\<rparr>)"
    using a dr(1) b(6) by (simp add: sent_out_def)
  moreover have "expecting i j D 0 ?mx ?fr (?b0\<lparr>lost_msg_list := l,
         fragmented_messages := fr, effects := effects b @ [Writer_Add_Timeout v 32]\<rparr>)"
    using b g by (simp add: expecting_def)
  moreover have "unat (clamp (part_size ?mx (length D))) < length D"
    using m(6) t(4,5) by (intro clamp_less) (simp_all add: part_size_unat)
  ultimately have "\<exists>s'. line_round Q E (a, b) = Inr s' \<and>
      at_byte m0 i j D 0 ?mx ?fr (app_calls (effects a)) (app_calls (effects b)) s' \<and>
      fragmented_messages (snd s') = fragmented_messages (?b0\<lparr>lost_msg_list := l,
        fragmented_messages := fr, effects := effects b @ [Writer_Add_Timeout v 32,
           Writer_Write (query_for Q i ?cmd 0 (part_size ?mx (length D)))]\<rparr>) \<and>
      lost_msg_list (snd s') = lost_msg_list (?b0\<lparr>lost_msg_list := l,
        fragmented_messages := fr, effects := effects b @ [Writer_Add_Timeout v 32,
           Writer_Write (query_for Q i ?cmd 0 (part_size ?mx (length D)))]\<rparr>)"
    using gb m(4) t(7)
    by (intro round_to_part [OF assms(1,2) b(1) dr(2) _ fit pm, of _ "effects b @ [Writer_Add_Timeout v 32]"]) auto
  then show ?thesis using g(1,6-8) l by (auto simp: asked_def)
qed

text \<open>The request to forget the message, which the receiver has forgotten already.\<close>

definition transferred ::
    "message_item \<Rightarrow> u8 \<Rightarrow> bytes \<Rightarrow> (u8, fragmented_message) std_map \<Rightarrow> effect list \<Rightarrow> effect list
     \<Rightarrow> protocol \<times> protocol \<Rightarrow> bool" where
  "transferred m0 i D fr ca cb s = (case s of (a, b) \<Rightarrow>
     clean a \<and> clean b \<and> still_waiting m0 i D (waiting_messages a) \<and>
     written (effects a) = [] \<and> app_calls (effects a) = ca \<and>
     written (effects b) = [] \<and> app_calls (effects b) = cb \<and>
     next_rx_msg_id b = next_tx_msg_id a \<and> next_rx_msg_id a = next_tx_msg_id b \<and>
     fragmented_messages b = fr)"

lemma app_calls_filter [simp]: "app_calls (filter (\<lambda>e. \<not> is_write e) es) = app_calls es"
  by (induction es) (auto simp: app_calls_def is_write_def split: effect.splits)

lemma written_filter [simp]: "written (filter (\<lambda>e. \<not> is_write e) es) = []"
  by (induction es rule: written.induct) (auto simp: is_write_def)

lemma round_removal:
  assumes "qt_documented Q" "fair E" "delivered Q m0 i D fr ca cb (a, b)" "map_erase i fr = fr"
  shows "\<exists>s'. line_round Q E (a, b) = Inr s' \<and> transferred m0 i D fr ca cb s'"
proof -
  let ?m = "(next_tx_msg_id a, cmd_remove_fragment, 0, [i])"
  have d: "clean a" "clean b" "still_waiting m0 i D (waiting_messages a)"
    "written (effects a) = [query_item Q cmd_remove_fragment [i] 0]" "app_calls (effects a) = ca"
    "written (effects b) = []" "app_calls (effects b) = cb" "next_rx_msg_id b = next_tx_msg_id a"
    "next_rx_msg_id a = next_tx_msg_id b" "fragmented_messages b = fr"
    using assms(3) by (simp_all add: delivered_def)
  let ?a1 = "a\<lparr>next_tx_msg_id := next_tx_msg_id a + 1, last_msg_send_time := now E,
      effects := filter (\<lambda>e. \<not> is_write e) (effects a)\<rparr>"
  have dr: "drain Q (now E) a = ([encode Q ?m], ?a1)"
    using drain_query [OF d(4)] assms(2) by (simp add: fair_def)
  let ?b1 = "b\<lparr>next_rx_msg_id := next_tx_msg_id a + 1, fragmented_messages := fr\<rparr>"
  have nf: "\<not> has_flag 0 f" for f by (simp add: has_flag_def)
  have pm: "process_messages Q E [?m] b = (?b1, None)"
    using track_in_order [of 0 "next_tx_msg_id a" b E] d(8,10) assms(4) nf
    by (simp add: internal_process_message_def dispatch_def)
  let ?b2 = "put_rx (emptied (rx_device b)) [] (\<lambda>_. now E) ?b1"
  have "fits ?m" by (simp add: fits_def)
  from line_roundI [OF dr deliver_one [OF assms(1) d(2) this pm] drain_none]
  have "line_round Q E (a, b) = Inr (?a1, ?b2)" using d(6) by simp
  moreover have "transferred m0 i D fr ca cb (?a1, ?b2)"
    using d by (simp add: transferred_def)
  ultimately show ?thesis by blast
qed

section \<open>The transfer\<close>

lemma rounds_after_transfer:
  "transferred m0 i D fr ca cb s \<Longrightarrow> line_rounds Q Es s = Inr s"
proof (induction Es)
  case (Cons E Es)
  then have "line_round Q E s = Inr s"
    by (cases s) (auto simp: transferred_def line_round_def drain_none)
  with Cons show ?case by simp
qed simp

lemma parts_left:
  fixes n0 :: nat
  assumes "0 < n0" "n0 \<le> n" "k + n < len"
  shows "Suc ((len - (k + n) - 1) div n0) \<le> (len - k - 1) div n0"
proof -
  have "(len - (k + n) - 1) div n0 + 1 = (len - (k + n) - 1 + n0) div n0"
    using assms(1) div_add_self2 [of n0 "len - (k + n) - 1"] by simp
  also have "\<dots> \<le> (len - k - 1) div n0"
    using assms(2,3) by (intro div_le_mono) simp
  finally show ?thesis by simp
qed

text \<open>
  From byte \<open>k\<close> on: as many rounds as the rest has parts of the first size, and one more. When
  the message is marked as repeated, each round comes within ten seconds of the last.
\<close>

fun paced :: "time \<Rightarrow> env list \<Rightarrow> bool" where
  "paced t [] \<longleftrightarrow> True"
| "paced t (E # Es) \<longleftrightarrow> now E - t < seconds 10 \<and> paced (now E) Es"

definition in_time :: "message_item \<Rightarrow> u8 \<Rightarrow> time \<Rightarrow> env list \<Rightarrow> protocol \<times> protocol \<Rightarrow> bool" where
  "in_time m0 i t Es s \<longleftrightarrow> mi_flags m0 = 0 \<or> map_find (lost_msg_list (snd s)) i = Some t \<and> paced t Es"

lemma takes_in_time:
  assumes "transferable Q m0 i j D" "at_byte m0 i j D k mx fr ca cb (a, b)" "in_time m0 i t (E # Es) (a, b)"
  shows "takes E i (mi_flags m0) b"
proof (cases "mi_flags m0 = 0")
  case False
  then have "mi_flags m0 = REPEATED" using assms(1) by (auto simp: transferable_def fragmentable_def)
  then show ?thesis using assms(3) False by (simp add: takes_def in_time_def)
qed (rule takes_plain [OF assms(1,2)])

lemma rounds_from_byte:
  assumes "transferable Q m0 i j D" "\<forall>E \<in> set Es. fair E" "at_byte m0 i j D k mx fr ca cb s"
    and "map_erase i fr = fr" "(length D - k - 1) div n0 + 2 \<le> length Es" "0 < n0" "n0 \<le> unat mx" "in_time m0 i t Es s"
  shows "\<exists>s'. line_rounds Q Es s = Inr s' \<and>
    transferred m0 i D fr (ca @ last_words m0) (cb @ [Process_Message i (mi_cmd m0) D]) s'"
  using assms
proof (induction Es arbitrary: k mx s t)
  case (Cons E Es)
  obtain a b where s: "s = (a, b)" by (cases s)
  let ?n = "unat (part_size mx (length D - k))"
  have t: "qt_documented Q" "length D < 2 ^ 31" using Cons.prems(1) by (simp_all add: transferable_def)
  have kx: "k < length D" "32 \<le> unat mx" "unat mx \<le> 65490" using Cons.prems(3) by (simp_all add: at_byte_def s)
  have n: "?n = min (unat mx) (length D - k)" using t(2) by (simp add: part_size_unat)
  have fE: "fair E" "\<forall>E \<in> set Es. fair E" using Cons.prems(2) by simp_all
  note tk = takes_in_time [OF Cons.prems(1) Cons.prems(3,8) [unfolded s]]
  consider "k + ?n < length D" | "k + ?n = length D" using n kx(1) by linarith
  then show ?case
  proof cases
    case 1
    obtain s' where r: "line_round Q E s = Inr s'" "at_byte m0 i j D (k + ?n) (grow_fragment_size mx) fr ca cb s'"
      "map_find (lost_msg_list (snd s')) i = Some (now E)"
      using round_part [OF Cons.prems(1) fE(1) Cons.prems(3) [unfolded s] tk 1] s by blast
    then have "in_time m0 i (now E) Es s'" using Cons.prems(8) by (auto simp: in_time_def)
    have mx: "?n = unat mx" using n 1 by auto
    have "(length D - (k + ?n) - 1) div n0 + 2 \<le> length Es"
      using parts_left [OF Cons.prems(6) _ 1] mx Cons.prems(5,7) by simp
    moreover have "n0 \<le> unat (grow_fragment_size mx)"
      using grow_bounds(1) [OF kx(2,3)] Cons.prems(7) by simp
    ultimately show ?thesis
      using Cons.IH [OF Cons.prems(1) fE(2) r(2) Cons.prems(4)] \<open>in_time m0 i (now E) Es s'\<close> Cons.prems(6) r(1) by simp
  next
    case 2
    obtain s' where r: "line_round Q E s = Inr s'"
      "delivered Q m0 i D fr (ca @ last_words m0) (cb @ [Process_Message i (mi_cmd m0) D]) s'"
      using round_last_part [OF Cons.prems(1) fE(1) Cons.prems(3) [unfolded s] tk 2] s by blast
    obtain E' Es' where Es: "Es = E' # Es'" using Cons.prems(5) by (cases Es) auto
    obtain a' b' where s': "s' = (a', b')" by (cases s')
    obtain s'' where "line_round Q E' s' = Inr s''"
      "transferred m0 i D fr (ca @ last_words m0) (cb @ [Process_Message i (mi_cmd m0) D]) s''"
      using round_removal [OF t(1) _ r(2) [unfolded s'] Cons.prems(4), of E'] fE(2) s' Es by auto
    then show ?thesis using r(1) rounds_after_transfer [of m0 i D fr _ _ s'' Q Es'] by (simp add: Es)
  qed
qed simp

text \<open>Two ends of a line that are in step, with nothing under way and nothing waiting at the first.\<close>

definition idle_line :: "protocol \<Rightarrow> protocol \<Rightarrow> bool" where
  "idle_line a b \<longleftrightarrow> clean a \<and> clean b \<and> writer_has_protocol a \<and> writer_has_protocol b \<and>
     waiting_messages a = [] \<and> written (effects a) = [] \<and> written (effects b) = [] \<and>
     next_rx_msg_id b = next_tx_msg_id a \<and> next_rx_msg_id a = next_tx_msg_id b \<and>
     map_ok (fragmented_messages b) \<and> map_find (fragmented_messages b) (next_tx_msg_id a) = None"

text \<open>
  A message of the application, positioned behind its data as \<open>Protocol_Sender\<close> leaves it, that is larger
  than the part the receiver will ask for first.
\<close>

definition large_message :: "message_item \<Rightarrow> bytes \<Rightarrow> bool" where
  "large_message m D \<longleftrightarrow> mi_id m = None \<and> fragmentable m \<and> mi_flags m = 0 \<and>
     (\<exists>d. mi_data_device m = Some d \<and> dev_bytes d = D \<and> dev_pos d = length D) \<and>
     32 \<le> unat (mi_fragment_size m) \<and> unat (mi_fragment_size m) \<le> 65490 \<and>
     unat (grow_fragment_size (mi_fragment_size m)) < length D \<and> length D < 2 ^ 31"

lemma transfer_begins:
  assumes "qt_documented Q" "compress_bounded Q" "fair E"
    and "idle_line a b" "next_tx_msg_id a < 255" "large_message m D"
  shows "transferable Q m (next_tx_msg_id a) (next_tx_msg_id a + 1) D"
    and "32 \<le> unat (mi_fragment_size m)" "unat (mi_fragment_size m) \<le> 65490"
    and "map_erase (next_tx_msg_id a) (fragmented_messages b) = fragmented_messages b"
    and "\<exists>s. line_round Q E (send_message (Some m) a, b) = Inr s \<and>
      at_byte m (next_tx_msg_id a) (next_tx_msg_id a + 1) D 0 (grow_fragment_size (mi_fragment_size m)) (fragmented_messages b)
        (app_calls (effects a)) (app_calls (effects b)) s \<and>
      asked (next_tx_msg_id a) (mi_cmd m) (now E) s"
proof -
  let ?i = "next_tx_msg_id a" and ?fs = "mi_fragment_size m" and ?a = "a\<lparr>effects := effects a @ [Writer_Write m]\<rparr>"
  obtain d where d: "mi_data_device m = Some d" "dev_bytes d = D" "dev_pos d = length D"
    and m: "mi_id m = None" "fragmentable m" "mi_flags m = 0" "32 \<le> unat ?fs" "unat ?fs \<le> 65490"
      "unat (grow_fragment_size ?fs) < length D" "length D < 2 ^ 31"
    using assms(6) by (auto simp: large_message_def)
  show "32 \<le> unat ?fs" "unat ?fs \<le> 65490" by (fact m(4,5))+
  show tr: "transferable Q m ?i (?i + 1) D"
    using assms(1,2,5) m grow_bounds(1) [OF m(4,5)] by (simp add: transferable_def behind_next)
  show "map_erase ?i (fragmented_messages b) = fragmented_messages b"
    using assms(4) by (simp add: map_find_def erase_absent idle_line_def)
  have snd: "send_message (Some m) a = ?a"
    using assms(4) writer_has_protocolD d(1) by (auto simp: send_message_def emit_def idle_line_def)
  show "\<exists>s. line_round Q E (send_message (Some m) a, b) = Inr s \<and>
      at_byte m ?i (?i + 1) D 0 (grow_fragment_size ?fs) (fragmented_messages b) (app_calls (effects a))
        (app_calls (effects b)) s \<and> asked ?i (mi_cmd m) (now E) s"
    unfolding snd
    using round_announcement [OF tr assms(3), of ?a "effects a" m None b "lost_msg_list b" "mi_end_time m" ?fs d]
      track_in_order [of FRAGMENT ?i b E] assms(4) m d
    by (auto simp: idle_line_def has_flag_def flag_defs)
qed

text \<open>
  Property C2.  Transfer of a message in fragments over a line that loses nothing, from one idle end to
  another, under a number that is not the last before the wrap (255): the sender announces the message, the
  receiver asks for part after part, and after at most one round for each part of the announced size and
  three more the receiver's application has been given the message, once and whole; the receiver's table is
  as before, both ends agree on the numbers, and the sender has released the message, unless it still waits
  for the answer.
\<close>

theorem fragmented_message_transferred:
  assumes "qt_documented Q" "compress_bounded Q" "\<forall>E \<in> set Es. fair E"
    and "idle_line a b" "next_tx_msg_id a < 255" "large_message m D"
    and "(length D - 1) div unat (mi_fragment_size m) + 3 \<le> length Es"
  shows "\<exists>a' b'. line_rounds Q Es (send_message (Some m) a, b) = Inr (a', b') \<and>
    app_calls (effects b') = app_calls (effects b) @ [Process_Message (next_tx_msg_id a) (mi_cmd m) D] \<and>
    app_calls (effects a') = app_calls (effects a) @ (if kept m then [] else message_item_destroy m) \<and>
    still_waiting m (next_tx_msg_id a) D (waiting_messages a') \<and>
    written (effects a') = [] \<and> written (effects b') = [] \<and>
    next_rx_msg_id b' = next_tx_msg_id a' \<and> next_rx_msg_id a' = next_tx_msg_id b' \<and>
    fragmented_messages b' = fragmented_messages b"
proof -
  let ?i = "next_tx_msg_id a" and ?fs = "mi_fragment_size m"
  obtain E Es' where Es: "Es = E # Es'" using assms(7) by (cases Es) auto
  have f: "fair E" "\<forall>E \<in> set Es'. fair E" using assms(3) Es by simp_all
  note b = transfer_begins [OF assms(1,2) f(1) assms(4-6)]
  obtain s where r: "line_round Q E (send_message (Some m) a, b) = Inr s"
    "at_byte m ?i (?i + 1) D 0 (grow_fragment_size ?fs) (fragmented_messages b) (app_calls (effects a)) (app_calls (effects b)) s"
    using b(5) by blast
  have len: "(length D - 0 - 1) div unat ?fs + 2 \<le> length Es'" using assms(7) Es by simp
  have pos: "0 < unat ?fs" using b(2) by simp
  have "in_time m ?i t Es' s" for t using assms(6) by (simp add: in_time_def large_message_def)
  then show ?thesis
    using rounds_from_byte [OF b(1) f(2) r(2) b(4) len pos grow_bounds(1) [OF b(2,3)]] r(1)
    by (auto simp: Es transferred_def last_words_def)
qed

text \<open>
  The number 255: the parts of a message arrive under its number after its announcement, when the receiver
  expects 0 already.  Each of them is taken for a packet far ahead; it is handled, but the application is told of
  lost messages and a hundred numbers that were received are entered as lost.
\<close>

theorem part_of_255_reports_losses:
  assumes "next_rx_msg_id b = 0" "\<not> has_flag f REPEATED" "\<not> throws E (Lost_Msg_Detected 255 0)"
    and "map_ok (lost_msg_list b)" "155 \<le> j" "j < 255"
  shows "\<exists>b1. track_msg_id E 255 f b = (b1, True, None) \<and> effects b1 = effects b @ [Lost_Msg_Detected 255 0] \<and>
    map_find (lost_msg_list b1) j \<noteq> None"
proof -
  have "\<not> behind 255 (next_rx_msg_id b)" "ahead 255 (next_rx_msg_id b)"
    using assms(1) by (simp_all add: behind_def ahead_def)
  from gap_fills_lost_list [OF assms(2) this _ assms(4), of E] assms(1,3)
  obtain b1 where b1: "track_msg_id E 255 f b = (b1, True, None)" "effects b1 = effects b @ [Lost_Msg_Detected 255 0]"
    and l: "map_find (lost_msg_list b1) j =
       (let kept = (case map_find (lost_msg_list b) j of
                      Some tp \<Rightarrow> if lost_is_stale (now E) 255 (j, tp) then None else Some tp
                    | None \<Rightarrow> None)
        in if kept = None \<and> skipped (gap_start 255 0) 255 j then Some (now E) else kept)"
    by auto
  have "map_find (lost_msg_list b1) j \<noteq> None"
    unfolding l using skipped_before_wrap [OF assms(5,6)] by (auto simp: Let_def)
  with b1 show ?thesis by blast
qed

section \<open>A message that fits the first part\<close>

text \<open>
  When the part the receiver asks for is the whole message, the sender finds that it is not larger than
  its fragment size and sends it without the fragment header.  The receiver delivers it, but its record
  of the fragmented message still misses everything, and the timer will ask for it again.
\<close>

lemma whole_message_stays_incomplete:
  assumes "transferable Q m0 i j D" "fair E" "pending m0 i j D 0 x a" "expecting i j D 0 mx fr b"
    and "next_rx_msg_id a = next_tx_msg_id b" "length D \<le> unat (clamp x)" "mi_cmd m0 \<noteq> cmd_ping" "mi_flags m0 = 0"
  shows "\<exists>a' b' f. line_round Q E (a, b) = Inr (a', b') \<and>
    effects b' = effects b @ [Process_Message i (mi_cmd m0) D] \<and>
    map_find (fragmented_messages b') i = Some f \<and> \<not> is_parts_empty f"
proof -
  have t: "qt_documented Q" "compress_bounded Q" "fragmentable m0" "behind i j" "32 < length D" "length D < 2 ^ 31"
      "mi_cmd m0 \<noteq> cmd_remove_fragment"
    using assms(1,8) by (auto simp: transferable_def fragmentable_def)
  obtain es d et where a: "effects a = es @ [Writer_Write (m0\<lparr>mi_id := Some i, mi_data_device := Some d,
        mi_fragment_size := clamp x, mi_end_time := et\<rparr>)]" "written es = []" "dev_bytes d = D" "dev_pos d = 0"
      "clean a" "writer_has_protocol a" "waiting_messages a = []"
    using assms(3) by (auto simp: pending_def)
  let ?m = "m0\<lparr>mi_id := Some i, mi_data_device := Some d, mi_fragment_size := clamp x, mi_end_time := et\<rparr>"
  let ?msg = "packed Q (mi_min_compress_size m0) i (mi_cmd m0) 0 D"
  have dm: "mi_data_device ?m = Some d" by simp
  have pl: "packet_payload Q (now E) ?m d = (0, D, ?m\<lparr>mi_data_device := Some (d\<lparr>dev_pos := dev_size d\<rparr>)\<rparr>)"
    using packet_payload_small [OF dm, of Q "now E"] assms(6,8) a(3) t(3)
    by (simp add: dev_size_def answer_flag_def answer_prefix_def fragmentable_def)
  obtain a1 where dr: "drain Q (now E) a = ([encode Q ?msg], a1)"
    using drain_one [of a ?m Q "now E"] a(1,2) prepare_packed [OF dm pl, of i] t(6)
    by (simp add: split_beta)
  obtain f where b: "clean b" "next_rx_msg_id b = j" "written (effects b) = []"
    "map_find (fragmented_messages b) i = Some f" "receiving D 0 f"
    using assms(4) by (auto simp: expecting_def)
  have nf: "\<not> has_flag 0 g" for g by (simp add: has_flag_def)
  obtain l where tr: "track_msg_id E i 0 b = (b\<lparr>lost_msg_list := l\<rparr>, True, None)"
    using track_repeated [of 0 i b E] t(4) b(2) nf by (cases "map_find (lost_msg_list b) i") (auto intro: that [of "lost_msg_list b"])
  have "process_messages Q E [?msg] b =
      (emit (Process_Message i (mi_cmd m0) D) (b\<lparr>lost_msg_list := l\<rparr>), None)"
    using t(5,7) assms(2,7)
    by (intro receive_packed [OF t(1) nf _ tr]) (auto simp: dispatch_def nf call_app_def fair_def)
  moreover have "length D \<le> 65490" using clamp_part(4) [of x] assms(6) by (simp add: clamp_def word_less_nat_alt split: if_splits)
  then have "fits ?msg" by (intro packed_fits [OF t(2)]) simp
  ultimately have pc: "process_chunks Q E [encode Q ?msg] b = Inr (put_rx (emptied (rx_device b)) [] (\<lambda>_. now E)
      (emit (Process_Message i (mi_cmd m0) D) (b\<lparr>lost_msg_list := l\<rparr>)))" (is "_ = Inr ?b1")
    by (intro deliver_one [OF t(1) b(1)])
  have e: "effects ?b1 = effects b @ [Process_Message i (mi_cmd m0) D]" by (simp add: emit_def)
  then have dn: "drain Q (now E) ?b1 = ([], ?b1)" using b(3) by (intro drain_none) simp
  have "line_round Q E (a, b) = Inr (a1, ?b1)"
    by (rule line_roundI [OF dr pc dn process_chunks.simps(1)])
  moreover have "map_find (fragmented_messages ?b1) i = Some f" "\<not> is_parts_empty f"
    using b(4,5) by (simp_all add: emit_def is_parts_empty_def receiving_def)
  ultimately show ?thesis using e by blast
qed

section \<open>Examples\<close>

definition sample_end :: protocol where
  "sample_end = set_writer (Some \<lparr>last_msg_recv_time = 0, w_has_protocol = True\<rparr>) protocol_new"

definition large_item :: message_item where
  "large_item =
     (message_item_new 16 None
        (Some \<lparr>dev_bytes = replicate 100 7, dev_pos = 100, dev_open = True\<rparr>) (milliseconds 3000))
       \<lparr>mi_fragment_size := 40\<rparr>"

theorem fragmented_message_transferred_witness:
  "\<exists>a' b'. line_rounds qt_sample (replicate 5 quiet) (send_message (Some large_item) sample_end, sample_end) =
      Inr (a', b') \<and>
    app_calls (effects b') = [Process_Message 0 16 (replicate 100 7)] \<and> fragmented_messages b' = []"
proof -
  have "compress_bounded qt_sample" by (simp add: compress_bounded_def qt_sample_def)
  moreover have "\<forall>E \<in> set (replicate 5 quiet). fair E" by (simp add: fair_def quiet_def)
  moreover have "idle_line sample_end sample_end" "next_tx_msg_id sample_end < 255"
    by (simp_all add: idle_line_def sample_end_def set_writer_def protocol_new_def clean_def
        writer_has_protocol_def dev_reopen_def new_device_def)
  moreover have "large_message large_item (replicate 100 7)"
    by (simp add: large_message_def large_item_def message_item_new_def fragmentable_def cmd_defs
        grow_fragment_size_def)
  moreover have "(length (replicate 100 7) - 1) div unat (mi_fragment_size large_item) + 3 \<le>
      length (replicate 5 quiet)"
    by (simp add: large_item_def)
  ultimately show ?thesis
    using fragmented_message_transferred [OF qt_sample_documented, of "replicate 5 quiet" sample_end sample_end
        large_item "replicate 100 7"]
    by (fastforce simp: sample_end_def set_writer_def protocol_new_def large_item_def message_item_new_def)
qed

end
