(* ===== verification/Fragment_Losses.thy ===== *)
theory Fragment_Losses
  imports Fragment_Transfer
begin

text \<open>
  The transfer of a fragmented message over a line that loses parts. When a part does not arrive, the timer
  of the receiver (\<open>process_wait_list\<close> with the mark \<open>FRAGMENT\<close>) asks for it
  again, with half the size, 1.5 seconds after the last part; the transfer then goes on from the same byte.
\<close>

section \<open>A lost part\<close>

text \<open>
  What the first end sends is lost; then the timer of the second end fires, and what it hands to its writer
  reaches the first.
\<close>

definition lost_round ::
    "qt \<Rightarrow> env \<Rightarrow> env \<Rightarrow> protocol \<times> protocol \<Rightarrow> undefined_behaviour + protocol \<times> protocol" where
  "lost_round Q E E' s =
     (case s of (a, b) \<Rightarrow>
        case drain Q (now E) a of (_, a1) \<Rightarrow>
        case drain Q (now E') (process_wait_list Q (now E') (now E') (int (unat FRAGMENT)) b) of (pb, b1) \<Rightarrow>
          (case process_chunks Q E' pb a1 of Inl u \<Rightarrow> Inl u | Inr a2 \<Rightarrow> Inr (a2, b1)))"

datatype line_event = Round env | Part_Lost env env

fun line_run ::
    "qt \<Rightarrow> line_event list \<Rightarrow> protocol \<times> protocol \<Rightarrow> undefined_behaviour + protocol \<times> protocol" where
  "line_run Q [] s = Inr s"
| "line_run Q (Round E # es) s = (case line_round Q E s of Inl u \<Rightarrow> Inl u | Inr s' \<Rightarrow> line_run Q es s')"
| "line_run Q (Part_Lost E E' # es) s = (case lost_round Q E E' s of Inl u \<Rightarrow> Inl u | Inr s' \<Rightarrow> line_run Q es s')"

text \<open>The times of the events: the timer fires 1.5 seconds or more after the receiver has last asked, at \<open>t\<close>.\<close>

fun timely :: "time \<Rightarrow> line_event list \<Rightarrow> bool" where
  "timely t [] = True"
| "timely t (Round E # es) = (fair E \<and> timely (now E) es)"
| "timely t (Part_Lost E E' # es) =
     (fair E \<and> fair E' \<and> t + milliseconds 1500 \<le> now E' \<and> timely (now E') es)"

fun rounds_in :: "line_event list \<Rightarrow> nat" where
  "rounds_in [] = 0"
| "rounds_in (Round E # es) = Suc (rounds_in es)"
| "rounds_in (Part_Lost E E' # es) = rounds_in es"

definition halved :: "u32 \<Rightarrow> u32" where
  "halved mx = (if mx div 2 < 128 then 128 else mx div 2)"

lemma halved_bounds: "unat mx \<le> 65490 \<Longrightarrow> 128 \<le> unat (halved mx) \<and> unat (halved mx) \<le> 65490"
  by (auto simp: halved_def word_less_nat_alt unat_div_distrib)

lemma renew_part:
  assumes "receiving D k f" "length D < 2 ^ 31" "writer_has_protocol p" "last_part_time f + milliseconds 1500 \<le> t"
  shows "\<exists>l w. renew_fragment Q t (i, f) p =
    p\<lparr>lost_msg_list := l,
      fragmented_messages := map_set i (f\<lparr>max_fragment_size := halved (max_fragment_size f), last_part_time := t\<rparr>)
        (fragmented_messages p),
      effects := effects p @ [Writer_Add_Timeout w 32,
         Writer_Write (query_for Q (fm_id f) (fm_cmd f) k (part_size (halved (max_fragment_size f)) (length D - k)))]\<rparr>"
proof -
  let ?m = "f\<lparr>max_fragment_size := halved (max_fragment_size f), last_part_time := t\<rparr>"
  have pv: "part_vect f = [(of_nat k, of_nat (length D))]" "k < length D" using assms(1) by (simp_all add: receiving_def)
  have "get_next_part ?m = (of_nat k, part_size (halved (max_fragment_size f)) (length D - k))"
    using next_part_single [of ?m k D] pv assms(2) by simp
  moreover have "writer_has_protocol (p\<lparr>lost_msg_list := l, fragmented_messages := fr\<rparr>)" for l fr
    using assms(3) by (simp add: writer_has_protocol_def)
  ultimately show ?thesis
    using pv(1) assms(4) writer_has_protocolD [OF assms(3)]
    by (auto simp: renew_fragment_def Let_def is_parts_empty_def finish_query emit_def query_for_def FRAGMENT_def
        halved_def [symmetric])
qed

lemma only_entry:
  assumes "map_erase i fm = []" "map_find fm i = Some f" "map_ok fm"
  shows "fm = [(i, f)]"
proof -
  have "\<forall>x \<in> set fm. fst x = i" using assms(1) by (auto simp: map_erase_def filter_empty_conv)
  moreover have "distinct (map fst fm)" using assms(3) by (simp add: map_ok_def strict_sorted_iff)
  ultimately have "length fm \<le> 1" by (cases fm; cases "tl fm") auto
  with assms(2) show ?thesis by (cases fm) (auto simp: map_find_def split: if_splits)
qed

lemma halved_part_smaller:
  assumes "unat (clamp (part_size mx (length D - k))) < length D" "unat mx \<le> 65490" "128 < length D" "length D < 2 ^ 31"
  shows "unat (clamp (part_size (halved mx) (length D - k))) < length D"
proof (intro clamp_less)
  have "unat (part_size mx (length D - k)) \<le> unat (clamp (part_size mx (length D - k)))"
    using assms(2,4) by (auto simp: clamp_def word_less_nat_alt part_size_unat)
  with assms(1,4) have "min (unat mx) (length D - k) < length D" by (simp add: part_size_unat)
  moreover have "unat (halved mx) = 128 \<or> unat (halved mx) \<le> unat mx"
    by (auto simp: halved_def unat_div_distrib)
  ultimately show "unat (part_size (halved mx) (length D - k)) < length D"
    using assms(3,4) by (auto simp: part_size_unat min_def split: if_splits)
qed (use assms(3) in simp)

lemma round_lost:
  assumes "transferable Q m0 i j D" "128 < length D" "fair E'"
    and "at_byte m0 i j D k mx [] ca cb (a, b)" "asked i (mi_cmd m0) t (a, b)" "t + milliseconds 1500 \<le> now E'"
  shows "\<exists>s'. lost_round Q E E' (a, b) = Inr s' \<and> at_byte m0 i j D k (halved mx) [] ca cb s' \<and>
    asked i (mi_cmd m0) (now E') s'"
proof -
  have D: "length D < 2 ^ 31" using assms(1) by (simp add: transferable_def)
  obtain f where b: "clean b" "writer_has_protocol b" "next_rx_msg_id b = j" "written (effects b) = []"
    "map_erase i (fragmented_messages b) = []" "map_ok (fragmented_messages b)"
    "map_find (fragmented_messages b) i = Some f" "receiving D k f" "max_fragment_size f = mx"
    "app_calls (effects b) = cb" "k < length D" "unat mx \<le> 65490"
    "unat (clamp (part_size mx (length D - k))) < length D"
    using assms(4) by (auto simp: at_byte_def expecting_def)
  have fm: "fragmented_messages b = [(i, f)]" by (rule only_entry [OF b(5,7,6)])
  have f: "fm_id f = i" "fm_cmd f = mi_cmd m0" "last_part_time f + milliseconds 1500 \<le> now E'"
    using assms(5,6) b(7) by (auto simp: asked_def)
  let ?g = "f\<lparr>max_fragment_size := halved mx, last_part_time := now E'\<rparr>"
  obtain l w where wl: "process_wait_list Q (now E') (now E') (int (unat FRAGMENT)) b =
      b\<lparr>lost_msg_list := l, fragmented_messages := [(i, ?g)],
        effects := effects b @ [Writer_Add_Timeout w 32,
          Writer_Write (query_for Q i (mi_cmd m0) k (part_size (halved mx) (length D - k)))]\<rparr>" (is "_ = ?b1")
    using renew_part [OF b(8) D b(2) f(3), of Q i] f(1,2) b(9) fm
    by (auto simp: process_wait_list_def map_set_def)
  obtain a1 ms where a1: "drain Q (now E) a = (ms, a1)" "sent_out m0 i j D (next_tx_msg_id b) ca a1"
    using part_leaves [OF assms(1,4), of "now E"] by metis
  have "holds_of D ?g = holds_of D f" by (simp add: holds_of_def)
  then have "receiving D k ?g" using b(8) by (simp add: receiving_def)
  then have ex: "expecting i j D k (halved mx) [] (?b1\<lparr>effects := effects b @ [Writer_Add_Timeout w 32]\<rparr>)"
    using b by (auto simp: expecting_def map_erase_def map_find_def map_ok_def)
  have "\<exists>pb a2 b2. drain Q (now E') ?b1 = (pb, b2) \<and> process_chunks Q E' pb a1 = Inr a2 \<and>
      at_byte m0 i j D k (halved mx) [] ca cb (a2, b2) \<and> fragmented_messages b2 = fragmented_messages ?b1 \<and>
      lost_msg_list b2 = lost_msg_list ?b1"
    using a1(2) ex b(10-12) halved_bounds [OF b(12)] halved_part_smaller [OF b(13,12) assms(2) D]
    by (intro query_to_part [OF assms(1,3), where es = "effects b @ [Writer_Add_Timeout w 32]"]) auto
  then obtain pb a2 b2 where "drain Q (now E') ?b1 = (pb, b2)" "process_chunks Q E' pb a1 = Inr a2"
      "at_byte m0 i j D k (halved mx) [] ca cb (a2, b2)" "fragmented_messages b2 = [(i, ?g)]"
    by auto
  then show ?thesis using a1(1) wl f by (simp add: lost_round_def asked_def map_find_def)
qed

section \<open>The end of a transfer\<close>

text \<open>The message is delivered, and nothing is left to do; a lost request to forget it does no harm.\<close>

definition finished :: "effect list \<Rightarrow> effect list \<Rightarrow> protocol \<times> protocol \<Rightarrow> bool" where
  "finished ca cb s = (case s of (a, b) \<Rightarrow>
     app_calls (effects a) = ca \<and> app_calls (effects b) = cb \<and>
     written (effects a) = [] \<and> written (effects b) = [] \<and> fragmented_messages b = [])"

lemma wait_list_idle: "fragmented_messages b = [] \<Longrightarrow> process_wait_list Q t1 t2 (uint FRAGMENT) b = b"
  by (simp add: process_wait_list_def)

lemma transferred_finished: "transferred m0 i D [] ca cb s \<Longrightarrow> finished ca cb s"
  by (cases s) (simp add: transferred_def finished_def)

lemma lost_removal:
  assumes "delivered Q m0 i D [] ca cb (a, b)" "fair E"
  shows "\<exists>s'. lost_round Q E E' (a, b) = Inr s' \<and> finished ca cb s'"
proof -
  have d: "written (effects a) = [query_item Q cmd_remove_fragment [i] 0]" "app_calls (effects a) = ca"
    "written (effects b) = []" "app_calls (effects b) = cb" "fragmented_messages b = []"
    using assms(1) by (simp_all add: delivered_def)
  then show ?thesis
    using drain_query [OF d(1), of "now E"] assms(2) drain_none [of b Q "now E'"]
    by (simp add: lost_round_def wait_list_idle finished_def fair_def)
qed

lemma finished_stays:
  assumes "finished ca cb s"
  shows "line_run Q es s = Inr s"
proof (induction es)
  case (Cons e es)
  obtain a b where s: "s = (a, b)" by (cases s)
  have "line_round Q E s = Inr s" "lost_round Q E E' s = Inr s" for E E'
    using assms by (simp_all add: s finished_def line_round_def lost_round_def drain_none wait_list_idle)
  then show ?case using Cons by (cases e) simp_all
qed simp

section \<open>The transfer\<close>

text \<open>From byte \<open>k\<close> on, as long as parts have at least \<open>n0\<close> bytes.\<close>

lemma run_from_byte:
  assumes "transferable Q m0 i j D" "128 < length D" "0 < n0" "n0 \<le> 128" "mi_flags m0 = 0"
    and "timely t es" "at_byte m0 i j D k mx [] ca cb s" "asked i (mi_cmd m0) t s" "n0 \<le> unat mx"
    and "(length D - k - 1) div n0 + 2 \<le> rounds_in es"
  shows "\<exists>s'. line_run Q es s = Inr s' \<and>
    finished (ca @ last_words m0) (cb @ [Process_Message i (mi_cmd m0) D]) s'"
  using assms(6-10)
proof (induction es arbitrary: k mx s t)
  case (Cons e es)
  obtain a b where s: "s = (a, b)" by (cases s)
  note at = Cons.prems(2) [unfolded s] and ak = Cons.prems(3) [unfolded s]
  let ?n = "unat (part_size mx (length D - k))"
  have q: "qt_documented Q" "length D < 2 ^ 31" using assms(1) by (simp_all add: transferable_def)
  have kx: "k < length D" "32 \<le> unat mx" "unat mx \<le> 65490" using at by (simp_all add: at_byte_def)
  have n: "?n = min (unat mx) (length D - k)" using q(2) by (simp add: part_size_unat)
  note tk = takes_plain [OF assms(1) at assms(5)]
  show ?case
  proof (cases e)
    case (Part_Lost E E')
    obtain s' where r: "lost_round Q E E' s = Inr s'" "at_byte m0 i j D k (halved mx) [] ca cb s'"
      "asked i (mi_cmd m0) (now E') s'"
      using round_lost [OF assms(1,2) _ at ak, of E' E] Cons.prems(1) Part_Lost s by auto
    have "n0 \<le> unat (halved mx)" using halved_bounds [OF kx(3)] assms(4) by simp
    then show ?thesis using Cons.IH [OF _ r(2,3)] Cons.prems(1,5) r(1) Part_Lost by simp
  next
    case (Round E)
    then have E: "fair E" "timely (now E) es" using Cons.prems(1) by simp_all
    consider "k + ?n < length D" | "k + ?n = length D" using n kx(1) by linarith
    then show ?thesis
    proof cases
      case 1
      obtain s' where r: "line_round Q E s = Inr s'" "at_byte m0 i j D (k + ?n) (grow_fragment_size mx) [] ca cb s'"
        "asked i (mi_cmd m0) (now E) s'"
        using round_part [OF assms(1) E(1) at tk 1, of "mi_cmd m0" t] ak s by blast
      have "?n = unat mx" using n 1 by auto
      then have "(length D - (k + ?n) - 1) div n0 + 2 \<le> rounds_in es"
        using parts_left [OF assms(3) _ 1] Cons.prems(4,5) Round by simp
      moreover have "n0 \<le> unat (grow_fragment_size mx)"
        using grow_bounds(1) [OF kx(2,3)] Cons.prems(4) by simp
      ultimately show ?thesis using Cons.IH [OF E(2) r(2,3)] r(1) Round by simp
    next
      case 2
      let ?ca = "ca @ last_words m0" and ?cb = "cb @ [Process_Message i (mi_cmd m0) D]"
      obtain a' b' where r: "line_round Q E s = Inr (a', b')" "delivered Q m0 i D [] ?ca ?cb (a', b')"
        using round_last_part [OF assms(1) E(1) at tk 2] s by auto
      obtain e' es' where es: "es = e' # es'" using Cons.prems(5) Round by (cases es) auto
      have "\<exists>s''. line_run Q [e'] (a', b') = Inr s'' \<and> finished ?ca ?cb s''"
      proof (cases e')
        case (Round E')
        then have "fair E'" using E(2) es by simp
        from round_removal [OF q(1) this r(2)] Round show ?thesis
          by (auto simp: map_erase_def dest: transferred_finished)
      next
        case (Part_Lost F F')
        then have "fair F" using E(2) es by simp
        from lost_removal [OF r(2) this, of F'] Part_Lost show ?thesis by auto
      qed
      then obtain s'' where "line_run Q [e'] (a', b') = Inr s''" "finished ?ca ?cb s''" by blast
      then have "line_run Q es (a', b') = Inr s''"
        using finished_stays [of ?ca ?cb s'' Q es'] by (cases e') (auto simp: es split: sum.splits)
      then show ?thesis using r(1) Round \<open>finished ?ca ?cb s''\<close> by simp
    qed
  qed
qed simp

text \<open>
  Transfer over a line that loses parts: however the losses are spread over the transfer, once the
  announcement has arrived and as many rounds succeed as the message has parts of the smallest size, and two more,
  the receiver's application has been given the message, once and whole, and nothing is left to do at either
  end.  After each loss the receiver's timer fires 1.5 seconds or more after it has last asked.
\<close>

theorem fragmented_message_survives_losses:
  assumes "qt_documented Q" "compress_bounded Q" "timely t (Round E # es)"
    and "idle_line a b" "fragmented_messages b = []" "next_tx_msg_id a < 255" "large_message m D" "128 < length D"
    and "(length D - 1) div min 128 (unat (mi_fragment_size m)) + 2 \<le> rounds_in es"
  shows "\<exists>a' b'. line_run Q (Round E # es) (send_message (Some m) a, b) = Inr (a', b') \<and>
    app_calls (effects b') = app_calls (effects b) @ [Process_Message (next_tx_msg_id a) (mi_cmd m) D] \<and>
    app_calls (effects a') = app_calls (effects a) @ (if kept m then [] else message_item_destroy m) \<and>
    written (effects a') = [] \<and> written (effects b') = [] \<and> fragmented_messages b' = []"
proof -
  let ?fs = "mi_fragment_size m"
  have E: "fair E" "timely (now E) es" using assms(3) by simp_all
  note b = transfer_begins [OF assms(1,2) E(1) assms(4,6,7)]
  obtain s where r: "line_round Q E (send_message (Some m) a, b) = Inr s"
    "at_byte m (next_tx_msg_id a) (next_tx_msg_id a + 1) D 0 (grow_fragment_size ?fs) [] (app_calls (effects a)) (app_calls (effects b)) s"
    "asked (next_tx_msg_id a) (mi_cmd m) (now E) s"
    using b(5) assms(5) by auto
  have n: "0 < min 128 (unat ?fs)" "min 128 (unat ?fs) \<le> unat (grow_fragment_size ?fs)"
    using b(2) grow_bounds(1) [OF b(2,3)] by simp_all
  have "mi_flags m = 0" using assms(7) by (simp add: large_message_def)
  from run_from_byte [OF b(1) assms(8) n(1) _ this E(2) r(2,3) n(2)] assms(9) r(1) show ?thesis
    by (auto simp: finished_def last_words_def)
qed

section \<open>Examples\<close>

definition longer_item :: message_item where
  "longer_item =
     (message_item_new 16 None
        (Some \<lparr>dev_bytes = replicate 200 7, dev_pos = 200, dev_open = True\<rparr>) (milliseconds 3000))
       \<lparr>mi_fragment_size := 100\<rparr>"

definition two_seconds_later :: env where
  "two_seconds_later = quiet\<lparr>now := milliseconds 2000\<rparr>"

theorem fragmented_message_survives_losses_witness:
  "\<exists>a' b'. line_run qt_sample
        (Round quiet # Part_Lost quiet two_seconds_later # replicate 3 (Round two_seconds_later))
        (send_message (Some longer_item) sample_end, sample_end) = Inr (a', b') \<and>
    app_calls (effects b') = [Process_Message 0 16 (replicate 200 7)]"
proof -
  let ?es = "Part_Lost quiet two_seconds_later # replicate 3 (Round two_seconds_later)"
  have "compress_bounded qt_sample" by (simp add: compress_bounded_def qt_sample_def)
  moreover have "timely 0 (Round quiet # ?es)"
    by (simp add: fair_def quiet_def two_seconds_later_def milliseconds_def numeral_3_eq_3)
  moreover have "idle_line sample_end sample_end" "next_tx_msg_id sample_end < 255"
    by (simp_all add: idle_line_def sample_end_def set_writer_def protocol_new_def clean_def
        writer_has_protocol_def dev_reopen_def new_device_def)
  moreover have "large_message longer_item (replicate 200 7)"
    by (simp add: large_message_def longer_item_def message_item_new_def fragmentable_def cmd_defs
        grow_fragment_size_def)
  moreover have "fragmented_messages sample_end = []" by (simp add: sample_end_def set_writer_def protocol_new_def)
  moreover have "(length (replicate 200 (7::u8)) - 1) div min 128 (unat (mi_fragment_size longer_item)) + 2
      \<le> rounds_in ?es"
    by (simp add: longer_item_def numeral_3_eq_3)
  ultimately have "\<exists>a' b'. line_run qt_sample (Round quiet # ?es) (send_message (Some longer_item) sample_end, sample_end) =
      Inr (a', b') \<and> app_calls (effects b') = app_calls (effects sample_end) @
        [Process_Message (next_tx_msg_id sample_end) (mi_cmd longer_item) (replicate 200 7)]"
    using fragmented_message_survives_losses [OF qt_sample_documented, of 0 quiet ?es sample_end sample_end longer_item "replicate 200 7"]
    by simp blast
  then show ?thesis by (simp add: sample_end_def set_writer_def protocol_new_def longer_item_def message_item_new_def)
qed

end
