(* ===== verification/Fragment_Queries.thy ===== *)
theory Fragment_Queries
  imports Fragment_Losses
begin

text \<open>
  The transfer of a fragmented message over a line that loses parts and queries.  A query that is lost leaves a gap in the
  numbers the sender sees; the next query that arrives is taken for one behind lost messages, is answered all
  the same, and closes the gap.
\<close>

section \<open>The receiver's timer\<close>

definition fragment_timer :: "qt \<Rightarrow> time \<Rightarrow> protocol \<Rightarrow> bytes list \<times> protocol" where
  "fragment_timer Q t b = drain Q t (process_wait_list Q t t (int (unat FRAGMENT)) b)"

lemma timer_asks:
  assumes "expecting i j D k mx [] b" "asked i cmd t0 (a, b)" "t0 + milliseconds 1500 \<le> t" "length D < 2 ^ 31"
  obtains l w g where "process_wait_list Q t t (int (unat FRAGMENT)) b =
      b\<lparr>lost_msg_list := l, fragmented_messages := [(i, g)],
        effects := effects b @ [Writer_Add_Timeout w 32,
          Writer_Write (query_for Q i cmd k (part_size (halved mx) (length D - k)))]\<rparr>"
    and "receiving D k g" "max_fragment_size g = halved mx" "fm_id g = i" "fm_cmd g = cmd" "last_part_time g = t"
proof -
  obtain f where b: "writer_has_protocol b" "map_erase i (fragmented_messages b) = []" "map_ok (fragmented_messages b)"
    "map_find (fragmented_messages b) i = Some f" "receiving D k f" "max_fragment_size f = mx"
    using assms(1) by (auto simp: expecting_def)
  have fm: "fragmented_messages b = [(i, f)]" by (rule only_entry [OF b(2,4,3)])
  have f: "fm_id f = i" "fm_cmd f = cmd" "last_part_time f + milliseconds 1500 \<le> t"
    using assms(2,3) b(4) by (auto simp: asked_def)
  let ?g = "f\<lparr>max_fragment_size := halved mx, last_part_time := t\<rparr>"
  obtain l w where wl: "process_wait_list Q t t (int (unat FRAGMENT)) b =
      b\<lparr>lost_msg_list := l, fragmented_messages := [(i, ?g)],
        effects := effects b @ [Writer_Add_Timeout w 32,
          Writer_Write (query_for Q i cmd k (part_size (halved mx) (length D - k)))]\<rparr>"
    using renew_part [OF b(5) assms(4) b(1) f(3), of Q i] f(1,2) b(6) fm
    by (auto simp: process_wait_list_def map_set_def)
  have "holds_of D ?g = holds_of D f" by (simp add: holds_of_def)
  then have "receiving D k ?g" using b(5) by (simp add: receiving_def)
  then show thesis using that [OF wl] f by simp
qed

text \<open>What leaves with a query, and what stays.\<close>

lemma drain_asking:
  assumes "qt_documented Q" "0 \<le> t" "effects b = es @ [Writer_Write (query_for Q i cmd k x)]" "written es = []"
  shows "drain Q t b =
    ([encode Q (next_tx_msg_id b, cmd, FRAGMENT_QUERY, [i] @ put32 Q (of_nat k) @ put32 Q x)],
     b\<lparr>next_tx_msg_id := next_tx_msg_id b + 1, last_msg_send_time := t, effects := es\<rparr>)"
proof -
  let ?data = "[i] @ put32 Q (of_nat k) @ put32 Q x"
  have "length ?data \<le> 512" by (simp add: qt_documented.put32_length [OF assms(1)])
  from drain_query [of b Q cmd ?data FRAGMENT_QUERY t, OF _ assms(2) this] assms(3,4)
  show ?thesis by (simp add: query_for_def)
qed

section \<open>The sender's timer\<close>

definition sender_timer :: "qt \<Rightarrow> time \<Rightarrow> protocol \<Rightarrow> bytes list \<times> protocol" where
  "sender_timer Q t a = drain Q t (process_wait_list Q t t 0 a)"

text \<open>No message that waits is due, the twenty milliseconds included by which messages are taken early.\<close>

definition silent :: "time \<Rightarrow> protocol \<Rightarrow> bool" where
  "silent t a \<longleftrightarrow> (\<forall>e \<in> set (waiting_messages a). t + milliseconds 20 < fst e)"

lemma sender_timer_silent:
  assumes "silent t a" and "written (effects a) = []"
  shows "sender_timer Q t a = ([], a)"
proof -
  have "pop_waiting_messages t a = ([], a)"
    using assms(1) by (cases "waiting_messages a") (auto simp: pop_waiting_messages_def silent_def Let_def)
  then have "process_wait_list Q t t 0 a = a"
    by (simp add: process_wait_list_def flag_defs)
  then show ?thesis
    using assms(2) by (simp add: sender_timer_def drain_none)
qed

text \<open>A part that leaves at \<open>t\<close> is not due before the resend timeout has passed, or ten seconds if that is less.\<close>

lemma part_waits:
  assumes "transferable Q m0 i j D" "at_byte m0 i j D k mx fr ca cb (a, b)" "drain Q t a = (ms, a1)"
    and "u + milliseconds 20 < t + min (mi_resend_timeout m0) (seconds 10)"
  shows "silent u a1"
proof -
  let ?n = "part_size mx (length D - k)"
  have q: "qt_documented Q" "fragmentable m0" "length D < 2 ^ 31"
    using assms(1) by (simp_all add: transferable_def)
  obtain es d et where a: "effects a = es @ [Writer_Write (m0\<lparr>mi_id := Some i, mi_data_device := Some d,
        mi_fragment_size := clamp ?n, mi_end_time := et\<rparr>)]" "written es = []" "dev_bytes d = D" "dev_pos d = k"
      "writer_has_protocol a" "waiting_messages a = []" "k < length D" "unat (clamp ?n) < length D"
    using assms(2) by (auto simp: at_byte_def pending_def)
  have c: "unat (clamp ?n) \<le> 65490" by (simp add: clamp_def word_less_nat_alt)
  obtain m' where m': "mi_resend_timeout m' = mi_resend_timeout m0" "mi_end_time m' = t + seconds 10"
      and w: "waiting_messages a1 = [(wait_point t m', m')]"
    using drain_part_at [OF q(2) a(1,2) refl _ a(3,8) q(3) _ c a(6) writer_has_protocolD [OF a(5)] q(1), of i t]
      a(4,7) assms(3) by auto
  have "t + min (mi_resend_timeout m0) (seconds 10) \<le> wait_point t m'"
    by (simp add: wait_point_def m')
  with assms(4) w show ?thesis
    by (simp add: silent_def)
qed

section \<open>A gap in the numbers\<close>

text \<open>The receiver's queries since the last one that arrived: \<open>n\<close> of them are lost.\<close>

definition lagging ::
    "message_item \<Rightarrow> u8 \<Rightarrow> u8 \<Rightarrow> bytes \<Rightarrow> nat \<Rightarrow> u32 \<Rightarrow> nat \<Rightarrow> effect list \<Rightarrow> effect list \<Rightarrow> time \<Rightarrow> protocol \<times> protocol \<Rightarrow> bool" where
  "lagging m0 i j D k mx n ca cb t s = (case s of (a, b) \<Rightarrow>
     sent_out m0 i j D (next_rx_msg_id a) ca a \<and> expecting i j D k mx [] b \<and> asked i (mi_cmd m0) t (a, b) \<and>
     next_tx_msg_id b = next_rx_msg_id a + of_nat n \<and> app_calls (effects b) = cb \<and> k < length D \<and>
     32 \<le> unat mx \<and> unat mx \<le> 65490 \<and> unat (clamp (part_size mx (length D - k))) < length D)"

lemma lagging_more:
  assumes "transferable Q m0 i j D" "128 < length D" "lagging m0 i j D k mx n ca cb t0 (a, b)"
    and "t0 + milliseconds 1500 \<le> t" "0 \<le> t"
  shows "lagging m0 i j D k (halved mx) (Suc n) ca cb t (a, snd (fragment_timer Q t b))"
proof -
  have D: "length D < 2 ^ 31" "qt_documented Q" using assms(1) by (simp_all add: transferable_def)
  have g: "sent_out m0 i j D (next_rx_msg_id a) ca a" "expecting i j D k mx [] b" "asked i (mi_cmd m0) t0 (a, b)"
    "next_tx_msg_id b = next_rx_msg_id a + of_nat n" "app_calls (effects b) = cb" "k < length D"
    "unat mx \<le> 65490" "unat (clamp (part_size mx (length D - k))) < length D"
    using assms(3) by (simp_all add: lagging_def)
  obtain l w g where wl: "process_wait_list Q t t (int (unat FRAGMENT)) b =
      b\<lparr>lost_msg_list := l, fragmented_messages := [(i, g)],
        effects := effects b @ [Writer_Add_Timeout w 32,
          Writer_Write (query_for Q i (mi_cmd m0) k (part_size (halved mx) (length D - k)))]\<rparr>"
    and r: "receiving D k g" "max_fragment_size g = halved mx" "fm_id g = i" "fm_cmd g = mi_cmd m0" "last_part_time g = t"
    using timer_asks [OF g(2,3) assms(4) D(1)] by metis
  have w0: "written (effects b) = []" using g(2) by (simp add: expecting_def)
  let ?b = "b\<lparr>lost_msg_list := l, fragmented_messages := [(i, g)],
        effects := effects b @ [Writer_Add_Timeout w 32,
          Writer_Write (query_for Q i (mi_cmd m0) k (part_size (halved mx) (length D - k)))]\<rparr>"
  have "snd (fragment_timer Q t b) =
      ?b\<lparr>next_tx_msg_id := next_tx_msg_id b + 1, last_msg_send_time := t, effects := effects b @ [Writer_Add_Timeout w 32]\<rparr>"
    unfolding fragment_timer_def wl
    using drain_asking [OF D(2) assms(5), of ?b "effects b @ [Writer_Add_Timeout w 32]" i "mi_cmd m0" k
        "part_size (halved mx) (length D - k)"] w0 by simp
  moreover have "expecting i j D k (halved mx) [] (?b\<lparr>next_tx_msg_id := next_tx_msg_id b + 1, last_msg_send_time := t,
      effects := effects b @ [Writer_Add_Timeout w 32]\<rparr>)"
    using g(2) r(1,2) by (auto simp: expecting_def map_erase_def map_find_def map_ok_def)
  ultimately show ?thesis
    using g r halved_bounds [OF g(7)] halved_part_smaller [OF g(8,7) assms(2) D(1)]
    by (simp add: lagging_def asked_def map_find_def)
qed

text \<open>The sender, with the missing numbers entered into its list of lost messages.\<close>

definition caught_up :: "env \<Rightarrow> u8 \<Rightarrow> protocol \<Rightarrow> protocol" where
  "caught_up E j a =
     (if j = next_rx_msg_id a then a
      else fill_lost_msg (now E) j (emit (Lost_Msg_Detected j (next_rx_msg_id a)) a))"

lemma u8_gap:
  assumes "0 < n" "n < 100"
  shows "\<not> behind (j + of_nat n) j" "ahead (j + of_nat n) j" "j + of_nat n \<noteq> j"
proof -
  have n: "unat (of_nat n :: u8) = n" using assms by (simp add: unat_of_nat take_bit_nat_eq_self)
  have u: "unat (j + of_nat n) = (if unat j + n < 256 then unat j + n else unat j + n - 256)"
    using unat_word_ariths(1) [of j "of_nat n"] n unat_u8_less [of j] assms by (auto simp: mod_if)
  show "\<not> behind (j + of_nat n) j" "ahead (j + of_nat n) j" "j + of_nat n \<noteq> j"
    using u assms unat_u8_less [of j] by (auto simp: behind_def ahead_def word_less_nat_alt split: if_splits)
qed

lemma track_caught_up:
  assumes "\<forall>e. \<not> throws E e" "n < 100" "\<not> has_flag f REPEATED" "j = next_rx_msg_id a + of_nat n"
  shows "track_msg_id E j f a = track_msg_id E j f (caught_up E j a)"
proof (cases "n = 0")
  case True
  then show ?thesis using assms(4) by (simp add: caught_up_def)
next
  case False
  then have j: "\<not> behind j (next_rx_msg_id a)" "ahead j (next_rx_msg_id a)" "j \<noteq> next_rx_msg_id a"
    using u8_gap [of n "next_rx_msg_id a"] assms(2,4) by simp_all
  let ?c = "fill_lost_msg (now E) j (emit (Lost_Msg_Detected j (next_rx_msg_id a)) a)"
  have "next_rx_msg_id ?c = j" by (simp add: fill_lost_msg_def Let_def)
  then have "track_msg_id E j f ?c = (?c\<lparr>next_rx_msg_id := j + 1\<rparr>, True, None)"
    using track_in_order [OF assms(3), of j ?c E] by simp
  then show ?thesis using track_ahead [OF assms(3) j(1,2)] assms(1) j(3) by (simp add: caught_up_def)
qed

lemma caught_up_same:
  "rx_device (caught_up E j a) = rx_device a" "clean (caught_up E j a) = clean a"
  "writer_has_protocol (caught_up E j a) = writer_has_protocol a" "waiting_messages (caught_up E j a) = waiting_messages a"
  "next_tx_msg_id (caught_up E j a) = next_tx_msg_id a" "next_rx_msg_id (caught_up E j a) = j"
  "written (effects (caught_up E j a)) = written (effects a)"
  by (simp_all add: caught_up_def fill_lost_msg_def emit_def clean_def writer_has_protocol_def Let_def)

text \<open>A query that arrives brings the transfer to the byte it asks for.\<close>

lemma lagging_heard:
  assumes "transferable Q m0 i j D" "128 < length D" "lagging m0 i j D k mx n ca cb t (a, b)" "n < 100"
    and "fair E" "t + milliseconds 1500 \<le> now E"
  shows "\<exists>pb a2 b2 ca'. fragment_timer Q (now E) b = (pb, b2) \<and> process_chunks Q E pb a = Inr a2 \<and>
    at_byte m0 i j D k (halved mx) [] ca' cb (a2, b2) \<and> asked i (mi_cmd m0) (now E) (a2, b2)"
proof -
  have D: "length D < 2 ^ 31" "qt_documented Q" "mi_cmd m0 \<noteq> cmd_remove_fragment"
    using assms(1) by (simp_all add: transferable_def fragmentable_def)
  have E: "0 \<le> now E" "\<forall>e. \<not> throws E e" using assms(5) by (simp_all add: fair_def)
  have g: "sent_out m0 i j D (next_rx_msg_id a) ca a" "expecting i j D k mx [] b" "asked i (mi_cmd m0) t (a, b)"
    "next_tx_msg_id b = next_rx_msg_id a + of_nat n" "app_calls (effects b) = cb" "k < length D"
    "unat mx \<le> 65490" "unat (clamp (part_size mx (length D - k))) < length D"
    using assms(3) by (simp_all add: lagging_def)
  obtain l w g where wl: "process_wait_list Q (now E) (now E) (int (unat FRAGMENT)) b =
      b\<lparr>lost_msg_list := l, fragmented_messages := [(i, g)],
        effects := effects b @ [Writer_Add_Timeout w 32,
          Writer_Write (query_for Q i (mi_cmd m0) k (part_size (halved mx) (length D - k)))]\<rparr>" (is "_ = ?b")
    and r: "receiving D k g" "max_fragment_size g = halved mx" "fm_id g = i" "fm_cmd g = mi_cmd m0" "last_part_time g = now E"
    using timer_asks [OF g(2,3) assms(6) D(1)] by metis
  let ?es = "effects b @ [Writer_Add_Timeout w 32]" and ?j = "next_tx_msg_id b"
  let ?c = "caught_up E ?j a" and ?x = "part_size (halved mx) (length D - k)"
  let ?m = "(?j, mi_cmd m0, FRAGMENT_QUERY, [i] @ put32 Q (of_nat k) @ put32 Q ?x)"
  have w0: "written (effects b) = []" using g(2) by (simp add: expecting_def)
  have dr: "drain Q (now E) ?b = ([encode Q ?m], ?b\<lparr>next_tx_msg_id := ?j + 1, last_msg_send_time := now E, effects := ?es\<rparr>)"
    using drain_asking [OF D(2) E(1), of ?b ?es i "mi_cmd m0" k ?x] w0 by simp
  have ex: "expecting i j D k (halved mx) [] (?b\<lparr>effects := ?es\<rparr>)"
    using g(2) r(1,2) by (auto simp: expecting_def map_erase_def map_find_def map_ok_def)
  have so: "sent_out m0 i j D (next_tx_msg_id ?b) (app_calls (effects ?c)) ?c"
    using g(1) by (simp add: sent_out_def caught_up_same)
  have "\<exists>pb a2 b2. drain Q (now E) ?b = (pb, b2) \<and> process_chunks Q E pb ?c = Inr a2 \<and>
      at_byte m0 i j D k (halved mx) [] (app_calls (effects ?c)) cb (a2, b2) \<and>
      fragmented_messages b2 = fragmented_messages ?b \<and> lost_msg_list b2 = lost_msg_list ?b"
    using so ex g(5,6) halved_bounds [OF g(7)] halved_part_smaller [OF g(8,7) assms(2) D(1)]
    by (intro query_to_part [OF assms(1,5), where es = ?es]) auto
  then obtain a2 b2 where q: "drain Q (now E) ?b = ([encode Q ?m], b2)" "process_chunks Q E [encode Q ?m] ?c = Inr a2"
      "at_byte m0 i j D k (halved mx) [] (app_calls (effects ?c)) cb (a2, b2)" "fragmented_messages b2 = [(i, g)]"
    using dr by auto
  have nf: "\<not> has_flag FRAGMENT_QUERY REPEATED" by (simp add: has_flag_def flag_defs)
  have pm: "process_messages Q E [?m] a = process_messages Q E [?m] ?c"
    using track_caught_up [OF E(2) assms(4) nf g(4)] by (simp add: internal_process_message_def)
  have cl: "clean a" "clean ?c" using g(1) by (simp_all add: sent_out_def caught_up_same)
  have fit: "fits ?m" by (simp add: fits_def qt_documented.put32_length [OF D(2)])
  have pc: "process_messages Q E [?m] ?c =
      (process_fragment_query Q i (of_nat k) ?x (?c\<lparr>next_rx_msg_id := ?j + 1\<rparr>), None)"
    using receive_query [OF D(2) _ D(3), of ?c ?j] by (simp add: caught_up_same)
  have "process_chunks Q E [encode Q ?m] a = process_chunks Q E [encode Q ?m] ?c"
    using deliver_one [OF D(2) cl(1) fit] deliver_one [OF D(2) cl(2) fit] pm pc by (simp add: caught_up_same)
  moreover have "asked i (mi_cmd m0) (now E) (a2, b2)" using q(4) r by (simp add: asked_def map_find_def)
  ultimately show ?thesis unfolding fragment_timer_def wl using q(1-3) by metis
qed

section \<open>Losses\<close>

text \<open>
  Where a packet can be lost: on the way to the receiver, or on the way back, when the receiver has got the
  part.  Then the timers of both ends fire: at the times of a list in vain, and at last so that what they send arrives.
\<close>

definition part_lost :: "qt \<Rightarrow> env \<Rightarrow> protocol \<times> protocol \<Rightarrow> undefined_behaviour + protocol \<times> protocol" where
  "part_lost Q E s = (case s of (a, b) \<Rightarrow> Inr (snd (drain Q (now E) a), b))"

definition query_lost :: "qt \<Rightarrow> env \<Rightarrow> protocol \<times> protocol \<Rightarrow> undefined_behaviour + protocol \<times> protocol" where
  "query_lost Q E s =
     (case s of (a, b) \<Rightarrow>
        case drain Q (now E) a of (pa, a1) \<Rightarrow>
          (case process_chunks Q E pa b of Inl u \<Rightarrow> Inl u | Inr b1 \<Rightarrow> Inr (a1, snd (drain Q (now E) b1))))"

fun timers_lost :: "qt \<Rightarrow> time list \<Rightarrow> protocol \<times> protocol \<Rightarrow> protocol \<times> protocol" where
  "timers_lost Q [] s = s"
| "timers_lost Q (t # ts) s =
     timers_lost Q ts (snd (sender_timer Q t (fst s)), snd (fragment_timer Q t (snd s)))"

definition timer_heard :: "qt \<Rightarrow> env \<Rightarrow> protocol \<times> protocol \<Rightarrow> undefined_behaviour + protocol \<times> protocol" where
  "timer_heard Q E s =
     (case s of (a, b) \<Rightarrow>
        case sender_timer Q (now E) a of (pa, a0) \<Rightarrow>
          (case process_chunks Q E pa b of
             Inl u \<Rightarrow> Inl u
           | Inr b0 \<Rightarrow>
               (case fragment_timer Q (now E) b0 of (pb, b1) \<Rightarrow>
                  (case process_chunks Q E pb a0 of Inl u \<Rightarrow> Inl u | Inr a1 \<Rightarrow> Inr (a1, b1)))))"

datatype lossy_event = Good_Round env | Parts_Lost env "time list" env | Queries_Lost env "time list" env

fun lossy_step :: "qt \<Rightarrow> lossy_event \<Rightarrow> protocol \<times> protocol \<Rightarrow> undefined_behaviour + protocol \<times> protocol" where
  "lossy_step Q (Good_Round E) s = line_round Q E s"
| "lossy_step Q (Parts_Lost E ts E') s =
     (case part_lost Q E s of Inl u \<Rightarrow> Inl u | Inr s \<Rightarrow> timer_heard Q E' (timers_lost Q ts s))"
| "lossy_step Q (Queries_Lost E ts E') s =
     (case query_lost Q E s of Inl u \<Rightarrow> Inl u | Inr s \<Rightarrow> timer_heard Q E' (timers_lost Q ts s))"

fun lossy_run :: "qt \<Rightarrow> lossy_event list \<Rightarrow> protocol \<times> protocol \<Rightarrow> undefined_behaviour + protocol \<times> protocol" where
  "lossy_run Q [] s = Inr s"
| "lossy_run Q (e # es) s = (case lossy_step Q e s of Inl u \<Rightarrow> Inl u | Inr s \<Rightarrow> lossy_run Q es s)"

text \<open>The timer fires 1.5 seconds or more after the receiver has last asked, and not a hundred times in vain.\<close>

fun spaced :: "time \<Rightarrow> time list \<Rightarrow> bool" where
  "spaced t [] = True"
| "spaced t (t' # ts) = (t + milliseconds 1500 \<le> t' \<and> 0 \<le> t' \<and> spaced t' ts)"

text \<open>
  The times of a run, from the time \<open>t\<close> at which the receiver last asked: a part leaves before
  the timer of the receiver is due, and a query of that timer arrives before the sender's own repetition is
  due, which is \<open>r\<close> after the part has left.
\<close>

fun lossy_ok :: "time \<Rightarrow> time \<Rightarrow> lossy_event list \<Rightarrow> bool" where
  "lossy_ok r t [] = True"
| "lossy_ok r t (Good_Round E # es) = (fair E \<and> now E < t + milliseconds 1500 \<and> lossy_ok r (now E) es)"
| "lossy_ok r t (Parts_Lost E ts E' # es) =
     (fair E \<and> fair E' \<and> now E < t + milliseconds 1500 \<and> spaced t (ts @ [now E']) \<and>
      now E' + milliseconds 20 < now E + r \<and> length ts < 99 \<and> lossy_ok r (now E') es)"
| "lossy_ok r t (Queries_Lost E ts E' # es) =
     (fair E \<and> fair E' \<and> now E < t + milliseconds 1500 \<and> spaced (now E) (ts @ [now E']) \<and>
      now E' + milliseconds 20 < now E + r \<and> length ts < 99 \<and> lossy_ok r (now E') es)"

text \<open>The events in which a part arrives.\<close>

fun arrivals :: "lossy_event list \<Rightarrow> nat" where
  "arrivals [] = 0"
| "arrivals (Good_Round E # es) = Suc (arrivals es)"
| "arrivals (Parts_Lost E ts E' # es) = arrivals es"
| "arrivals (Queries_Lost E ts E' # es) = Suc (arrivals es)"

section \<open>Back in step\<close>

lemma spaced_ge: "spaced t xs \<Longrightarrow> x \<in> set xs \<Longrightarrow> t \<le> x"
  by (induction t xs rule: spaced.induct) (auto simp: milliseconds_def)

lemma spaced_last: "spaced t (ts @ [u]) \<Longrightarrow> x \<in> set (ts @ [u]) \<Longrightarrow> x \<le> u"
proof (induction ts arbitrary: t)
  case (Cons t' ts)
  then have "t' \<le> u" using spaced_ge [of t' "ts @ [u]" u] by simp
  with Cons show ?case by auto
qed simp

lemma silent_mono: "silent u a \<Longrightarrow> t \<le> u \<Longrightarrow> silent t a"
  by (auto simp: silent_def)

lemma lagging_heard_at_last:
  assumes "transferable Q m0 i j D" "128 < length D" "n0 \<le> 128" "fair E"
    and "lagging m0 i j D k mx n ca cb t s" "spaced t (ts @ [now E])" "n + length ts < 100" "n0 \<le> unat mx"
    and "silent (now E) (fst s)"
  shows "\<exists>s' mx' ca'. timer_heard Q E (timers_lost Q ts s) = Inr s' \<and> at_byte m0 i j D k mx' [] ca' cb s' \<and>
    asked i (mi_cmd m0) (now E) s' \<and> n0 \<le> unat mx'"
  using assms(5-9)
proof (induction ts arbitrary: s mx n t)
  case Nil
  obtain a b where s: "s = (a, b)" by (cases s)
  have w: "written (effects a) = []" using Nil.prems(1) by (simp add: s lagging_def sent_out_def)
  obtain pb a2 b2 ca' where "fragment_timer Q (now E) b = (pb, b2)" "process_chunks Q E pb a = Inr a2"
    "at_byte m0 i j D k (halved mx) [] ca' cb (a2, b2)" "asked i (mi_cmd m0) (now E) (a2, b2)"
    using lagging_heard [OF assms(1,2) _ _ assms(4), of k mx n ca cb t a b] Nil s by auto
  moreover have "n0 \<le> unat (halved mx)"
    using halved_bounds [of mx] Nil.prems(1) assms(3) by (simp add: lagging_def s)
  moreover have "sender_timer Q (now E) a = ([], a)"
    using Nil.prems(5) w by (intro sender_timer_silent) (simp_all add: s)
  ultimately show ?case by (auto simp: timer_heard_def s)
next
  case (Cons t' ts)
  obtain a b where s: "s = (a, b)" by (cases s)
  have w: "written (effects a) = []" using Cons.prems(1) by (simp add: s lagging_def sent_out_def)
  have "t' \<le> now E" using spaced_last [OF Cons.prems(2), of t'] by simp
  then have st: "sender_timer Q t' a = ([], a)"
    using Cons.prems(5) w by (intro sender_timer_silent) (auto simp: s intro: silent_mono)
  have "lagging m0 i j D k (halved mx) (Suc n) ca cb t' (a, snd (fragment_timer Q t' b))"
    using lagging_more [OF assms(1,2)] Cons.prems(1,2) s by simp
  moreover have "n0 \<le> unat (halved mx)"
    using halved_bounds [of mx] Cons.prems(1) assms(3) by (simp add: lagging_def s)
  ultimately show ?case using Cons.IH Cons.prems(2,3,5) s st by simp
qed

lemma part_lost_lags:
  assumes "transferable Q m0 i j D" "at_byte m0 i j D k mx [] ca cb (a, b)" "asked i (mi_cmd m0) t (a, b)"
    and "u + milliseconds 20 < now E + min (mi_resend_timeout m0) (seconds 10)"
  shows "\<exists>s'. part_lost Q E (a, b) = Inr s' \<and> lagging m0 i j D k mx 0 ca cb t s' \<and> silent u (fst s')"
proof -
  obtain a1 ms where a1: "drain Q (now E) a = (ms, a1)" "sent_out m0 i j D (next_tx_msg_id b) ca a1"
    using part_leaves [OF assms(1,2), of "now E"] by metis
  then have "lagging m0 i j D k mx 0 ca cb t (a1, b)"
    using assms(2,3) by (auto simp: lagging_def at_byte_def asked_def sent_out_def)
  then show ?thesis using a1(1) part_waits [OF assms(1,2) a1(1) assms(4)] by (simp add: part_lost_def)
qed

lemma query_lost_lags:
  assumes "transferable Q m0 i j D" "fair E" "at_byte m0 i j D k mx [] ca cb (a, b)" "asked i (mi_cmd m0) t (a, b)" "takes E i (mi_flags m0) b"
  defines "n \<equiv> unat (part_size mx (length D - k))"
  assumes "k + n < length D" "u + milliseconds 20 < now E + min (mi_resend_timeout m0) (seconds 10)"
  shows "\<exists>s'. query_lost Q E (a, b) = Inr s' \<and> lagging m0 i j D (k + n) (grow_fragment_size mx) 1 ca cb (now E) s' \<and>
    silent u (fst s')"
proof -
  let ?msg = "part_msg Q (mi_min_compress_size m0) i (mi_cmd m0) (mi_flags m0) D k n" and ?mx = "grow_fragment_size mx"
  have t: "qt_documented Q" "length D < 2 ^ 31" "mi_cmd m0 \<noteq> cmd_remove_fragment"
    using assms(1) by (simp_all add: transferable_def fragmentable_def)
  obtain f where b: "clean b" "writer_has_protocol b" "next_rx_msg_id b = j" "written (effects b) = []"
    "map_erase i (fragmented_messages b) = []" "map_ok (fragmented_messages b)"
    "map_find (fragmented_messages b) i = Some f" "receiving D k f" "max_fragment_size f = mx"
    "app_calls (effects b) = cb"
    using assms(3) by (auto simp: at_byte_def expecting_def)
  obtain a1 where a1: "drain Q (now E) a = ([encode Q ?msg], a1)" "sent_out m0 i j D (next_tx_msg_id b) ca a1" "fits ?msg"
    using part_leaves [OF assms(1,3), of "now E"] unfolding n_def by blast
  have n0: "0 < n" using clamp_part(2) [of mx k D] assms(3) t(2) by (simp add: n_def at_byte_def)
  obtain l v g where pm: "process_messages Q E [?msg] b =
      (b\<lparr>lost_msg_list := l, fragmented_messages := map_set i g (fragmented_messages b),
         effects := effects b @ [Writer_Add_Timeout v 32,
           Writer_Write (query_for Q i (mi_cmd m0) (k + n) (part_size ?mx (length D - (k + n))))]\<rparr>, None)" (is "_ = (?b1, None)")
    and g: "receiving D (k + n) g" "max_fragment_size g = ?mx" "renewed (now E) f g"
    using receive_part [OF t(1) assms(2) t(2) b(2) assms(5) t(3) b(7,8) n0 assms(7)] b(9) by metis
  let ?b2 = "put_rx (emptied (rx_device b)) [] (\<lambda>_. now E) ?b1" and ?es = "effects b @ [Writer_Add_Timeout v 32]"
  let ?b3 = "?b2\<lparr>next_tx_msg_id := next_tx_msg_id b + 1, last_msg_send_time := now E, effects := ?es\<rparr>"
  have "drain Q (now E) ?b2 = ([encode Q (next_tx_msg_id ?b2, mi_cmd m0, FRAGMENT_QUERY,
      [i] @ put32 Q (of_nat (k + n)) @ put32 Q (part_size ?mx (length D - (k + n))))], ?b3)"
    using drain_asking [OF t(1), of "now E" ?b2 ?es i "mi_cmd m0" "k + n" "part_size ?mx (length D - (k + n))"]
      assms(2) b(4) by (simp add: fair_def)
  then have ql: "query_lost Q E (a, b) = Inr (a1, ?b3)"
    using a1(1) deliver_one [OF t(1) b(1) a1(3) pm] by (simp add: query_lost_def del: process_chunks.simps)
  have ex: "expecting i j D (k + n) ?mx [] ?b3"
    using b g by (auto simp: expecting_def erase_set)
  have rest: "length D - (k + n) < 2 ^ 31" using t(2) by simp
  have "unat (clamp (part_size ?mx (length D - (k + n)))) < length D"
    using assms(1,7) n0 part_size_le [OF rest, of ?mx] by (intro clamp_less) (simp_all add: transferable_def)
  moreover have "asked i (mi_cmd m0) (now E) (a1, ?b3)"
    by (rule asked_renewed [OF b(7) g(3) assms(4) b(6)]) simp
  ultimately have "lagging m0 i j D (k + n) ?mx 1 ca cb (now E) (a1, ?b3)"
    using ex a1(2) assms(3,7) b(10) grow_bounds [of mx] by (auto simp: lagging_def at_byte_def sent_out_def)
  then show ?thesis using ql part_waits [OF assms(1,3) a1(1) assms(8)] by simp
qed

section \<open>The end of a transfer\<close>

text \<open>The receiver has given the message to its application, has forgotten its record of it and has nothing to send.\<close>

definition received :: "effect list \<Rightarrow> protocol \<times> protocol \<Rightarrow> bool" where
  "received cb s = (case s of (a, b) \<Rightarrow>
     app_calls (effects b) = cb \<and> written (effects b) = [] \<and> fragmented_messages b = [])"

lemma idle_timer: "fragmented_messages b = [] \<Longrightarrow> written (effects b) = [] \<Longrightarrow> fragment_timer Q t b = ([], b)"
  using wait_list_idle [of b Q t t] drain_none [of b Q t] by (simp add: fragment_timer_def)

lemma idle_timers:
  assumes "received cb (a, b)" "written (effects a) = []" "silent (now E) a" "spaced t (ts @ [now E])"
  shows "timer_heard Q E (timers_lost Q ts (a, b)) = Inr (a, b)"
  using assms(4)
proof (induction ts arbitrary: t)
  case Nil
  then show ?case
    using assms by (simp add: received_def timer_heard_def idle_timer sender_timer_silent)
next
  case (Cons t' ts)
  have "t' \<le> now E" using spaced_last [OF Cons.prems, of t'] by simp
  then have "sender_timer Q t' a = ([], a)"
    using assms(2,3) by (auto intro: sender_timer_silent silent_mono)
  moreover have "fragment_timer Q t' b = ([], b)"
    using assms(1) by (simp add: received_def idle_timer)
  ultimately show ?case using Cons.IH [of t'] Cons.prems by simp
qed

text \<open>The last part arrives, and its query is lost: the receiver has the message, the sender is not told.\<close>

lemma last_query_lost:
  assumes "transferable Q m0 i j D" "fair E" "at_byte m0 i j D k mx [] ca cb (a, b)" "takes E i (mi_flags m0) b"
  defines "n \<equiv> unat (part_size mx (length D - k))"
  assumes "k + n = length D" "u + milliseconds 20 < now E + min (mi_resend_timeout m0) (seconds 10)"
  shows "\<exists>a' b'. query_lost Q E (a, b) = Inr (a', b') \<and> received (cb @ [Process_Message i (mi_cmd m0) D]) (a', b') \<and>
    written (effects a') = [] \<and> silent u a'"
proof -
  let ?msg = "part_msg Q (mi_min_compress_size m0) i (mi_cmd m0) (mi_flags m0) D k n"
  let ?es = "effects b @ [Process_Message i (mi_cmd m0) D]"
  have t: "qt_documented Q" "length D < 2 ^ 31" "mi_cmd m0 \<noteq> cmd_remove_fragment"
    using assms(1) by (simp_all add: transferable_def fragmentable_def)
  obtain f where b: "clean b" "writer_has_protocol b" "next_rx_msg_id b = j" "written (effects b) = []"
    "map_erase i (fragmented_messages b) = []" "map_find (fragmented_messages b) i = Some f" "receiving D k f"
    "app_calls (effects b) = cb"
    using assms(3) by (auto simp: at_byte_def expecting_def)
  obtain a1 where a1: "drain Q (now E) a = ([encode Q ?msg], a1)" "sent_out m0 i j D (next_tx_msg_id b) ca a1" "fits ?msg"
    using part_leaves [OF assms(1,3), of "now E"] unfolding n_def by blast
  have n0: "0 < n" using clamp_part(2) [of mx k D] assms(3) t(2) by (simp add: n_def at_byte_def)
  obtain l x where pm: "process_messages Q E [?msg] b =
      (b\<lparr>lost_msg_list := l, fragmented_messages := [],
         effects := ?es @ [Writer_Write (query_for Q i (mi_cmd m0) (length D) x)]\<rparr>, None)" (is "_ = (?b1, None)")
    using receive_last_part [OF t(1) assms(2) t(2) b(2) assms(4) t(3) b(6,7) n0 assms(6)] b(5) by fastforce
  let ?b2 = "put_rx (emptied (rx_device b)) [] (\<lambda>_. now E) ?b1"
  have "drain Q (now E) ?b2 = ([encode Q (next_tx_msg_id ?b2, mi_cmd m0, FRAGMENT_QUERY,
      [i] @ put32 Q (of_nat (length D)) @ put32 Q x)],
      ?b2\<lparr>next_tx_msg_id := next_tx_msg_id ?b2 + 1, last_msg_send_time := now E, effects := ?es\<rparr>)"
    using drain_asking [OF t(1), of "now E" ?b2 ?es i "mi_cmd m0" "length D" x] assms(2) b(4) by (simp add: fair_def)
  then have "query_lost Q E (a, b) =
      Inr (a1, ?b2\<lparr>next_tx_msg_id := next_tx_msg_id ?b2 + 1, last_msg_send_time := now E, effects := ?es\<rparr>)"
    using a1(1) deliver_one [OF t(1) b(1) a1(3) pm] by (simp add: query_lost_def del: process_chunks.simps)
  then show ?thesis
    using a1(2) b(4,8) part_waits [OF assms(1,3) a1(1) assms(7)] by (simp add: received_def sent_out_def)
qed

section \<open>The transfer\<close>

lemma lossy_run_take:
  "lossy_step Q e s = Inr s1 \<Longrightarrow> \<exists>n \<le> length es. \<exists>s'. lossy_run Q (take n es) s1 = Inr s' \<and> P s' \<Longrightarrow>
   \<exists>n \<le> length (e # es). \<exists>s'. lossy_run Q (take n (e # es)) s = Inr s' \<and> P s'"
  by (elim exE conjE, rule_tac x = "Suc n" in exI) simp

lemma lossy_run_now:
  "lossy_step Q e s = Inr s1 \<Longrightarrow> P s1 \<Longrightarrow> \<exists>n \<le> length (e # es). \<exists>s'. lossy_run Q (take n (e # es)) s = Inr s' \<and> P s'"
  by (erule lossy_run_take, cases s1, rule exI [of _ 0]) simp

lemma lossy_run_from_byte:
  assumes "transferable Q m0 i j D" "128 < length D" "0 < n0" "n0 \<le> 128" "mi_flags m0 = 0"
  defines "r \<equiv> min (mi_resend_timeout m0) (seconds 10)"
  assumes "lossy_ok r t es" "at_byte m0 i j D k mx [] ca cb s" "asked i (mi_cmd m0) t s" "n0 \<le> unat mx"
    and "(length D - k - 1) div n0 + 1 \<le> arrivals es"
  shows "\<exists>n \<le> length es. \<exists>s'. lossy_run Q (take n es) s = Inr s' \<and> received (cb @ [Process_Message i (mi_cmd m0) D]) s'"
  using assms(7-11)
proof (induction es arbitrary: k mx s t ca)
  case (Cons e es)
  obtain a b where s: "s = (a, b)" by (cases s)
  note at = Cons.prems(2) [unfolded s] and ak = Cons.prems(3) [unfolded s]
  let ?n = "unat (part_size mx (length D - k))" and ?cb = "cb @ [Process_Message i (mi_cmd m0) D]"
  have q: "qt_documented Q" "length D < 2 ^ 31" using assms(1) by (simp_all add: transferable_def)
  have kx: "k < length D" "32 \<le> unat mx" "unat mx \<le> 65490" using at by (simp_all add: at_byte_def)
  have n: "?n = min (unat mx) (length D - k)" using q(2) by (simp add: part_size_unat)
  have gr: "n0 \<le> unat (grow_fragment_size mx)" using grow_bounds(1) [OF kx(2,3)] Cons.prems(4) by simp
  have left: "(length D - (k + ?n) - 1) div n0 + 1 \<le> m" if "k + ?n < length D" "(length D - k - 1) div n0 + 1 \<le> Suc m" for m
    using parts_left [OF assms(3) _ that(1)] n Cons.prems(4) that by (simp add: min_def split: if_splits)
  consider "k + ?n < length D" | "k + ?n = length D" using n kx(1) by linarith
  note cases_n = this and tk = takes_plain [OF assms(1) at assms(5)]
  show ?case
  proof (cases e)
    case (Parts_Lost E ts E')
    then have ok: "fair E'" "spaced t (ts @ [now E'])" "length ts < 99" "lossy_ok r (now E') es"
      "now E' + milliseconds 20 < now E + r" using Cons.prems(1) by simp_all
    obtain s1 where p: "part_lost Q E s = Inr s1" "lagging m0 i j D k mx 0 ca cb t s1" "silent (now E') (fst s1)"
      using part_lost_lags [OF assms(1) at ak ok(5) [unfolded r_def]] s by blast
    obtain s2 mx' ca' where h: "timer_heard Q E' (timers_lost Q ts s1) = Inr s2" "at_byte m0 i j D k mx' [] ca' cb s2"
      "asked i (mi_cmd m0) (now E') s2" "n0 \<le> unat mx'"
      using lagging_heard_at_last [OF assms(1,2,4) ok(1) p(2) ok(2) _ Cons.prems(4) p(3)] ok(3) by auto
    have "lossy_step Q e s = Inr s2" using p(1) h(1) Parts_Lost by simp
    then show ?thesis
      by (rule lossy_run_take, intro Cons.IH [OF ok(4) h(2-4)]) (use Cons.prems(5) Parts_Lost in simp)
  next
    case (Queries_Lost E ts E')
    then have ok: "fair E" "fair E'" "spaced (now E) (ts @ [now E'])" "length ts < 99" "lossy_ok r (now E') es"
      "now E' + milliseconds 20 < now E + r" using Cons.prems(1) by simp_all
    show ?thesis using cases_n
    proof cases
      case 1
      obtain s1 where p: "query_lost Q E s = Inr s1"
        "lagging m0 i j D (k + ?n) (grow_fragment_size mx) 1 ca cb (now E) s1" "silent (now E') (fst s1)"
        using query_lost_lags [OF assms(1) ok(1) at ak tk 1 ok(6) [unfolded r_def]] s by blast
      obtain s2 mx' ca' where h: "timer_heard Q E' (timers_lost Q ts s1) = Inr s2" "at_byte m0 i j D (k + ?n) mx' [] ca' cb s2"
        "asked i (mi_cmd m0) (now E') s2" "n0 \<le> unat mx'"
        using lagging_heard_at_last [OF assms(1,2,4) ok(2) p(2) ok(3) _ gr p(3)] ok(4) by auto
      have "lossy_step Q e s = Inr s2" using p(1) h(1) Queries_Lost by simp
      then show ?thesis
        by (rule lossy_run_take, intro Cons.IH [OF ok(5) h(2-4) left [OF 1]]) (use Cons.prems(5) Queries_Lost in simp)
    next
      case 2
      obtain a1 b1 where l: "query_lost Q E s = Inr (a1, b1)" "received ?cb (a1, b1)" "written (effects a1) = []"
        "silent (now E') a1"
        using last_query_lost [OF assms(1) ok(1) at tk 2 ok(6) [unfolded r_def]] s by blast
      then have "lossy_step Q e s = Inr (a1, b1)" using idle_timers [OF l(2-4) ok(3)] Queries_Lost by simp
      then show ?thesis using l(2) by (rule lossy_run_now)
    qed
  next
    case (Good_Round E)
    then have E: "fair E" "lossy_ok r (now E) es" using Cons.prems(1) by simp_all
    show ?thesis using cases_n
    proof cases
      case 1
      obtain s' where p: "line_round Q E s = Inr s'" "at_byte m0 i j D (k + ?n) (grow_fragment_size mx) [] ca cb s'"
        "asked i (mi_cmd m0) (now E) s'"
        using round_part [OF assms(1) E(1) at tk 1, of "mi_cmd m0" t] ak s by blast
      have "lossy_step Q e s = Inr s'" using p(1) Good_Round by simp
      then show ?thesis
        by (rule lossy_run_take, intro Cons.IH [OF E(2) p(2,3) gr left [OF 1]]) (use Cons.prems(5) Good_Round in simp)
    next
      case 2
      obtain a' b' where d: "line_round Q E s = Inr (a', b')" "delivered Q m0 i D [] (ca @ last_words m0) ?cb (a', b')"
        using round_last_part [OF assms(1) E(1) at tk 2] s by auto
      then have "lossy_step Q e s = Inr (a', b')" "received ?cb (a', b')"
        using Good_Round by (simp_all add: received_def delivered_def)
      then show ?thesis by (rule lossy_run_now)
    qed
  qed
qed simp

text \<open>
  Property C3.  Transfer over a line that loses parts and queries, in any order, of a message whose number is
  not the last before the wrap (255). Once the announcement has arrived, and when as many parts have arrived
  as the message has parts of the smallest size, there is a moment at which the receiver's application has
  been given the message, once and whole, and the receiver has forgotten its record of it and has nothing
  left to send. After a loss the timers of both ends fire; that of the receiver may do so in vain up to 98
  times before its query arrives, each time 1.5 seconds or more after the last, but the query arrives before
  the sender's own repetition is due: before the resend timeout of the message, or ten seconds if that is
  less, have passed since the last part left, less the twenty milliseconds by which messages are taken
  early.
\<close>

theorem fragmented_message_survives_lost_queries:
  assumes "qt_documented Q" "compress_bounded Q" "fair E"
    and "lossy_ok (min (mi_resend_timeout m) (seconds 10)) (now E) es"
    and "idle_line a b" "fragmented_messages b = []" "next_tx_msg_id a < 255" "large_message m D" "128 < length D"
    and "(length D - 1) div min 128 (unat (mi_fragment_size m)) + 1 \<le> arrivals es"
  shows "\<exists>n \<le> length es. \<exists>a' b'. lossy_run Q (Good_Round E # take n es) (send_message (Some m) a, b) = Inr (a', b') \<and>
    app_calls (effects b') = app_calls (effects b) @ [Process_Message (next_tx_msg_id a) (mi_cmd m) D] \<and>
    written (effects b') = [] \<and> fragmented_messages b' = []"
proof -
  let ?fs = "mi_fragment_size m"
  note b = transfer_begins [OF assms(1-3,5,7,8)]
  obtain s where s: "line_round Q E (send_message (Some m) a, b) = Inr s"
    "at_byte m (next_tx_msg_id a) (next_tx_msg_id a + 1) D 0 (grow_fragment_size ?fs) [] (app_calls (effects a)) (app_calls (effects b)) s"
    "asked (next_tx_msg_id a) (mi_cmd m) (now E) s"
    using b(5) assms(6) by auto
  have n: "0 < min 128 (unat ?fs)" "min 128 (unat ?fs) \<le> unat (grow_fragment_size ?fs)"
    using b(2) grow_bounds(1) [OF b(2,3)] by simp_all
  have "mi_flags m = 0" using assms(8) by (simp add: large_message_def)
  from lossy_run_from_byte [OF b(1) assms(9) n(1) _ this assms(4) s(2,3) n(2)] assms(10)
  obtain k a' b' where "k \<le> length es" "lossy_run Q (take k es) s = Inr (a', b')"
    "received (app_calls (effects b) @ [Process_Message (next_tx_msg_id a) (mi_cmd m) D]) (a', b')"
    by auto
  then show ?thesis using s(1) by (intro exI [of _ k]) (auto simp: received_def)
qed

section \<open>Examples\<close>

text \<open>
  The query for the second part is lost, and so is the first one of the timer; the sender repeats a message
  after six seconds.
\<close>

definition patient_item :: message_item where
  "patient_item = longer_item\<lparr>mi_resend_timeout := milliseconds 6000\<rparr>"

definition four_seconds_later :: env where
  "four_seconds_later = quiet\<lparr>now := milliseconds 4000\<rparr>"

theorem fragmented_message_survives_lost_queries_witness:
  "\<exists>n \<le> 2. \<exists>a' b'. lossy_run qt_sample
        (Good_Round quiet # take n [Queries_Lost quiet [milliseconds 2000] four_seconds_later, Good_Round four_seconds_later])
        (send_message (Some patient_item) sample_end, sample_end) = Inr (a', b') \<and>
    app_calls (effects b') = [Process_Message 0 16 (replicate 200 7)]"
proof -
  let ?es = "[Queries_Lost quiet [milliseconds 2000] four_seconds_later, Good_Round four_seconds_later]"
  have "compress_bounded qt_sample" by (simp add: compress_bounded_def qt_sample_def)
  moreover have "fair quiet" by (simp add: fair_def quiet_def)
  moreover have "lossy_ok (min (mi_resend_timeout patient_item) (seconds 10)) (now quiet) ?es"
    by (simp add: fair_def quiet_def four_seconds_later_def patient_item_def milliseconds_def seconds_def)
  moreover have "idle_line sample_end sample_end" "next_tx_msg_id sample_end < 255"
    by (simp_all add: idle_line_def sample_end_def set_writer_def protocol_new_def clean_def
        writer_has_protocol_def dev_reopen_def new_device_def)
  moreover have "large_message patient_item (replicate 200 7)"
    by (simp add: large_message_def patient_item_def longer_item_def message_item_new_def fragmentable_def cmd_defs
        grow_fragment_size_def)
  moreover have "fragmented_messages sample_end = []" by (simp add: sample_end_def set_writer_def protocol_new_def)
  moreover have "(length (replicate 200 (7::u8)) - 1) div min 128 (unat (mi_fragment_size patient_item)) + 1
      \<le> arrivals ?es"
    by (simp add: patient_item_def longer_item_def)
  ultimately have "\<exists>n \<le> length ?es. \<exists>a' b'. lossy_run qt_sample (Good_Round quiet # take n ?es)
      (send_message (Some patient_item) sample_end, sample_end) = Inr (a', b') \<and>
      app_calls (effects b') = app_calls (effects sample_end) @
        [Process_Message (next_tx_msg_id sample_end) (mi_cmd patient_item) (replicate 200 7)]"
    using fragmented_message_survives_lost_queries [OF qt_sample_documented, of quiet patient_item ?es sample_end sample_end "replicate 200 7"]
    by simp blast
  moreover have "app_calls (effects sample_end) = []" "next_tx_msg_id sample_end = 0" "mi_cmd patient_item = 16" "length ?es = 2"
    by (simp_all add: sample_end_def set_writer_def protocol_new_def patient_item_def longer_item_def message_item_new_def)
  ultimately show ?thesis
    by (simp only: append_Nil)
qed

end
