(* ===== verification/Protocol_Resend.thy ===== *)
theory Protocol_Resend
  imports Fragment_Queries
begin

unbundle bit_operations_syntax

text \<open>
  Lost messages that fit one packet: what the sender's timer (\<open>process_wait_list\<close>) makes of a
  message whose packet did not arrive, and what the receiver's list of lost numbers
  (\<open>fill_lost_msg\<close>, \<open>is_lost_message\<close>) makes of its repetition. The repetition
  recovers the message when a later message has shown the gap, and it is dropped when none has.
\<close>

section \<open>The repetition of a message\<close>

text \<open>The message that waits after its packet was written, and the wire form of its repetition.\<close>

definition waiting_copy :: "u8 \<Rightarrow> message_item \<Rightarrow> message_item" where
  "waiting_copy i m =
     m\<lparr>mi_data_device := map_option (\<lambda>d. d\<lparr>dev_pos := dev_size d\<rparr>) (mi_data_device m), mi_id := Some i\<rparr>"

definition repeated_form :: "qt \<Rightarrow> u8 \<Rightarrow> message_item \<Rightarrow> msg" where
  "repeated_form Q i m = packed Q (mi_min_compress_size m) i (mi_cmd m) REPEATED (content m)"

definition repeatable :: "message_item \<Rightarrow> bool" where
  "repeatable m \<longleftrightarrow> plain m \<and> length (content m) \<le> unat (mi_fragment_size (repeated_copy m))"

lemma plain_payload:
  assumes "plain m"
  obtains d where "mi_data_device m = Some d" "content m = dev_bytes d"
    "packet_payload Q t m d = (0, content m, m\<lparr>mi_data_device := Some (d\<lparr>dev_pos := dev_size d\<rparr>)\<rparr>)"
proof -
  obtain d where d: "mi_data_device m = Some d" using assms by (auto simp: plain_def)
  moreover from this have "content m = dev_bytes d" by (simp add: content_def)
  ultimately show thesis
    using assms that packet_payload_small [OF d, of Q t]
    by (simp add: plain_def answer_flag_def answer_prefix_def dev_size_def)
qed

lemma waits_for_repetition:
  assumes "plain m" "t < mi_end_time m" "waiting_messages p = []" "protocol_writer p \<noteq> None"
  shows "snd (prepare_packet_to_send Q t t (Some m) p) =
    p\<lparr>next_tx_msg_id := next_tx_msg_id p + 1, last_msg_send_time := t,
      waiting_messages := [(wait_point t m, waiting_copy (next_tx_msg_id p) m)],
      effects := effects p @ [Writer_Add_Timeout (wait_point t m) 0]\<rparr>"
proof -
  obtain d where d: "mi_data_device m = Some d"
    "packet_payload Q t m d = (0, content m, m\<lparr>mi_data_device := Some (d\<lparr>dev_pos := dev_size d\<rparr>)\<rparr>)"
    using plain_payload [OF assms(1)] by metis
  have "mi_id m = None" using assms(1) by (simp add: plain_def)
  with prepare_waiting_at [OF d _ assms(3,4), of "next_tx_msg_id p"] assms(2) d(1) show ?thesis
    by (simp add: waiting_copy_def wait_point_def)
qed

text \<open>Messages that do not wait leave the sender as it was, but for the next number.\<close>

lemma prepare_all_released:
  assumes "\<forall>(t1, t2, m) \<in> set ms. plain m \<and> mi_end_time m \<le> t2" "prepare_all Q ms p = (packets, p')"
  shows "\<exists>t. p' = p\<lparr>next_tx_msg_id := next_tx_msg_id p + of_nat (length ms), last_msg_send_time := t\<rparr>"
  using assms
proof (induction Q ms p arbitrary: packets p' rule: prepare_all.induct)
  case (1 Q p)
  then show ?case by (intro exI [of _ "last_msg_send_time p"]) simp
next
  case (2 Q t1 t2 m ms p)
  have m: "plain m" "mi_end_time m \<le> t2" "mi_id m = None" using 2(2) by (auto simp: plain_def)
  obtain d where d: "mi_data_device m = Some d"
    "packet_payload Q t1 m d = (0, content m, m\<lparr>mi_data_device := Some (d\<lparr>dev_pos := dev_size d\<rparr>)\<rparr>)"
    using plain_payload [OF m(1)] by metis
  obtain pk p1 where pk: "prepare_packet_to_send Q t1 t2 (Some m) p = (pk, p1)"
    by (cases "prepare_packet_to_send Q t1 t2 (Some m) p")
  obtain pks where rest: "prepare_all Q ms p1 = (pks, p')" using 2(3) pk by (auto split: prod.splits)
  have "p1 = p\<lparr>next_tx_msg_id := next_tx_msg_id p + 1, last_msg_send_time := t2\<rparr>"
    using prepare_released [OF d, of t2 p] m pk by simp
  with 2(1) [OF pk [symmetric] _ rest] 2(2) show ?case by (auto simp: ac_simps)
qed

text \<open>The timer hands the repetition to the writer.\<close>

lemma timer_repeats:
  assumes "waiting_messages p = [(w, x)]" "mi_data_device x \<noteq> None" "w \<le> t + milliseconds 20" "t < mi_end_time x"
    and "protocol_writer p \<noteq> None"
  shows "process_wait_list Q t t 0 p = emit (Writer_Write (repeated_copy x)) (p\<lparr>waiting_messages := []\<rparr>)"
proof -
  have "(0::int) \<noteq> int (unat FRAGMENT)" by (simp add: FRAGMENT_def)
  then show ?thesis
    using assms
    by (auto simp: process_wait_list_def pop_waiting_messages_def resend_or_timeout_def repeated_copy_eq
        send_message_def emit_all_def emit_def) (simp_all add: repeated_copy_def)
qed

lemma drain_repeats:
  assumes "repeatable m" "written (effects p) = [repeated_copy (waiting_copy i m)]"
  shows "fst (drain Q t p) = [encode Q (repeated_form Q i m)]"
    and "next_tx_msg_id (snd (drain Q t p)) = next_tx_msg_id p"
proof -
  let ?c = "repeated_copy (waiting_copy i m)"
  have m: "plain m" using assms(1) by (simp add: repeatable_def)
  obtain d where d: "mi_data_device m = Some d" "content m = dev_bytes d"
    using plain_payload [OF m] by metis
  let ?d = "d\<lparr>dev_pos := dev_size d\<rparr>"
  have c: "mi_data_device ?c = Some ?d" "mi_id ?c = Some i" "mi_cmd ?c = mi_cmd m"
    "mi_min_compress_size ?c = mi_min_compress_size m" "mi_fragment_size ?c = mi_fragment_size (repeated_copy m)"
    "answer_flag ?c = REPEATED" "answer_prefix ?c = []"
    using m d(1) by (simp_all add: repeated_copy_def waiting_copy_def answer_flag_def answer_prefix_def plain_def
        set_fragment_size_def)
  have len: "length (content m) \<le> unat (mi_fragment_size (repeated_copy m))"
    using assms(1) by (simp add: repeatable_def)
  then have pl: "packet_payload Q t ?c ?d = (REPEATED, content m, ?c\<lparr>mi_data_device := Some ?d\<rparr>)"
    using packet_payload_small [OF c(1), of Q t] c d(2) by (simp add: dev_size_def)
  have "length (content m) < 2 ^ 32" using len unat_u32_less [of "mi_fragment_size (repeated_copy m)"] by simp
  from prepare_packed [OF c(1) pl this] c(2-4)
  show "fst (drain Q t p) = [encode Q (repeated_form Q i m)]"
    by (simp add: drain_one [OF assms(2)] repeated_form_def split_beta)
  show "next_tx_msg_id (snd (drain Q t p)) = next_tx_msg_id p"
    using prepare_packet_next_id [OF c(1)] c(2) by (simp add: drain_one [OF assms(2)] split_beta)
qed

section \<open>What the receiver makes of it\<close>

text \<open>The repetition is handled if its number is on the list, at most ten seconds old, and dropped otherwise.\<close>

definition after_repetition :: "env \<Rightarrow> u8 \<Rightarrow> message_item \<Rightarrow> protocol \<Rightarrow> protocol" where
  "after_repetition E i m r =
     (case map_find (lost_msg_list r) i of
        None \<Rightarrow> r
      | Some t \<Rightarrow>
          (let r1 = r\<lparr>lost_msg_list := map_erase i (lost_msg_list r)\<rparr>
           in if now E - t < seconds 10 then emit (Process_Message i (mi_cmd m) (content m)) r1 else r1))"

lemma unknown_repetition: "map_find (lost_msg_list r) i = None \<Longrightarrow> after_repetition E i m r = r"
  by (simp add: after_repetition_def)

lemma receive_repeated:
  assumes "qt_documented Q" "plain m" "\<forall>e. \<not> throws E e"
  shows "process_messages Q E [repeated_form Q i m] r = (after_repetition E i m r, None)"
proof -
  have flags: "has_flag REPEATED REPEATED" "\<not> has_flag REPEATED COMPRESSED" "\<not> has_flag REPEATED FRAGMENT_QUERY"
    "\<not> has_flag REPEATED (FRAGMENT OR ANSWER)" "\<not> has_flag REPEATED (COMPRESSED OR FRAGMENT)"
    "has_flag (REPEATED OR COMPRESSED) REPEATED"
    by (simp_all add: has_flag_def flag_defs)
  have d: "dispatch Q E i (mi_cmd m) REPEATED (content m) q = (emit (Process_Message i (mi_cmd m) (content m)) q, None)" for q
    using assms(2,3) flags by (simp add: dispatch_def plain_def call_app_def)
  note tr = track_repeated [of _ i r E]
  show ?thesis
  proof (cases "(case map_find (lost_msg_list r) i of Some t \<Rightarrow> now E - t < seconds 10 | None \<Rightarrow> False)")
    case True
    then have t: "track_msg_id E i REPEATED r = (r\<lparr>lost_msg_list := map_erase i (lost_msg_list r)\<rparr>, True, None)"
      using tr flags(1) by (auto split: option.splits)
    show ?thesis
    proof (cases "content m = []")
      case True
      then show ?thesis using t d flags \<open>case map_find (lost_msg_list r) i of Some t \<Rightarrow> _ t | None \<Rightarrow> False\<close>
        by (auto simp: repeated_form_def packed_def internal_process_message_def after_repetition_def split: option.splits)
    next
      case False
      from receive_packed [OF assms(1) flags(2) False t d] show ?thesis
        using True by (auto simp: repeated_form_def after_repetition_def split: option.splits)
    qed
  next
    case False
    then have "track_msg_id E i f r = (after_repetition E i m r, False, None)" if "has_flag f REPEATED" for f
      using tr that by (auto simp: after_repetition_def split: option.splits)
    then show ?thesis
      using flags by (simp add: repeated_form_def packed_def internal_process_message_def)
  qed
qed

lemma repetition_arrives:
  assumes "qt_documented Q" "clean r" "plain m" "\<forall>e. \<not> throws E e"
    and "length (compress Q (content m)) \<le> 2 ^ 31" "length (content m) \<le> 2 ^ 31" "concat cs = encode Q (repeated_form Q i m)"
  shows "process_chunks Q E cs r = Inr (put_rx (emptied (rx_device r)) [] (\<lambda>_. now E) (after_repetition E i m r))"
proof -
  have "fits (repeated_form Q i m)" using assms(5,6) by (simp add: fits_def repeated_form_def packed_def)
  then show ?thesis
    using stream_delivered [OF assms(1,2), of cs "[repeated_form Q i m]" E] receive_repeated [OF assms(1,3,4)] assms(7)
    by simp
qed

section \<open>A gap is shown, then filled\<close>

lemma caught_up_one:
  assumes "map_ok (lost_msg_list r)" "map_find (lost_msg_list r) (next_rx_msg_id r) = None"
  shows "effects (caught_up E (next_rx_msg_id r + 1) r) =
      effects r @ [Lost_Msg_Detected (next_rx_msg_id r + 1) (next_rx_msg_id r)]"
    and "map_find (lost_msg_list (caught_up E (next_rx_msg_id r + 1) r)) (next_rx_msg_id r) = Some (now E)"
    and "map_ok (lost_msg_list (caught_up E (next_rx_msg_id r + 1) r))"
proof -
  let ?i = "next_rx_msg_id r"
  have ne: "?i + 1 \<noteq> ?i" using u8_gap(3) [of 1 ?i] by simp
  then show "effects (caught_up E (?i + 1) r) = effects r @ [Lost_Msg_Detected (?i + 1) ?i]"
    by (simp add: caught_up_def fill_lost_msg_def Let_def emit_def)
  have "\<not> unat (?i + 1) > unat ?i + 100" by (simp add: unat_word_ariths(1))
  then have "skipped (gap_start (?i + 1) ?i) (?i + 1) ?i" by (simp add: gap_start_def skipped_def)
  then show "map_find (lost_msg_list (caught_up E (?i + 1) r)) ?i = Some (now E)"
    using ne assms find_fill_lost_msg [of "emit (Lost_Msg_Detected (?i + 1) ?i) r" "now E" "?i + 1" ?i]
    by (simp add: caught_up_def emit_def)
  show "map_ok (lost_msg_list (caught_up E (?i + 1) r))"
    using ne assms(1) by (simp add: caught_up_def fill_lost_msg_def Let_def emit_def emplace_lost_ok map_ok_filter)
qed

lemma receive_after_gap:
  assumes "qt_documented Q" "\<forall>m \<in> set ms. plain m" "\<forall>e. \<not> throws E e" "ms \<noteq> []" "i = next_rx_msg_id r"
  shows "process_messages Q E (wire_forms Q (i + 1) ms) r =
    ((caught_up E (i + 1) r)\<lparr>next_rx_msg_id := i + 1 + of_nat (length ms),
       effects := effects (caught_up E (i + 1) r) @ deliveries (i + 1) ms\<rparr>, None)"
proof -
  obtain m ms' where ms: "ms = m # ms'" using assms(4) by (cases ms) auto
  obtain f data where w: "wire_form Q (i + 1) m = (i + 1, mi_cmd m, f, data)" "\<not> has_flag f REPEATED"
    by (cases "unat (mi_min_compress_size m) < length (content m)") (auto simp: wire_form_def has_flag_def flag_defs)
  have "track_msg_id E (i + 1) f r = track_msg_id E (i + 1) f (caught_up E (i + 1) r)"
    using track_caught_up [OF assms(3) _ w(2), of 1 "i + 1" r] assms(5) by simp
  then have "process_messages Q E (wire_forms Q (i + 1) ms) r =
      process_messages Q E (wire_forms Q (i + 1) ms) (caught_up E (i + 1) r)"
    by (simp add: ms w(1) internal_process_message_def)
  then show ?thesis
    using receive_all_plain [OF assms(1-3), of "caught_up E (i + 1) r"] by (simp add: caught_up_same)
qed

text \<open>What the receiver has done when the messages behind the lost one have arrived, in whatever pieces.\<close>

lemma gap_shown:
  assumes "qt_documented Q" "clean r" "next_rx_msg_id r = i" "\<forall>(t1, t2, x) \<in> set ms. plain x" "ms \<noteq> []"
    and "\<forall>x \<in> set (map (snd \<circ> snd) ms). length (compress Q (content x)) \<le> 2 ^ 31 \<and> length (content x) \<le> 2 ^ 31"
    and "next_tx_msg_id s1 = i + 1" "prepare_all Q ms s1 = (packets, s2)" "concat cs = concat packets" "\<forall>e. \<not> throws E e"
  shows "process_chunks Q E cs r = Inr (put_rx (emptied (rx_device r)) [] (\<lambda>_. now E)
    ((caught_up E (i + 1) r)\<lparr>next_rx_msg_id := i + 1 + of_nat (length ms),
       effects := effects (caught_up E (i + 1) r) @ deliveries (i + 1) (map (snd \<circ> snd) ms)\<rparr>))"
proof -
  let ?ms = "map (snd \<circ> snd) ms"
  have plain: "\<forall>x \<in> set ?ms. plain x" using assms(4) by fastforce
  have pk: "packets = map (encode Q) (wire_forms Q (i + 1) ?ms)"
    using prepare_all_plain(1) [OF assms(4,8)] assms(7) by simp
  have "\<forall>x \<in> set (wire_forms Q (i + 1) ?ms). fits x" "wire_forms Q (i + 1) ?ms \<noteq> []"
    using assms(5,6) wire_forms_fit [of ?ms Q] by (simp, cases ms, simp_all)
  then show ?thesis
    using receive_after_gap [OF assms(1) plain assms(10), of i r] assms(3,5,9) pk
    by (intro stream_delivered [OF assms(1,2)]) simp_all
qed

text \<open>
  Property C4.  A lost message is recovered by its repetition. The message has an end time ahead, so that the
  sender keeps it, is no answer and no ping, and fits one packet also with half its fragment size; nothing
  else waits at the sender. Its packet was lost and it waits; one or more messages after it, which fit one
  packet and are not kept, in whatever pieces, show the gap and reach the receiver's application; the
  sender's timer, when the resend timeout has passed and the end time has not, then sends the waiting
  message again, and if that arrives within ten seconds the application gets it, under its own number and as
  it was; both ends agree on the next number, and further copies change nothing.
\<close>

theorem lost_message_recovered:
  assumes "qt_documented Q" "clean r" "map_ok (lost_msg_list r)" "map_find (lost_msg_list r) i = None"
    and "next_rx_msg_id r = i" "next_tx_msg_id s = i" "waiting_messages s = []" "protocol_writer s \<noteq> None"
    and "written (effects s) = []" "repeatable m" "t0 < mi_end_time m" "ms \<noteq> []"
    and "\<forall>(t1, t2, x) \<in> set ms. plain x \<and> mi_end_time x \<le> t2"
    and "\<forall>x \<in> set (m # map (snd \<circ> snd) ms). length (compress Q (content x)) \<le> 2 ^ 31 \<and> length (content x) \<le> 2 ^ 31"
    and "prepare_packet_to_send Q t0 t0 (Some m) s = (lost, s1)" "prepare_all Q ms s1 = (packets, s2)"
    and "concat cs = concat packets" "\<forall>e. \<not> throws E1 e" "\<forall>e. \<not> throws E2 e" "\<forall>e. \<not> throws E3 e"
    and "t0 + mi_resend_timeout m \<le> t + milliseconds 20" "t < mi_end_time m"
    and "drain Q t (process_wait_list Q t t 0 s2) = (again, s3)" "concat ds = concat again" "now E2 - now E1 < seconds 10"
  shows "\<exists>r1 r2 r3. process_chunks Q E1 cs r = Inr r1 \<and> process_chunks Q E2 ds r1 = Inr r2 \<and>
    process_chunks Q E3 again r2 = Inr r3 \<and> clean r2 \<and> next_rx_msg_id r2 = next_tx_msg_id s3 \<and>
    effects r2 = effects r @ [Lost_Msg_Detected (i + 1) i] @ deliveries (i + 1) (map (snd \<circ> snd) ms) @
      [Process_Message i (mi_cmd m) (content m)] \<and> effects r3 = effects r2"
proof -
  let ?ms = "map (snd \<circ> snd) ms" and ?c = "caught_up E1 (i + 1) r"
  have m: "plain m" using assms(10) by (simp add: repeatable_def)
  have plain: "\<forall>(t1, t2, x) \<in> set ms. plain x" using assms(13) by fastforce
  have s1: "s1 = s\<lparr>next_tx_msg_id := i + 1, last_msg_send_time := t0, waiting_messages := [(wait_point t0 m, waiting_copy i m)],
      effects := effects s @ [Writer_Add_Timeout (wait_point t0 m) 0]\<rparr>"
    using waits_for_repetition [OF m assms(11,7,8), of Q] assms(6,15) by simp
  obtain u where s2: "s2 = s1\<lparr>next_tx_msg_id := i + 1 + of_nat (length ms), last_msg_send_time := u\<rparr>"
    using prepare_all_released [OF assms(13,16)] s1 by auto
  have wp: "wait_point t0 m \<le> t + milliseconds 20" using assms(21) by (simp add: wait_point_def)
  have wl: "process_wait_list Q t t 0 s2 = emit (Writer_Write (repeated_copy (waiting_copy i m))) (s2\<lparr>waiting_messages := []\<rparr>)"
    using timer_repeats [of s2, OF _ _ wp] assms(8,22) m s1 s2 by (auto simp: waiting_copy_def plain_def)
  have dr: "again = [encode Q (repeated_form Q i m)]" "next_tx_msg_id s3 = i + 1 + of_nat (length ms)"
    using drain_repeats [OF assms(10), of "process_wait_list Q t t 0 s2" i Q t] wl assms(9,23) s1 s2
    by (simp_all add: emit_def)
  note c = caught_up_one [OF assms(3), of E1, unfolded assms(5), OF assms(4)]
  let ?r1 = "?c\<lparr>next_rx_msg_id := i + 1 + of_nat (length ms), effects := effects ?c @ deliveries (i + 1) ?ms\<rparr>"
  let ?p1 = "put_rx (emptied (rx_device r)) [] (\<lambda>_. now E1) ?r1"
  have r1: "process_chunks Q E1 cs r = Inr ?p1"
    using s1 assms(14) by (intro gap_shown [OF assms(1,2,5) plain assms(12) _ _ assms(16-18)]) auto
  note arrive = repetition_arrives [OF assms(1) _ m, of _ _ _ i]
  have sz: "length (compress Q (content m)) \<le> 2 ^ 31" "length (content m) \<le> 2 ^ 31" using assms(14) by simp_all
  have cl: "clean (put_rx (emptied x) [] f q)" for x f q by (simp add: clean_def emptied_def put_rx_def)
  let ?p2 = "put_rx (emptied (rx_device ?p1)) [] (\<lambda>_. now E2) (after_repetition E2 i m ?p1)"
  have a2: "after_repetition E2 i m ?p1 =
      emit (Process_Message i (mi_cmd m) (content m)) (?p1\<lparr>lost_msg_list := map_erase i (lost_msg_list ?c)\<rparr>)"
    using c(2) assms(25) by (simp add: after_repetition_def)
  have r2: "process_chunks Q E2 ds ?p1 = Inr ?p2"
    using arrive [OF cl assms(19) sz] dr(1) assms(24) by simp
  have "map_find (lost_msg_list ?p2) i = None" unfolding a2 using c(3) by (simp add: emit_def smap.find_erase)
  from unknown_repetition [OF this] have r3: "process_chunks Q E3 again ?p2 = Inr (put_rx (emptied (rx_device ?p2)) [] (\<lambda>_. now E3) ?p2)"
    using arrive [OF cl assms(20) sz, of again] dr(1) by simp
  show ?thesis using r1 r2 r3 cl dr(2) c(1) a2 by (simp add: emit_def)
qed

text \<open>
  Without a later message the repetition is dropped, however often it is sent: its number is still the next
  one the receiver expects, which \<open>is_lost_message\<close> does not know as lost, and a message marked
  as repeated is not looked at otherwise.
\<close>

lemma repetition_without_gap_dropped:
  assumes "qt_documented Q" "clean r" "repeatable m" "\<forall>e. \<not> throws E e"
    and "length (compress Q (content m)) \<le> 2 ^ 31" "length (content m) \<le> 2 ^ 31"
    and "next_rx_msg_id r = i" "map_find (lost_msg_list r) i = None"
    and "written (effects s) = [repeated_copy (waiting_copy i m)]" "concat cs = concat (fst (drain Q t s))"
  shows "process_chunks Q E cs r = Inr (put_rx (emptied (rx_device r)) [] (\<lambda>_. now E) r)"
proof -
  have "concat cs = encode Q (repeated_form Q i m)" using drain_repeats(1) [OF assms(3,9)] assms(10) by simp
  with assms(3) show ?thesis
    using repetition_arrives [OF assms(1,2) _ assms(4-6)] unknown_repetition [OF assms(8)] by (simp add: repeatable_def)
qed

section \<open>Examples\<close>

definition insistent_item :: message_item where
  "insistent_item = (sample_item None [4])\<lparr>mi_end_time := seconds 8\<rparr>"

theorem lost_message_recovered_witness:
  "\<exists>r1 r2. process_chunks qt_sample quiet
      (fst (prepare_all qt_sample [(0, 0, sample_item None [5])]
        (snd (prepare_packet_to_send qt_sample 0 0 (Some insistent_item) sample_end)))) sample_end = Inr r1 \<and>
    process_chunks qt_sample four_seconds_later
      (fst (drain qt_sample (seconds 4) (process_wait_list qt_sample (seconds 4) (seconds 4) 0
        (snd (prepare_all qt_sample [(0, 0, sample_item None [5])]
          (snd (prepare_packet_to_send qt_sample 0 0 (Some insistent_item) sample_end))))))) r1 = Inr r2 \<and>
    effects r2 = [Lost_Msg_Detected 1 0, Process_Message 1 16 [5], Process_Message 0 16 [4]]"
proof -
  let ?ms = "[(0::time, 0::time, sample_item None [5])]"
  obtain lost s1 where s1: "prepare_packet_to_send qt_sample 0 0 (Some insistent_item) sample_end = (lost, s1)" by fastforce
  obtain packets s2 where s2: "prepare_all qt_sample ?ms s1 = (packets, s2)" by fastforce
  obtain again s3 where s3: "drain qt_sample (seconds 4) (process_wait_list qt_sample (seconds 4) (seconds 4) 0 s2) = (again, s3)"
    by fastforce
  note item = sample_item_def message_item_new_def insistent_item_def
  have e: "clean sample_end" "lost_msg_list sample_end = []" "next_rx_msg_id sample_end = 0" "next_tx_msg_id sample_end = 0"
    "waiting_messages sample_end = []" "protocol_writer sample_end \<noteq> None" "effects sample_end = []"
    by (simp_all add: sample_end_def set_writer_def protocol_new_def clean_def dev_reopen_def new_device_def)
  have m: "repeatable insistent_item" "plain (sample_item None [5])"
    by (simp_all add: repeatable_def plain_def content_def item repeated_copy_def set_fragment_size_def cmd_defs)
  have sz: "\<forall>x \<in> set (insistent_item # map (snd \<circ> snd) ?ms). length (compress qt_sample (content x)) \<le> 2 ^ 31 \<and>
      length (content x) \<le> 2 ^ 31"
    by (simp add: content_def item qt_sample_def)
  have t: "0 + mi_resend_timeout insistent_item \<le> seconds 4 + milliseconds 20" "seconds 4 < mi_end_time insistent_item"
    "0 < mi_end_time insistent_item" "mi_end_time (sample_item None [5]) \<le> 0" "now four_seconds_later - now quiet < seconds 10"
    by (simp_all add: item seconds_def milliseconds_def four_seconds_later_def quiet_def)
  have th: "\<forall>x. \<not> throws quiet x" "\<forall>x. \<not> throws four_seconds_later x" by (simp_all add: quiet_def four_seconds_later_def)
  have "\<exists>r1 r2 r3. process_chunks qt_sample quiet packets sample_end = Inr r1 \<and>
      process_chunks qt_sample four_seconds_later again r1 = Inr r2 \<and>
      process_chunks qt_sample four_seconds_later again r2 = Inr r3 \<and> clean r2 \<and> next_rx_msg_id r2 = next_tx_msg_id s3 \<and>
      effects r2 = effects sample_end @ [Lost_Msg_Detected (0 + 1) 0] @ deliveries (0 + 1) (map (snd \<circ> snd) ?ms) @
        [Process_Message 0 (mi_cmd insistent_item) (content insistent_item)] \<and> effects r3 = effects r2"
    by (rule lost_message_recovered [OF qt_sample_documented e(1) _ _ e(3-6) _ m(1) t(3) _ _ sz s1 s2 refl th(1,2,2) t(1,2) s3 refl t(5)])
      (use e m(2) t(4) in \<open>simp_all add: map_find_def map_ok_def\<close>)
  then show ?thesis using s1 s2 s3 e(7) by (auto simp: item content_def)
qed

end
