(* ===== verification/Protocol_Answers.thy ===== *)
theory Protocol_Answers
  imports Protocol_Resend
begin

unbundle bit_operations_syntax

text \<open>
  A question and its answer, from end to end: a message with a callback goes to the other side, whose application answers it
  through \<open>send_answer\<close>, and the answer finds the callback.
\<close>

section \<open>The answer\<close>

text \<open>What an application does in \<open>process_message\<close>: a sender for the answer, the bytes, and the sender goes out of scope.\<close>

definition reply :: "u8 \<Rightarrow> u8 \<Rightarrow> bytes \<Rightarrow> protocol \<Rightarrow> protocol" where
  "reply cmd i data p = finish_sender (sender_put data (send_answer cmd (Some i) p)) p"

definition answer_item :: "u8 \<Rightarrow> u8 \<Rightarrow> bytes \<Rightarrow> message_item" where
  "answer_item cmd i data =
     message_item_new cmd (Some i) (Some \<lparr>dev_bytes = data, dev_pos = length data, dev_open = True\<rparr>) (milliseconds 3000)"

definition answer_form :: "qt \<Rightarrow> u8 \<Rightarrow> u8 \<Rightarrow> u8 \<Rightarrow> bytes \<Rightarrow> msg" where
  "answer_form Q j cmd i data = packed Q (mi_min_compress_size (answer_item cmd i data)) j cmd ANSWER (i # data)"

lemma reply_writes:
  assumes "writer_has_protocol p" "protocol_writer p \<noteq> None"
  shows "reply cmd i data p = emit (Writer_Write (answer_item cmd i data)) p"
  using assms
  by (auto simp: reply_def finish_sender_def send_answer_def protocol_sender_new_def sender_put_def Let_def
      protocol_sender_destroy_def send_message_def answer_item_def message_item_new_def new_device_def device_defs
      emit_all_def emit_def)

lemma drain_answer:
  assumes "written (effects p) = [answer_item cmd i data]" "0 \<le> t"
    and "length data \<le> unat (mi_fragment_size (answer_item cmd i data))" "length data < 2 ^ 31"
  shows "drain Q t p =
    ([encode Q (answer_form Q (next_tx_msg_id p) cmd i data)],
     p\<lparr>next_tx_msg_id := next_tx_msg_id p + 1, last_msg_send_time := t, effects := filter (\<lambda>e. \<not> is_write e) (effects p)\<rparr>)"
proof -
  let ?m = "answer_item cmd i data" and ?d = "\<lparr>dev_bytes = data, dev_pos = length data, dev_open = True\<rparr>"
  let ?p = "p\<lparr>effects := filter (\<lambda>e. \<not> is_write e) (effects p)\<rparr>"
  have d: "mi_data_device ?m = Some ?d" "mi_id ?m = None" "mi_end_time ?m = 0" "mi_cmd ?m = cmd"
    by (simp_all add: answer_item_def message_item_new_def)
  have pl: "packet_payload Q t ?m ?d = (ANSWER, i # data, ?m\<lparr>mi_data_device := Some (?d\<lparr>dev_pos := dev_size ?d\<rparr>)\<rparr>)"
    using packet_payload_small [OF d(1), of Q t] assms(3)
    by (simp add: answer_flag_def answer_prefix_def dev_size_def) (simp add: answer_item_def message_item_new_def)
  have "fst (prepare_packet_to_send Q t t (Some ?m) ?p) = encode Q (answer_form Q (next_tx_msg_id p) cmd i data)"
    using prepare_packed [OF d(1) pl, of "next_tx_msg_id p" ?p] d assms(4) by (simp add: answer_form_def)
  moreover have "snd (prepare_packet_to_send Q t t (Some ?m) ?p) =
      ?p\<lparr>next_tx_msg_id := next_tx_msg_id p + 1, last_msg_send_time := t\<rparr>"
    using prepare_released [OF d(1) pl, of t ?p] d assms(2) by simp
  ultimately show ?thesis using drain_one [OF assms(1), of Q t] by (simp add: split_beta)
qed

text \<open>The answer arrives where its question is the only one that waits.\<close>

definition answered :: "func \<Rightarrow> message_item \<Rightarrow> bytes \<Rightarrow> effect list" where
  "answered f m data = Answer_Func f data # (case mi_finally_func m of None \<Rightarrow> [] | Some g \<Rightarrow> [Finally_Func g True])"

lemma receive_answer:
  assumes "qt_documented Q" "next_rx_msg_id p = j" "waiting_messages p = [(w, waiting_copy i m)]" "mi_answer_func m = Some f"
    and "mi_cmd m \<noteq> cmd_remove_fragment" "\<forall>e. \<not> throws E e"
  shows "process_messages Q E [answer_form Q j (mi_cmd m) i data] p =
    (p\<lparr>next_rx_msg_id := j + 1, waiting_messages := [], effects := effects p @ answered f m data\<rparr>, None)"
proof -
  have fl: "\<not> has_flag ANSWER REPEATED" "\<not> has_flag ANSWER COMPRESSED" "\<not> has_flag ANSWER FRAGMENT_QUERY"
    "has_flag ANSWER (FRAGMENT OR ANSWER)" "has_flag ANSWER ANSWER" "\<not> has_flag ANSWER FRAGMENT"
    by (simp_all add: has_flag_def flag_defs)
  have ps: "parse_out Q [T8] (i # data) = Inr ([F8 i], data)"
    using qt_documented.parse_written [OF assms(1), of "[F8 i]" data] by simp
  have w: "id_or_zero (waiting_copy i m) = i" "mi_cmd (waiting_copy i m) = mi_cmd m" "mi_answer_func (waiting_copy i m) = Some f"
    "mi_finally_func (waiting_copy i m) = mi_finally_func m"
    using assms(4) by (simp_all add: waiting_copy_def id_or_zero_def)
  have "dispatch Q E j (mi_cmd m) ANSWER (i # data) (p\<lparr>next_rx_msg_id := j + 1\<rparr>) =
      process_answer E i (mi_cmd m) (i # data) (p\<lparr>next_rx_msg_id := j + 1\<rparr>)"
    using fl ps assms(5) by (simp add: dispatch_def del: parse_out.simps)
  also have "\<dots> = (p\<lparr>next_rx_msg_id := j + 1, waiting_messages := [], effects := effects p @ answered f m data\<rparr>, None)"
    using assms(3,6) w
    by (auto simp: process_answer_def pop_waiting_answer_def pop_waiting_message_def run_answer_func_def call_app_def
        drop_message_def message_item_destroy_def emit_all_def emit_def answered_def split: option.splits)
  finally show ?thesis
    using receive_packed [OF assms(1) fl(2), of "i # data" E j p] track_in_order [OF fl(1), of j p E] assms(2)
    by (simp add: answer_form_def)
qed

section \<open>From question to callback\<close>

text \<open>
  Property C6.  A question is answered: a message with a callback, in whatever pieces it arrives, is given to
  the other side's application under its number; the answer that this sends under that number runs the
  callback on exactly its bytes, once; afterwards nothing waits, the timer has nothing to repeat, and both
  sides agree on both numbers.
\<close>

theorem question_answered:
  assumes "qt_documented Q" "clean a" "clean b" "waiting_messages a = []" "protocol_writer a \<noteq> None"
    and "writer_has_protocol b" "written (effects b) = []" "next_rx_msg_id b = next_tx_msg_id a" "next_rx_msg_id a = next_tx_msg_id b"
    and "plain m" "mi_answer_func m = Some f" "t < mi_end_time m" "0 \<le> t2"
    and "\<forall>x \<in> {content m, next_tx_msg_id a # data}. length (compress Q x) \<le> 2 ^ 31 \<and> length x \<le> 2 ^ 31"
    and "length data \<le> unat max_message_data_size"
    and "\<forall>e. \<not> throws E1 e" "\<forall>e. \<not> throws E2 e" "prepare_packet_to_send Q t t (Some m) a = (packet, a1)" "concat cs = packet"
  defines "i \<equiv> next_tx_msg_id a"
  shows "\<exists>b1 b2 pb a2. process_chunks Q E1 cs b = Inr b1 \<and>
    effects b1 = effects b @ [Process_Message i (mi_cmd m) (content m)] \<and>
    drain Q t2 (reply (mi_cmd m) i data b1) = (pb, b2) \<and> process_chunks Q E2 pb a1 = Inr a2 \<and>
    effects a2 = effects a1 @ answered f m data \<and> waiting_messages a2 = [] \<and>
    (\<forall>u v. process_wait_list Q u v 0 a2 = a2) \<and>
    next_rx_msg_id b2 = next_tx_msg_id a2 \<and> next_rx_msg_id a2 = next_tx_msg_id b2"
proof -
  have cmd: "mi_cmd m \<noteq> cmd_remove_fragment" using assms(10) by (simp add: plain_def)
  have a1: "a1 = a\<lparr>next_tx_msg_id := i + 1, last_msg_send_time := t, waiting_messages := [(wait_point t m, waiting_copy i m)],
      effects := effects a @ [Writer_Add_Timeout (wait_point t m) 0]\<rparr>"
    using waits_for_repetition [OF assms(10,12,4,5), of Q] assms(18) by (simp add: i_def)
  have pk: "packet = encode Q (wire_form Q i m)" using prepare_plain(1) [OF assms(10), of Q t t a] assms(18) by (simp add: i_def)
  let ?b = "emit (Process_Message i (mi_cmd m) (content m)) (b\<lparr>next_rx_msg_id := i + 1\<rparr>)"
  let ?b1 = "put_rx (emptied (rx_device b)) [] (\<lambda>_. now E1) ?b"
  have rb: "process_messages Q E1 [wire_form Q i m] b = (?b, None)"
    using receive_plain [OF assms(1,10), of b i E1] assms(8,16) by (simp add: i_def)
  have "fits (wire_form Q i m)" using assms(14) by (simp add: fits_def wire_form_def)
  then have b1: "process_chunks Q E1 cs b = Inr ?b1"
    using rb pk assms(19) by (intro stream_delivered [OF assms(1,3)]) simp_all
  have wr: "writer_has_protocol ?b1" "protocol_writer ?b1 \<noteq> None"
    using assms(6) by (auto simp: writer_has_protocol_def put_rx_def emit_def split: option.splits)
  let ?j = "next_tx_msg_id b" and ?r = "reply (mi_cmd m) i data ?b1"
  have re: "written (effects ?r) = [answer_item (mi_cmd m) i data]" "next_tx_msg_id ?r = ?j" "next_rx_msg_id ?r = i + 1"
    unfolding reply_writes [OF wr] using assms(7) by (simp_all add: emit_def)
  have len: "length data \<le> unat (mi_fragment_size (answer_item (mi_cmd m) i data))" "length data < 2 ^ 31"
    using assms(14,15) by (simp_all add: i_def answer_item_def message_item_new_def)
  let ?f = "answer_form Q ?j (mi_cmd m) i data"
  note dr = drain_answer [OF re(1) assms(13) len, of Q, unfolded re(2)]
  have ra: "process_messages Q E2 [?f] a1 =
      (a1\<lparr>next_rx_msg_id := ?j + 1, waiting_messages := [], effects := effects a1 @ answered f m data\<rparr>, None)"
    using receive_answer [OF assms(1) _ _ assms(11) cmd assms(17), of a1 ?j] assms(9) a1 by simp
  have "clean a1" using assms(2) a1 by (simp add: clean_def)
  moreover have "fits ?f" using assms(14) by (simp add: fits_def answer_form_def packed_def i_def)
  ultimately have a2: "process_chunks Q E2 [encode Q ?f] a1 = Inr (put_rx (emptied (rx_device a1)) [] (\<lambda>_. now E2)
      (a1\<lparr>next_rx_msg_id := ?j + 1, waiting_messages := [], effects := effects a1 @ answered f m data\<rparr>))"
    by (intro stream_delivered [OF assms(1) _ _ _ _ ra]) simp_all
  have quiet_timer: "process_wait_list Q u v 0 p = p" if "waiting_messages p = []" for u v p
    using that by (simp add: process_wait_list_def pop_waiting_messages_def emit_all_def FRAGMENT_def)
  show ?thesis
    using b1 dr a2 quiet_timer re(3) a1 by (simp add: emit_def)
qed

section \<open>Examples\<close>

definition question :: message_item where
  "question = insistent_item\<lparr>mi_answer_func := Some 5, mi_finally_func := Some 6\<rparr>"

theorem question_answered_witness:
  "\<exists>b1 a2. process_chunks qt_sample quiet [fst (prepare_packet_to_send qt_sample 0 0 (Some question) sample_end)] sample_end = Inr b1 \<and>
    effects b1 = [Process_Message 0 16 [4]] \<and>
    process_chunks qt_sample quiet (fst (drain qt_sample 0 (reply 16 0 [9] b1)))
      (snd (prepare_packet_to_send qt_sample 0 0 (Some question) sample_end)) = Inr a2 \<and>
    effects a2 = [Writer_Add_Timeout (milliseconds 3000) 0, Answer_Func 5 [9], Finally_Func 6 True]"
proof -
  note item = question_def insistent_item_def sample_item_def message_item_new_def
  obtain packet a1 where pk: "prepare_packet_to_send qt_sample 0 0 (Some question) sample_end = (packet, a1)" by fastforce
  have e: "clean sample_end" "waiting_messages sample_end = []" "protocol_writer sample_end \<noteq> None" "writer_has_protocol sample_end"
    "effects sample_end = []" "next_rx_msg_id sample_end = 0" "next_tx_msg_id sample_end = 0"
    by (simp_all add: sample_end_def set_writer_def protocol_new_def clean_def dev_reopen_def new_device_def writer_has_protocol_def)
  have m: "plain question" "mi_answer_func question = Some 5" "0 < mi_end_time question" "content question = [4]" "mi_cmd question = 16"
    by (simp_all add: plain_def content_def item cmd_defs seconds_def)
  have "\<forall>x \<in> {content question, 0 # [9]}. length (compress qt_sample x) \<le> 2 ^ 31 \<and> length x \<le> 2 ^ 31"
    by (simp add: m(4) qt_sample_def)
  moreover have "\<forall>x. \<not> throws quiet x" by (simp add: quiet_def)
  moreover have "effects a1 = [Writer_Add_Timeout (milliseconds 3000) 0]"
    using waits_for_repetition [OF m(1,3) e(2,3), of qt_sample] pk e(5)
    by (simp add: wait_point_def item milliseconds_def seconds_def)
  ultimately show ?thesis
    using question_answered [OF qt_sample_documented e(1,1,2,3,4) _ _ _ m(1,2,3) _ _ _ _ _ pk, of 0 "[9]" quiet quiet "[packet]"] e m(4,5) pk
    by (simp add: answered_def item) (metis fst_conv)
qed

end
