(* ===== verification/Fragment_Announce.thy ===== *)
theory Fragment_Announce
  imports Protocol_Resend
begin

unbundle bit_operations_syntax

text \<open>
  The loss of the announcement of a fragmented message. The sender keeps the message in its waiting list and
  its timer announces it again, marked as repeated and with half the size of the parts; the mark stays on
  the message, so that every part of it is marked too. The receiver takes marked packets only while their
  number is on its list of lost ones, where the gap has put it and every query for a part puts it again.
\<close>

section \<open>The announcement is repeated\<close>

definition as_repeated :: "message_item \<Rightarrow> message_item" where
  "as_repeated m = m\<lparr>mi_flags := REPEATED\<rparr>"

definition half_size :: "message_item \<Rightarrow> u32" where
  "half_size m = clamp (mi_fragment_size m div 2)"

lemma grow_unat:
  assumes "unat x \<le> 65490"
  shows "unat (grow_fragment_size x) = (if unat x < 32745 then min 32745 (unat x + unat x div 5) else unat x)"
proof -
  have "unat (x + x div 5) = unat x + unat x div 5"
    using assms by (simp add: unat_word_ariths unat_div_distrib)
  then show ?thesis by (simp add: grow_fragment_size_def word_less_nat_alt min_def)
qed

lemma half_size_bounds:
  assumes "large_message m D"
  shows "32 \<le> unat (half_size m)" "unat (half_size m) \<le> 65490" "unat (grow_fragment_size (half_size m)) < length D"
proof -
  let ?f = "mi_fragment_size m"
  have f: "32 \<le> unat ?f" "unat ?f \<le> 65490" "unat (grow_fragment_size ?f) < length D"
    using assms by (auto simp: large_message_def)
  have h: "unat (half_size m) = max 32 (unat ?f div 2)"
    using f(1,2) by (auto simp: half_size_def clamp_def word_less_nat_alt unat_div_distrib)
  then show "32 \<le> unat (half_size m)" "unat (half_size m) \<le> 65490" using f by simp_all
  have le: "half_size m \<le> ?f" using h f(1) by (simp add: word_le_nat_alt)
  then have "unat (grow_fragment_size (half_size m)) \<le> unat (grow_fragment_size ?f)"
    using f(2) by (simp add: grow_unat word_le_nat_alt) linarith
  then show "unat (grow_fragment_size (half_size m)) < length D" using f(3) by simp
qed

text \<open>The sender after the announcement has left.\<close>

lemma announced:
  assumes "qt_documented Q" "idle_line a b" "i = next_tx_msg_id a" "large_message m D"
  obtains d packet where "mi_data_device m = Some d" "dev_bytes d = D" "dev_pos d = length D"
    "drain Q t (send_message (Some m) a) =
      ([packet], a\<lparr>next_tx_msg_id := i + 1, last_msg_send_time := t,
        waiting_messages := [(wait_point t (m\<lparr>mi_id := Some i, mi_end_time := t + seconds 10\<rparr>),
          m\<lparr>mi_id := Some i, mi_end_time := t + seconds 10\<rparr>)],
        effects := effects a @ [Writer_Add_Timeout (wait_point t (m\<lparr>mi_id := Some i, mi_end_time := t + seconds 10\<rparr>)) 0]\<rparr>)"
proof -
  let ?a = "a\<lparr>effects := effects a @ [Writer_Write m]\<rparr>"
  obtain d where d: "mi_data_device m = Some d" "dev_bytes d = D" "dev_pos d = length D"
    and m: "mi_id m = None" "fragmentable m" "unat (mi_fragment_size m) < length D" "length D < 2 ^ 31"
      "unat (mi_fragment_size m) \<le> 65490"
    using assms(4) grow_bounds(1) [of "mi_fragment_size m"] by (fastforce simp: large_message_def)
  have snd: "send_message (Some m) a = ?a"
    using assms(2) writer_has_protocolD d(1) by (auto simp: send_message_def emit_def idle_line_def)
  have same: "m = m\<lparr>mi_id := None, mi_data_device := Some d, mi_fragment_size := mi_fragment_size m, mi_end_time := mi_end_time m\<rparr>"
    using m(1) d(1) by simp
  have a: "written (effects a) = []" "waiting_messages ?a = []" "protocol_writer ?a \<noteq> None"
    using assms(2) writer_has_protocolD by (auto simp: idle_line_def)
  have dev: "m\<lparr>mi_id := x, mi_data_device := Some d, mi_end_time := y\<rparr> = m\<lparr>mi_id := x, mi_end_time := y\<rparr>" for x y
    using d(1) by simp
  obtain packet where "drain Q t ?a =
      ([packet], a\<lparr>next_tx_msg_id := i + 1, last_msg_send_time := t,
        waiting_messages := [(wait_point t (m\<lparr>mi_id := Some i, mi_end_time := t + seconds 10\<rparr>),
          m\<lparr>mi_id := Some i, mi_end_time := t + seconds 10\<rparr>)],
        effects := effects a @ [Writer_Add_Timeout (wait_point t (m\<lparr>mi_id := Some i, mi_end_time := t + seconds 10\<rparr>)) 0]\<rparr>)"
    using drain_part_at [OF m(2) _ a(1) same _ d(2) m(3,4) _ m(5) a(2,3) assms(1), of i t] d assms(3)
    by (auto simp: dev)
  with that [OF d] show thesis unfolding snd by blast
qed

text \<open>The timer announces it again: as a message that is marked, with parts of half the size.\<close>

lemma announced_again:
  assumes "mi_flags m = 0"
  shows "repeated_copy (m\<lparr>mi_id := Some i, mi_end_time := t\<rparr>) =
    (as_repeated m)\<lparr>mi_id := Some i, mi_data_device := mi_data_device m, mi_fragment_size := half_size m, mi_end_time := t\<rparr>"
  using assms by (simp add: repeated_copy_def as_repeated_def half_size_def set_fragment_size_def clamp_def)

lemma as_repeated_same:
  "mi_cmd (as_repeated m) = mi_cmd m" "kept (as_repeated m) = kept m" "last_words (as_repeated m) = last_words m"
  by (simp_all add: as_repeated_def kept_def last_words_def message_item_destroy_def split: option.split)

lemma repeated_transferable:
  assumes "qt_documented Q" "compress_bounded Q" "large_message m D"
  shows "transferable Q (as_repeated m) i j D"
proof -
  have "32 < length D" using assms(3) grow_bounds(1) [of "mi_fragment_size m"] by (fastforce simp: large_message_def)
  then show ?thesis using assms
    by (auto simp: transferable_def large_message_def fragmentable_def as_repeated_def REPEATED_def)
qed

lemma timer_announces_again:
  assumes "qt_documented Q" "idle_line a b" "i = next_tx_msg_id a" "large_message m D"
    and "drain Q t0 (send_message (Some m) a) = (lost, a1)" "prepare_all Q ms a1 = (packets, a2)"
    and "\<forall>(t1, t2, x) \<in> set ms. plain x \<and> mi_end_time x \<le> t2"
    and "t0 + mi_resend_timeout m \<le> t + milliseconds 20" "t < t0 + seconds 10"
  obtains a3 where "process_wait_list Q t t 0 a2 =
      emit (Writer_Write (repeated_copy (m\<lparr>mi_id := Some i, mi_end_time := t0 + seconds 10\<rparr>))) a3"
    "next_tx_msg_id a1 = i + 1" "next_tx_msg_id a3 = i + 1 + of_nat (length ms)" "next_rx_msg_id a3 = next_rx_msg_id a"
    "waiting_messages a3 = []" "clean a3" "writer_has_protocol a3" "written (effects a3) = []" "app_calls (effects a3) = app_calls (effects a)"
proof -
  let ?x = "m\<lparr>mi_id := Some i, mi_end_time := t0 + seconds 10\<rparr>"
  have idle: "clean a" "writer_has_protocol a" "written (effects a) = []" using assms(2) by (simp_all add: idle_line_def)
  obtain d where d: "mi_data_device m = Some d" and a1: "a1 = a\<lparr>next_tx_msg_id := i + 1, last_msg_send_time := t0,
      waiting_messages := [(wait_point t0 ?x, ?x)], effects := effects a @ [Writer_Add_Timeout (wait_point t0 ?x) 0]\<rparr>"
    using announced [OF assms(1-4), of t0] assms(5) by (metis prod.inject)
  obtain u where a2: "a2 = a1\<lparr>next_tx_msg_id := i + 1 + of_nat (length ms), last_msg_send_time := u\<rparr>"
    using prepare_all_released [OF assms(7,6)] a1 by auto
  have "wait_point t0 ?x \<le> t + milliseconds 20" "t < mi_end_time ?x" using assms(8,9) by (simp_all add: wait_point_def)
  with timer_repeats [of a2, OF _ _ this] have
    "process_wait_list Q t t 0 a2 = emit (Writer_Write (repeated_copy ?x)) (a2\<lparr>waiting_messages := []\<rparr>)"
    using writer_has_protocolD [OF idle(2)] d a1 a2 by simp
  from that [OF this] show thesis using idle a1 a2 by simp
qed

section \<open>It is taken, and the transfer begins\<close>

lemma repeated_announcement_taken:
  assumes "qt_documented Q" "compress_bounded Q" "large_message m D" "fair E"
    and "clean a" "writer_has_protocol a" "written (effects a) = []" "next_tx_msg_id a = j" "waiting_messages a = []"
    and "clean b" "writer_has_protocol b" "written (effects b) = []" "next_rx_msg_id b = j" "next_rx_msg_id a = next_tx_msg_id b"
    and "fragmented_messages b = []" "map_find (lost_msg_list b) i = Some t" "now E - t < seconds 10"
  shows "\<exists>s. line_round Q E (emit (Writer_Write (repeated_copy (m\<lparr>mi_id := Some i, mi_end_time := et\<rparr>))) a, b) = Inr s \<and>
    at_byte (as_repeated m) i j D 0 (grow_fragment_size (half_size m)) [] (app_calls (effects a)) (app_calls (effects b)) s \<and>
    map_find (lost_msg_list (snd s)) i = Some (now E)"
proof -
  let ?m = "repeated_copy (m\<lparr>mi_id := Some i, mi_end_time := et\<rparr>)"
  obtain d where d: "mi_data_device m = Some d" "dev_bytes d = D" "dev_pos d = length D" "mi_flags m = 0"
    using assms(3) by (auto simp: large_message_def)
  have f: "mi_flags (as_repeated m) = REPEATED" by (simp add: as_repeated_def)
  have "track_msg_id E i (mi_flags (as_repeated m) OR FRAGMENT) b =
      (b\<lparr>next_rx_msg_id := j, lost_msg_list := map_erase i (lost_msg_list b)\<rparr>, True, None)"
    using track_repeated [of "REPEATED OR FRAGMENT" i b E] assms(13,16,17) f by (simp add: has_flag_def flag_defs)
  note round = round_announcement [OF repeated_transferable [OF assms(1-3)] assms(4) _ _ _ _ _ _ assms(10-12) _ _ _ this
      announced_again [OF d(4), of et i, unfolded d(1)] d(2,3) half_size_bounds [OF assms(3)],
      of "emit (Writer_Write ?m) a" "effects a"]
  show ?thesis using round assms(5-9,14,15) by (auto simp: emit_def map_ok_def map_find_def)
qed

section \<open>The transfer\<close>

lemma caught_up_quiet:
  "fragmented_messages r = [] \<Longrightarrow> fragmented_messages (caught_up E j r) = []"
  by (auto simp: caught_up_def fill_lost_msg_def Let_def emit_def)

lemma deliveries_calls [simp]: "app_calls (deliveries k ms) = deliveries k ms" "written (deliveries k ms) = []"
  by (induction ms arbitrary: k) simp_all

lemma lost_detected_call [simp]: "app_calls (Lost_Msg_Detected i j # es) = Lost_Msg_Detected i j # app_calls es"
  by (simp add: app_calls_def)

text \<open>
  Property C5.  A fragmented message survives the loss of its announcement: the announcement is lost,
  messages behind it reach the receiver, in whatever pieces, and show the gap, and the timer of the sender
  announces the message again. If that arrives within ten seconds of the gap and every round within ten
  seconds of the last, then after at most one round for each part of half the size and three more the
  receiver's application has been given the other messages and this one, once, whole and under its number;
  both ends agree on the numbers, nothing is left to send, and the sender has released the message, unless
  it still waits for the answer. No timer fires between the rounds.
\<close>

theorem lost_announcement_recovered:
  assumes "qt_documented Q" "compress_bounded Q" "idle_line a b" "i = next_tx_msg_id a" "large_message m D"
    and "fragmented_messages b = []" "map_ok (lost_msg_list b)" "map_find (lost_msg_list b) i = None"
    and "drain Q t0 (send_message (Some m) a) = (lost, a1)" "prepare_all Q ms a1 = (packets, a2)" "ms \<noteq> []"
    and "\<forall>(t1, t2, x) \<in> set ms. plain x \<and> mi_end_time x \<le> t2"
    and "\<forall>x \<in> set (map (snd \<circ> snd) ms). length (compress Q (content x)) \<le> 2 ^ 31 \<and> length (content x) \<le> 2 ^ 31"
    and "concat cs = concat packets" "\<forall>e. \<not> throws E1 e" "t0 + mi_resend_timeout m \<le> t + milliseconds 20" "t < t0 + seconds 10"
    and "\<forall>E \<in> set Es. fair E" "paced (now E1) Es" "(length D - 1) div unat (half_size m) + 3 \<le> length Es"
  shows "\<exists>b1 a' b'. process_chunks Q E1 cs b = Inr b1 \<and> line_rounds Q Es (process_wait_list Q t t 0 a2, b1) = Inr (a', b') \<and>
    app_calls (effects b') = app_calls (effects b) @ [Lost_Msg_Detected (i + 1) i] @ deliveries (i + 1) (map (snd \<circ> snd) ms) @
      [Process_Message i (mi_cmd m) D] \<and>
    app_calls (effects a') = app_calls (effects a) @ (if kept m then [] else message_item_destroy m) \<and>
    still_waiting (as_repeated m) i D (waiting_messages a') \<and> written (effects a') = [] \<and> written (effects b') = [] \<and>
    next_rx_msg_id b' = next_tx_msg_id a' \<and> next_rx_msg_id a' = next_tx_msg_id b' \<and> fragmented_messages b' = []"
proof -
  let ?x = "m\<lparr>mi_id := Some i, mi_end_time := t0 + seconds 10\<rparr>" and ?c = "caught_up E1 (i + 1) b"
  let ?j = "i + 1 + of_nat (length ms)"
  have idle: "clean b" "writer_has_protocol b" "written (effects b) = []" "next_rx_msg_id b = i" "next_rx_msg_id a = next_tx_msg_id b"
    using assms(3,4) by (simp_all add: idle_line_def)
  obtain a3 where timer: "process_wait_list Q t t 0 a2 = emit (Writer_Write (repeated_copy ?x)) a3"
    and a1: "next_tx_msg_id a1 = i + 1" and a3: "next_tx_msg_id a3 = ?j" "next_rx_msg_id a3 = next_rx_msg_id a" "waiting_messages a3 = []"
      "clean a3" "writer_has_protocol a3" "written (effects a3) = []" "app_calls (effects a3) = app_calls (effects a)"
    using timer_announces_again [OF assms(1,3-5,9,10,12,16,17)] by blast
  note c = caught_up_one [OF assms(7), of E1, unfolded idle(4), OF assms(8)]
  let ?b1 = "put_rx (emptied (rx_device b)) [] (\<lambda>_. now E1)
    (?c\<lparr>next_rx_msg_id := ?j, effects := effects ?c @ deliveries (i + 1) (map (snd \<circ> snd) ms)\<rparr>)"
  have plain: "\<forall>(t1, t2, x) \<in> set ms. plain x" using assms(12) by fastforce
  have b1: "process_chunks Q E1 cs b = Inr ?b1"
    by (rule gap_shown [OF assms(1) idle(1,4) plain assms(11,13) a1 assms(10,14,15)])
  obtain E Es' where Es: "Es = E # Es'" using assms(20) by (cases Es) auto
  have f: "fair E" "\<forall>E \<in> set Es'. fair E" "now E - now E1 < seconds 10" "paced (now E) Es'"
    using assms(18,19) Es by simp_all
  obtain s where s: "line_round Q E (process_wait_list Q t t 0 a2, ?b1) = Inr s"
    "at_byte (as_repeated m) i ?j D 0 (grow_fragment_size (half_size m)) [] (app_calls (effects a)) (app_calls (effects ?b1)) s"
    "map_find (lost_msg_list (snd s)) i = Some (now E)"
    using repeated_announcement_taken [OF assms(1,2,5) f(1) a3(4-6,1,3), of ?b1 i "now E1" "t0 + seconds 10"] idle a3(2,7) c(1,2)
      caught_up_quiet [OF assms(6)] f(3) timer by (auto simp: caught_up_same)
  note h = half_size_bounds [OF assms(5)]
  have len: "(length D - 0 - 1) div unat (half_size m) + 2 \<le> length Es'" "0 < unat (half_size m)" using assms(20) Es h(1) by simp_all
  have "in_time (as_repeated m) i (now E) Es' s" using s(3) f(4) by (simp add: in_time_def)
  from rounds_from_byte [OF repeated_transferable [OF assms(1,2,5)] f(2) s(2) _ len grow_bounds(1) [OF h(1,2)] this]
  obtain a' b' where "line_rounds Q Es' s = Inr (a', b')"
    "transferred (as_repeated m) i D [] (app_calls (effects a) @ last_words m)
       (app_calls (effects ?b1) @ [Process_Message i (mi_cmd m) D]) (a', b')"
    by (auto simp: as_repeated_same map_erase_def)
  moreover have "app_calls (effects ?b1) =
      app_calls (effects b) @ [Lost_Msg_Detected (i + 1) i] @ deliveries (i + 1) (map (snd \<circ> snd) ms)"
    using c(1) by simp
  ultimately show ?thesis using b1 s(1) by (auto simp: Es transferred_def last_words_def)
qed

section \<open>What goes wrong\<close>

text \<open>
  A marked announcement or part whose number is not on the list is dropped: without a message behind it the
  announcement is repeated in vain.
\<close>

lemma marked_packet_dropped:
  assumes "map_find (lost_msg_list b) i = None"
  shows "process_messages Q E [announcement Q c i cmd REPEATED D fs] b = (b, None)"
    and "process_messages Q E [part_msg Q c i cmd REPEATED D k n] b = (b, None)"
proof -
  have "track_msg_id E i f b = (b, False, None)" if "has_flag f REPEATED" for f
    using track_repeated [of f i b E] that assms by simp
  moreover have "has_flag (REPEATED OR FRAGMENT) REPEATED" "has_flag (REPEATED OR FRAGMENT OR COMPRESSED) REPEATED"
    by (simp_all add: has_flag_def flag_defs)
  ultimately show "process_messages Q E [announcement Q c i cmd REPEATED D fs] b = (b, None)"
    "process_messages Q E [part_msg Q c i cmd REPEATED D k n] b = (b, None)"
    by (simp_all add: announcement_def part_msg_def packed_def internal_process_message_def or.assoc)
qed

section \<open>Examples\<close>

text \<open>The announcement of two hundred bytes is lost, a short message arrives, and after four seconds the transfer begins again.\<close>

theorem lost_announcement_recovered_witness:
  "\<exists>b1 a' b'. process_chunks qt_sample quiet
      (fst (prepare_all qt_sample [(0, 0, sample_item None [5])]
        (snd (drain qt_sample 0 (send_message (Some longer_item) sample_end))))) sample_end = Inr b1 \<and>
    line_rounds qt_sample (replicate 6 four_seconds_later)
      (process_wait_list qt_sample (seconds 4) (seconds 4) 0 (snd (prepare_all qt_sample [(0, 0, sample_item None [5])]
        (snd (drain qt_sample 0 (send_message (Some longer_item) sample_end))))), b1) = Inr (a', b') \<and>
    app_calls (effects b') = [Lost_Msg_Detected 1 0, Process_Message 1 16 [5], Process_Message 0 16 (replicate 200 7)]"
proof -
  let ?ms = "[(0::time, 0::time, sample_item None [5])]"
  obtain lost a1 where a1: "drain qt_sample 0 (send_message (Some longer_item) sample_end) = (lost, a1)" by fastforce
  obtain packets a2 where a2: "prepare_all qt_sample ?ms a1 = (packets, a2)" by fastforce
  have cb: "compress_bounded qt_sample" by (simp add: compress_bounded_def qt_sample_def)
  have e: "idle_line sample_end sample_end" "0 = next_tx_msg_id sample_end" "fragmented_messages sample_end = []"
    "map_ok (lost_msg_list sample_end)" "map_find (lost_msg_list sample_end) 0 = None" "effects sample_end = []"
    by (simp_all add: idle_line_def sample_end_def set_writer_def protocol_new_def clean_def map_ok_def map_find_def
        writer_has_protocol_def dev_reopen_def new_device_def)
  have lm: "large_message longer_item (replicate 200 7)"
    by (simp add: large_message_def longer_item_def message_item_new_def fragmentable_def cmd_defs grow_fragment_size_def)
  note item = sample_item_def message_item_new_def
  have ms: "?ms \<noteq> []" "\<forall>(t1, t2, x) \<in> set ?ms. plain x \<and> mi_end_time x \<le> t2"
    "\<forall>x \<in> set (map (snd \<circ> snd) ?ms). length (compress qt_sample (content x)) \<le> 2 ^ 31 \<and> length (content x) \<le> 2 ^ 31"
    by (simp_all add: plain_def content_def item cmd_defs qt_sample_def)
  have th: "\<forall>x. \<not> throws quiet x" by (simp add: quiet_def)
  have t: "0 + mi_resend_timeout longer_item \<le> seconds 4 + milliseconds 20" "seconds 4 < 0 + seconds 10"
    by (simp_all add: longer_item_def message_item_new_def seconds_def milliseconds_def)
  have Es: "\<forall>E \<in> set (replicate 6 four_seconds_later). fair E" "paced (now quiet) (replicate 6 four_seconds_later)"
    by (simp_all add: fair_def quiet_def four_seconds_later_def milliseconds_def seconds_def numeral_eq_Suc)
  have len: "(length (replicate 200 (7::u8)) - 1) div unat (half_size longer_item) + 3 \<le> length (replicate 6 four_seconds_later)"
    by (simp add: half_size_def longer_item_def clamp_def)
  from lost_announcement_recovered [OF qt_sample_documented cb e(1,2) lm e(3-5) a1 a2 ms refl th t Es len]
  show ?thesis using a1 a2 e(6) by (auto simp: item content_def longer_item_def)
qed

end
