(* ===== verification/Protocol_Timer.thy ===== *)
theory Protocol_Timer
  imports Std_Map "HOL-Library.Multiset"
begin

text \<open>
  \<open>Network/net_protocol_timer.cpp\<close>: the thread that calls \<open>on_protocol_timeout\<close> at
  the registered time points. Its state is the fields of \<open>Protocol_Timer\<close>, the local queue of
  \<open>run\<close> and the place in \<open>run\<close> where the mutex is free; the steps are those of the
  thread and of the callers of \<open>add\<close> and \<open>stop\<close>, in any interleaving that the
  mutex admits.
\<close>

section \<open>State\<close>

record item =
  item_endpoint :: endpoint
  item_data :: int

text \<open>
  \<open>At_Head\<close> is the test of the loop, \<open>In_Wait\<close> the wait on the condition variable,
  \<open>Emitting\<close> the loop that hands out the queue of due clients.
\<close>

datatype place = At_Head | In_Wait | Emitting "item list" | Ended

record timer =
  break_flag :: bool
  new_timeout_flag :: bool
  items :: "(time, item) std_map"
  place :: place
  emitted :: "(time \<times> item) list"

definition timer_new :: timer where
  "timer_new = \<lparr>break_flag = False, new_timeout_flag = False, items = [], place = At_Head, emitted = []\<rparr>"

section \<open>Operations\<close>

text \<open>
  Both notify the thread.  The notification itself is not modelled: the wait may return whenever its condition holds.
\<close>

definition timer_stop :: "timer \<Rightarrow> timer" where
  "timer_stop s = s\<lparr>break_flag := True\<rparr>"

definition timer_add :: "time \<Rightarrow> item \<Rightarrow> timer \<Rightarrow> timer" where
  "timer_add t i s = s\<lparr>items := map_emplace t i (items s), new_timeout_flag := True\<rparr>"

text \<open>The loop test, made without the mutex.\<close>

definition loop_test :: "timer \<Rightarrow> timer" where
  "loop_test s = s\<lparr>place := (if break_flag s then Ended else In_Wait)\<rparr>"

definition pred_func :: "timer \<Rightarrow> bool" where
  "pred_func s \<longleftrightarrow> break_flag s \<or> new_timeout_flag s"

text \<open>
  The wait returns: \<open>None\<close> while it cannot; \<open>Some True\<close> is a timeout.  With an empty map only the
  predicate ends it.
\<close>

definition wait_result :: "time \<Rightarrow> timer \<Rightarrow> bool option" where
  "wait_result now s =
     (if pred_func s then Some False
      else (case items s of
              [] \<Rightarrow> None
            | (t, _) # _ \<Rightarrow> if t \<le> now then Some True else None))"

text \<open>From the wait to the unlock: the due clients leave the map for the queue.\<close>

definition after_wait :: "time \<Rightarrow> bool \<Rightarrow> timer \<Rightarrow> timer" where
  "after_wait now timeout s =
     (if break_flag s then s\<lparr>place := Ended\<rparr>
      else
        (let s1 = s\<lparr>new_timeout_flag := False\<rparr>;
             due = (\<lambda>e. now + milliseconds 10 \<ge> fst e)
         in if timeout \<and> items s1 \<noteq> [] then
              s1\<lparr>items := dropWhile due (items s1),
                 place := Emitting (map snd (takeWhile due (items s1)))\<rparr>
            else s1\<lparr>place := Emitting []\<rparr>))"

definition emit_client :: "time \<Rightarrow> timer \<Rightarrow> timer" where
  "emit_client now s =
     (case place s of
        Emitting (c # cs) \<Rightarrow> s\<lparr>place := Emitting cs, emitted := emitted s @ [(now, c)]\<rparr>
      | Emitting [] \<Rightarrow> s\<lparr>place := At_Head\<rparr>
      | _ \<Rightarrow> s)"

section \<open>Steps\<close>

datatype timer_event =
    Add time item
  | Stop
  | Test
  | Wake time
  | Emit time

text \<open>The events that can happen in a state, with the state they lead to.\<close>

inductive timer_step :: "timer \<Rightarrow> timer_event \<Rightarrow> timer \<Rightarrow> bool" where
  add: "timer_step s (Add t i) (timer_add t i s)"
| stop: "timer_step s Stop (timer_stop s)"
| test: "place s = At_Head \<Longrightarrow> timer_step s Test (loop_test s)"
| wake: "place s = In_Wait \<Longrightarrow> wait_result now s = Some timeout \<Longrightarrow>
    timer_step s (Wake now) (after_wait now timeout s)"
| emit: "place s = Emitting cs \<Longrightarrow> timer_step s (Emit now) (emit_client now s)"

inductive_cases timer_stepE [elim]:
  "timer_step s (Add t i) s'" "timer_step s Stop s'" "timer_step s Test s'"
  "timer_step s (Wake now) s'" "timer_step s (Emit now) s'"

section \<open>Nothing is lost, nothing is called twice\<close>

fun queued :: "place \<Rightarrow> item list" where
  "queued (Emitting cs) = cs"
| "queued _ = []"

text \<open>What \<open>add\<close> takes in: the item, when its time point is free.\<close>

fun taken_in :: "timer \<Rightarrow> timer_event \<Rightarrow> item multiset" where
  "taken_in s (Add t i) = (if map_find (items s) t = None then {#i#} else {#})"
| "taken_in s e = {#}"

text \<open>A run from a fresh timer, with the items taken in along it.\<close>

inductive timer_run :: "item multiset \<Rightarrow> timer \<Rightarrow> bool" where
  start: "timer_run {#} timer_new"
| step: "timer_run A s \<Longrightarrow> timer_step s e s' \<Longrightarrow> timer_run (A + taken_in s e) s'"

definition held :: "timer \<Rightarrow> item multiset" where
  "held s = mset (map snd (items s)) + mset (queued (place s)) + mset (map snd (emitted s))"

lemma mset_emplace:
  "map_ok m \<Longrightarrow> mset (map snd (map_emplace t i m)) =
     mset (map snd m) + (if map_find m t = None then {#i#} else {#})"
proof (induction t i m rule: map_emplace.induct)
  case (2 t i a w m)
  then have "map_find m t = None" if "t < a"
    using that by (force simp: map_find_def map_ok_Cons map_of_eq_None_iff)
  with 2 show ?case by (auto simp: map_find_def map_ok_Cons)
qed (simp add: map_find_def)

lemma held_step:
  assumes "timer_step s e s'" "map_ok (items s)"
  shows "held s' = held s + taken_in s e"
    and "map_ok (items s')"
proof -
  have split: "mset (map snd (takeWhile P xs)) + mset (map snd (dropWhile P xs)) = mset (map snd xs)"
    for P :: "time \<times> item \<Rightarrow> bool" and xs
    by (metis map_append mset_append takeWhile_dropWhile_id)
  show "held s' = held s + taken_in s e"
    using assms
  proof (cases rule: timer_step.cases)
    case (wake now timeout)
    then show ?thesis
      using split [of "\<lambda>e. fst e \<le> now + milliseconds 10" "items s"]
      by (auto simp: held_def after_wait_def Let_def union_ac)
  next
    case (emit cs now)
    then show ?thesis by (cases cs) (auto simp: held_def emit_client_def)
  qed (auto simp: held_def timer_add_def timer_stop_def loop_test_def mset_emplace [unfolded mset_map])
  have dw: "map_ok (dropWhile P m)" if "map_ok m" for P and m :: "(time, item) std_map"
    using that by (metis dropWhile_eq_drop drop_map map_ok_def sorted_wrt_drop)
  show "map_ok (items s')"
    using assms dw
    by (cases rule: timer_step.cases)
      (auto simp: timer_add_def timer_stop_def loop_test_def after_wait_def emit_client_def Let_def
        split: place.splits list.splits)
qed

lemma run_conserves:
  assumes "timer_run A s"
  shows "held s = A" "map_ok (items s)"
proof -
  have "held s = A \<and> map_ok (items s)"
    using assms
  proof (induction rule: timer_run.induct)
    case start
    then show ?case by (simp add: held_def timer_new_def)
  next
    case (step A s e s')
    then show ?case using held_step [OF step.hyps(2)] by simp
  qed
  then show "held s = A" "map_ok (items s)" by simp_all
qed

section \<open>Properties\<close>

text \<open>
  Property C15.  Over every interleaving of the thread with \<open>add\<close> and \<open>stop\<close>, the
  items taken in are exactly those still registered, those in the queue of the current pass and those handed
  to \<open>on_protocol_timeout\<close>: none is lost and none is handed out twice.
\<close>

theorem timer_conserves_items:
  assumes "timer_run A s"
  shows "A = mset (map snd (items s)) + mset (queued (place s)) + mset (map snd (emitted s))"
  using run_conserves(1) [OF assms] by (simp add: held_def)

lemma emit_clients:
  assumes "place s = Emitting cs"
  shows "(emit_client now ^^ Suc (length cs)) s =
    s\<lparr>place := At_Head, emitted := emitted s @ map (Pair now) cs\<rparr>"
  using assms
proof (induction cs arbitrary: s)
  case Nil
  then show ?case by (simp add: emit_client_def)
next
  case (Cons c cs)
  let ?s = "emit_client now s"
  have s1: "?s = s\<lparr>place := Emitting cs, emitted := emitted s @ [(now, c)]\<rparr>"
    using Cons.prems by (simp add: emit_client_def)
  have "(emit_client now ^^ Suc (length (c # cs))) s = (emit_client now ^^ Suc (length cs)) ?s"
    by (simp add: funpow_swap1)
  also have "\<dots> = ?s\<lparr>place := At_Head, emitted := emitted ?s @ map (Pair now) cs\<rparr>"
    by (rule Cons.IH) (simp add: s1)
  finally show ?case by (simp add: s1)
qed

text \<open>
  A pass that starts because a time point is reached hands out, in the order of their
  time points, exactly the items whose time point is at most 10 ms away, keeps all others, and
  returns to the head of the loop.
\<close>

theorem timer_pass_emits_due_items:
  assumes "timer_run A s" "place s = In_Wait" "wait_result now s = Some True"
  defines "due \<equiv> filter (\<lambda>e. fst e \<le> now + milliseconds 10) (items s)"
  shows "(emit_client now ^^ Suc (length due)) (after_wait now True s) =
    s\<lparr>items := filter (\<lambda>e. now + milliseconds 10 < fst e) (items s), place := At_Head,
      emitted := emitted s @ map (\<lambda>e. (now, snd e)) due\<rparr> \<and> due \<noteq> []"
proof -
  have ok: "map_ok (items s)" using run_conserves(2) [OF assms(1)] .
  obtain t i m where items: "items s = (t, i) # m" "t \<le> now" and flags: "\<not> break_flag s" "\<not> new_timeout_flag s"
    using assms(3) by (auto simp: wait_result_def pred_func_def split: if_splits list.splits)
  have flag: "s\<lparr>new_timeout_flag := False\<rparr> = s" using flags by (cases s) simp
  have "after_wait now True s =
      s\<lparr>items := filter (\<lambda>e. now + milliseconds 10 < fst e) (items s), place := Emitting (map snd due)\<rparr>"
    using flags items(1) sorted_takeWhile_filter [OF ok, of "now + milliseconds 10"] flag
    by (simp add: after_wait_def Let_def due_def)
  moreover have "due \<noteq> []"
    using items by (simp add: due_def milliseconds_def)
  ultimately show ?thesis
    using emit_clients [of "after_wait now True s" "map snd due" now] by (simp add: comp_def)
qed

text \<open>
  The thread never oversleeps and never hangs: from every reachable state that has not
  ended, a step of the thread is possible, except in the wait while neither flag is set and the
  first time point, if there is one, lies ahead.
\<close>

theorem timer_not_stuck:
  assumes "place s \<noteq> Ended"
    and "place s = In_Wait \<Longrightarrow> break_flag s \<or> new_timeout_flag s \<or> (\<exists>t i m. items s = (t, i) # m \<and> t \<le> now)"
  shows "\<exists>e s'. e \<in> {Test, Wake now, Emit now} \<and> timer_step s e s'"
proof (cases "place s")
  case In_Wait
  then have "\<exists>b. wait_result now s = Some b"
    using assms(2) by (auto simp: wait_result_def pred_func_def)
  then show ?thesis using In_Wait by (auto intro: timer_step.wake)
qed (use assms(1) in \<open>auto intro: timer_step.test timer_step.emit\<close>)

text \<open>
  The map is keyed by the time point alone: a second registration for a time point that
  is taken changes nothing but the flag, so its endpoint is not called for it.
\<close>

theorem timer_drops_equal_time_point:
  assumes "timer_run A s" "map_find (items s) t = Some i"
  shows "timer_add t j s = s\<lparr>new_timeout_flag := True\<rparr> \<and> taken_in s (Add t j) = {#}"
  using assms(2) run_conserves(2) [OF assms(1)] emplace_taken [of "items s" t i j]
  by (simp add: timer_add_def)

section \<open>Examples\<close>

definition one_item :: timer where
  "one_item = timer_new\<lparr>items := [(5, \<lparr>item_endpoint = Endpoint 1 0, item_data = 0\<rparr>)], new_timeout_flag := True\<rparr>"

lemma one_item_run: "timer_run {#\<lparr>item_endpoint = Endpoint 1 0, item_data = 0\<rparr>#} one_item"
proof -
  have "timer_step timer_new (Add 5 \<lparr>item_endpoint = Endpoint 1 0, item_data = 0\<rparr>) one_item"
    using timer_step.add [of timer_new 5 "\<lparr>item_endpoint = Endpoint 1 0, item_data = 0\<rparr>"]
    by (simp add: one_item_def timer_add_def timer_new_def)
  from timer_run.step [OF timer_run.start this] show ?thesis
    by (simp add: timer_new_def)
qed

theorem timer_conserves_items_witness:
  "{#\<lparr>item_endpoint = Endpoint 1 0, item_data = 0\<rparr>#} =
     mset (map snd (items one_item)) + mset (queued (place one_item)) + mset (map snd (emitted one_item))"
  by (rule timer_conserves_items [OF one_item_run])

text \<open>The same timer after its first pass through the loop, back in the wait.\<close>

definition one_waiting :: timer where
  "one_waiting = one_item\<lparr>place := In_Wait, new_timeout_flag := False\<rparr>"

lemma one_waiting_run: "timer_run {#\<lparr>item_endpoint = Endpoint 1 0, item_data = 0\<rparr>#} one_waiting"
proof -
  let ?w = "one_item\<lparr>place := In_Wait\<rparr>" and ?e = "one_item\<lparr>place := Emitting [], new_timeout_flag := False\<rparr>"
  have 1: "timer_step one_item Test ?w"
    using timer_step.test [of one_item] by (simp add: one_item_def timer_new_def loop_test_def)
  have 2: "timer_step ?w (Wake 0) ?e"
    using timer_step.wake [of ?w 0 False]
    by (simp add: one_item_def timer_new_def wait_result_def pred_func_def after_wait_def Let_def)
  have 3: "timer_step ?e (Emit 0) (?e\<lparr>place := At_Head\<rparr>)"
    using timer_step.emit [of ?e "[]" 0] by (simp add: emit_client_def)
  have 4: "timer_step (?e\<lparr>place := At_Head\<rparr>) Test one_waiting"
    using timer_step.test [of "?e\<lparr>place := At_Head\<rparr>"]
    by (simp add: one_item_def one_waiting_def timer_new_def loop_test_def)
  from timer_run.step [OF timer_run.step [OF timer_run.step [OF timer_run.step [OF one_item_run 1] 2] 3] 4]
  show ?thesis by simp
qed

theorem timer_pass_emits_due_items_witness:
  "emitted ((emit_client 7 ^^ 2) (after_wait 7 True one_waiting)) = [(7, \<lparr>item_endpoint = Endpoint 1 0, item_data = 0\<rparr>)]"
  using timer_pass_emits_due_items [OF one_waiting_run, of 7]
  by (simp add: one_waiting_def one_item_def timer_new_def wait_result_def pred_func_def milliseconds_def
      numeral_2_eq_2)

theorem timer_not_stuck_witness: "\<exists>e s'. e \<in> {Test, Wake 7, Emit 7} \<and> timer_step one_waiting e s'"
  by (rule timer_not_stuck) (simp_all add: one_waiting_def one_item_def timer_new_def)

theorem timer_drops_equal_time_point_witness:
  "timer_add 5 \<lparr>item_endpoint = Endpoint 2 0, item_data = 0\<rparr> one_item = one_item"
  using timer_drops_equal_time_point [OF one_item_run, of 5 "\<lparr>item_endpoint = Endpoint 1 0, item_data = 0\<rparr>" "\<lparr>item_endpoint = Endpoint 2 0, item_data = 0\<rparr>"]
  by (simp add: one_item_def timer_new_def map_find_def)

end
