(* ===== verification/Timer_Protocol.thy ===== *)
theory Timer_Protocol
  imports Protocol_Waiting Protocol_Timer
begin

text \<open>
  The protocol of a client and its timer together. What the protocol registers through its writer
  (\<open>Node::add_timeout_at\<close>, \<open>Controller::add_timeout_at\<close>) enters the map of the
  timer thread; what that hands out (\<open>Client_Controller::on_protocol_timeout\<close>) is posted to the
  I/O context and calls \<open>process_wait_list\<close> there. The steps of the timer thread, of the I/O
  thread and of everyone who calls the protocol interleave; the clock does not go back.
\<close>

section \<open>State and steps\<close>

record timed =
  td_timer :: timer
  td_proto :: protocol
  td_jobs :: "int list"
  td_clock :: time

fun timeouts :: "effect list \<Rightarrow> (time \<times> int) list" where
  "timeouts [] = []"
| "timeouts (Writer_Add_Timeout t x # es) = (t, x) # timeouts es"
| "timeouts (_ # es) = timeouts es"

definition register :: "endpoint \<Rightarrow> effect list \<Rightarrow> timer \<Rightarrow> timer" where
  "register ep es T = fold (\<lambda>(t, x). timer_add t \<lparr>item_endpoint = ep, item_data = x\<rparr>) (timeouts es) T"

text \<open>A call of the protocol has left \<open>p\<close>: the timeouts it asked for are registered.\<close>

definition after_call :: "endpoint \<Rightarrow> protocol \<Rightarrow> timed \<Rightarrow> timed" where
  "after_call ep p s =
     s\<lparr>td_proto := p, td_timer := register ep (drop (length (effects (td_proto s))) (effects p)) (td_timer s)\<rparr>"

text \<open>The steps; those of the two threads are marked.\<close>

inductive timed_step :: "qt \<Rightarrow> endpoint \<Rightarrow> bool \<Rightarrow> timed \<Rightarrow> timed \<Rightarrow> bool" for Q ep where
  thread_tests: "timer_step (td_timer s) Test T \<Longrightarrow> timed_step Q ep True s (s\<lparr>td_timer := T\<rparr>)"
| thread_wakes: "td_clock s \<le> t \<Longrightarrow> timer_step (td_timer s) (Wake t) T \<Longrightarrow>
    timed_step Q ep True s (s\<lparr>td_timer := T, td_clock := t\<rparr>)"
| thread_emits: "td_clock s \<le> t \<Longrightarrow> place (td_timer s) = Emitting cs \<Longrightarrow>
    timed_step Q ep True s
      (s\<lparr>td_timer := emit_client t (td_timer s), td_clock := t, td_jobs := td_jobs s @ map item_data (take 1 cs)\<rparr>)"
| job_runs: "td_jobs s = x # xs \<Longrightarrow> td_clock s \<le> t1 \<Longrightarrow> t1 \<le> t2 \<Longrightarrow>
    timed_step Q ep True s
      ((after_call ep (process_wait_list Q t1 t2 x (td_proto s)) s)\<lparr>td_jobs := xs, td_clock := t2\<rparr>)"
| called: "protocol_step Q (td_proto s) p \<Longrightarrow> timed_step Q ep False s (after_call ep p s)"
| stopped: "timed_step Q ep False s (s\<lparr>td_timer := timer_stop (td_timer s)\<rparr>)"

definition timed_ok :: "timed \<Rightarrow> bool" where
  "timed_ok s \<longleftrightarrow> proto_ok (td_proto s) \<and> map_ok (items (td_timer s))"

definition waits_at :: "time \<Rightarrow> timed \<Rightarrow> bool" where
  "waits_at w s \<longleftrightarrow> w \<in> fst ` set (waiting_messages (td_proto s))"

text \<open>
  A time point is guarded if the timer has an item for it that will treat the waiting list, or if such an item has left
  the map because the time point is reached, and is on its way.
\<close>

definition treats_list :: "int \<Rightarrow> bool" where
  "treats_list x \<longleftrightarrow> x \<noteq> int (unat FRAGMENT)"

definition on_its_way :: "timed \<Rightarrow> bool" where
  "on_its_way s \<longleftrightarrow> (\<exists>x \<in> set (map item_data (queued (place (td_timer s))) @ td_jobs s). treats_list x)"

definition guarded :: "time \<Rightarrow> timed \<Rightarrow> bool" where
  "guarded w s \<longleftrightarrow>
     (\<exists>i. map_find (items (td_timer s)) w = Some i \<and> treats_list (item_data i)) \<or>
     w \<le> td_clock s + milliseconds 10 \<and> on_its_way s"

section \<open>A guarded time point stays guarded\<close>

lemma timer_add_fields:
  "place (timer_add t j T) = place T" "break_flag (timer_add t j T) = break_flag T"
  "map_ok (items T) \<Longrightarrow> map_ok (items (timer_add t j T))"
  "map_ok (items T) \<Longrightarrow> map_find (items T) w = Some i \<Longrightarrow> map_find (items (timer_add t j T)) w = Some i"
  by (auto simp: timer_add_def)

lemma register_fields:
  assumes "map_ok (items T)"
  shows "map_ok (items (register ep es T))" "place (register ep es T) = place T" "break_flag (register ep es T) = break_flag T"
    "map_find (items T) w = Some i \<Longrightarrow> map_find (items (register ep es T)) w = Some i"
proof -
  let ?f = "\<lambda>(t, x). timer_add t \<lparr>item_endpoint = ep, item_data = x\<rparr>"
  have *: "map_ok (items (fold ?f xs T)) \<and> place (fold ?f xs T) = place T \<and> break_flag (fold ?f xs T) = break_flag T \<and>
      (map_find (items T) w = Some i \<longrightarrow> map_find (items (fold ?f xs T)) w = Some i)" for xs
    using assms
  proof (induction xs arbitrary: T)
    case (Cons e xs)
    obtain t x where e: "e = (t, x)" by (cases e)
    let ?T = "timer_add t \<lparr>item_endpoint = ep, item_data = x\<rparr> T"
    show ?case using Cons.IH [OF timer_add_fields(3) [OF Cons.prems], of t "\<lparr>item_endpoint = ep, item_data = x\<rparr>"]
        timer_add_fields(1,2) timer_add_fields(4) [OF Cons.prems] by (simp add: e)
  qed simp
  from * [of "timeouts es"] show "map_ok (items (register ep es T))" "place (register ep es T) = place T"
    "break_flag (register ep es T) = break_flag T"
    "map_find (items T) w = Some i \<Longrightarrow> map_find (items (register ep es T)) w = Some i"
    by (simp_all add: register_def)
qed

lemma timed_ok_step:
  assumes "timed_step Q ep own s s'" "timed_ok s"
  shows "timed_ok s'"
  using assms
proof (cases rule: timed_step.cases)
  case (thread_emits t cs)
  have "timer_step (td_timer s) (Emit t) (emit_client t (td_timer s))" using thread_emits by (auto intro: timer_step.emit)
  then show ?thesis using held_step(2) thread_emits assms(2) by (auto simp: timed_ok_def)
next
  case stopped
  then show ?thesis using assms(2) by (simp add: timed_ok_def timer_stop_def)
qed (auto simp: timed_ok_def after_call_def register_fields(1) intro: held_step(2) protocol_step_keeps process_wait_list_keeps)

lemma due_gone:
  assumes "proto_ok p" "treats_list x" "w \<le> t1 + milliseconds 20"
  shows "w \<notin> fst ` set (waiting_messages (process_wait_list Q t1 t2 x p))"
  using wait_list_effects [of p x Q t1 t2] assms by (auto simp: treats_list_def emit_all_def)

lemma woken_items:
  assumes "map_ok (items T)" "map_find (items T) w = Some i" "place T = In_Wait" "T' = after_wait t b T"
  shows "map_find (items T') w = Some i \<or> w \<le> t + milliseconds 10 \<and> i \<in> set (queued (place T'))"
proof -
  have mem: "(w, i) \<in> set (items T)" using assms(2) by (simp add: map_find_def map_of_SomeD)
  note tw = sorted_takeWhile_filter [OF assms(1), of "t + milliseconds 10"]
  show ?thesis
  proof (cases "break_flag T \<or> \<not> b \<or> items T = []")
    case True
    then show ?thesis using assms(2,4) by (auto simp: after_wait_def Let_def)
  next
    case False
    then have T': "items T' = filter (\<lambda>e. t + milliseconds 10 < fst e) (items T)"
      "queued (place T') = map snd (filter (\<lambda>e. fst e \<le> t + milliseconds 10) (items T))"
      using tw assms(4) by (simp_all add: after_wait_def Let_def)
    show ?thesis
    proof (cases "w \<le> t + milliseconds 10")
      case True
      then show ?thesis using mem T'(2) by force
    next
      case False
      then have "(w, i) \<in> set (items T')" using mem T'(1) by auto
      moreover have "map_ok (items T')" using T'(1) assms(1) by (simp add: map_ok_filter)
      then have "distinct (map fst (items T'))" by (auto simp: map_ok_def strict_sorted_iff)
      ultimately show ?thesis by (simp add: map_find_def)
    qed
  qed
qed

lemma guarded_step:
  assumes "timed_step Q ep own s s'" "timed_ok s" "guarded w s"
  shows "guarded w s' \<or> \<not> waits_at w s'"
proof -
  have ok: "proto_ok (td_proto s)" "map_ok (items (td_timer s))" using assms(2) by (simp_all add: timed_ok_def)
  from assms(1) show ?thesis
  proof (cases rule: timed_step.cases)
    case (thread_tests T)
    then show ?thesis using assms(3) by (auto simp: guarded_def on_its_way_def loop_test_def)
  next
    case (thread_wakes t T)
    then obtain b where T: "T = after_wait t b (td_timer s)" "place (td_timer s) = In_Wait" by auto
    from assms(3) consider
      (item) i where "map_find (items (td_timer s)) w = Some i" "treats_list (item_data i)"
      | (way) "w \<le> td_clock s + milliseconds 10" "on_its_way s"
      by (auto simp: guarded_def)
    then show ?thesis
    proof cases
      case item
      from woken_items [OF ok(2) item(1) T(2,1)] item(2) thread_wakes show ?thesis
        by (auto simp: guarded_def on_its_way_def)
    next
      case way
      then show ?thesis using thread_wakes T(2) by (auto simp: guarded_def on_its_way_def)
    qed
  next
    case (thread_emits t cs)
    have "items (emit_client t (td_timer s)) = items (td_timer s)" by (simp add: emit_client_def split: place.splits list.splits)
    moreover have "set (map item_data cs @ td_jobs s) =
        set (map item_data (queued (place (emit_client t (td_timer s)))) @ td_jobs s @ map item_data (take 1 cs))"
      using thread_emits by (cases cs) (auto simp: emit_client_def)
    ultimately show ?thesis using assms(3) thread_emits by (auto simp: guarded_def on_its_way_def)
  next
    case (job_runs x xs t1 t2)
    show ?thesis
    proof (cases "treats_list x \<and> w \<le> t1 + milliseconds 20")
      case True
      then show ?thesis using due_gone [OF ok(1)] job_runs by (simp add: waits_at_def after_call_def)
    next
      case False
      then have "\<not> treats_list x" if "w \<le> td_clock s + milliseconds 10"
        using that job_runs by (auto simp: milliseconds_def)
      then show ?thesis
        using assms(3) job_runs register_fields [OF ok(2)]
        by (fastforce simp: guarded_def on_its_way_def after_call_def)
    qed
  next
    case (called p)
    then show ?thesis using assms(3) register_fields [OF ok(2)] by (fastforce simp: guarded_def on_its_way_def after_call_def)
  next
    case stopped
    then show ?thesis using assms(3) by (simp add: guarded_def on_its_way_def timer_stop_def)
  qed
qed

section \<open>A guarded message is treated\<close>

text \<open>What the treatment of a message leaves among the effects: its repetition, or the call that its time is up.\<close>

definition treated :: "time \<Rightarrow> message_item \<Rightarrow> protocol \<Rightarrow> protocol \<Rightarrow> bool" where
  "treated t m p p' \<longleftrightarrow>
     (\<exists>es. effects p' = effects p @ es \<and> (alive t m \<longrightarrow> Writer_Write (repeated_copy m) \<in> set es) \<and>
        (\<not> alive t m \<longrightarrow> (\<forall>f. mi_timeout_func m = Some f \<longrightarrow> Timeout_Func f \<in> set es)))"

definition leads_to_treatment :: "qt \<Rightarrow> endpoint \<Rightarrow> time \<Rightarrow> message_item \<Rightarrow> time \<Rightarrow> timed \<Rightarrow> bool" where
  "leads_to_treatment Q ep w m t s \<longleftrightarrow>
     (\<exists>s'. (timed_step Q ep True)\<^sup>*\<^sup>* s s' \<and> \<not> waits_at w s' \<and> treated t m (td_proto s) (td_proto s'))"

text \<open>What the two threads rely on while they work towards it.\<close>

definition awaiting_treatment :: "time \<Rightarrow> message_item \<Rightarrow> time \<Rightarrow> timed \<Rightarrow> bool" where
  "awaiting_treatment w m t s \<longleftrightarrow>
     timed_ok s \<and> (w, m) \<in> set (waiting_messages (td_proto s)) \<and> protocol_writer (td_proto s) \<noteq> None \<and>
     td_clock s \<le> t \<and> w \<le> t"

lemma leads_back:
  assumes "timed_step Q ep True s s1" "leads_to_treatment Q ep w m t s1" "effects (td_proto s1) = effects (td_proto s) @ es"
  shows "leads_to_treatment Q ep w m t s"
proof -
  obtain s' fs where s': "(timed_step Q ep True)\<^sup>*\<^sup>* s1 s'" "\<not> waits_at w s'" "effects (td_proto s') = effects (td_proto s1) @ fs"
    "alive t m \<longrightarrow> Writer_Write (repeated_copy m) \<in> set fs"
    "\<not> alive t m \<longrightarrow> (\<forall>f. mi_timeout_func m = Some f \<longrightarrow> Timeout_Func f \<in> set fs)"
    using assms(2) unfolding leads_to_treatment_def treated_def by blast
  have "treated t m (td_proto s) (td_proto s')"
    unfolding treated_def using s'(3-5) assms(3) by (intro exI [of _ "es @ fs"]) simp
  then show ?thesis
    using s'(1,2) converse_rtranclp_into_rtranclp [of "timed_step Q ep True", OF assms(1)]
    unfolding leads_to_treatment_def by blast
qed

lemma due_treated:
  assumes "proto_ok p" "treats_list x" "(w, m) \<in> set (waiting_messages p)" "w \<le> t + milliseconds 20" "protocol_writer p \<noteq> None"
  shows "treated t m p (process_wait_list Q t t x p)"
proof -
  have m: "m \<in> set (due_at t p)" using assms(3,4) by (force simp: due_at_def)
  let ?es = "concat (map (wait_reaction t True) (due_at t p)) @
      concat (map message_item_destroy (filter (\<lambda>m. \<not> alive t m) (due_at t p)))"
  have "effects (process_wait_list Q t t x p) = effects p @ ?es"
    using wait_list_effects [OF assms(1), of x Q t t] assms(2,5) by (simp add: treats_list_def emit_all_def)
  moreover have "set (wait_reaction t True m) \<subseteq> set ?es" using m by auto
  moreover have "alive t m \<Longrightarrow> Writer_Write (repeated_copy m) \<in> set (wait_reaction t True m)"
    "\<not> alive t m \<Longrightarrow> mi_timeout_func m = Some f \<Longrightarrow> Timeout_Func f \<in> set (wait_reaction t True m)" for f
    by (simp_all add: wait_reaction_def)
  ultimately show ?thesis unfolding treated_def by blast
qed

lemma renew_frame:
  "waiting_messages (renew_fragment Q t e p) = waiting_messages p"
  "(protocol_writer (renew_fragment Q t e p) = None) = (protocol_writer p = None)"
  "\<exists>es. effects (renew_fragment Q t e p) = effects p @ es"
  by (auto simp: renew_fragment_def Let_def finish_sender_def send_message_def emit_def emit_all_def
      split: prod.splits option.splits)

lemma renewals_frame:
  "waiting_messages (fold (renew_fragment Q t) fs p) = waiting_messages p"
  "(protocol_writer (fold (renew_fragment Q t) fs p) = None) = (protocol_writer p = None)"
  "\<exists>es. effects (fold (renew_fragment Q t) fs p) = effects p @ es"
proof (induction fs arbitrary: p)
  case (Cons f fs)
  { case 1 show ?case using Cons.IH(1) by (simp add: renew_frame) }
  { case 2 show ?case using Cons.IH(2) by (simp add: renew_frame) }
  { case 3
    obtain es where "effects (renew_fragment Q t f p) = effects p @ es" using renew_frame(3) by blast
    then show ?case using Cons.IH(3) [of "renew_fragment Q t f p"] by auto }
qed simp_all

text \<open>The jobs of the I/O thread run in order; the first that treats the list treats the message.\<close>

lemma jobs_treat:
  assumes "awaiting_treatment w m t s" "x \<in> set (td_jobs s)" "treats_list x"
  shows "leads_to_treatment Q ep w m t s"
  using assms(1,2)
proof (induction "td_jobs s" arbitrary: s)
  case (Cons y ys)
  have p: "timed_ok s" "(w, m) \<in> set (waiting_messages (td_proto s))" "protocol_writer (td_proto s) \<noteq> None" "td_clock s \<le> t" "w \<le> t"
    using Cons.prems(1) by (simp_all add: awaiting_treatment_def)
  let ?p = "process_wait_list Q t t y (td_proto s)"
  let ?s = "(after_call ep ?p s)\<lparr>td_jobs := ys, td_clock := t\<rparr>"
  have st: "timed_step Q ep True s ?s" using Cons.hyps(2) p(4) by (intro timed_step.job_runs) simp_all
  have pr: "td_proto ?s = ?p" "td_jobs ?s = ys" "td_clock ?s = t" by (simp_all add: after_call_def)
  have wk: "w \<le> t + milliseconds 20" using p(5) by (simp add: milliseconds_def)
  show ?case
  proof (cases "treats_list y")
    case True
    then have "treated t m (td_proto s) (td_proto ?s)" "\<not> waits_at w ?s"
      using due_treated [OF _ True p(2) wk p(3)] due_gone [OF _ True wk] p(1) pr(1) by (simp_all add: timed_ok_def waits_at_def)
    then show ?thesis using st unfolding leads_to_treatment_def by blast
  next
    case False
    then have y: "y = int (unat FRAGMENT)" by (simp add: treats_list_def)
    have eq: "?p = fold (renew_fragment Q t) (fragmented_messages (td_proto s)) (td_proto s)"
      unfolding y process_wait_list_def by simp
    obtain es where es: "effects ?p = effects (td_proto s) @ es" unfolding eq using renewals_frame(3) by blast
    have "waiting_messages ?p = waiting_messages (td_proto s)" "protocol_writer ?p \<noteq> None"
      unfolding eq using renewals_frame(1,2) p(3) by simp_all
    then have "awaiting_treatment w m t ?s"
      using timed_ok_step [OF st p(1)] p(2,5) pr by (simp add: awaiting_treatment_def)
    moreover have "x \<in> set (td_jobs ?s)" using Cons.prems(2) Cons.hyps(2) False assms(3) pr(2) by (metis set_ConsD)
    ultimately have "leads_to_treatment Q ep w m t ?s" by (rule Cons.hyps(1) [OF pr(2) [symmetric]])
    then show ?thesis using leads_back [OF st] es pr(1) by simp
  qed
qed simp

text \<open>The queue of the timer thread is handed out, and the thread goes on.\<close>

lemma awaiting_thread:
  assumes "awaiting_treatment w m t s" "timed_step Q ep True s s'" "td_proto s' = td_proto s" "td_clock s' \<le> t"
  shows "awaiting_treatment w m t s'"
  using assms timed_ok_step [OF assms(2)] by (simp add: awaiting_treatment_def)

lemma thread_leads:
  assumes "timed_step Q ep True s s'" "td_proto s' = td_proto s" "leads_to_treatment Q ep w m t s'"
  shows "leads_to_treatment Q ep w m t s"
  using leads_back [OF assms(1,3), of "[]"] assms(2) by simp

lemma queue_treats:
  assumes "awaiting_treatment w m t s" "place (td_timer s) = Emitting cs" "on_its_way s"
  shows "leads_to_treatment Q ep w m t s"
  using assms
proof (induction cs arbitrary: s)
  case Nil
  then show ?case using jobs_treat by (auto simp: on_its_way_def)
next
  case (Cons c cs)
  let ?s = "s\<lparr>td_timer := emit_client t (td_timer s), td_clock := t, td_jobs := td_jobs s @ map item_data (take 1 (c # cs))\<rparr>"
  have st: "timed_step Q ep True s ?s" using Cons.prems by (intro timed_step.thread_emits) (simp_all add: awaiting_treatment_def)
  have pl: "place (td_timer ?s) = Emitting cs" using Cons.prems(2) by (simp add: emit_client_def)
  have "on_its_way ?s" using Cons.prems(2,3) pl by (auto simp: on_its_way_def)
  with Cons.IH [OF awaiting_thread [OF Cons.prems(1) st] pl] show ?case using thread_leads [OF st] by simp
qed

text \<open>The timer has the item: whatever the thread is doing, it comes to wait for it, wakes and hands it out.\<close>

definition has_item :: "time \<Rightarrow> timed \<Rightarrow> bool" where
  "has_item w s \<longleftrightarrow>
     (\<exists>i. map_find (items (td_timer s)) w = Some i \<and> treats_list (item_data i)) \<and> \<not> break_flag (td_timer s)"

lemma quiet_wait_treats:
  assumes "awaiting_treatment w m t s" "has_item w s" "place (td_timer s) = In_Wait" "\<not> new_timeout_flag (td_timer s)"
  shows "leads_to_treatment Q ep w m t s"
proof -
  let ?T = "td_timer s"
  obtain i where i: "map_find (items ?T) w = Some i" "treats_list (item_data i)" and nb: "\<not> break_flag ?T"
    using assms(2) by (auto simp: has_item_def)
  have ok: "map_ok (items ?T)" "w \<le> t" "td_clock s \<le> t" using assms(1) by (simp_all add: awaiting_treatment_def timed_ok_def)
  obtain k j r where it: "items ?T = (k, j) # r" using i(1) by (cases "items ?T") (auto simp: map_find_def)
  have "k \<le> w"
    using i(1) ok(1) it by (force simp: map_find_def map_ok_Cons split: if_splits dest!: map_of_SomeD)
  then have "wait_result t ?T = Some True"
    using assms(4) nb it ok(2) by (simp add: wait_result_def pred_func_def)
  then have ts: "timer_step ?T (Wake t) (after_wait t True ?T)" using assms(3) by (intro timer_step.wake)
  let ?s = "s\<lparr>td_timer := after_wait t True ?T, td_clock := t\<rparr>"
  have st: "timed_step Q ep True s ?s" using ts ok(3) by (rule timed_step.thread_wakes [rotated])
  have q: "place (after_wait t True ?T) = Emitting (map snd (filter (\<lambda>e. fst e \<le> t + milliseconds 10) (items ?T)))"
    using nb it sorted_takeWhile_filter(1) [OF ok(1)] by (simp add: after_wait_def Let_def)
  have "(w, i) \<in> set (items ?T)" using i(1) by (simp add: map_find_def map_of_SomeD)
  moreover have "w \<le> t + milliseconds 10" using ok(2) by (simp add: milliseconds_def)
  ultimately have "on_its_way ?s" using q i(2) by (force simp: on_its_way_def)
  then have "leads_to_treatment Q ep w m t ?s"
    using queue_treats [OF awaiting_thread [OF assms(1) st]] q by simp
  then show ?thesis using thread_leads [OF st] by simp
qed

text \<open>
  From the head of the loop and from the queue, given that the wait leads on; \<open>b\<close> allows that a
  new timeout was registered, which sends the thread round the loop once more.
\<close>

definition wait_leads :: "qt \<Rightarrow> endpoint \<Rightarrow> time \<Rightarrow> message_item \<Rightarrow> time \<Rightarrow> bool \<Rightarrow> bool" where
  "wait_leads Q ep w m t b \<longleftrightarrow>
     (\<forall>s. awaiting_treatment w m t s \<longrightarrow> has_item w s \<longrightarrow> place (td_timer s) = In_Wait \<longrightarrow> (new_timeout_flag (td_timer s) \<longrightarrow> b) \<longrightarrow>
        leads_to_treatment Q ep w m t s)"

lemma head_treats:
  assumes "wait_leads Q ep w m t b" "awaiting_treatment w m t s" "has_item w s" "place (td_timer s) = At_Head"
    and "new_timeout_flag (td_timer s) \<longrightarrow> b"
  shows "leads_to_treatment Q ep w m t s"
proof -
  let ?s = "s\<lparr>td_timer := loop_test (td_timer s)\<rparr>"
  have st: "timed_step Q ep True s ?s" using assms(4) by (intro timed_step.thread_tests timer_step.test)
  have "td_clock ?s \<le> t" using assms(2) by (simp add: awaiting_treatment_def)
  then have "awaiting_treatment w m t ?s" using awaiting_thread [OF assms(2) st] by simp
  then have "leads_to_treatment Q ep w m t ?s"
    using assms(1,3,5) by (simp add: wait_leads_def has_item_def loop_test_def)
  then show ?thesis using thread_leads [OF st] by simp
qed

lemma emitting_treats:
  assumes "wait_leads Q ep w m t b" "awaiting_treatment w m t s" "has_item w s" "place (td_timer s) = Emitting cs"
    and "new_timeout_flag (td_timer s) \<longrightarrow> b"
  shows "leads_to_treatment Q ep w m t s"
  using assms(2-5)
proof (induction cs arbitrary: s)
  case Nil
  let ?s = "s\<lparr>td_timer := emit_client t (td_timer s), td_clock := t\<rparr>"
  have st: "timed_step Q ep True s ?s" using Nil timed_step.thread_emits [of s t "[]"] by (simp add: awaiting_treatment_def)
  have "leads_to_treatment Q ep w m t ?s"
    using head_treats [OF assms(1) awaiting_thread [OF Nil(1) st]] Nil(2-4) by (simp add: has_item_def emit_client_def)
  then show ?case using thread_leads [OF st] by simp
next
  case (Cons c cs)
  let ?s = "s\<lparr>td_timer := emit_client t (td_timer s), td_clock := t, td_jobs := td_jobs s @ map item_data (take 1 (c # cs))\<rparr>"
  have st: "timed_step Q ep True s ?s" using Cons.prems by (intro timed_step.thread_emits) (simp_all add: awaiting_treatment_def)
  have "leads_to_treatment Q ep w m t ?s"
    using Cons.IH [OF awaiting_thread [OF Cons.prems(1) st]] Cons.prems(2-4) by (simp add: has_item_def emit_client_def)
  then show ?case using thread_leads [OF st] by simp
qed

lemma quiet_wait_leads: "wait_leads Q ep w m t False"
  using quiet_wait_treats by (auto simp: wait_leads_def)

lemma any_wait_leads: "wait_leads Q ep w m t True"
  unfolding wait_leads_def
proof (intro allI impI)
  fix s
  assume a: "awaiting_treatment w m t s" "has_item w s" "place (td_timer s) = In_Wait"
  show "leads_to_treatment Q ep w m t s"
  proof (cases "new_timeout_flag (td_timer s)")
    case False
    then show ?thesis using quiet_wait_treats a by blast
  next
    case True
    let ?T = "after_wait t False (td_timer s)" and ?s = "s\<lparr>td_timer := after_wait t False (td_timer s), td_clock := t\<rparr>"
    have "timer_step (td_timer s) (Wake t) ?T"
      using True a(3) by (intro timer_step.wake) (simp_all add: wait_result_def pred_func_def)
    then have st: "timed_step Q ep True s ?s" using a(1) by (intro timed_step.thread_wakes) (simp_all add: awaiting_treatment_def)
    have "place ?T = Emitting []" "\<not> new_timeout_flag ?T" "has_item w ?s"
      using a(2) by (auto simp: has_item_def after_wait_def Let_def)
    then have "leads_to_treatment Q ep w m t ?s"
      using emitting_treats [OF quiet_wait_leads awaiting_thread [OF a(1) st], of "[]"] by simp
    then show ?thesis using thread_leads [OF st] by simp
  qed
qed

lemma guarded_treated:
  assumes "awaiting_treatment w m t s" "guarded w s" "\<not> break_flag (td_timer s)" "place (td_timer s) \<noteq> Ended"
  shows "leads_to_treatment Q ep w m t s"
proof (cases "has_item w s")
  case True
  then show ?thesis
    using head_treats [OF any_wait_leads assms(1) True] emitting_treats [OF any_wait_leads assms(1) True]
      any_wait_leads assms(1,4) by (cases "place (td_timer s)") (auto simp: wait_leads_def)
next
  case False
  then have "on_its_way s" using assms(2,3) by (auto simp: guarded_def has_item_def)
  then show ?thesis
    using queue_treats [OF assms(1)] jobs_treat [OF assms(1)] by (cases "place (td_timer s)") (auto simp: on_its_way_def)
qed

section \<open>From sending to treatment\<close>

text \<open>A run in which the message that waits at \<open>w\<close> goes on waiting there.\<close>

definition waits_on :: "qt \<Rightarrow> endpoint \<Rightarrow> time \<Rightarrow> timed \<Rightarrow> timed \<Rightarrow> bool" where
  "waits_on Q ep w s s' \<longleftrightarrow> (\<exists>own. timed_step Q ep own s s') \<and> waits_at w s'"

lemma still_guarded:
  assumes "(waits_on Q ep w)\<^sup>*\<^sup>* s s'" "timed_ok s" "guarded w s"
  shows "timed_ok s' \<and> guarded w s'"
  using assms(1)
proof (induction rule: rtranclp_induct)
  case (step s1 s2)
  then show ?case using timed_ok_step guarded_step unfolding waits_on_def by blast
qed (use assms(2,3) in simp)

text \<open>Calls that ask for no timeout.\<close>

definition no_timeout :: "protocol \<Rightarrow> protocol \<Rightarrow> bool" where
  "no_timeout p p' \<longleftrightarrow> protocol_writer p' = protocol_writer p \<and> (\<exists>es. effects p' = effects p @ es \<and> timeouts es = [])"

lemma timeouts_append [simp]: "timeouts (es @ fs) = timeouts es @ timeouts fs"
  by (induction es rule: timeouts.induct) simp_all

lemma no_timeout_trans [trans]: "no_timeout p q \<Longrightarrow> no_timeout q r \<Longrightarrow> no_timeout p r"
  unfolding no_timeout_def by force

lemma no_timeout_destroy: "timeouts (message_item_destroy m) = []"
  by (simp add: message_item_destroy_def split: option.splits)

lemma no_timeout_drop: "no_timeout p (drop_message x p)"
  by (simp add: no_timeout_def drop_message_def emit_all_def no_timeout_destroy split: option.splits)

lemma no_timeout_send:
  "no_timeout p (send_message x p)" "no_timeout p (finish_sender c p)"
  by (auto simp: no_timeout_def send_message_def finish_sender_def protocol_sender_destroy_def emit_def emit_all_def no_timeout_destroy
      split: option.splits)

lemma no_timeout_pop: "no_timeout p (snd (pop_waiting_message P p))"
  by (simp add: no_timeout_def pop_waiting_message_def split: prod.splits)

lemma no_timeout_add: "no_timeout p (fst (add_to_waiting t x p))"
proof -
  let ?P = "\<lambda>i. id_or_zero i = id_or_zero x"
  let ?q = "drop_message (fst (pop_waiting_message ?P p)) (snd (pop_waiting_message ?P p))"
  have "no_timeout p ?q" by (rule no_timeout_trans [OF no_timeout_pop no_timeout_drop])
  moreover have "no_timeout ?q (fst (add_to_waiting t x p))"
    by (simp add: no_timeout_def add_to_waiting_def Let_def split_beta)
  ultimately show ?thesis by (rule no_timeout_trans)
qed

text \<open>The packet of a message that waits for an answer is prepared: its time point, if it is free, is registered.\<close>

lemma prepare_registers:
  assumes "mi_data_device m = Some d" "packet_payload Q t1 m d = (flags, data, m1)" "t2 < mi_end_time m1" "protocol_writer p \<noteq> None"
  shows "\<exists>es. effects (snd (prepare_packet_to_send Q t1 t2 (Some m) p)) = effects p @ es \<and> timeouts es = [(wait_point t2 m1, 0)]"
proof -
  define p1 where "p1 = (case mi_id m of Some i \<Rightarrow> p | None \<Rightarrow> p\<lparr>next_tx_msg_id := next_tx_msg_id p + 1\<rparr>)\<lparr>last_msg_send_time := t2\<rparr>"
  define m2 where "m2 = m1\<lparr>mi_id := Some (case mi_id m of Some i \<Rightarrow> i | None \<Rightarrow> next_tx_msg_id p)\<rparr>"
  define p3 where "p3 = add_to_waiting (wait_point t2 m1) m2 p1"
  define p4 where "p4 = (if snd p3 then drop_message (Some m2) (fst p3) else fst p3)"
  have "no_timeout p p1" by (simp add: no_timeout_def p1_def split: option.splits)
  also have "no_timeout p1 (fst p3)" unfolding p3_def by (rule no_timeout_add)
  also have "no_timeout (fst p3) p4" using no_timeout_drop by (simp add: p4_def) (simp add: no_timeout_def)
  finally obtain es where es: "protocol_writer p4 = protocol_writer p" "effects p4 = effects p @ es" "timeouts es = []"
    by (auto simp: no_timeout_def)
  have "snd (prepare_packet_to_send Q t1 t2 (Some m) p) =
      (if protocol_writer p4 \<noteq> None then emit (Writer_Add_Timeout (wait_point t2 m1) 0) p4 else p4)"
    using assms(1-3) by (cases "mi_id m")
      (simp_all add: prepare_packet_to_send_def Let_def split_beta p4_def p3_def p1_def m2_def wait_point_def)
  then show ?thesis using es assms(4) by (simp add: emit_def)
qed

lemma prepared_guarded:
  assumes "mi_data_device m = Some d" "packet_payload Q t1 m d = (flags, data, m1)" "t2 < mi_end_time m1"
    and "protocol_writer (td_proto s) \<noteq> None" "timed_ok s" "map_find (items (td_timer s)) (wait_point t2 m1) = None"
  shows "guarded (wait_point t2 m1) (after_call ep (snd (prepare_packet_to_send Q t1 t2 (Some m) (td_proto s))) s)"
proof -
  obtain es where "effects (snd (prepare_packet_to_send Q t1 t2 (Some m) (td_proto s))) = effects (td_proto s) @ es"
    "timeouts es = [(wait_point t2 m1, 0)]"
    using prepare_registers [OF assms(1-4)] by blast
  moreover have "map_ok (items (td_timer s))" using assms(5) by (simp add: timed_ok_def)
  ultimately show ?thesis
    using assms(6) by (simp add: guarded_def after_call_def register_def timer_add_def treats_list_def FRAGMENT_def)
qed

text \<open>
  Property C28.  No waiting message is forgotten: a client prepares the packet of a message whose end lies
  ahead, at a time point the timer does not hold yet. Then, after any steps of the timer thread, of the I/O
  thread and of the callers of the protocol during which a message goes on waiting at that point, the two
  threads alone come, once the point is reached, to treat it: it leaves the list and is sent again, or its
  timeout callback is called.
\<close>

theorem no_waiting_message_forgotten:
  assumes "s1 = after_call ep (snd (prepare_packet_to_send Q t1 t2 (Some m) (td_proto s))) s"
    and "mi_data_device m = Some d" "packet_payload Q t1 m d = (flags, data, m1)" "t2 < mi_end_time m1"
    and "protocol_writer (td_proto s) \<noteq> None" "timed_ok s" "map_find (items (td_timer s)) (wait_point t2 m1) = None"
    and "(waits_on Q ep (wait_point t2 m1))\<^sup>*\<^sup>* s1 s'"
    and "(wait_point t2 m1, x) \<in> set (waiting_messages (td_proto s'))" "protocol_writer (td_proto s') \<noteq> None"
    and "\<not> break_flag (td_timer s')" "place (td_timer s') \<noteq> Ended" "td_clock s' \<le> t" "wait_point t2 m1 \<le> t"
  shows "\<exists>s''. (timed_step Q ep True)\<^sup>*\<^sup>* s' s'' \<and> wait_point t2 m1 \<notin> fst ` set (waiting_messages (td_proto s'')) \<and>
    treated t x (td_proto s') (td_proto s'')"
proof -
  have "timed_step Q ep False s s1" unfolding assms(1) by (intro timed_step.called protocol_step.Prepare)
  then have "timed_ok s1" using timed_ok_step assms(6) by blast
  moreover have "guarded (wait_point t2 m1) s1" unfolding assms(1) by (rule prepared_guarded [OF assms(2-7)])
  ultimately have "timed_ok s' \<and> guarded (wait_point t2 m1) s'" using still_guarded [OF assms(8)] by blast
  moreover from this have "awaiting_treatment (wait_point t2 m1) x t s'" using assms(9,10,13,14) by (simp add: awaiting_treatment_def)
  ultimately show ?thesis
    using guarded_treated [of "wait_point t2 m1" x t s' Q ep] assms(11,12) unfolding leads_to_treatment_def waits_at_def by blast
qed

section \<open>What goes wrong\<close>

text \<open>
  A question that went out in parts waits for its answer from the moment the other side asks for a part
  behind its end. It is entered at its end time, for which nothing is registered: its own timer does not
  call its timeout callback.
\<close>

lemma fragmented_question_unguarded:
  assumes "mi_data_device m = Some d" "mi_answer_func m = Some f" "dev_size d \<le> unat pos" "waiting_messages p = [(w, m)]"
    and "id_or_zero m = i"
  shows "waiting_messages (process_fragment_query Q i pos n p) = [(mi_end_time m, m)]"
    and "no_timeout p (process_fragment_query Q i pos n p)"
proof -
  have pop: "pop_waiting_fragment i p = (Some m, p\<lparr>waiting_messages := []\<rparr>)"
    using assms(4,5) by (simp add: pop_waiting_fragment_def pop_waiting_message_def)
  have add: "add_to_waiting (mi_end_time m) m (p\<lparr>waiting_messages := []\<rparr>) = (p\<lparr>waiting_messages := [(mi_end_time m, m)]\<rparr>, False)"
    by (simp add: add_to_waiting_def pop_waiting_message_def drop_message_def map_find_def)
  have eq: "process_fragment_query Q i pos n p =
      finish_sender (sender_put [i] (send cmd_remove_fragment (p\<lparr>waiting_messages := [(mi_end_time m, m)]\<rparr>)))
        (p\<lparr>waiting_messages := [(mi_end_time m, m)]\<rparr>)"
    using assms(1-3) by (simp add: process_fragment_query_def pop add Let_def)
  show "waiting_messages (process_fragment_query Q i pos n p) = [(mi_end_time m, m)]" by (simp add: eq)
  show "no_timeout p (process_fragment_query Q i pos n p)"
    using no_timeout_send(2) [of "p\<lparr>waiting_messages := [(mi_end_time m, m)]\<rparr>"] unfolding eq by (simp add: no_timeout_def)
qed

section \<open>Examples\<close>

text \<open>A client sends one message with an end nine seconds ahead; its first repetition is due after three.\<close>

definition timed_sample :: timed where
  "timed_sample =
     \<lparr>td_timer = timer_new, td_proto = set_writer (Some \<lparr>last_msg_recv_time = 0, w_has_protocol = True\<rparr>) protocol_new,
      td_jobs = [], td_clock = 0\<rparr>"

definition timed_sent :: timed where
  "timed_sent = after_call (Endpoint 1 0) (snd (prepare_packet_to_send qt_sample 0 0 (Some (waiting_item 3 (seconds 9))) (td_proto timed_sample)))
     timed_sample"

theorem no_waiting_message_forgotten_witness:
  "\<exists>s. (timed_step qt_sample (Endpoint 1 0) True)\<^sup>*\<^sup>* timed_sent s \<and>
     Writer_Write (repeated_copy (waiting_item 3 (seconds 9))) \<in> set (effects (td_proto s))"
proof -
  let ?m = "waiting_item 3 (seconds 9)" and ?w = "milliseconds 3000" and ?p = "td_proto timed_sample"
  have m: "mi_data_device ?m = Some new_device" "mi_id ?m = Some 3" "mi_end_time ?m = seconds 9" "mi_resend_timeout ?m = ?w"
    by (simp_all add: waiting_item_def message_item_new_def)
  have pl: "packet_payload qt_sample 0 ?m new_device = (0, [], ?m)"
    by (simp add: packet_payload_def Let_def add_raw_data_to_packet_def new_device_def dev_size_def dev_read_def dev_seek_def zero_fill_def
        waiting_item_def message_item_new_def)
  have w: "wait_point 0 ?m = ?w" using m by (simp add: wait_point_def milliseconds_def seconds_def)
  have p: "protocol_writer ?p \<noteq> None" "timed_ok timed_sample" "td_timer timed_sample = timer_new" "waiting_messages ?p = []" "effects ?p = []"
    by (simp_all add: timed_sample_def set_writer_def timed_ok_def proto_ok_def wait_ok_def protocol_new_def timer_new_def map_ok_def)
  have t: "0 < seconds 9" "?w < seconds 9" by (simp_all add: milliseconds_def seconds_def)
  let ?q = "snd (prepare_packet_to_send qt_sample 0 0 (Some ?m) ?p)"
  have q: "waiting_messages ?q = [(?w, ?m)]" "protocol_writer ?q \<noteq> None"
    using m pl p w t
    by (simp_all add: prepare_packet_to_send_def Let_def add_to_waiting_def pop_waiting_message_def drop_message_def map_find_def
        wait_point_def emit_def split: if_splits)
  have s: "td_proto timed_sent = ?q" "td_clock timed_sent = 0" "break_flag (td_timer timed_sent) = False" "place (td_timer timed_sent) = At_Head"
    using register_fields(2,3) [of timer_new] p(3) by (simp_all add: timed_sent_def after_call_def timed_sample_def timer_new_def)
  obtain s'' where "(timed_step qt_sample (Endpoint 1 0) True)\<^sup>*\<^sup>* timed_sent s''" "treated ?w ?m ?q (td_proto s'')"
    using no_waiting_message_forgotten [OF timed_sent_def m(1) pl _ p(1,2), of timed_sent ?m ?w] w q s m(3) p(3)
    by (auto simp: timer_new_def map_find_def milliseconds_def seconds_def)
  moreover have "alive ?w ?m" using m by (simp add: alive_def milliseconds_def seconds_def)
  ultimately show ?thesis by (auto simp: treated_def)
qed

end
