(* ===== verification/Dtls_Node.thy ===== *)
theory Dtls_Node
  imports Protocol_Timer
begin

text \<open>
  \<open>DTLS/dtls_node.cpp\<close>, \<open>dtls_client_node.cpp\<close> and
  \<open>dtls_server_node.cpp\<close>: an encrypted connection to one peer. The TLS channel is the library
  Botan's; it is the parameter \<open>channel\<close>, whose \<open>received_data\<close> calls back into
  the node. A node's operations return the node and what they do, in order: calls into the protocol object,
  datagrams, work posted to the controller.
\<close>

section \<open>State\<close>

datatype alert = Close_Notify | Other_Alert nat

text \<open>The callbacks of \<open>Botan::TLS::Callbacks\<close>, in the order the channel makes them.\<close>

datatype tls_event =
    Record_Received bytes
  | Alert_Received alert
  | Emit_Data bytes
  | Verify_Cert_Chain "nat list"
  | Choose_App_Protocol "string list"
  | Session_Established

text \<open>
  The channel: what \<open>received_data\<close> calls back, its state afterwards and whether it throws; what it
  emits when a callback throws through it; the handshake timer; sending and closing.
\<close>

record 'c channel =
  ch_is_active :: "'c \<Rightarrow> bool"
  ch_received_data :: "bytes \<Rightarrow> 'c \<Rightarrow> tls_event list \<times> 'c \<times> bool"
  ch_failed :: "'c \<Rightarrow> bytes list \<times> 'c"
  ch_timeout_check :: "'c \<Rightarrow> bytes list \<times> 'c"
  ch_send :: "bytes \<Rightarrow> 'c \<Rightarrow> bytes list \<times> 'c"
  ch_close :: "'c \<Rightarrow> bytes list"
  ch_application_protocol :: "'c \<Rightarrow> string"

text \<open>
  What the application and the libraries decide: path validation of a certificate chain, the protocol
  objects (numbered) of the two create functions, and the packet a protocol makes of a message.
\<close>

record app =
  path_validate :: "nat list \<Rightarrow> bool"
  create_server_protocol :: "string list \<Rightarrow> nat option"
  create_client_protocol :: "(string \<Rightarrow> nat option) option"
  protocol_packet :: "nat \<Rightarrow> nat \<Rightarrow> bytes"

datatype role = Client_Role | Server_Role

record 'c node =
  n_dtls :: "'c option"
  n_protocol :: "nat option"
  n_endpoint :: endpoint
  n_title :: string
  n_last_recv :: time
  n_ping_flag :: bool

datatype node_effect =
    Protocol_Closed nat
  | Writer_Set nat
  | Writer_Reset nat
  | Ready_Write nat
  | Process_Bytes nat bytes
  | Send_Ping nat
  | Prepare_Packet nat nat
  | Send_Datagram endpoint bytes
  | Add_Received_Record bytes
  | Post_Remove_Client endpoint
  | Before_Remove_Copy nat
  | Process_Wait_List nat int
  | Log_Validation bool

definition node_new :: "bool \<Rightarrow> 'c node" where
  "node_new uninit_flag =
     \<lparr>n_dtls = None, n_protocol = None, n_endpoint = Endpoint 0 0, n_title = [], n_last_recv = 0,
      n_ping_flag = uninit_flag\<rparr>"

section \<open>Node\<close>

definition emit_data :: "'c node \<Rightarrow> bytes list \<Rightarrow> node_effect list" where
  "emit_data n out = map (Send_Datagram (n_endpoint n)) out"

definition node_close :: "'c channel \<Rightarrow> 'c node \<Rightarrow> 'c node \<times> node_effect list" where
  "node_close C n =
     (n\<lparr>n_protocol := None, n_dtls := None\<rparr>,
      (case n_protocol n of None \<Rightarrow> [] | Some p \<Rightarrow> [Protocol_Closed p, Writer_Reset p]) @
      (case n_dtls n of None \<Rightarrow> [] | Some c \<Rightarrow> emit_data n (ch_close C c)))"

definition set_protocol :: "nat option \<Rightarrow> 'c node \<Rightarrow> 'c node \<times> node_effect list" where
  "set_protocol p n =
     (n\<lparr>n_protocol := p\<rparr>, case p of None \<Rightarrow> [] | Some q \<Rightarrow> [Writer_Set q])"

text \<open>\<open>address\<close> is the text of the end point.\<close>

definition set_receiver_endpoint :: "(endpoint \<Rightarrow> string) \<Rightarrow> endpoint \<Rightarrow> 'c node \<Rightarrow> 'c node" where
  "set_receiver_endpoint address ep n =
     (let n1 = n\<lparr>n_endpoint := ep\<rparr> in if n_title n1 = [] then n1\<lparr>n_title := address ep\<rparr> else n1)"

definition tls_record_received :: "role \<Rightarrow> bytes \<Rightarrow> 'c node \<Rightarrow> node_effect list" where
  "tls_record_received R data n =
     (case R of
        Server_Role \<Rightarrow> [Add_Received_Record data]
      | Client_Role \<Rightarrow> (case n_protocol n of None \<Rightarrow> [] | Some p \<Rightarrow> [Process_Bytes p data]))"

text \<open>\<open>Node::tls_alert\<close>, and for a server \<open>Server_Node::tls_alert\<close> around it.\<close>

definition node_tls_alert :: "'c channel \<Rightarrow> alert \<Rightarrow> 'c node \<Rightarrow> 'c node \<times> node_effect list" where
  "node_tls_alert C a n =
     (case n_protocol n of
        None \<Rightarrow> (n, [])
      | Some p \<Rightarrow>
          if a = Close_Notify then
            (case node_close C n of (n1, fs) \<Rightarrow> (n1, Protocol_Closed p # fs))
          else (n, []))"

definition tls_alert :: "role \<Rightarrow> 'c channel \<Rightarrow> alert \<Rightarrow> 'c node \<Rightarrow> 'c node \<times> node_effect list" where
  "tls_alert R C a n =
     (case node_tls_alert C a n of
        (n1, fs) \<Rightarrow>
          (n1, if R = Server_Role \<and> a = Close_Notify then fs @ [Post_Remove_Client (n_endpoint n1)] else fs))"

text \<open>\<open>True\<close>: it throws \<open>std::invalid_argument\<close>.  The outcome of the validation is only logged.\<close>

definition tls_verify_cert_chain :: "app \<Rightarrow> nat list \<Rightarrow> node_effect list \<times> bool" where
  "tls_verify_cert_chain A chain =
     (if chain = [] then ([], True) else ([Log_Validation (path_validate A chain)], False))"

definition tls_server_choose_app_protocol ::
    "app \<Rightarrow> string list \<Rightarrow> 'c node \<Rightarrow> 'c node \<times> node_effect list" where
  "tls_server_choose_app_protocol A protos n =
     (case create_server_protocol A protos of
        Some p \<Rightarrow> set_protocol (Some p) n
      | None \<Rightarrow> (n, [Post_Remove_Client (n_endpoint n)]))"

text \<open>One callback: the node, what it does, whether it throws.\<close>

definition node_event ::
    "role \<Rightarrow> app \<Rightarrow> 'c channel \<Rightarrow> tls_event \<Rightarrow> 'c node \<Rightarrow> 'c node \<times> node_effect list \<times> bool" where
  "node_event R A C ev n =
     (case ev of
        Record_Received data \<Rightarrow> (n, tls_record_received R data n, False)
      | Alert_Received a \<Rightarrow> (case tls_alert R C a n of (n1, fs) \<Rightarrow> (n1, fs, False))
      | Emit_Data data \<Rightarrow> (n, emit_data n [data], False)
      | Verify_Cert_Chain chain \<Rightarrow> (case tls_verify_cert_chain A chain of (fs, t) \<Rightarrow> (n, fs, t))
      | Choose_App_Protocol protos \<Rightarrow>
          (case R of
             Server_Role \<Rightarrow>
               (case tls_server_choose_app_protocol A protos n of (n1, fs) \<Rightarrow> (n1, fs, False))
           | Client_Role \<Rightarrow> (n, [], False))
      | Session_Established \<Rightarrow> (n, [], False))"

text \<open>
  The callbacks of one \<open>received_data\<close>. A callback that closes the node destroys the channel
  from inside its own call; what the channel does then is not defined, and there are no callbacks after it
  here.
\<close>

fun node_events ::
    "role \<Rightarrow> app \<Rightarrow> 'c channel \<Rightarrow> tls_event list \<Rightarrow> 'c node \<Rightarrow> 'c node \<times> node_effect list \<times> bool" where
  "node_events R A C [] n = (n, [], False)"
| "node_events R A C (e # es) n =
     (if n_dtls n = None then (n, [], False)
      else (case node_event R A C e n of
              (n1, fs, True) \<Rightarrow> (n1, fs, True)
            | (n1, fs, False) \<Rightarrow>
                (case node_events R A C es n1 of (n2, gs, t) \<Rightarrow> (n2, fs @ gs, t))))"

definition create_protocol :: "role \<Rightarrow> app \<Rightarrow> 'c channel \<Rightarrow> 'c \<Rightarrow> nat option" where
  "create_protocol R A C c =
     (case R of
        Server_Role \<Rightarrow> None
      | Client_Role \<Rightarrow>
          (case create_client_protocol A of
             None \<Rightarrow> None
           | Some create \<Rightarrow> create (ch_application_protocol C c)))"

definition ready_protocol ::
    "role \<Rightarrow> app \<Rightarrow> 'c channel \<Rightarrow> 'c \<Rightarrow> 'c node \<Rightarrow> 'c node \<times> node_effect list" where
  "ready_protocol R A C c n =
     (case (if n_protocol n = None then set_protocol (create_protocol R A C c) n else (n, [])) of
        (n1, fs) \<Rightarrow> (n1, fs @ (case n_protocol n1 of None \<Rightarrow> [] | Some p \<Rightarrow> [Ready_Write p])))"

text \<open>What follows data that arrived while the channel was not active.\<close>

definition after_handshake_data ::
    "role \<Rightarrow> app \<Rightarrow> 'c channel \<Rightarrow> 'c node \<Rightarrow> 'c node \<times> node_effect list" where
  "after_handshake_data R A C n =
     (case n_dtls n of
        None \<Rightarrow> (n, [])
      | Some c \<Rightarrow>
          (case ch_timeout_check C c of
             (out, c1) \<Rightarrow>
               (let n1 = n\<lparr>n_dtls := Some c1\<rparr>
                in if ch_is_active C c1 then
                     (case ready_protocol R A C c1 n1 of (n2, fs) \<Rightarrow> (n2, emit_data n out @ fs))
                   else (n1, emit_data n out))))"

definition keep_channel :: "'c \<Rightarrow> 'c node \<Rightarrow> 'c node" where
  "keep_channel c n = (if n_dtls n = None then n else n\<lparr>n_dtls := Some c\<rparr>)"

text \<open>Exceptions end the handler and are logged.\<close>

definition process_received_data ::
    "role \<Rightarrow> app \<Rightarrow> 'c channel \<Rightarrow> bytes \<Rightarrow> 'c node \<Rightarrow> 'c node \<times> node_effect list" where
  "process_received_data R A C data n =
     (case n_dtls n of
        None \<Rightarrow> (n, [])
      | Some c \<Rightarrow>
          (case ch_received_data C data c of
             (evs, c1, throws) \<Rightarrow>
               (case node_events R A C evs n of
                  (n1, fs, True) \<Rightarrow>
                    (case ch_failed C c of
                       (out, c2) \<Rightarrow> (keep_channel c2 n1, fs @ (if n_dtls n1 = None then [] else emit_data n1 out)))
                | (n1, fs, False) \<Rightarrow>
                    (let n2 = keep_channel c1 n1
                     in if throws \<or> ch_is_active C c then (n2, fs)
                        else (case after_handshake_data R A C n2 of (n3, gs) \<Rightarrow> (n3, fs @ gs))))))"

text \<open>The two \<open>write_impl\<close>: bytes, and a message that the protocol makes a packet of.\<close>

definition write_bytes :: "'c channel \<Rightarrow> bytes \<Rightarrow> 'c node \<Rightarrow> 'c node \<times> node_effect list" where
  "write_bytes C data n =
     (case n_dtls n of
        None \<Rightarrow> (n, [])
      | Some c \<Rightarrow>
          if ch_is_active C c then
            (case ch_send C data c of (out, c1) \<Rightarrow> (n\<lparr>n_dtls := Some c1\<rparr>, emit_data n out))
          else (n, []))"

definition write_message :: "app \<Rightarrow> 'c channel \<Rightarrow> nat \<Rightarrow> 'c node \<Rightarrow> 'c node \<times> node_effect list" where
  "write_message A C m n =
     (case (n_dtls n, n_protocol n) of
        (Some c, Some p) \<Rightarrow>
          if ch_is_active C c then
            (case ch_send C (protocol_packet A p m) c of
               (out, c1) \<Rightarrow> (n\<lparr>n_dtls := Some c1\<rparr>, Prepare_Packet p m # emit_data n out))
          else (n, [])
      | _ \<Rightarrow> (n, []))"

definition set_last_msg_recv_time :: "time \<Rightarrow> 'c node \<Rightarrow> 'c node" where
  "set_last_msg_recv_time t n = n\<lparr>n_last_recv := t\<rparr>"

section \<open>Client_Node and Server_Node\<close>

definition server_node_new :: "(endpoint \<Rightarrow> string) \<Rightarrow> 'c \<Rightarrow> endpoint \<Rightarrow> 'c node" where
  "server_node_new address fresh ep =
     (set_receiver_endpoint address ep (node_new False))\<lparr>n_dtls := Some fresh\<rparr>"

definition reset_ping_flag :: "'c node \<Rightarrow> 'c node" where
  "reset_ping_flag n = (if n_ping_flag n then n\<lparr>n_ping_flag := False\<rparr> else n)"

definition client_node_start :: "(endpoint \<Rightarrow> string) \<Rightarrow> 'c \<Rightarrow> endpoint \<Rightarrow> 'c node \<Rightarrow> 'c node" where
  "client_node_start address fresh ep n =
     (set_receiver_endpoint address ep (reset_ping_flag n))\<lparr>n_dtls := Some fresh\<rparr>"

definition application_protocol :: "'c channel \<Rightarrow> 'c node \<Rightarrow> string" where
  "application_protocol C n = (case n_dtls n of None \<Rightarrow> [] | Some c \<Rightarrow> ch_application_protocol C c)"

definition is_reconnect_needed ::
    "'c channel \<Rightarrow> time \<Rightarrow> 'c node \<Rightarrow> bool \<times> 'c node \<times> node_effect list" where
  "is_reconnect_needed C now n =
     (case n_dtls n of
        None \<Rightarrow> (True, n, [])
      | Some c \<Rightarrow>
          if \<not> ch_is_active C c then (True, n, [])
          else if now - n_last_recv n < seconds 20 then (False, n, [])
          else (case n_protocol n of
                  None \<Rightarrow> (True, n, [])
                | Some p \<Rightarrow>
                    if \<not> n_ping_flag n then (False, n\<lparr>n_ping_flag := True\<rparr>, [Send_Ping p])
                    else (True, n, [])))"

section \<open>Operations in sequence\<close>

datatype node_op =
    Receive bytes
  | Close
  | Write_Bytes bytes
  | Write_Message nat
  | Set_Protocol nat
  | Check_Reconnect time
  | Received_At time

fun node_do :: "role \<Rightarrow> app \<Rightarrow> 'c channel \<Rightarrow> node_op \<Rightarrow> 'c node \<Rightarrow> 'c node \<times> node_effect list" where
  "node_do R A C (Receive data) n = process_received_data R A C data n"
| "node_do R A C Close n = node_close C n"
| "node_do R A C (Write_Bytes data) n = write_bytes C data n"
| "node_do R A C (Write_Message m) n = write_message A C m n"
| "node_do R A C (Set_Protocol p) n = set_protocol (Some p) n"
| "node_do R A C (Check_Reconnect now) n = snd (is_reconnect_needed C now n)"
| "node_do R A C (Received_At t) n = (set_last_msg_recv_time t n, [])"

fun node_run :: "role \<Rightarrow> app \<Rightarrow> 'c channel \<Rightarrow> node_op list \<Rightarrow> 'c node \<Rightarrow> 'c node \<times> node_effect list" where
  "node_run R A C [] n = (n, [])"
| "node_run R A C (op # ops) n =
     (case node_do R A C op n of
        (n1, fs) \<Rightarrow> (case node_run R A C ops n1 of (n2, gs) \<Rightarrow> (n2, fs @ gs)))"

section \<open>The protocol a node is attached to\<close>

text \<open>
  What the calls into protocol objects must look like: only the object that was last given the node as
  its writer is called; when it has been told that the connection is closed it is called for nothing but being told
  so a second time, before it loses its writer.
\<close>

datatype attachment = Detached | Attached nat | Told_Once nat | Told_Twice nat

fun attachment_of :: "nat option \<Rightarrow> attachment" where
  "attachment_of None = Detached"
| "attachment_of (Some p) = Attached p"

fun track :: "attachment \<Rightarrow> node_effect list \<Rightarrow> attachment option" where
  "track a [] = Some a"
| "track a (Writer_Set q # fs) =
     (case a of Detached \<Rightarrow> track (Attached q) fs | Attached p \<Rightarrow> track (Attached q) fs | _ \<Rightarrow> None)"
| "track a (Protocol_Closed q # fs) =
     (if a = Attached q then track (Told_Once q) fs else if a = Told_Once q then track (Told_Twice q) fs else None)"
| "track a (Writer_Reset q # fs) = (if a = Told_Once q \<or> a = Told_Twice q then track Detached fs else None)"
| "track a (Ready_Write q # fs) = (if a = Attached q then track a fs else None)"
| "track a (Process_Bytes q data # fs) = (if a = Attached q then track a fs else None)"
| "track a (Process_Wait_List q x # fs) = (if a = Attached q then track a fs else None)"
| "track a (Send_Ping q # fs) = (if a = Attached q then track a fs else None)"
| "track a (Prepare_Packet q m # fs) = (if a = Attached q then track a fs else None)"
| "track a (f # fs) = track a fs"

lemma track_append: "track a (fs @ gs) = (case track a fs of None \<Rightarrow> None | Some b \<Rightarrow> track b gs)"
  by (induction a fs rule: track.induct) (simp_all split: attachment.split)

lemma attachment_of_case [simp]:
  "(case attachment_of p of Detached \<Rightarrow> x | Attached q \<Rightarrow> x | Told_Once q \<Rightarrow> y | Told_Twice q \<Rightarrow> y) = x"
  by (cases p) simp_all

lemma track_emit [simp]: "track a (emit_data n out) = Some a" "track a (emit_data n out @ fs) = track a fs"
  by (induction out) (simp_all add: emit_data_def)

definition attached :: "'c node \<Rightarrow> 'c node \<times> node_effect list \<Rightarrow> bool" where
  "attached n r \<longleftrightarrow> track (attachment_of (n_protocol n)) (snd r) = Some (attachment_of (n_protocol (fst r)))"

lemma attached_same [simp]: "attached n (n, [])"
  by (simp add: attached_def)

lemma attached_seq:
  "attached n (n1, fs) \<Longrightarrow> attached n1 (n2, gs) \<Longrightarrow> attached n (n2, fs @ gs)"
  by (simp add: attached_def track_append)

lemma attached_close: "attached n (node_close C n)"
  by (auto simp: attached_def node_close_def split: option.splits)

lemma attached_set_protocol: "p \<noteq> None \<or> n_protocol n = None \<Longrightarrow> attached n (set_protocol p n)"
  by (auto simp: attached_def set_protocol_def split: option.splits)

lemma attached_alert: "attached n (tls_alert R C a n)"
proof -
  have "attached n (node_tls_alert C a n)"
    by (auto simp: attached_def node_tls_alert_def node_close_def split: option.splits)
  then show ?thesis by (auto simp: attached_def tls_alert_def track_append split: prod.splits)
qed

lemma attached_event: "node_event R A C e n = (n1, fs, t) \<Longrightarrow> attached n (n1, fs)"
proof (cases e)
  case (Alert_Received a)
  then show "node_event R A C e n = (n1, fs, t) \<Longrightarrow> ?thesis"
    using attached_alert [of n R C a] by (auto simp: node_event_def split: prod.splits)
next
  case (Choose_App_Protocol protos)
  then show "node_event R A C e n = (n1, fs, t) \<Longrightarrow> ?thesis"
    by (auto simp: node_event_def tls_server_choose_app_protocol_def set_protocol_def attached_def
        split: role.splits option.splits)
qed (auto simp: node_event_def attached_def tls_record_received_def tls_verify_cert_chain_def emit_data_def
      split: role.splits option.splits if_splits)

lemma attached_events: "node_events R A C es n = (n1, fs, t) \<Longrightarrow> attached n (n1, fs)"
proof (induction es arbitrary: n n1 fs t)
  case (Cons e es)
  then show ?case
    by (auto split: if_splits prod.splits bool.splits dest!: attached_event intro: attached_seq)
qed simp

lemma attached_ready: "attached n (ready_protocol R A C c n)"
  using attached_set_protocol [of "create_protocol R A C c" n]
  by (auto simp: attached_def ready_protocol_def track_append set_protocol_def split: option.splits prod.splits)

lemma attached_after_handshake: "attached n (after_handshake_data R A C n)"
proof (cases "n_dtls n")
  case (Some c)
  obtain out c1 where t: "ch_timeout_check C c = (out, c1)" by fastforce
  show ?thesis
    using Some t attached_ready [of "n\<lparr>n_dtls := Some c1\<rparr>" R A C c1]
    by (auto simp: attached_def after_handshake_data_def Let_def split: prod.splits)
qed (simp add: after_handshake_data_def)

lemma protocol_keep_channel [simp]: "n_protocol (keep_channel c n) = n_protocol n"
  by (simp add: keep_channel_def)

lemma attached_keep_channel: "attached n (n1, fs) \<Longrightarrow> attached n (keep_channel c n1, fs)"
  by (simp add: attached_def)

lemma attached_receive: "attached n (process_received_data R A C data n)"
proof (cases "n_dtls n")
  case None
  then show ?thesis by (simp add: process_received_data_def)
next
  case (Some c)
  obtain evs c1 throws where r: "ch_received_data C data c = (evs, c1, throws)"
    by (metis prod_cases3)
  obtain n1 fs t where e: "node_events R A C evs n = (n1, fs, t)" by (metis prod_cases3)
  have a: "attached n (n1, fs)" by (rule attached_events [OF e])
  show ?thesis
  proof (cases t)
    case True
    then show ?thesis
      using Some r e a
      by (auto simp: process_received_data_def attached_def track_append split: prod.splits)
  next
    case False
    obtain n3 gs where h: "after_handshake_data R A C (keep_channel c1 n1) = (n3, gs)" by fastforce
    then have "attached (keep_channel c1 n1) (n3, gs)"
      using attached_after_handshake [of "keep_channel c1 n1" R A C] by simp
    with attached_keep_channel [OF a, of c1] have "attached n (n3, fs @ gs)" by (rule attached_seq)
    then show ?thesis
      using Some r e a False h attached_keep_channel [OF a, of c1]
      by (simp add: process_received_data_def Let_def)
  qed
qed

text \<open>Data that arrives does not touch the flag of the ping.\<close>

lemma ping_flag_event: "n_ping_flag (fst (node_event R A C e n)) = n_ping_flag n"
  by (auto simp: node_event_def tls_alert_def node_tls_alert_def node_close_def tls_server_choose_app_protocol_def
      set_protocol_def split: tls_event.splits role.splits option.splits prod.splits)

lemma ping_flag_events: "node_events R A C es n = (n1, fs, t) \<Longrightarrow> n_ping_flag n1 = n_ping_flag n"
proof (induction es arbitrary: n n1 fs t)
  case (Cons e es)
  obtain n2 gs u where e: "node_event R A C e n = (n2, gs, u)" by (metis prod_cases3)
  then have "n_ping_flag n2 = n_ping_flag n" using ping_flag_event [of R A C e n] by simp
  with Cons e show ?case by (auto split: if_splits prod.splits bool.splits)
qed simp

lemma ping_flag_after_handshake: "n_ping_flag (fst (after_handshake_data R A C n)) = n_ping_flag n"
  by (auto simp: after_handshake_data_def ready_protocol_def set_protocol_def Let_def split: option.splits prod.splits)

lemma ping_flag_keep_channel [simp]: "n_ping_flag (keep_channel c n) = n_ping_flag n"
  by (simp add: keep_channel_def)

lemma ping_flag_received: "n_ping_flag (fst (process_received_data R A C data n)) = n_ping_flag n"
proof (cases "n_dtls n")
  case (Some c)
  obtain evs c1 throws where r: "ch_received_data C data c = (evs, c1, throws)"
    by (metis prod_cases3)
  obtain n1 fs t where e: "node_events R A C evs n = (n1, fs, t)" by (metis prod_cases3)
  show ?thesis
    using Some r e ping_flag_events [OF e] ping_flag_after_handshake [of R A C "keep_channel c1 n1"]
    by (auto simp: process_received_data_def Let_def split: prod.splits bool.splits)
qed (simp add: process_received_data_def)

lemma attached_do: "attached n (node_do R A C op n)"
proof (cases op)
  case (Receive data)
  then show ?thesis by (simp add: attached_receive)
next
  case Close
  then show ?thesis by (simp add: attached_close)
next
  case (Set_Protocol p)
  then show ?thesis by (simp add: attached_set_protocol)
qed (auto simp: attached_def write_bytes_def write_message_def is_reconnect_needed_def
      set_last_msg_recv_time_def split: option.splits prod.splits)

section \<open>Properties\<close>

text \<open>
  Property C16.  Whatever a node does, in any order and whatever the channel calls back, it calls only the
  protocol object it is attached to: none before it has the node as its writer.  When an object has been
  told that the connection is closed it is told so at most once more and then loses its writer; it gets no
  other call in between, and none afterwards unless it is attached again.
\<close>

theorem node_calls_attached_protocol:
  "track (attachment_of (n_protocol n)) (snd (node_run R A C ops n)) =
     Some (attachment_of (n_protocol (fst (node_run R A C ops n))))"
proof -
  have "attached n (node_run R A C ops n)"
  proof (induction ops arbitrary: n)
    case (Cons op ops)
    obtain n1 fs where d: "node_do R A C op n = (n1, fs)" by fastforce
    obtain n2 gs where r: "node_run R A C ops n1 = (n2, gs)" by fastforce
    have "attached n (n1, fs)" using attached_do [of n R A C op] d by simp
    moreover have "attached n1 (n2, gs)" using Cons.IH [of n1] r by simp
    ultimately show ?case using d r by (auto intro: attached_seq)
  qed simp
  then show ?thesis by (simp add: attached_def)
qed

lemma events_not_ready: "node_events R A C es n = (n1, fs, t) \<Longrightarrow> Ready_Write q \<notin> set fs"
proof (induction es arbitrary: n n1 fs t)
  case (Cons e es)
  have "Ready_Write q \<notin> set (fst (snd (node_event R A C e n)))"
    by (auto simp: node_event_def tls_record_received_def tls_alert_def node_tls_alert_def node_close_def
        tls_verify_cert_chain_def tls_server_choose_app_protocol_def set_protocol_def emit_data_def
        split: tls_event.splits role.splits option.splits if_splits prod.splits)
  with Cons show ?case
    by (fastforce split: if_splits prod.splits bool.splits)
qed simp

text \<open>
  A protocol is told that it can write only by the datagram that completes the handshake:
  the channel was not active before, it is active afterwards, and the protocol is the node's.
\<close>

theorem ready_when_handshake_completes:
  assumes "n_dtls n = Some c"
    and "Ready_Write q \<in> set (snd (process_received_data R A C data n))"
  shows "\<not> ch_is_active C c \<and> n_protocol (fst (process_received_data R A C data n)) = Some q \<and>
    (\<exists>c'. n_dtls (fst (process_received_data R A C data n)) = Some c' \<and> ch_is_active C c')"
proof -
  obtain evs c1 throws where r: "ch_received_data C data c = (evs, c1, throws)"
    by (metis prod_cases3)
  obtain n1 fs t where e: "node_events R A C evs n = (n1, fs, t)" by (metis prod_cases3)
  note events_not_ready [OF e, of q]
  then have q: "Ready_Write q \<notin> set fs" "Ready_Write q \<notin> set (emit_data m out)" for m :: "'a node" and out
    by (auto simp: emit_data_def)
  show ?thesis
    using assms r e q
    by (auto simp: process_received_data_def after_handshake_data_def ready_protocol_def set_protocol_def
        Let_def split: prod.splits option.splits if_splits bool.splits)
qed

text \<open>
  The verdict of path validation does not decide about a peer: every non-empty certificate
  chain passes, and only an empty one makes the handshake fail.
\<close>

theorem invalid_certificate_accepted:
  "snd (tls_verify_cert_chain A chain) \<longleftrightarrow> chain = []"
  by (simp add: tls_verify_cert_chain_def)

text \<open>A close notification tells the protocol twice that it is closed.\<close>

lemma close_notify_closes_twice:
  assumes "n_protocol n = Some p"
  shows "filter (\<lambda>f. f = Protocol_Closed p) (snd (tls_alert R C Close_Notify n)) =
    [Protocol_Closed p, Protocol_Closed p]"
  using assms
  by (auto simp: tls_alert_def node_tls_alert_def node_close_def emit_data_def filter_empty_conv
      split: option.splits)

section \<open>Examples\<close>

text \<open>A channel that needs one datagram to become active and then passes records through.\<close>

definition plain_channel :: "nat channel" where
  "plain_channel =
     \<lparr>ch_is_active = (\<lambda>c. c = 1),
      ch_received_data = (\<lambda>data c. (if c = 0 then [Session_Established] else [Record_Received data], 1, False)),
      ch_failed = (\<lambda>c. ([], c)), ch_timeout_check = (\<lambda>c. ([], c)), ch_send = (\<lambda>data c. ([data], c)),
      ch_close = (\<lambda>c. []), ch_application_protocol = (\<lambda>c. ''app'')\<rparr>"

definition plain_app :: app where
  "plain_app =
     \<lparr>path_validate = (\<lambda>chain. False), create_server_protocol = (\<lambda>protos. Some 7),
      create_client_protocol = Some (\<lambda>proto. Some 7), protocol_packet = (\<lambda>p m. [])\<rparr>"

definition plain_client :: "nat node" where
  "plain_client = client_node_start (\<lambda>ep. ''peer'') 0 (Endpoint 5 0) (node_new False)"

lemma plain_client_dtls: "n_dtls plain_client = Some 0"
  by (simp add: plain_client_def client_node_start_def)

lemma plain_client_receives:
  "snd (process_received_data Client_Role plain_app plain_channel [1] plain_client) =
    [Writer_Set 7, Ready_Write 7]"
  by (simp add: process_received_data_def plain_client_dtls plain_channel_def node_event_def
      keep_channel_def after_handshake_data_def ready_protocol_def set_protocol_def create_protocol_def
      plain_app_def emit_data_def Let_def)
    (simp add: plain_client_def client_node_start_def set_receiver_endpoint_def node_new_def
      reset_ping_flag_def)

theorem ready_when_handshake_completes_witness:
  "\<not> ch_is_active plain_channel 0 \<and>
   n_protocol (fst (process_received_data Client_Role plain_app plain_channel [1] plain_client)) = Some 7"
  using ready_when_handshake_completes
    [of plain_client 0 7 Client_Role plain_app plain_channel "[1]", OF plain_client_dtls]
  by (simp add: plain_client_receives)

end
