(* ===== verification/Worker_Pool.thy ===== *)
theory Worker_Pool
  imports Prelude "HOL-Library.Multiset" "HOL-Library.Sublist"
begin

text \<open>
  The contract of a pool of worker threads with one queue, as the database thread and the record
  threads of the DTLS server implement it: threads take the front of the queue while the pool is not
  halted and finish what they took, each at its own pace.  The locale gives the events their effect
  on the queue, the threads and the tasks started and finished; its lemmas hold for every
  interleaving.  A pool whose threads end when it is halted satisfies \<open>ending_pool\<close>.
\<close>

datatype 't pool_event =
    Submit 't
  | Take nat
  | Finish nat
  | Leave nat
  | Halt

text \<open>Runs of a labelled step relation.\<close>

inductive run_of :: "('s \<Rightarrow> 'e \<Rightarrow> 's \<Rightarrow> bool) \<Rightarrow> 's \<Rightarrow> 'e list \<Rightarrow> 's \<Rightarrow> bool" for step s0 where
  run_start: "run_of step s0 [] s0"
| run_step: "run_of step s0 es s \<Longrightarrow> step s e s' \<Longrightarrow> run_of step s0 (es @ [e]) s'"

lemma run_Cons:
  assumes "step s0 e s1" "run_of step s1 es s"
  shows "run_of step s0 (e # es) s"
  using assms(2)
proof (induction rule: run_of.induct)
  case run_start
  show ?case using run_of.run_step [of step s0 "[]" s0 e s1, OF run_of.run_start assms(1)] by simp
next
  case (run_step es s e' s')
  show ?case using run_of.run_step [of step s0 "e # es" s e' s', OF run_step.IH run_step.hyps(2)] by simp
qed

definition submitted :: "'t pool_event list \<Rightarrow> 't list" where
  "submitted es = concat (map (\<lambda>e. case e of Submit t \<Rightarrow> [t] | _ \<Rightarrow> []) es)"

lemma submitted_append [simp]:
  "submitted (es @ [e]) = submitted es @ (case e of Submit t \<Rightarrow> [t] | _ \<Rightarrow> [])"
  by (simp add: submitted_def)

lemma submitted_Nil [simp]: "submitted [] = []"
  by (simp add: submitted_def)

definition busy :: "'t option list \<Rightarrow> 't list" where
  "busy ts = map the (filter (\<lambda>x. x \<noteq> None) ts)"

lemma mset_busy_start:
  "k < length ts \<Longrightarrow> ts ! k = None \<Longrightarrow> mset (busy (ts[k := Some t])) = add_mset t (mset (busy ts))"
proof (induction ts arbitrary: k)
  case (Cons x ts)
  then show ?case by (cases k) (auto simp: busy_def)
qed simp

lemma mset_busy_finish:
  "k < length ts \<Longrightarrow> ts ! k = Some t \<Longrightarrow> mset (busy ts) = add_mset t (mset (busy (ts[k := None])))"
proof (induction ts arbitrary: k)
  case (Cons x ts)
  then show ?case by (cases k) (auto simp: busy_def)
qed simp

section \<open>The abstract server\<close>

text \<open>
  What a pool promises its clients, without threads: tasks are accepted into a queue, begun in the order of
  the queue until the server is stopped, and any task that has begun may complete.
\<close>

record 't task_server =
  sv_queue :: "'t list"
  sv_work :: "'t multiset"
  sv_stopped :: bool

datatype 't action = Accept 't | Begin 't | Complete 't | Stop

inductive task_server_step :: "'t task_server \<Rightarrow> 't action \<Rightarrow> 't task_server \<Rightarrow> bool" where
  accept: "task_server_step v (Accept t) (v\<lparr>sv_queue := sv_queue v @ [t]\<rparr>)"
| begins: "\<not> sv_stopped v \<Longrightarrow> sv_queue v = t # q \<Longrightarrow>
    task_server_step v (Begin t) (v\<lparr>sv_queue := q, sv_work := add_mset t (sv_work v)\<rparr>)"
| completes: "sv_work v = add_mset t w \<Longrightarrow> task_server_step v (Complete t) (v\<lparr>sv_work := w\<rparr>)"
| stops: "task_server_step v Stop (v\<lparr>sv_stopped := True\<rparr>)"

definition accepted :: "'t action list \<Rightarrow> 't list" where
  "accepted as = concat (map (\<lambda>a. case a of Accept t \<Rightarrow> [t] | _ \<Rightarrow> []) as)"

definition begun :: "'t action list \<Rightarrow> 't list" where
  "begun as = concat (map (\<lambda>a. case a of Begin t \<Rightarrow> [t] | _ \<Rightarrow> []) as)"

definition completed :: "'t action list \<Rightarrow> 't list" where
  "completed as = concat (map (\<lambda>a. case a of Complete t \<Rightarrow> [t] | _ \<Rightarrow> []) as)"

lemmas trace_defs = accepted_def begun_def completed_def

section \<open>The contract of a pool\<close>

locale task_pool =
  fixes step :: "'s \<Rightarrow> 't pool_event \<Rightarrow> 's \<Rightarrow> bool"
    and init :: "'s"
    and pending :: "'s \<Rightarrow> 't list"
    and working :: "'s \<Rightarrow> 't option list"
    and started :: "'s \<Rightarrow> 't list"
    and finished :: "'s \<Rightarrow> 't list"
    and halted :: "'s \<Rightarrow> bool"
  assumes init_state: "pending init = [] \<and> busy (working init) = [] \<and> started init = [] \<and> finished init = []"
    and submit_law: "step s (Submit t) s' \<Longrightarrow>
      pending s' = pending s @ [t] \<and> working s' = working s \<and> started s' = started s \<and>
      finished s' = finished s \<and> halted s' = halted s"
    and take_law: "step s (Take k) s' \<Longrightarrow>
      \<not> halted s \<and> k < length (working s) \<and> working s ! k = None \<and>
      (\<exists>t. pending s = t # pending s' \<and> working s' = (working s)[k := Some t] \<and>
           started s' = started s @ [t]) \<and> finished s' = finished s \<and> halted s' = halted s"
    and finish_law: "step s (Finish k) s' \<Longrightarrow>
      k < length (working s) \<and>
      (\<exists>t. working s ! k = Some t \<and> finished s' = finished s @ [t]) \<and>
      working s' = (working s)[k := None] \<and> pending s' = pending s \<and> started s' = started s \<and>
      halted s' = halted s"
    and leave_law: "step s (Leave k) s' \<Longrightarrow>
      pending s' = pending s \<and> working s' = working s \<and> started s' = started s \<and>
      finished s' = finished s \<and> halted s' = halted s"
    and halt_law: "step s Halt s' \<Longrightarrow>
      pending s' = pending s \<and> working s' = working s \<and> started s' = started s \<and>
      finished s' = finished s \<and> halted s'"
begin

lemma started_in_order: "run_of step init es s \<Longrightarrow> submitted es = started s @ pending s"
proof (induction rule: run_of.induct)
  case run_start
  then show ?case using init_state by simp
next
  case (run_step es s e s')
  then show ?case
    using submit_law [of s _ s'] take_law [of s _ s'] finish_law [of s _ s'] leave_law [of s _ s']
      halt_law [of s s']
    by (cases e) fastforce+
qed

lemma started_once: "run_of step init es s \<Longrightarrow> mset (started s) = mset (finished s) + mset (busy (working s))"
proof (induction rule: run_of.induct)
  case run_start
  then show ?case using init_state by simp
next
  case (run_step es s e s')
  show ?case
  proof (cases e)
    case (Take k)
    then show ?thesis
      using take_law [of s k s'] run_step mset_busy_start [of k "working s"] by fastforce
  next
    case (Finish k)
    then obtain t where "k < length (working s)" "working s ! k = Some t" "finished s' = finished s @ [t]"
      "working s' = (working s)[k := None]" "started s' = started s"
      using finish_law [of s k s'] run_step.hyps(2) by auto
    then show ?thesis using run_step.IH mset_busy_finish [of k "working s" t] by simp
  qed (use submit_law [of s _ s'] leave_law [of s _ s'] halt_law [of s s'] run_step in auto)
qed

lemma threads_kept: "run_of step init es s \<Longrightarrow> length (working s) = length (working init)"
proof (induction rule: run_of.induct)
  case (run_step es s e s')
  then show ?case
    using submit_law [of s _ s'] take_law [of s _ s'] finish_law [of s _ s'] leave_law [of s _ s']
      halt_law [of s s']
    by (cases e) fastforce+
qed simp

lemma one_thread_in_order:
  assumes "length (working init) = 1" "run_of step init es s"
  shows "started s = finished s @ busy (working s)"
  using assms(2)
proof (induction rule: run_of.induct)
  case run_start
  then show ?case using init_state by simp
next
  case (run_step es s e s')
  obtain x where x: "working s = [x]"
    using threads_kept [OF run_step.hyps(1)] assms(1) by (metis One_nat_def length_0_conv length_Suc_conv)
  show ?case
  proof (cases e)
    case (Take k)
    then show ?thesis
      using take_law [of s k s'] run_step x by (auto simp: busy_def)
  next
    case (Finish k)
    then show ?thesis
      using finish_law [of s k s'] run_step x by (auto simp: busy_def)
  qed (use submit_law [of s _ s'] leave_law [of s _ s'] halt_law [of s s'] run_step in auto)
qed

lemma halted_stays: "run_of step s0 es s \<Longrightarrow> halted s0 \<Longrightarrow> halted s"
proof (induction rule: run_of.induct)
  case (run_step es s e s')
  then show ?case
    using submit_law [of s _ s'] take_law [of s _ s'] finish_law [of s _ s'] leave_law [of s _ s']
      halt_law [of s s']
    by (cases e) auto
qed simp

lemma halted_starts_nothing:
  assumes "halted s0" "run_of step s0 es s"
  shows "started s = started s0"
  using assms(2)
proof (induction rule: run_of.induct)
  case (run_step es s e s')
  have "halted s" using halted_stays [OF run_step.hyps(1)] assms(1) .
  then show ?case
    using run_step submit_law [of s _ s'] take_law [of s _ s'] finish_law [of s _ s'] leave_law [of s _ s']
      halt_law [of s s']
    by (cases e) auto
qed simp

text \<open>
  Refinement: forgetting which thread does what maps every step to a step of the server, or to none when a
  thread ends.
\<close>

definition as_server :: "'s \<Rightarrow> 't task_server" where
  "as_server s = \<lparr>sv_queue = pending s, sv_work = mset (busy (working s)), sv_stopped = halted s\<rparr>"

lemma step_simulated:
  assumes "step s e s'"
  shows "\<exists>as. (as = [] \<and> as_server s' = as_server s \<or>
      (\<exists>a. as = [a] \<and> task_server_step (as_server s) a (as_server s'))) \<and>
    accepted as = submitted [e] \<and> started s' = started s @ begun as \<and> finished s' = finished s @ completed as"
proof (cases e)
  case (Submit t)
  then have "task_server_step (as_server s) (Accept t) (as_server s')"
    using submit_law [of s t s'] assms task_server_step.accept [of "as_server s" t] by (simp add: as_server_def)
  then show ?thesis
    using submit_law [of s t s'] assms Submit
    by (intro exI [of _ "[Accept t]"]) (simp add: trace_defs submitted_def)
next
  case (Take k)
  then obtain t where t: "\<not> halted s" "pending s = t # pending s'" "working s' = (working s)[k := Some t]"
    "started s' = started s @ [t]" "finished s' = finished s" "halted s' = halted s"
    "k < length (working s)" "working s ! k = None"
    using take_law [of s k s'] assms by auto
  then have "task_server_step (as_server s) (Begin t) (as_server s')"
    using task_server_step.begins [of "as_server s" t "pending s'"] mset_busy_start [of k "working s" t]
    by (simp add: as_server_def)
  then show ?thesis
    using t Take by (intro exI [of _ "[Begin t]"]) (simp add: trace_defs submitted_def)
next
  case (Finish k)
  then obtain t where t: "working s ! k = Some t" "finished s' = finished s @ [t]" "k < length (working s)"
    "working s' = (working s)[k := None]" "pending s' = pending s" "started s' = started s" "halted s' = halted s"
    using finish_law [of s k s'] assms by auto
  then have "task_server_step (as_server s) (Complete t) (as_server s')"
    using task_server_step.completes [of "as_server s" t] mset_busy_finish [of k "working s" t]
    by (simp add: as_server_def)
  then show ?thesis
    using t Finish by (intro exI [of _ "[Complete t]"]) (simp add: trace_defs submitted_def)
next
  case (Leave k)
  then show ?thesis
    using leave_law [of s k s'] assms
    by (intro exI [of _ "[]"]) (simp add: trace_defs submitted_def as_server_def)
next
  case Halt
  then have "task_server_step (as_server s) Stop (as_server s')"
    using halt_law [of s s'] assms task_server_step.stops [of "as_server s"] by (simp add: as_server_def)
  then show ?thesis
    using halt_law [of s s'] assms Halt
    by (intro exI [of _ "[Stop]"]) (simp add: trace_defs submitted_def)
qed

lemma refines_server:
  assumes "run_of step init es s"
  shows "\<exists>as. run_of task_server_step (as_server init) as (as_server s) \<and>
    accepted as = submitted es \<and> begun as = started s \<and> completed as = finished s"
  using assms
proof (induction rule: run_of.induct)
  case run_start
  show ?case using init_state run_of.run_start [of task_server_step "as_server init"]
    by (intro exI [of _ "[]"]) (simp add: trace_defs)
next
  case (run_step es s e s')
  obtain as where as: "run_of task_server_step (as_server init) as (as_server s)" "accepted as = submitted es"
    "begun as = started s" "completed as = finished s"
    using run_step.IH by blast
  obtain bs where bs: "bs = [] \<and> as_server s' = as_server s \<or>
      (\<exists>a. bs = [a] \<and> task_server_step (as_server s) a (as_server s'))"
    "accepted bs = submitted [e]" "started s' = started s @ begun bs" "finished s' = finished s @ completed bs"
    using step_simulated [OF run_step.hyps(2)] by blast
  have "run_of task_server_step (as_server init) (as @ bs) (as_server s')"
    using as(1) bs(1) run_of.run_step [of task_server_step "as_server init" as "as_server s"] by auto
  moreover have "accepted (as @ bs) = submitted (es @ [e])" "begun (as @ bs) = started s'"
    "completed (as @ bs) = finished s'"
    using as bs by (simp_all add: trace_defs submitted_def)
  ultimately show ?case by blast
qed

end

section \<open>The end of a pool\<close>

text \<open>
  A pool is destroyed by halting it and joining its threads. The steps that the threads have to go: one for
  every task in work, and one for every thread that has not ended.
\<close>

fun own_event :: "'t pool_event \<Rightarrow> bool" where
  "own_event (Submit t) = False"
| "own_event Halt = False"
| "own_event e = True"

definition to_go :: "'t option list \<Rightarrow> bool list \<Rightarrow> nat" where
  "to_go ws bs = length (busy ws) + length (filter Not bs)"

lemma to_go_bound: "length bs = length ws \<Longrightarrow> to_go ws bs \<le> 2 * length ws"
proof -
  assume "length bs = length ws"
  moreover have "length (busy ws) \<le> length ws" by (simp add: busy_def del: not_None_eq)
  moreover have "length (filter Not bs) \<le> length bs" by simp
  ultimately show ?thesis unfolding to_go_def by linarith
qed

lemma to_go_finish:
  assumes "k < length ws" "ws ! k = Some t"
  shows "Suc (to_go (ws[k := None]) bs) = to_go ws bs"
  using arg_cong [OF mset_busy_finish [OF assms], of size] by (simp add: to_go_def)

lemma to_go_leave: "k < length bs \<Longrightarrow> \<not> bs ! k \<Longrightarrow> Suc (to_go ws (bs[k := True])) = to_go ws bs"
proof -
  have "k < length bs \<Longrightarrow> \<not> bs ! k \<Longrightarrow> Suc (length (filter Not (bs[k := True]))) = length (filter Not bs)"
  proof (induction bs arbitrary: k)
    case (Cons b bs)
    then show ?case by (cases k) auto
  qed simp
  then show "k < length bs \<Longrightarrow> \<not> bs ! k \<Longrightarrow> Suc (to_go ws (bs[k := True])) = to_go ws bs" by (simp add: to_go_def)
qed

lemma to_go_none: "to_go ws bs = 0 \<longleftrightarrow> (\<forall>w \<in> set ws. w = None) \<and> (\<forall>b \<in> set bs. b)"
  by (auto simp: to_go_def busy_def filter_empty_conv)

locale ending_pool = task_pool +
  fixes ended :: "'a \<Rightarrow> bool list"
  assumes ended_length: "length (ended init) = length (working init)"
    and submit_ends: "step s (Submit t) s' \<Longrightarrow> ended s' = ended s"
    and take_ends: "step s (Take k) s' \<Longrightarrow> ended s' = ended s"
    and finish_ends: "step s (Finish k) s' \<Longrightarrow> ended s' = ended s"
    and halt_ends: "step s Halt s' \<Longrightarrow> ended s' = ended s"
    and leave_ends: "step s (Leave k) s' \<Longrightarrow>
      k < length (working s) \<and> \<not> ended s ! k \<and> ended s' = (ended s)[k := True]"
    and leave_possible: "halted s \<Longrightarrow> k < length (working s) \<Longrightarrow> working s ! k = None \<Longrightarrow> \<not> ended s ! k \<Longrightarrow>
      \<exists>s'. step s (Leave k) s'"
    and finish_possible: "k < length (working s) \<Longrightarrow> working s ! k = Some t \<Longrightarrow> \<exists>s'. step s (Finish k) s'"
begin

lemma lengths_kept: "run_of step s0 es s \<Longrightarrow> length (ended s0) = length (working s0) \<Longrightarrow>
  length (ended s) = length (working s) \<and> length (working s) = length (working s0)"
proof (induction rule: run_of.induct)
  case (run_step es s e s')
  then show ?case
    using submit_law [of s _ s'] take_law [of s _ s'] finish_law [of s _ s'] leave_law [of s _ s'] halt_law [of s s']
      submit_ends [of s _ s'] take_ends [of s _ s'] finish_ends [of s _ s'] leave_ends [of s _ s'] halt_ends [of s s']
    by (cases e) fastforce+
qed simp

text \<open>Once a pool is halted, every step of a thread takes it one nearer to the end, whatever is submitted meanwhile.\<close>

lemma halted_counts_down:
  assumes "run_of step s0 es s" "halted s0" "length (ended s0) = length (working s0)"
  shows "length (filter own_event es) + to_go (working s) (ended s) = to_go (working s0) (ended s0)"
  using assms
proof (induction rule: run_of.induct)
  case (run_step es s e s')
  have h: "halted s" "length (ended s) = length (working s)"
    using halted_stays [OF run_step.hyps(1)] lengths_kept [OF run_step.hyps(1)] run_step.prems by simp_all
  have "(if own_event e then 1 else 0) + to_go (working s') (ended s') = to_go (working s) (ended s)"
  proof (cases e)
    case (Finish k)
    then show ?thesis
      using finish_law [of s k s'] finish_ends [of s k s'] run_step.hyps(2) to_go_finish [of k "working s"] by auto
  next
    case (Leave k)
    then show ?thesis
      using leave_law [of s k s'] leave_ends [of s k s'] run_step.hyps(2) to_go_leave [of k "ended s"] h(2) by auto
  next
    case (Take k)
    then show ?thesis using take_law [of s k s'] run_step.hyps(2) h(1) by blast
  qed (use submit_law [of s _ s'] submit_ends [of s _ s'] halt_law [of s s'] halt_ends [of s s'] run_step.hyps(2) in auto)
  then show ?case using run_step.IH run_step.prems by (auto split: if_splits)
qed simp

lemma halted_not_stuck:
  assumes "halted s" "length (ended s) = length (working s)" "to_go (working s) (ended s) \<noteq> 0"
  shows "\<exists>e s'. own_event e \<and> step s e s'"
proof (cases "\<exists>k t. k < length (working s) \<and> working s ! k = Some t")
  case True
  then obtain k t where "k < length (working s)" "working s ! k = Some t" by blast
  from finish_possible [OF this] show ?thesis by (intro exI [of _ "Finish k"]) simp
next
  case False
  then have idle: "\<forall>w \<in> set (working s). w = None" by (metis in_set_conv_nth not_None_eq)
  then obtain k where k: "k < length (ended s)" "\<not> ended s ! k"
    using assms(3) by (auto simp: to_go_none in_set_conv_nth)
  have "k < length (working s)" "working s ! k = None" using k(1) assms(2) idle by simp_all
  from leave_possible [OF assms(1) this k(2)] show ?thesis by (intro exI [of _ "Leave k"]) simp
qed

text \<open>The threads of a pool that is halted end: their steps are counted, and as long as one has not ended there is another.\<close>

lemma destroyed_pool_ends:
  assumes "run_of step init es s0" "step s0 Halt s1" "run_of step s1 fs s"
  shows "length (filter own_event fs) + to_go (working s) (ended s) = to_go (working s0) (ended s0)"
    and "to_go (working s0) (ended s0) \<le> 2 * length (working init)"
    and "(\<forall>b \<in> set (ended s). b) \<and> busy (working s) = [] \<or> (\<exists>e s'. own_event e \<and> step s e s')"
proof -
  note l0 = lengths_kept [OF assms(1) ended_length]
  have s1: "halted s1" "working s1 = working s0" "ended s1 = ended s0"
    using halt_law [OF assms(2)] halt_ends [OF assms(2)] by simp_all
  then have l1: "length (ended s1) = length (working s1)" using l0 by simp
  show "length (filter own_event fs) + to_go (working s) (ended s) = to_go (working s0) (ended s0)"
    using halted_counts_down [OF assms(3) s1(1) l1] s1 by simp
  show "to_go (working s0) (ended s0) \<le> 2 * length (working init)" using to_go_bound [of "ended s0" "working s0"] l0 by simp
  have "halted s" "length (ended s) = length (working s)"
    using halted_stays [OF assms(3) s1(1)] lengths_kept [OF assms(3) l1] by simp_all
  then show "(\<forall>b \<in> set (ended s). b) \<and> busy (working s) = [] \<or> (\<exists>e s'. own_event e \<and> step s e s')"
    using halted_not_stuck [of s] to_go_none [of "working s" "ended s"] by (auto simp: busy_def filter_empty_conv)
qed

end

end
