(* ===== verification/Dtls_Server.thy ===== *)
theory Dtls_Server
  imports Dtls_Node Worker_Pool
begin

text \<open>
  \<open>DTLS/dtls_controller.cpp\<close>, \<open>dtls_server_controller.cpp\<close>,
  \<open>dtls_socket.cpp\<close> and \<open>dtls_server.cpp\<close>: the table of clients of a server, the
  receive loop of its socket, the work posted to the I/O context, the cleaning timer, and the threads that
  process received records. What the nodes do is kept in a log with the end point of the node; the work they
  post is queued.
\<close>

section \<open>State\<close>

text \<open>What the server builds its nodes from.\<close>

record 'c server_env =
  se_address :: "endpoint \<Rightarrow> string"
  se_fresh :: 'c
  se_app :: app
  se_channel :: "'c channel"

record 'c server_controller =
  clients :: "(endpoint, 'c node) std_map"
  protocol_timer :: timer

datatype posted =
    Remove_Client endpoint
  | Write_Bytes_To endpoint bytes
  | Write_Message_To endpoint nat

record 'c server =
  srv_controller :: "'c server_controller"
  receive_pending :: bool
  error_count :: nat
  cleaning_timeout :: time
  cleaning_expiry :: time
  cleaning_armed :: bool
  posted_work :: "posted list"
  srv_log :: "(endpoint \<times> node_effect) list"

section \<open>Controller and Server_Controller\<close>

type_synonym 'c outcome = "'c server_controller \<times> (endpoint \<times> node_effect) list"

definition at :: "endpoint \<Rightarrow> node_effect list \<Rightarrow> (endpoint \<times> node_effect) list" where
  "at ep fs = map (Pair ep) fs"

definition sc_add_timeout_at ::
    "endpoint \<Rightarrow> time \<Rightarrow> int \<Rightarrow> 'c server_controller \<Rightarrow> 'c server_controller" where
  "sc_add_timeout_at ep t x s =
     s\<lparr>protocol_timer := timer_add t \<lparr>item_endpoint = ep, item_data = x\<rparr> (protocol_timer s)\<rparr>"

definition find_client :: "endpoint \<Rightarrow> 'c server_controller \<Rightarrow> 'c node option" where
  "find_client ep s = map_find (clients s) ep"

definition create_client ::
    "'c server_env \<Rightarrow> endpoint \<Rightarrow> 'c server_controller \<Rightarrow> 'c node \<times> 'c server_controller" where
  "create_client E ep s =
     (case map_find (clients s) ep of
        Some n \<Rightarrow> (n, s)
      | None \<Rightarrow>
          (let n = server_node_new (se_address E) (se_fresh E) ep
           in (n, s\<lparr>clients := map_emplace ep n (clients s)\<rparr>)))"

definition get_node ::
    "'c server_env \<Rightarrow> endpoint \<Rightarrow> 'c server_controller \<Rightarrow> 'c node \<times> 'c server_controller" where
  "get_node E ep s =
     (case find_client ep s of Some n \<Rightarrow> (n, s) | None \<Rightarrow> create_client E ep s)"

text \<open>Running an operation of the node that \<open>get_node\<close> yields.\<close>

definition on_node ::
    "'c server_env \<Rightarrow> endpoint \<Rightarrow> ('c node \<Rightarrow> 'c node \<times> node_effect list) \<Rightarrow> 'c server_controller \<Rightarrow> 'c outcome" where
  "on_node E ep f s =
     (case get_node E ep s of
        (n, s1) \<Rightarrow>
          (case f n of (n1, fs) \<Rightarrow> (s1\<lparr>clients := map_set ep n1 (clients s1)\<rparr>, at ep fs)))"

definition process_data ::
    "'c server_env \<Rightarrow> endpoint \<Rightarrow> bytes \<Rightarrow> 'c server_controller \<Rightarrow> 'c outcome" where
  "process_data E ep data s =
     on_node E ep (process_received_data Server_Role (se_app E) (se_channel E) data) s"

text \<open>
  \<open>remove_client\<close> erases the entry.  Without a protocol nothing else refers to the node and its
  destructor closes it; a node with a protocol lives on, because the protocol has it as its writer.
\<close>

definition remove_client :: "'c server_env \<Rightarrow> endpoint \<Rightarrow> 'c server_controller \<Rightarrow> 'c outcome" where
  "remove_client E ep s =
     (s\<lparr>clients := map_erase ep (clients s)\<rparr>,
      case map_find (clients s) ep of
        None \<Rightarrow> []
      | Some n \<Rightarrow> if n_protocol n = None then at ep (snd (node_close (se_channel E) n)) else [])"

text \<open>\<open>eq\<close> is the comparison of the application's protocol class.\<close>

definition is_copy :: "(nat \<Rightarrow> nat \<Rightarrow> bool) \<Rightarrow> nat \<Rightarrow> 'c node \<Rightarrow> bool" where
  "is_copy eq client n = (case n_protocol n of None \<Rightarrow> False | Some p \<Rightarrow> p \<noteq> client \<and> eq p client)"

definition check_copy :: "(nat \<Rightarrow> nat \<Rightarrow> bool) \<Rightarrow> nat \<Rightarrow> 'c server_controller \<Rightarrow> bool" where
  "check_copy eq client s = list_ex (\<lambda>(ep, n). is_copy eq client n) (clients s)"

text \<open>The erasing loops: the entries that satisfy \<open>P\<close> are closed and erased in key order.\<close>

fun erase_loop ::
    "('c node \<Rightarrow> bool) \<Rightarrow> ('c node \<Rightarrow> node_effect list) \<Rightarrow> (endpoint \<times> 'c node) list
     \<Rightarrow> (endpoint \<times> 'c node) list \<times> (endpoint \<times> node_effect) list" where
  "erase_loop P f [] = ([], [])"
| "erase_loop P f ((ep, n) # m) =
     (case erase_loop P f m of
        (m1, fs) \<Rightarrow> if P n then (m1, at ep (f n) @ fs) else ((ep, n) # m1, fs))"

definition close_copy :: "'c server_env \<Rightarrow> 'c node \<Rightarrow> node_effect list" where
  "close_copy E n =
     (case n_protocol n of None \<Rightarrow> [] | Some p \<Rightarrow> [Before_Remove_Copy p]) @ snd (node_close (se_channel E) n)"

definition remove_copy ::
    "'c server_env \<Rightarrow> (nat \<Rightarrow> nat \<Rightarrow> bool) \<Rightarrow> nat \<Rightarrow> 'c server_controller \<Rightarrow> 'c outcome" where
  "remove_copy E eq client s =
     (if check_copy eq client s then
        (case erase_loop (is_copy eq client) (close_copy E) (clients s) of
           (m, fs) \<Rightarrow> (s\<lparr>clients := m\<rparr>, fs))
      else (s, []))"

definition is_frozen :: "time \<Rightarrow> time \<Rightarrow> 'c node \<Rightarrow> bool" where
  "is_frozen now frozen_timeout n \<longleftrightarrow> now - n_last_recv n > frozen_timeout"

definition check_frozen_clients :: "time \<Rightarrow> time \<Rightarrow> 'c server_controller \<Rightarrow> bool" where
  "check_frozen_clients now frozen_timeout s =
     list_ex (\<lambda>(ep, n). is_frozen now frozen_timeout n) (clients s)"

text \<open>The clock is read twice: by the check and by the loop.\<close>

definition remove_frozen_clients ::
    "'c server_env \<Rightarrow> time \<Rightarrow> time \<Rightarrow> time \<Rightarrow> 'c server_controller \<Rightarrow> 'c outcome" where
  "remove_frozen_clients E now1 now2 frozen_timeout s =
     (if check_frozen_clients now1 frozen_timeout s then
        (case erase_loop (is_frozen now2 frozen_timeout) (\<lambda>n. snd (node_close (se_channel E) n)) (clients s) of
           (m, fs) \<Rightarrow> (s\<lparr>clients := m\<rparr>, fs))
      else (s, []))"

fun find_client_if :: "(nat \<Rightarrow> bool) \<Rightarrow> (endpoint \<times> 'c node) list \<Rightarrow> 'c node option" where
  "find_client_if P [] = None"
| "find_client_if P ((ep, n) # m) =
     (case n_protocol n of
        Some p \<Rightarrow> if P p then Some n else find_client_if P m
      | None \<Rightarrow> find_client_if P m)"

definition sc_on_protocol_timeout ::
    "endpoint \<Rightarrow> int \<Rightarrow> 'c server_controller \<Rightarrow> (endpoint \<times> node_effect) list" where
  "sc_on_protocol_timeout ep x s =
     (case find_client ep s of
        None \<Rightarrow> []
      | Some n \<Rightarrow> (case n_protocol n of None \<Rightarrow> [] | Some p \<Rightarrow> at ep [Process_Wait_List p x]))"

text \<open>The destructor closes every client.\<close>

definition sc_destroy :: "'c server_env \<Rightarrow> 'c server_controller \<Rightarrow> 'c outcome" where
  "sc_destroy E s =
     (s\<lparr>clients := []\<rparr>,
      concat (map (\<lambda>(ep, n). at ep (snd (node_close (se_channel E) n))) (clients s)))"

section \<open>Socket\<close>

datatype send_report = Sent | Send_Error | Wrong_Size | Empty_Data

definition handle_send :: "bool \<Rightarrow> nat \<Rightarrow> nat \<Rightarrow> bool \<Rightarrow> send_report" where
  "handle_send error sz transferred has_data =
     (if error then Send_Error
      else if sz \<noteq> transferred then Wrong_Size
      else if \<not> has_data then Empty_Data
      else Sent)"

definition posted_by :: "(endpoint \<times> node_effect) list \<Rightarrow> posted list" where
  "posted_by fs =
     concat (map (\<lambda>(ep, f). case f of Post_Remove_Client e \<Rightarrow> [Remove_Client e] | _ \<Rightarrow> []) fs)"

definition settle :: "'c outcome \<Rightarrow> 'c server \<Rightarrow> 'c server" where
  "settle r s =
     s\<lparr>srv_controller := fst r, posted_work := posted_work s @ posted_by (snd r),
       srv_log := srv_log s @ snd r\<rparr>"

text \<open>The handler of a received datagram; it starts the next receive before it processes the data.\<close>

definition handle_receive ::
    "'c server_env \<Rightarrow> bool \<Rightarrow> endpoint \<Rightarrow> bytes \<Rightarrow> 'c server \<Rightarrow> 'c server" where
  "handle_receive E err ep data s =
     (if err then s\<lparr>receive_pending := False, error_count := error_count s + 1\<rparr>
      else settle (process_data E ep data (srv_controller s)) (s\<lparr>receive_pending := True\<rparr>))"

text \<open>A report other than \<open>Sent\<close> is an error message; sending does not touch the rest.\<close>

definition server_sent :: "send_report \<Rightarrow> 'c server \<Rightarrow> 'c server" where
  "server_sent r s = (if r = Sent then s else s\<lparr>error_count := error_count s + 1\<rparr>)"

section \<open>Server\<close>

definition server_new :: "time \<Rightarrow> time \<Rightarrow> 'c server" where
  "server_new now timeout =
     \<lparr>srv_controller = \<lparr>clients = [], protocol_timer = timer_new\<rparr>, receive_pending = True, error_count = 0,
      cleaning_timeout = timeout, cleaning_expiry = now + timeout, cleaning_armed = True,
      posted_work = [], srv_log = []\<rparr>"

definition cleaning :: "'c server_env \<Rightarrow> bool \<Rightarrow> time \<Rightarrow> time \<Rightarrow> 'c server \<Rightarrow> 'c server" where
  "cleaning E err now1 now2 s =
     (if err then s\<lparr>cleaning_armed := False\<rparr>
      else
        (let s1 = settle (remove_frozen_clients E now1 now2 (cleaning_timeout s) (srv_controller s)) s
         in s1\<lparr>cleaning_expiry := cleaning_expiry s1 + cleaning_timeout s1\<rparr>))"

text \<open>The application's thread writes: the work is posted with the end point.\<close>

definition node_write :: "posted \<Rightarrow> 'c server \<Rightarrow> 'c server" where
  "node_write w s = s\<lparr>posted_work := posted_work s @ [w]\<rparr>"

definition run_posted :: "'c server_env \<Rightarrow> posted \<Rightarrow> 'c server_controller \<Rightarrow> 'c outcome" where
  "run_posted E w s =
     (case w of
        Remove_Client ep \<Rightarrow> remove_client E ep s
      | Write_Bytes_To ep data \<Rightarrow> on_node E ep (write_bytes (se_channel E) data) s
      | Write_Message_To ep m \<Rightarrow> on_node E ep (write_message (se_app E) (se_channel E) m) s)"

section \<open>Steps\<close>

inductive server_step :: "'c server_env \<Rightarrow> 'c server \<Rightarrow> 'c server \<Rightarrow> bool" for E where
  receive: "receive_pending s \<Longrightarrow> server_step E s (handle_receive E err ep data s)"
| sent: "server_step E s (server_sent r s)"
| post: "server_step E s (node_write w s)"
| work: "posted_work s = w # ws \<Longrightarrow>
    server_step E s (settle (run_posted E w (srv_controller s)) (s\<lparr>posted_work := ws\<rparr>))"
| clean: "cleaning_armed s \<Longrightarrow> server_step E s (cleaning E err now1 now2 s)"
| copy: "server_step E s (settle (remove_copy E eq client (srv_controller s)) s)"
| timeout: "server_step E s (s\<lparr>srv_log := srv_log s @ sc_on_protocol_timeout ep x (srv_controller s)\<rparr>)"
| timer: "server_step E s (s\<lparr>srv_controller := sc_add_timeout_at ep t x (srv_controller s)\<rparr>)"
| message: "find_client ep (srv_controller s) = Some n \<Longrightarrow>
    server_step E s (s\<lparr>srv_controller := (srv_controller s)
      \<lparr>clients := map_set ep (set_last_msg_recv_time t n) (clients (srv_controller s))\<rparr>\<rparr>)"

inductive server_reachable :: "'c server_env \<Rightarrow> 'c server \<Rightarrow> bool" for E where
  start: "server_reachable E (server_new now timeout)"
| step: "server_reachable E s \<Longrightarrow> server_step E s s' \<Longrightarrow> server_reachable E s'"

section \<open>The client table\<close>

definition clients_ok :: "(endpoint, 'c node) std_map \<Rightarrow> bool" where
  "clients_ok m \<longleftrightarrow> map_ok m \<and> (\<forall>ep n. map_find m ep = Some n \<longrightarrow> n_endpoint n = ep)"

lemma endpoint_close: "n_endpoint (fst (node_close C n)) = n_endpoint n"
  by (simp add: node_close_def)

lemma endpoint_set_protocol: "n_endpoint (fst (set_protocol p n)) = n_endpoint n"
  by (simp add: set_protocol_def)

lemma endpoint_events: "n_endpoint (fst (node_events R A C es n)) = n_endpoint n"
proof (induction es arbitrary: n)
  case (Cons e es)
  have "n_endpoint (fst (node_event R A C e n)) = n_endpoint n"
    by (auto simp: node_event_def tls_alert_def node_tls_alert_def node_close_def set_protocol_def
        tls_server_choose_app_protocol_def split: tls_event.splits option.splits prod.splits role.splits)
  with Cons show ?case by (auto split: prod.splits bool.splits) (metis fst_conv)+
qed simp

lemma endpoint_keep [simp]: "n_endpoint (keep_channel c n) = n_endpoint n"
  by (simp add: keep_channel_def)

lemma endpoint_after_handshake: "n_endpoint (fst (after_handshake_data R A C n)) = n_endpoint n"
  by (auto simp: after_handshake_data_def ready_protocol_def set_protocol_def Let_def
      split: option.splits prod.splits)

lemma endpoint_receive: "n_endpoint (fst (process_received_data R A C data n)) = n_endpoint n"
proof (cases "n_dtls n")
  case None
  then show ?thesis by (simp add: process_received_data_def)
next
  case (Some c)
  obtain evs c1 throws where r: "ch_received_data C data c = (evs, c1, throws)"
    by (metis prod_cases3)
  obtain n1 fs t where e: "node_events R A C evs n = (n1, fs, t)" by (metis prod_cases3)
  have "n_endpoint n1 = n_endpoint n" using endpoint_events [of R A C evs n] e by simp
  then show ?thesis
    using Some r e endpoint_after_handshake [of R A C "keep_channel c1 n1"]
    by (cases t) (auto simp: process_received_data_def Let_def split: prod.splits)
qed

lemma endpoint_write:
  "n_endpoint (fst (write_bytes C data n)) = n_endpoint n"
  "n_endpoint (fst (write_message A C m n)) = n_endpoint n"
  by (auto simp: write_bytes_def write_message_def split: option.splits prod.splits)

lemma endpoint_server_node [simp]: "n_endpoint (server_node_new address fresh ep) = ep"
  by (simp add: server_node_new_def set_receiver_endpoint_def Let_def)

lemma clients_ok_get_node:
  assumes "clients_ok (clients s)" "get_node E ep s = (n, s1)"
  shows "clients_ok (clients s1) \<and> map_find (clients s1) ep = Some n \<and> n_endpoint n = ep"
  using assms
  by (auto simp: get_node_def create_client_def find_client_def clients_ok_def Let_def
      split: option.splits if_splits)

lemma clients_ok_set:
  "clients_ok m \<Longrightarrow> n_endpoint n = ep \<Longrightarrow> clients_ok (map_set ep n m)"
  by (simp add: clients_ok_def)

lemma clients_ok_on_node:
  assumes "clients_ok (clients s)" "\<And>n. n_endpoint (fst (f n)) = n_endpoint n"
  shows "clients_ok (clients (fst (on_node E ep f s)))"
proof -
  obtain n s1 where g: "get_node E ep s = (n, s1)" by fastforce
  obtain n1 fs where f: "f n = (n1, fs)" by fastforce
  then show ?thesis
    using clients_ok_get_node [OF assms(1) g] assms(2) [of n]
    by (auto simp: on_node_def g f intro: clients_ok_set)
qed

lemma clients_ok_filter: "clients_ok m \<Longrightarrow> clients_ok (filter P m)"
  by (auto simp: clients_ok_def map_ok_filter map_find_filter split: option.splits if_splits)

lemma erase_loop_filter: "fst (erase_loop P f m) = filter (\<lambda>(ep, n). \<not> P n) m"
  by (induction P f m rule: erase_loop.induct) (auto split: prod.splits)

lemma filter_none: "\<not> list_ex (\<lambda>(ep, n). P n) m \<Longrightarrow> filter (\<lambda>(ep, n). \<not> P n) m = m"
  by (induction m) auto

text \<open>The preliminary check under the shared lock does not change what is removed.\<close>

lemma erase_loop_effects:
  "snd (erase_loop P f m) = concat (map (\<lambda>(ep, n). at ep (f n)) (filter (\<lambda>(ep, n). P n) m))"
  by (induction P f m rule: erase_loop.induct) (auto split: prod.splits)

lemma effects_remove_copy:
  "snd (remove_copy E eq client s) =
     concat (map (\<lambda>(ep, n). at ep (close_copy E n)) (filter (\<lambda>(ep, n). is_copy eq client n) (clients s)))"
  using erase_loop_effects [of "is_copy eq client" "close_copy E" "clients s"]
  by (auto simp: remove_copy_def check_copy_def list_ex_iff filter_empty_conv split: prod.splits)

lemma clients_remove_copy:
  "clients (fst (remove_copy E eq client s)) = filter (\<lambda>(ep, n). \<not> is_copy eq client n) (clients s)"
  using erase_loop_filter [of "is_copy eq client" "close_copy E" "clients s"]
    filter_none [of "is_copy eq client" "clients s"]
  by (auto simp: remove_copy_def check_copy_def split: prod.splits)

lemma clients_remove_frozen:
  "check_frozen_clients now1 frozen_timeout s \<Longrightarrow>
    clients (fst (remove_frozen_clients E now1 now2 frozen_timeout s)) =
    filter (\<lambda>(ep, n). \<not> is_frozen now2 frozen_timeout n) (clients s)"
  "\<not> check_frozen_clients now1 frozen_timeout s \<Longrightarrow>
    fst (remove_frozen_clients E now1 now2 frozen_timeout s) = s"
  using erase_loop_filter [of "is_frozen now2 frozen_timeout" "\<lambda>n. snd (node_close (se_channel E) n)" "clients s"]
  by (auto simp: remove_frozen_clients_def split: prod.splits)

lemma clients_ok_remove_frozen:
  "clients_ok (clients s) \<Longrightarrow> clients_ok (clients (fst (remove_frozen_clients E now1 now2 frozen_timeout s)))"
  using clients_remove_frozen [of now1 frozen_timeout s E now2] clients_ok_filter by metis

lemma clients_ok_erase: "clients_ok m \<Longrightarrow> clients_ok (map_erase ep m)"
  by (simp add: clients_ok_def)

lemma clients_ok_posted: "clients_ok (clients s) \<Longrightarrow> clients_ok (clients (fst (run_posted E w s)))"
  by (cases w)
    (simp_all add: run_posted_def remove_client_def endpoint_write clients_ok_erase clients_ok_on_node)

lemma controller_settle [simp]: "srv_controller (settle r s) = fst r"
  by (simp add: settle_def)

lemma clients_ok_step:
  "server_step E s s' \<Longrightarrow> clients_ok (clients (srv_controller s)) \<Longrightarrow> clients_ok (clients (srv_controller s'))"
proof (induction rule: server_step.induct)
  case (receive s err ep data)
  then show ?case
    by (auto simp: handle_receive_def process_data_def endpoint_receive intro: clients_ok_on_node)
next
  case (clean s err now1 now2)
  then show ?case by (simp add: cleaning_def Let_def clients_ok_remove_frozen)
next
  case (copy s eq client)
  then show ?case by (simp add: clients_remove_copy clients_ok_filter)
next
  case (message ep s n t)
  then show ?case
    by (auto simp: find_client_def clients_ok_def set_last_msg_recv_time_def)
qed (simp_all add: server_sent_def node_write_def clients_ok_posted sc_add_timeout_at_def)

section \<open>Properties\<close>

text \<open>
  Property C17.  In every state a server can reach through datagrams, posted work, cleaning, removal of
  copies and timeouts, the client table is in key order with one node per end point, and every node
  talks to the end point it is filed under.
\<close>

theorem reachable_clients_ok:
  assumes "server_reachable E s"
  shows "map_ok (clients (srv_controller s)) \<and>
    (\<forall>ep n. find_client ep (srv_controller s) = Some n \<longrightarrow> n_endpoint n = ep)"
proof -
  from assms have "clients_ok (clients (srv_controller s))"
  proof (induction rule: server_reachable.induct)
    case (start now timeout)
    then show ?case by (simp add: server_new_def clients_ok_def)
  next
    case (step s s')
    then show ?case using clients_ok_step by blast
  qed
  then show ?thesis by (simp add: clients_ok_def find_client_def)
qed

lemma in_clients_iff: "map_ok (clients s) \<Longrightarrow> (ep, n) \<in> set (clients s) \<longleftrightarrow> find_client ep s = Some n"
  by (auto simp: find_client_def map_find_def map_ok_def dest: map_of_SomeD
      intro!: map_of_is_SomeI strict_sorted_iff [THEN iffD1, THEN conjunct2])

lemma close_copy_calls:
  "Before_Remove_Copy q \<in> set (close_copy E n) \<longleftrightarrow> n_protocol n = Some q"
  "Protocol_Closed q \<in> set (close_copy E n) \<longleftrightarrow> n_protocol n = Some q"
  by (auto simp: close_copy_def node_close_def emit_data_def split: option.splits)

text \<open>
  Property C18.  \<open>remove_copy\<close> removes exactly the other clients whose protocol equals the given
  one: a client without a protocol, the client whose protocol is the given object itself, and one whose
  protocol does not equal it stay as they are. Exactly the protocols of the removed clients are told that
  they are removed as a copy, and exactly they are told that the connection is closed.
\<close>

theorem remove_copy_removes_copies:
  assumes "map_ok (clients s)" and "remove_copy E eq client s = (s', fs)"
  shows "(\<forall>ep. find_client ep s' =
      (case find_client ep s of
         None \<Rightarrow> None
       | Some n \<Rightarrow>
           (case n_protocol n of
              None \<Rightarrow> Some n
            | Some p \<Rightarrow> if p = client then Some n else if eq p client then None else Some n))) \<and>
    (\<forall>ep q. ((ep, Before_Remove_Copy q) \<in> set fs \<longleftrightarrow>
        (\<exists>n. find_client ep s = Some n \<and> n_protocol n = Some q \<and> q \<noteq> client \<and> eq q client)) \<and>
      ((ep, Protocol_Closed q) \<in> set fs \<longleftrightarrow>
        (\<exists>n. find_client ep s = Some n \<and> n_protocol n = Some q \<and> q \<noteq> client \<and> eq q client)))"
proof (intro conjI allI)
  fix ep
  have "find_client ep s' = (case find_client ep s of None \<Rightarrow> None | Some n \<Rightarrow> if is_copy eq client n then None else Some n)"
    using assms clients_remove_copy [of E eq client s]
    by (auto simp: find_client_def map_find_filter split: option.splits)
  then show "find_client ep s' =
      (case find_client ep s of
         None \<Rightarrow> None
       | Some n \<Rightarrow>
           (case n_protocol n of
              None \<Rightarrow> Some n
            | Some p \<Rightarrow> if p = client then Some n else if eq p client then None else Some n))"
    by (auto simp: is_copy_def split: option.splits)
next
  fix ep q
  have fs: "(ep, f) \<in> set fs \<longleftrightarrow> (\<exists>n. find_client ep s = Some n \<and> is_copy eq client n \<and> f \<in> set (close_copy E n))" for f
    using effects_remove_copy [of E eq client s] assms in_clients_iff [OF assms(1)] by (auto simp: at_def)
  show "(ep, Before_Remove_Copy q) \<in> set fs \<longleftrightarrow>
      (\<exists>n. find_client ep s = Some n \<and> n_protocol n = Some q \<and> q \<noteq> client \<and> eq q client)"
    "(ep, Protocol_Closed q) \<in> set fs \<longleftrightarrow>
      (\<exists>n. find_client ep s = Some n \<and> n_protocol n = Some q \<and> q \<noteq> client \<and> eq q client)"
    by (auto simp: fs close_copy_calls is_copy_def)
qed

text \<open>
  Cleaning never removes a client that was heard from within the timeout, and after it every
  client that remains was heard from within the timeout when the loop ran, if there was anything to remove.
\<close>

theorem cleaning_keeps_live_clients:
  assumes "map_ok (clients s)" "now1 \<le> now2"
  shows "(find_client ep s = Some n \<and> now2 - n_last_recv n \<le> t \<longrightarrow>
      find_client ep (fst (remove_frozen_clients E now1 now2 t s)) = Some n) \<and>
    (find_client ep (fst (remove_frozen_clients E now1 now2 t s)) = Some n \<longrightarrow>
      find_client ep s = Some n \<and> now1 - n_last_recv n \<le> t)"
proof (cases "check_frozen_clients now1 t s")
  case True
  then show ?thesis
    using assms clients_remove_frozen(1) [OF True, of E now2]
    by (auto simp: find_client_def map_find_filter is_frozen_def split: option.splits if_splits)
next
  case False
  then have "now1 - n_last_recv n \<le> t" if "find_client ep s = Some n" for n
    using that by (force simp: check_frozen_clients_def find_client_def map_find_def list_ex_iff
        is_frozen_def dest: map_of_SomeD)
  then show ?thesis using clients_remove_frozen(2) [OF False, of E now2] by simp
qed

section \<open>What goes wrong\<close>

text \<open>
  A client is filed before it was ever heard from, with the epoch as its time: the next cleaning
  removes it, in the middle of its handshake if need be.
\<close>

lemma new_client_is_frozen:
  assumes "map_ok (clients s)" "find_client ep s = None" "t < now1" "now1 \<le> now2"
  shows "find_client ep (fst (remove_frozen_clients E now1 now2 t (snd (get_node E ep s)))) = None"
proof -
  let ?n = "server_node_new (se_address E) (se_fresh E) ep"
  let ?s = "s\<lparr>clients := map_emplace ep ?n (clients s)\<rparr>"
  have g: "snd (get_node E ep s) = ?s"
    using assms(2) by (simp add: get_node_def create_client_def find_client_def Let_def)
  have l: "n_last_recv ?n = 0"
    by (simp add: server_node_new_def set_receiver_endpoint_def node_new_def)
  have f: "map_find (map_emplace ep ?n (clients s)) ep = Some ?n"
    using assms(1,2) by (simp add: find_client_def)
  then have "(ep, ?n) \<in> set (clients ?s)" by (auto simp: map_find_def dest: map_of_SomeD)
  then have "check_frozen_clients now1 t ?s"
    using assms(3) l by (force simp: check_frozen_clients_def list_ex_iff is_frozen_def)
  then show ?thesis
    using assms f l by (simp add: g clients_remove_frozen(1) find_client_def map_find_filter is_frozen_def)
qed

text \<open>
  A write that is posted for a client which has been removed meanwhile files a new client for the end
  point, with a channel that has not begun a handshake.
\<close>

lemma write_recreates_removed_client:
  assumes "map_ok (clients s)"
  shows "find_client ep (fst (run_posted E (Write_Bytes_To ep data) (fst (remove_client E ep s)))) \<noteq> None"
  using assms
  by (auto simp: run_posted_def remove_client_def on_node_def get_node_def create_client_def find_client_def
      Let_def split: prod.splits)

text \<open>After an error of the socket no receive is pending any more, so that no datagram is handled again.\<close>

lemma receive_error_stops_server:
  assumes "(server_step E)\<^sup>*\<^sup>* (handle_receive E True ep data s) s'"
  shows "\<not> receive_pending s'"
  using assms
proof (induction rule: rtranclp_induct)
  case base
  then show ?case by (simp add: handle_receive_def)
next
  case (step s1 s2)
  have "\<not> receive_pending s2" if "server_step E s1 s2" "\<not> receive_pending s1"
    using that
    by (induction rule: server_step.induct)
      (simp_all add: server_sent_def node_write_def settle_def cleaning_def Let_def)
  with step show ?case by blast
qed

section \<open>Record threads\<close>

text \<open>A record: the node, its data.  What a thread does with it depends on the node's protocol.\<close>

type_synonym record_item = "endpoint \<times> bytes"

record record_pool =
  rp_break_flag :: bool
  records_queue :: "record_item list"
  rp_work :: "record_item option list"
  rp_ended :: "bool list"
  rp_taken :: "record_item list"
  rp_handled :: "record_item list"

definition record_pool_new :: "nat \<Rightarrow> record_pool" where
  "record_pool_new thread_count =
     \<lparr>rp_break_flag = False, records_queue = [], rp_work = replicate thread_count None,
      rp_ended = replicate thread_count False, rp_taken = [], rp_handled = []\<rparr>"

definition add_received_record :: "record_item \<Rightarrow> record_pool \<Rightarrow> record_pool" where
  "add_received_record r s = s\<lparr>records_queue := records_queue s @ [r]\<rparr>"

definition rp_stop :: "record_pool \<Rightarrow> record_pool" where
  "rp_stop s = s\<lparr>rp_break_flag := True\<rparr>"

text \<open>\<open>records_thread_run\<close>, from the wait to the unlock, and then to the end of \<open>process_bytes\<close>.\<close>

definition records_thread_wait :: "nat \<Rightarrow> record_pool \<Rightarrow> record_pool option" where
  "records_thread_wait k s =
     (if k \<ge> length (rp_work s) \<or> rp_work s ! k \<noteq> None \<or> rp_ended s ! k then None
      else if rp_break_flag s then Some (s\<lparr>rp_ended := (rp_ended s)[k := True]\<rparr>)
      else (case records_queue s of
              [] \<Rightarrow> None
            | r # rs \<Rightarrow> Some (s\<lparr>records_queue := rs, rp_work := (rp_work s)[k := Some r],
                               rp_taken := rp_taken s @ [r]\<rparr>)))"

text \<open>A record whose node has no protocol is handled by doing nothing, see \<open>process_record\<close>.\<close>

definition records_thread_process :: "nat \<Rightarrow> record_pool \<Rightarrow> record_pool option" where
  "records_thread_process k s =
     (if k \<ge> length (rp_work s) then None
      else (case rp_work s ! k of
              None \<Rightarrow> None
            | Some r \<Rightarrow> Some (s\<lparr>rp_work := (rp_work s)[k := None], rp_handled := rp_handled s @ [r]\<rparr>)))"

definition process_record :: "'c node \<Rightarrow> bytes \<Rightarrow> node_effect list" where
  "process_record n data = (case n_protocol n of None \<Rightarrow> [] | Some p \<Rightarrow> [Process_Bytes p data])"

inductive record_step :: "record_pool \<Rightarrow> record_item pool_event \<Rightarrow> record_pool \<Rightarrow> bool" where
  submit: "record_step s (Submit r) (add_received_record r s)"
| take: "records_thread_wait k s = Some s' \<Longrightarrow> \<not> rp_break_flag s \<Longrightarrow> record_step s (Take k) s'"
| leave: "records_thread_wait k s = Some s' \<Longrightarrow> rp_break_flag s \<Longrightarrow> record_step s (Leave k) s'"
| process: "records_thread_process k s = Some s' \<Longrightarrow> record_step s (Finish k) s'"
| halt: "record_step s Halt (rp_stop s)"

inductive_cases record_stepE:
  "record_step s (Submit t) s'" "record_step s (Take k) s'" "record_step s (Leave k) s'"
  "record_step s (Finish k) s'" "record_step s Halt s'"

interpretation rp: ending_pool record_step "record_pool_new n" records_queue rp_work rp_taken rp_handled
  rp_break_flag rp_ended for n
proof
  show "records_queue (record_pool_new n) = [] \<and> busy (rp_work (record_pool_new n)) = [] \<and>
      rp_taken (record_pool_new n) = [] \<and> rp_handled (record_pool_new n) = []"
    by (simp add: record_pool_new_def busy_def)
  show "length (rp_ended (record_pool_new n)) = length (rp_work (record_pool_new n))" by (simp add: record_pool_new_def)
  show "\<exists>s'. record_step s (Leave k) s'"
    if "rp_break_flag s" "k < length (rp_work s)" "rp_work s ! k = None" "\<not> rp_ended s ! k" for s k
    using that by (intro exI, intro record_step.leave) (simp_all add: records_thread_wait_def)
  show "\<exists>s'. record_step s (Finish k) s'" if "k < length (rp_work s)" "rp_work s ! k = Some t" for s k t
    using that by (intro exI, intro record_step.process) (simp add: records_thread_process_def)
qed (auto elim!: record_stepE simp: add_received_record_def rp_stop_def records_thread_wait_def
    records_thread_process_def simp del: not_None_eq split: if_splits list.splits option.splits)

text \<open>
  Property C19.  No record is lost or processed twice: the records taken are the first ones received, in
  order, each of them is processed or being processed, and with a single thread they are processed in
  the order of arrival. A record whose node has no protocol counts as processed: it is taken and dropped.
\<close>

theorem records_processed_once:
  assumes "run_of record_step (record_pool_new n) es s"
  shows "submitted es = rp_taken s @ records_queue s \<and>
    mset (rp_taken s) = mset (rp_handled s) + mset (busy (rp_work s)) \<and>
    (n = 1 \<longrightarrow> prefix (rp_handled s) (submitted es))"
  using rp.started_in_order [OF assms] rp.started_once [OF assms] rp.one_thread_in_order [OF _ assms]
  by (auto simp: record_pool_new_def)

text \<open>The destructor of the controller joins these threads as well: they end within two steps of each.\<close>

definition rp_joined :: "record_pool \<Rightarrow> bool" where
  "rp_joined s \<longleftrightarrow> (\<forall>e \<in> set (rp_ended s). e)"

lemma record_threads_end:
  assumes "run_of record_step (record_pool_new n) es s" "run_of record_step (rp_stop s) fs s'"
  shows "length (filter own_event fs) \<le> 2 * n"
    and "rp_joined s' \<and> busy (rp_work s') = [] \<or> (\<exists>e s''. own_event e \<and> record_step s' e s'')"
  using rp.destroyed_pool_ends [OF assms(1) record_step.halt assms(2)] by (simp_all add: record_pool_new_def rp_joined_def)

section \<open>Examples\<close>

text \<open>Two threads can process two records of one client in the wrong order.\<close>

lemma two_threads_run:
  "run_of record_step (record_pool_new 2)
     [Submit (Endpoint 1 0, [0]), Submit (Endpoint 1 0, [1]), Take 0, Take 1, Finish 1, Finish 0]
     ((record_pool_new 2)\<lparr>rp_taken := [(Endpoint 1 0, [0]), (Endpoint 1 0, [1])], rp_handled := [(Endpoint 1 0, [1]), (Endpoint 1 0, [0])]\<rparr>)"
proof -
  let ?s0 = "record_pool_new 2"
  let ?s1 = "?s0\<lparr>records_queue := [(Endpoint 1 0, [0])]\<rparr>"
  let ?s2 = "?s0\<lparr>records_queue := [(Endpoint 1 0, [0]), (Endpoint 1 0, [1])]\<rparr>"
  let ?s3 = "?s0\<lparr>records_queue := [(Endpoint 1 0, [1])], rp_work := [Some (Endpoint 1 0, [0]), None], rp_taken := [(Endpoint 1 0, [0])]\<rparr>"
  let ?s4 = "?s0\<lparr>rp_work := [Some (Endpoint 1 0, [0]), Some (Endpoint 1 0, [1])], rp_taken := [(Endpoint 1 0, [0]), (Endpoint 1 0, [1])]\<rparr>"
  let ?s5 = "?s0\<lparr>rp_work := [Some (Endpoint 1 0, [0]), None], rp_taken := [(Endpoint 1 0, [0]), (Endpoint 1 0, [1])], rp_handled := [(Endpoint 1 0, [1])]\<rparr>"
  have a: "record_step ?s0 (Submit (Endpoint 1 0, [0])) ?s1"
    using record_step.submit [of ?s0 "(Endpoint 1 0, [0])"] by (simp add: add_received_record_def record_pool_new_def)
  have b: "record_step ?s1 (Submit (Endpoint 1 0, [1])) ?s2"
    using record_step.submit [of ?s1 "(Endpoint 1 0, [1])"] by (simp add: add_received_record_def record_pool_new_def)
  have c: "record_step ?s2 (Take 0) ?s3"
    by (rule record_step.take) (simp_all add: records_thread_wait_def record_pool_new_def numeral_2_eq_2)
  have d: "record_step ?s3 (Take 1) ?s4"
    by (rule record_step.take) (simp_all add: records_thread_wait_def record_pool_new_def numeral_2_eq_2)
  have e: "record_step ?s4 (Finish 1) ?s5"
    by (rule record_step.process) (simp add: records_thread_process_def record_pool_new_def)
  have f: "record_step ?s5 (Finish 0)
      (?s0\<lparr>rp_taken := [(Endpoint 1 0, [0]), (Endpoint 1 0, [1])], rp_handled := [(Endpoint 1 0, [1]), (Endpoint 1 0, [0])]\<rparr>)"
    by (rule record_step.process) (simp add: records_thread_process_def record_pool_new_def numeral_2_eq_2)
  show ?thesis
    by (rule run_Cons, rule a, rule run_Cons, rule b, rule run_Cons, rule c, rule run_Cons, rule d,
        rule run_Cons, rule e, rule run_Cons, rule f, rule run_start)
qed

theorem records_processed_once_witness:
  "submitted [Submit (Endpoint 1 0, [0]), Submit (Endpoint 1 0, [1]), Take 0, Take 1, Finish 1, Finish 0] =
    [(Endpoint 1 0, [0]), (Endpoint 1 0, [1 :: u8])]"
  using records_processed_once [OF two_threads_run] by (simp add: record_pool_new_def)

definition plain_server :: "nat server_env" where
  "plain_server =
     \<lparr>se_address = (\<lambda>ep. ''peer''), se_fresh = 0, se_app = plain_app, se_channel = plain_channel\<rparr>"

definition two_clients :: "nat server_controller" where
  "two_clients =
     \<lparr>clients = [(Endpoint 1 0, (server_node_new (\<lambda>ep. ''a'') 1 (Endpoint 1 0))\<lparr>n_protocol := Some 7\<rparr>),
                 (Endpoint 2 0, (server_node_new (\<lambda>ep. ''b'') 1 (Endpoint 2 0))\<lparr>n_protocol := Some 8, n_last_recv := seconds 100\<rparr>)],
      protocol_timer = timer_new\<rparr>"

lemma two_clients_ok: "map_ok (clients two_clients)"
  by (simp add: two_clients_def map_ok_def less_endpoint_def)

theorem reachable_clients_ok_witness:
  "map_ok (clients (srv_controller (handle_receive plain_server False (Endpoint 5 0) [1] (server_new 0 (seconds 180)))))"
  using reachable_clients_ok [of plain_server, OF server_reachable.step, OF server_reachable.start
      server_step.receive, of 0 "seconds 180" False "Endpoint 5 0" "[1]"]
  by (simp add: server_new_def)

theorem remove_copy_removes_copies_witness:
  "find_client (Endpoint 1 0) (fst (remove_copy plain_server (\<lambda>p q. True) 8 two_clients)) = None \<and>
   find_client (Endpoint 2 0) (fst (remove_copy plain_server (\<lambda>p q. True) 8 two_clients)) = find_client (Endpoint 2 0) two_clients \<and>
   (Endpoint 2 0, Protocol_Closed 8) \<notin> set (snd (remove_copy plain_server (\<lambda>p q. True) 8 two_clients))"
proof -
  note r = remove_copy_removes_copies [OF two_clients_ok surjective_pairing, of plain_server "\<lambda>p q. True" 8]
  have "find_client (Endpoint 1 0) (fst (remove_copy plain_server (\<lambda>p q. True) 8 two_clients)) = None"
    using r by (simp add: two_clients_def find_client_def map_find_def)
  moreover have "find_client (Endpoint 2 0) (fst (remove_copy plain_server (\<lambda>p q. True) 8 two_clients)) =
      find_client (Endpoint 2 0) two_clients"
    using r by (simp add: two_clients_def find_client_def map_find_def)
  moreover have "(Endpoint 2 0, Protocol_Closed 8) \<notin> set (snd (remove_copy plain_server (\<lambda>p q. True) 8 two_clients))"
    using r by simp
  ultimately show ?thesis by simp
qed

theorem cleaning_keeps_live_clients_witness:
  "find_client (Endpoint 2 0) (fst (remove_frozen_clients plain_server (seconds 150) (seconds 150) (seconds 60) two_clients))
    \<noteq> None"
  using cleaning_keeps_live_clients [OF two_clients_ok, of "seconds 150" "seconds 150" "Endpoint 2 0" _ "seconds 60" plain_server]
  by (auto simp: two_clients_def find_client_def map_find_def seconds_def)

end
