(* ===== verification/Dtls_Client.thy ===== *)
theory Dtls_Client
  imports Dtls_Node
begin

text \<open>
  \<open>DTLS/dtls_client.cpp\<close>, \<open>dtls_client_controller.cpp\<close> and
  \<open>dtls_client_thread.cpp\<close>: a client with its one node, the deadline that watches the
  connection, and the thread that connects again whenever the connection ends.
\<close>

section \<open>Client\<close>

text \<open>\<open>cl_deadline\<close> is \<open>None\<close> for positive infinity; \<open>cl_cancelled\<close>: the pending receive was cancelled.\<close>

record 'c client =
  cl_node :: "'c node"
  cl_timer :: timer
  cl_deadline :: "time option"
  cl_socket_open :: bool
  cl_receive_pending :: bool
  cl_cancelled :: bool
  cl_io_stopped :: bool

record 'c client_env =
  ce_address :: "endpoint \<Rightarrow> string"
  ce_resolve :: "string \<Rightarrow> string \<Rightarrow> endpoint option"
  ce_fresh :: 'c
  ce_app :: app
  ce_channel :: "'c channel"

definition client_new :: "bool \<Rightarrow> 'c client" where
  "client_new uninit_flag =
     \<lparr>cl_node = node_new uninit_flag, cl_timer = timer_new, cl_deadline = None, cl_socket_open = False,
      cl_receive_pending = False, cl_cancelled = False, cl_io_stopped = False\<rparr>"


definition cc_add_timeout_at :: "endpoint \<Rightarrow> time \<Rightarrow> int \<Rightarrow> 'c client \<Rightarrow> 'c client" where
  "cc_add_timeout_at ep t x s = s\<lparr>cl_timer := timer_add t \<lparr>item_endpoint = ep, item_data = x\<rparr> (cl_timer s)\<rparr>"

definition cc_on_protocol_timeout :: "int \<Rightarrow> 'c client \<Rightarrow> node_effect list" where
  "cc_on_protocol_timeout x s =
     (case n_protocol (cl_node s) of None \<Rightarrow> [] | Some p \<Rightarrow> [Process_Wait_List p x])"

definition start_receive :: "time \<Rightarrow> 'c client \<Rightarrow> 'c client" where
  "start_receive now s = s\<lparr>cl_receive_pending := True, cl_deadline := Some (now + seconds 10)\<rparr>"

text \<open>The deadline timer has fired, or its wait was aborted because the deadline moved.\<close>

definition check_deadline ::
    "'c client_env \<Rightarrow> bool \<Rightarrow> time \<Rightarrow> 'c client \<Rightarrow> 'c client \<times> node_effect list" where
  "check_deadline E aborted now s =
     (if \<not> aborted \<and> (case cl_deadline s of None \<Rightarrow> False | Some d \<Rightarrow> d \<le> now) then
        (case is_reconnect_needed (ce_channel E) now (cl_node s) of
           (reconnect, n, fs) \<Rightarrow>
             if reconnect then (s\<lparr>cl_node := n, cl_cancelled := True, cl_deadline := None\<rparr>, fs)
             else (s\<lparr>cl_node := n, cl_deadline := Some (now + seconds 10)\<rparr>, fs))
      else (s, []))"

text \<open>\<open>None\<close>: the resolver throws.\<close>

definition start_connection ::
    "'c client_env \<Rightarrow> string \<Rightarrow> string \<Rightarrow> time \<Rightarrow> 'c client \<Rightarrow> ('c client \<times> node_effect list) option" where
  "start_connection E host port now s =
     (case ce_resolve E host port of
        None \<Rightarrow> None
      | Some ep \<Rightarrow>
          Some (check_deadline E False now
            (start_receive now
              (s\<lparr>cl_socket_open := True,
                 cl_node := client_node_start (ce_address E) (ce_fresh E) ep (cl_node s)\<rparr>))))"


definition client_close :: "'c client_env \<Rightarrow> 'c client \<Rightarrow> 'c client \<times> node_effect list" where
  "client_close E s =
     (case node_close (ce_channel E) (cl_node s) of
        (n, fs) \<Rightarrow>
          (s\<lparr>cl_node := n, cl_cancelled := (cl_cancelled s \<or> cl_socket_open s), cl_socket_open := False,
             cl_io_stopped := True\<rparr>, fs))"

section \<open>Client_Thread\<close>

record client_thread_config =
  reconnect_interval :: time
  cc_tls_police_file_name :: string
  cc_host :: string
  cc_port :: string
  cc_next_protocols :: "string list"

definition client_thread_config_new ::
    "string \<Rightarrow> string \<Rightarrow> string \<Rightarrow> string list \<Rightarrow> u32 \<Rightarrow> client_thread_config" where
  "client_thread_config_new tls_police_file_name host port next_protocols reconnect_interval_sec =
     \<lparr>reconnect_interval = seconds (uint reconnect_interval_sec),
      cc_tls_police_file_name = tls_police_file_name, cc_host = host, cc_port = port,
      cc_next_protocols = next_protocols\<rparr>"

datatype thread_log =
    Sleep_For time
  | New_Client nat
  | Start_Connection nat
  | Run_Client nat
  | Close_Client nat
  | Release_Client nat

text \<open>The clients are numbered in the order of their creation.\<close>

record client_thread =
  ct_stop_flag :: bool
  ct_client :: "nat option"
  ct_next :: nat
  ct_log :: "thread_log list"

definition client_thread_new :: client_thread where
  "client_thread_new = \<lparr>ct_stop_flag = False, ct_client = None, ct_next = 0, ct_log = []\<rparr>"

definition ct_note :: "thread_log \<Rightarrow> client_thread \<Rightarrow> client_thread" where
  "ct_note l s = s\<lparr>ct_log := ct_log s @ [l]\<rparr>"

definition ct_close :: "client_thread \<Rightarrow> client_thread" where
  "ct_close s = (case ct_client s of None \<Rightarrow> s | Some k \<Rightarrow> ct_note (Close_Client k) s)"

definition ct_stop :: "client_thread \<Rightarrow> client_thread" where
  "ct_stop s = ct_close (s\<lparr>ct_stop_flag := True\<rparr>)"

text \<open>The result is \<open>None\<close> when \<open>start_connection\<close> throws; the new client stays in \<open>client_\<close> then.\<close>

definition ct_start :: "bool \<Rightarrow> client_thread \<Rightarrow> bool option \<times> client_thread" where
  "ct_start connects s =
     (if ct_stop_flag s then (Some False, s)
      else
        (let s1 = ct_close s;
             k = ct_next s1;
             s2 = ct_note (Start_Connection k) (ct_note (New_Client k) (s1\<lparr>ct_client := Some k, ct_next := k + 1\<rparr>))
         in (if connects then Some (\<not> ct_stop_flag s2) else None, s2)))"

text \<open>
  One pass of the loop as its surroundings decide it: whether \<open>stop\<close> comes before
  \<open>start\<close> takes the mutex, whether connecting throws, and whether \<open>stop\<close> comes
  while the client runs. How \<open>run\<close> ends, by returning or by throwing, makes no difference to
  the loop.
\<close>

record attempt =
  stop_before :: bool
  connects :: bool
  stop_during :: bool

definition ct_pass :: "client_thread_config \<Rightarrow> bool \<Rightarrow> attempt \<Rightarrow> client_thread \<Rightarrow> client_thread" where
  "ct_pass conf is_first_connect a s =
     (let s1 = (if is_first_connect then s else ct_note (Sleep_For (reconnect_interval conf)) s);
          s2 = (if stop_before a then ct_stop s1 else s1)
      in case ct_start (connects a) s2 of
           (Some True, s3) \<Rightarrow>
             (let s4 = (case ct_client s3 of None \<Rightarrow> s3 | Some k \<Rightarrow> ct_note (Run_Client k) s3)
              in if stop_during a then ct_stop s4 else s4)
         | (_, s3) \<Rightarrow> s3)"

fun ct_loop :: "client_thread_config \<Rightarrow> bool \<Rightarrow> attempt list \<Rightarrow> client_thread \<Rightarrow> client_thread" where
  "ct_loop conf first [] s = s"
| "ct_loop conf first (a # as) s =
     (if ct_stop_flag s then s else ct_loop conf False as (ct_pass conf first a s))"

text \<open>After the loop: \<open>stop\<close> once more, and the client is released.\<close>

definition ct_finish :: "client_thread \<Rightarrow> client_thread" where
  "ct_finish s =
     (let s1 = ct_stop s
      in case ct_client s1 of
           None \<Rightarrow> s1
         | Some k \<Rightarrow> ct_note (Release_Client k) (s1\<lparr>ct_client := None\<rparr>))"

section \<open>The watch on the connection\<close>

text \<open>
  A client that heard from its peer within twenty seconds is not disconnected: when the
  deadline passes it only moves by ten seconds.
\<close>

theorem live_connection_kept:
  assumes "n_dtls (cl_node s) = Some c" "ch_is_active (ce_channel E) c"
    and "now - n_last_recv (cl_node s) < seconds 20"
  shows "check_deadline E aborted now s = (s, []) \<or>
    check_deadline E aborted now s = (s\<lparr>cl_deadline := Some (now + seconds 10)\<rparr>, [])"
  using assms by (simp add: check_deadline_def is_reconnect_needed_def split: option.splits)




section \<open>Clients of the thread\<close>

text \<open>The client that is open after a log; \<open>None\<close> when two would be open at a time.\<close>

fun open_client :: "nat option \<Rightarrow> thread_log list \<Rightarrow> nat option option" where
  "open_client c [] = Some c"
| "open_client c (New_Client k # ls) = (if c = None then open_client (Some k) ls else None)"
| "open_client c (Start_Connection k # ls) = (if c = Some k then open_client c ls else None)"
| "open_client c (Run_Client k # ls) = (if c = Some k then open_client c ls else None)"
| "open_client c (Close_Client k # ls) = (if c = Some k \<or> c = None then open_client None ls else None)"
| "open_client c (l # ls) = open_client c ls"

lemma open_client_append:
  "open_client c (ls @ ms) = (case open_client c ls of None \<Rightarrow> None | Some b \<Rightarrow> open_client b ms)"
  by (induction c ls rule: open_client.induct) simp_all

definition ct_ok :: "client_thread \<Rightarrow> bool" where
  "ct_ok s \<longleftrightarrow>
     (open_client None (ct_log s) = Some None \<or>
      open_client None (ct_log s) = Some (ct_client s) \<and> \<not> ct_stop_flag s)"

lemma ct_close_closed:
  "ct_ok s \<Longrightarrow> open_client None (ct_log (ct_close s)) = Some None"
  by (auto simp: ct_close_def ct_note_def ct_ok_def open_client_append split: option.splits)

lemma ct_stop_ok: "ct_ok s \<Longrightarrow> ct_ok (ct_stop s) \<and> open_client None (ct_log (ct_stop s)) = Some None"
proof -
  assume "ct_ok s"
  then have "open_client None (ct_log (ct_stop s)) = Some None"
    by (auto simp: ct_stop_def ct_close_def ct_note_def ct_ok_def open_client_append split: option.splits)
  then show ?thesis by (simp add: ct_ok_def)
qed

lemma ct_sleep_ok: "ct_ok s \<Longrightarrow> ct_ok (ct_note (Sleep_For t) s)"
  by (auto simp: ct_ok_def ct_note_def open_client_append)

lemma ct_start_ok:
  assumes "ct_ok s"
  shows "ct_ok (snd (ct_start b s)) \<and>
    (fst (ct_start b s) = Some True \<longrightarrow>
      (\<exists>k. ct_client (snd (ct_start b s)) = Some k \<and> open_client None (ct_log (snd (ct_start b s))) = Some (Some k)))"
proof -
  have "ct_stop_flag (ct_close s) = ct_stop_flag s"
    by (simp add: ct_close_def ct_note_def split: option.splits)
  then show ?thesis
    using assms ct_close_closed [OF assms]
    by (auto simp: ct_start_def ct_note_def ct_ok_def open_client_append Let_def)
qed

lemma ct_pass_ok:
  assumes "ct_ok s"
  shows "ct_ok (ct_pass conf first a s)"
proof -
  let ?s1 = "if first then s else ct_note (Sleep_For (reconnect_interval conf)) s"
  let ?s2 = "if stop_before a then ct_stop ?s1 else ?s1"
  obtain r s3 where st: "ct_start (connects a) ?s2 = (r, s3)" by fastforce
  have "ct_ok ?s1" using assms ct_sleep_ok by simp
  then have "ct_ok ?s2" using ct_stop_ok by auto
  from ct_start_ok [OF this, of "connects a"] st
  have ok: "ct_ok s3" "r = Some True \<Longrightarrow> \<exists>k. ct_client s3 = Some k \<and> open_client None (ct_log s3) = Some (Some k)"
    by simp_all
  show ?thesis
  proof (cases "r = Some True")
    case True
    with ok(2) obtain k where "ct_client s3 = Some k" "open_client None (ct_log s3) = Some (Some k)" by auto
    then have "ct_ok (ct_note (Run_Client k) s3)"
      using ok(1) by (auto simp: ct_ok_def ct_note_def open_client_append)
    then show ?thesis
      using st True \<open>ct_client s3 = Some k\<close> ct_stop_ok by (auto simp: ct_pass_def Let_def)
  next
    case False
    then show ?thesis using st ok(1) by (auto simp: ct_pass_def Let_def split: option.splits bool.splits)
  qed
qed

text \<open>
  However often the thread connects again and whenever it is stopped, it has at most one
  client open at a time: the old one is closed before a new one is made, and none is open once the
  thread has ended.
\<close>

theorem one_client_at_a_time:
  "open_client None (ct_log (ct_loop conf True as client_thread_new)) \<noteq> None \<and>
   open_client None (ct_log (ct_finish (ct_loop conf True as client_thread_new))) = Some None"
proof -
  have "ct_ok s \<Longrightarrow> ct_ok (ct_loop conf first as s)" for s first
    by (induction as arbitrary: s first) (simp_all add: ct_pass_ok)
  then have ok: "ct_ok (ct_loop conf True as client_thread_new)"
    by (simp add: ct_ok_def client_thread_new_def)
  then show ?thesis
    using ct_stop_ok [OF ok]
    by (auto simp: ct_ok_def ct_finish_def ct_note_def Let_def open_client_append split: option.splits)
qed

section \<open>Examples\<close>

definition plain_client_env :: "nat client_env" where
  "plain_client_env =
     \<lparr>ce_address = (\<lambda>ep. ''peer''), ce_resolve = (\<lambda>h p. Some (Endpoint 5 0)), ce_fresh = 0, ce_app = plain_app,
      ce_channel = plain_channel\<rparr>"

definition connected_client :: "nat client" where
  "connected_client =
     (client_new False)\<lparr>cl_deadline := Some (seconds 30),
       cl_node := (node_new False)\<lparr>n_dtls := Some 1, n_protocol := Some 7\<rparr>\<rparr>"

theorem live_connection_kept_witness:
  "cl_cancelled (fst (check_deadline plain_client_env False (seconds 19) connected_client)) = False"
  using live_connection_kept [of connected_client 1 plain_client_env "seconds 19" False]
  by (auto simp: connected_client_def client_new_def node_new_def plain_client_env_def plain_channel_def
      seconds_def)


end
