(* ===== verification/Dtls_Setup.thy ===== *)
theory Dtls_Setup
  imports Prelude
begin

text \<open>
  \<open>DTLS/dtls_credentials_manager.cpp\<close>, \<open>dtls_tools.cpp\<close> and
  \<open>dtls_server_thread.cpp\<close>: certificates and keys, the objects every connection shares, and the
  thread a server lives in. Certificates, keys and the loaders of the library Botan are parameters; where
  the code reads through a null, freed or uninitialised pointer or past the end of a vector, the result is
  \<open>None\<close>.
\<close>

section \<open>Credentials_Manager\<close>

record ('c, 'k) cert_info =
  ci_certs :: "'c list"
  ci_key :: 'k

record ('c, 'k) credentials =
  m_creds :: "('c, 'k) cert_info list"
  m_certstores :: "string list"

text \<open>What the class asks of certificates and keys.\<close>

record ('c, 'k) x509 =
  algo_name :: "'k \<Rightarrow> string"
  matches_dns_name :: "'c \<Rightarrow> string \<Rightarrow> bool"
  same_cert :: "'c \<Rightarrow> 'c \<Rightarrow> bool"

text \<open>\<open>loads\<close>: the certificate store of the path can be read; a failure is reported and swallowed.\<close>

definition load_certstores :: "(string \<Rightarrow> bool) \<Rightarrow> ('c, 'k) credentials \<Rightarrow> ('c, 'k) credentials" where
  "load_certstores loads m =
     (if loads ''/usr/share/ca-certificates''
      then m\<lparr>m_certstores := m_certstores m @ [''/usr/share/ca-certificates'']\<rparr> else m)"

definition credentials_client :: "(string \<Rightarrow> bool) \<Rightarrow> ('c, 'k) credentials" where
  "credentials_client loads = load_certstores loads \<lparr>m_creds = [], m_certstores = []\<rparr>"

text \<open>The loop over the certificate file: what cannot be parsed is skipped.\<close>

fun read_certs :: "'c option list \<Rightarrow> 'c list \<Rightarrow> 'c list" where
  "read_certs [] cs = cs"
| "read_certs (None # items) cs = read_certs items cs"
| "read_certs (Some c # items) cs = read_certs items (cs @ [c])"

definition credentials_server :: "'k \<Rightarrow> 'c option list \<Rightarrow> ('c, 'k) credentials" where
  "credentials_server key items = \<lparr>m_creds = [\<lparr>ci_certs = read_certs items [], ci_key = key\<rparr>], m_certstores = []\<rparr>"

definition trusted_certificate_authorities :: "string \<Rightarrow> ('c, 'k) credentials \<Rightarrow> string list" where
  "trusted_certificate_authorities type m = (if type = ''tls-server'' then [] else m_certstores m)"

text \<open>\<open>i.certs[0]\<close> of an entry without certificates is undefined.\<close>

fun cert_chain_loop ::
    "('c, 'k) x509 \<Rightarrow> string list \<Rightarrow> string \<Rightarrow> ('c, 'k) cert_info list \<Rightarrow> 'c list option" where
  "cert_chain_loop X algos hostname [] = Some []"
| "cert_chain_loop X algos hostname (i # is) =
     (if algo_name X (ci_key i) \<notin> set algos then cert_chain_loop X algos hostname is
      else if hostname = [] then Some (ci_certs i)
      else (case ci_certs i of
              [] \<Rightarrow> None
            | c # cs \<Rightarrow> if matches_dns_name X c hostname then Some (ci_certs i)
                       else cert_chain_loop X algos hostname is))"

definition cert_chain ::
    "('c, 'k) x509 \<Rightarrow> string list \<Rightarrow> string \<Rightarrow> ('c, 'k) credentials \<Rightarrow> 'c list option" where
  "cert_chain X algos hostname m = cert_chain_loop X algos hostname (m_creds m)"

text \<open>\<open>Some None\<close> is the null pointer.\<close>

fun private_key_loop :: "('c, 'k) x509 \<Rightarrow> 'c \<Rightarrow> ('c, 'k) cert_info list \<Rightarrow> 'k option option" where
  "private_key_loop X cert [] = Some None"
| "private_key_loop X cert (i # is) =
     (case ci_certs i of
        [] \<Rightarrow> None
      | c # cs \<Rightarrow> if same_cert X cert c then Some (Some (ci_key i)) else private_key_loop X cert is)"

definition private_key_for :: "('c, 'k) x509 \<Rightarrow> 'c \<Rightarrow> ('c, 'k) credentials \<Rightarrow> 'k option option" where
  "private_key_for X cert m = private_key_loop X cert (m_creds m)"

section \<open>Tools\<close>

text \<open>The members are null until they are set; an exception leaves the rest null.\<close>

record ('c, 'k) tools =
  rng_set :: bool
  session_manager_set :: bool
  creds :: "('c, 'k) credentials option"
  policy :: "string option"

text \<open>
  What the constructor meets: a random number generator, the certificate stores, the key of a key
  file (\<open>None\<close>: loading throws) with the certificates of the certificate file, and the text of the
  policy file (\<open>None\<close>: it cannot be opened or read).
\<close>

record ('c, 'k) tools_env =
  te_rng :: bool
  te_certstore :: "string \<Rightarrow> bool"
  te_load :: "string \<Rightarrow> string \<Rightarrow> ('k \<times> 'c option list) option"
  te_policy :: "string \<Rightarrow> string option"

text \<open>
  The seed of the generator, where it is built on HMAC: the given seed, which is the empty text in the source, or the time in
  nanoseconds as eight bytes, the highest first; then its digest.
\<close>

definition store_be :: "64 word \<Rightarrow> bytes" where
  "store_be ts = map (\<lambda>i. ucast (drop_bit (8 * i) ts)) [7, 6, 5, 4, 3, 2, 1, 0]"

definition rng_seed :: "(bytes \<Rightarrow> bytes) \<Rightarrow> bytes \<Rightarrow> 64 word \<Rightarrow> bytes" where
  "rng_seed sha512 given ts = sha512 (if given = [] then store_be ts else given)"

definition tools_new :: "('c, 'k) tools_env \<Rightarrow> string \<Rightarrow> string \<Rightarrow> string \<Rightarrow> ('c, 'k) tools" where
  "tools_new T tls_policy_file_name crt_file_name key_file_name =
     (let t0 = \<lparr>rng_set = False, session_manager_set = False, creds = None, policy = None\<rparr>
      in if \<not> te_rng T then t0
         else
           (let t1 = t0\<lparr>rng_set := True, session_manager_set := True\<rparr>;
                c = (if crt_file_name = [] then Some (credentials_client (te_certstore T))
                     else map_option (\<lambda>(key, items). credentials_server key items)
                            (te_load T crt_file_name key_file_name))
            in case c of
                 None \<Rightarrow> t1
               | Some m \<Rightarrow>
                   t1\<lparr>creds := Some m,
                      policy := Some (case te_policy T tls_policy_file_name of None \<Rightarrow> [] | Some p \<Rightarrow> p)\<rparr>))"

text \<open>A node dereferences all four members when it is made.\<close>

definition tools_usable :: "('c, 'k) tools \<Rightarrow> bool" where
  "tools_usable t \<longleftrightarrow> rng_set t \<and> session_manager_set t \<and> creds t \<noteq> None \<and> policy t \<noteq> None"

section \<open>Server_Thread\<close>

record server_thread_config =
  stc_port :: u16
  stc_receive_thread_count :: u16
  stc_record_thread_count :: u16
  stc_main_thread_priority :: int
  stc_cleaning_timeout :: time
  stc_tls_police_file_name :: string
  stc_certificate_file_name :: string
  stc_certificate_key_file_name :: string

definition server_thread_config_new ::
    "u16 \<Rightarrow> string \<Rightarrow> string \<Rightarrow> string \<Rightarrow> u32 \<Rightarrow> u16 \<Rightarrow> u16 \<Rightarrow> int \<Rightarrow> server_thread_config" where
  "server_thread_config_new port tls_police_file_name certificate_file_name certificate_key_file_name
       cleaning_timeout_sec receive_thread_count record_thread_count main_thread_priority =
     \<lparr>stc_port = port, stc_receive_thread_count = receive_thread_count,
      stc_record_thread_count = record_thread_count, stc_main_thread_priority = main_thread_priority,
      stc_cleaning_timeout = seconds (uint cleaning_timeout_sec),
      stc_tls_police_file_name = tls_police_file_name,
      stc_certificate_file_name = certificate_file_name,
      stc_certificate_key_file_name = certificate_key_file_name\<rparr>"

datatype pointer = Uninitialised | Null | Live | Freed

record server_thread =
  promises :: pointer
  promise_values :: "bool list"
  io_context :: pointer
  io_stopped :: bool
  server_stored :: bool
  joinable :: bool
  threads_joined :: nat

definition server_thread_new :: server_thread where
  "server_thread_new =
     \<lparr>promises = Live, promise_values = [], io_context = Uninitialised, io_stopped = False,
      server_stored = False, joinable = True, threads_joined = 0\<rparr>"

definition st_stop :: "server_thread \<Rightarrow> server_thread option" where
  "st_stop s =
     (case io_context s of
        Null \<Rightarrow> Some s
      | Live \<Rightarrow> Some (s\<lparr>io_stopped := True\<rparr>)
      | _ \<Rightarrow> None)"

text \<open>\<open>promises_->set_value(v); delete promises_; promises_ = nullptr\<close>\<close>

definition st_keep_promise :: "bool \<Rightarrow> server_thread \<Rightarrow> server_thread option" where
  "st_keep_promise v s =
     (if promises s = Live then Some (s\<lparr>promise_values := promise_values s @ [v], promises := Null\<rparr>)
      else None)"

text \<open>\<open>run\<close>: the beginning, the body of \<open>try\<close> up to \<open>run_context\<close>, and what follows it.\<close>

definition st_begin :: "server_thread \<Rightarrow> server_thread" where
  "st_begin s = s\<lparr>io_context := Null\<rparr>"

definition st_try :: "bool \<Rightarrow> bool \<Rightarrow> server_thread \<Rightarrow> server_thread option" where
  "st_try io_made server_made s =
     (if \<not> io_made then Some s
      else
        (let s1 = s\<lparr>io_context := Live, io_stopped := False\<rparr>
         in if \<not> server_made then Some s1 else st_keep_promise True (s1\<lparr>server_stored := True\<rparr>)))"

definition additional_threads :: "server_thread_config \<Rightarrow> nat list" where
  "additional_threads conf = [1..<unat (stc_receive_thread_count conf)]"

definition st_end :: "server_thread_config \<Rightarrow> bool \<Rightarrow> server_thread \<Rightarrow> server_thread option" where
  "st_end conf server_made s =
     (case (if promises s = Null then Some s else st_keep_promise False s) of
        None \<Rightarrow> None
      | Some s1 \<Rightarrow>
          if io_context s1 = Live then
            Some (s1\<lparr>io_stopped := True, io_context := Freed,
                     threads_joined := (if server_made then length (additional_threads conf) else 0)\<rparr>)
          else None)"

definition st_run :: "server_thread_config \<Rightarrow> bool \<Rightarrow> bool \<Rightarrow> server_thread \<Rightarrow> server_thread option" where
  "st_run conf io_made server_made s =
     (case st_try io_made server_made (st_begin s) of
        None \<Rightarrow> None
      | Some s1 \<Rightarrow> st_end conf server_made s1)"

text \<open>The destructor, up to the wait for the thread.\<close>

definition st_destroy :: "server_thread \<Rightarrow> server_thread option" where
  "st_destroy s =
     (let s1 = (if promises s = Null then s else s\<lparr>promises := Freed\<rparr>)
      in if joinable s1 then st_stop s1 else Some s1)"

definition st_join :: "server_thread \<Rightarrow> server_thread" where
  "st_join s = s\<lparr>joinable := False\<rparr>"

datatype server_answer = Server_Pointer | Null_Pointer | Bad_Start | Waiting

definition st_server :: "server_thread \<Rightarrow> server_answer" where
  "st_server s =
     (if server_stored s then Server_Pointer
      else if promises s = Null then Null_Pointer
      else (case promise_values s of [] \<Rightarrow> Waiting | v # vs \<Rightarrow> if v then Null_Pointer else Bad_Start))"

section \<open>Properties\<close>

lemma read_certs_parsed: "read_certs items cs = cs @ map the (filter (\<lambda>i. i \<noteq> None) items)"
  by (induction items cs rule: read_certs.induct) simp_all

text \<open>
  A server offers its certificate chain in the order of the file, without what could not be
  parsed, exactly when its key's algorithm is asked for and the first certificate matches the host, and
  the key it finds for the first certificate of the chain is the key it was loaded with.
\<close>

theorem server_chain_has_its_key:
  assumes "cert_chain X algos hostname (credentials_server key items) = Some (c # cs)"
    and "\<And>x. same_cert X x x"
  shows "c # cs = map the (filter (\<lambda>i. i \<noteq> None) items) \<and> algo_name X key \<in> set algos \<and>
    (hostname = [] \<or> matches_dns_name X c hostname) \<and>
    private_key_for X c (credentials_server key items) = Some (Some key)"
  using assms
  by (auto simp: cert_chain_def credentials_server_def private_key_for_def read_certs_parsed
      split: if_splits list.splits)

text \<open>
  When \<open>run\<close> reaches its end after the I/O context was made, the promise was kept exactly
  once, with whether the server was made, the context is stopped and every additional thread joined.
\<close>

theorem server_thread_answers_once:
  "\<exists>s. st_run conf True server_made server_thread_new = Some s \<and> promise_values s = [server_made] \<and>
     server_stored s = server_made \<and> io_stopped s \<and> promises s = Null \<and>
     threads_joined s = (if server_made then unat (stc_receive_thread_count conf) - 1 else 0)"
  by (simp add: st_run_def st_begin_def st_try_def st_end_def st_keep_promise_def server_thread_new_def
      additional_threads_def Let_def)

section \<open>What goes wrong\<close>

text \<open>A failure to load the key leaves tools whose members are dereferenced all the same.\<close>

lemma tools_unusable_after_bad_key:
  assumes "te_rng T" "te_load T crt key = None" "crt \<noteq> []"
  shows "\<not> tools_usable (tools_new T pol crt key)"
  using assms by (simp add: tools_new_def tools_usable_def Let_def)

text \<open>
  Nothing but the clock enters the seed: who knows the time of the start to \<open>n\<close> nanoseconds has
  at most \<open>n\<close> generators to try.
\<close>

lemma seeds_from_clock: "card ((\<lambda>k. rng_seed sha512 [] (start + of_nat k)) ` {0..<n}) \<le> n"
  using card_image_le [of "{0..<n}" "\<lambda>k. rng_seed sha512 [] (start + of_nat k)"] by simp

text \<open>Once \<open>run\<close> has ended, the destructor stops an I/O context that is freed.\<close>

lemma destroy_after_end_undefined:
  assumes "st_run conf io_made server_made server_thread_new = Some s"
  shows "st_destroy s = None"
  using assms
  by (cases io_made; cases server_made)
    (auto simp: st_run_def st_begin_def st_try_def st_end_def st_keep_promise_def server_thread_new_def
      st_destroy_def st_stop_def Let_def)

text \<open>A destructor that comes before the server is made frees the promise that \<open>run\<close> then keeps.\<close>

lemma destroy_before_start_undefined:
  assumes "st_destroy (st_begin server_thread_new) = Some s"
  shows "st_try True True s = None"
  using assms
  by (auto simp: st_begin_def st_try_def st_keep_promise_def server_thread_new_def st_destroy_def st_stop_def
      Let_def)

section \<open>Examples\<close>

definition plain_x509 :: "(nat, nat) x509" where
  "plain_x509 = \<lparr>algo_name = (\<lambda>k. ''RSA''), matches_dns_name = (\<lambda>c h. True), same_cert = (=)\<rparr>"

theorem server_chain_has_its_key_witness:
  "private_key_for plain_x509 3 (credentials_server 9 [None, Some 3, Some 4]) = Some (Some (9 :: nat))"
proof -
  have "cert_chain plain_x509 [''RSA''] ''host'' (credentials_server 9 [None, Some 3, Some 4]) = Some (3 # [4])"
    by (simp add: cert_chain_def credentials_server_def plain_x509_def)
  from server_chain_has_its_key [OF this] show ?thesis by (simp add: plain_x509_def)
qed

end
