(* ===== verification/Db_Query.thy ===== *)
theory Db_Query
  imports Prelude
begin

text \<open>
  The SQL layer: \<open>DBMeta/db_table.cpp\<close>, \<open>Database/db_connection_info.cpp\<close>, and of
  \<open>Database/db_base.cpp\<close> the texts of the statements and the loop of \<open>exec\<close>.  Strings are character
  lists; \<open>QString::arg\<close> is modelled with its real rule, which replaces the lowest place marker
  wherever it stands, also inside text that an earlier \<open>arg\<close> put there.  The identifier quoting of
  the driver and the driver itself are parameters.
\<close>

section \<open>Strings\<close>

fun join :: "string \<Rightarrow> string list \<Rightarrow> string" where
  "join sep [] = []"
| "join sep [x] = x"
| "join sep (x # y # xs) = x @ sep @ join sep (y # xs)"

definition count_char :: "char \<Rightarrow> string \<Rightarrow> nat" where
  "count_char c s = length (filter (\<lambda>x. x = c) s)"

definition digit :: "char \<Rightarrow> nat option" where
  "digit c = (let n = of_char c in if 48 \<le> n \<and> n \<le> (57 :: nat) then Some (n - 48) else None)"

text \<open>A place marker at the front: its number and the text behind it (\<open>%n\<close>, \<open>%nn\<close>, \<open>%Ln\<close>).\<close>

fun marker_digits :: "string \<Rightarrow> (nat \<times> string) option" where
  "marker_digits (a # b # s) =
     (case digit a of
        None \<Rightarrow> None
      | Some x \<Rightarrow> (case digit b of None \<Rightarrow> Some (x, b # s) | Some y \<Rightarrow> Some (10 * x + y, s)))"
| "marker_digits [a] = (case digit a of None \<Rightarrow> None | Some x \<Rightarrow> Some (x, []))"
| "marker_digits [] = None"

definition marker :: "string \<Rightarrow> (nat \<times> string) option" where
  "marker s =
     (case s of
        c # r \<Rightarrow>
          if c \<noteq> CHR ''%'' then None
          else (case r of
                  l # r' \<Rightarrow> if l = CHR ''L'' then marker_digits r' else marker_digits r
                | [] \<Rightarrow> None)
      | [] \<Rightarrow> None)"

fun min_opt :: "nat option \<Rightarrow> nat option \<Rightarrow> nat option" where
  "min_opt None y = y"
| "min_opt x None = x"
| "min_opt (Some x) (Some y) = Some (min x y)"

fun lowest_marker :: "string \<Rightarrow> nat option" where
  "lowest_marker [] = None"
| "lowest_marker (c # s) = min_opt (map_option fst (marker (c # s))) (lowest_marker s)"

lemma marker_digits_length: "marker_digits s = Some (n, r) \<Longrightarrow> length r < length s"
  by (induction s rule: marker_digits.induct) (auto split: option.splits)

lemma marker_length: "marker s = Some (n, r) \<Longrightarrow> length r < length s"
  by (auto simp: marker_def split: list.splits if_splits dest!: marker_digits_length)

function replace_marker :: "nat \<Rightarrow> string \<Rightarrow> string \<Rightarrow> string" where
  "replace_marker n r s =
     (case s of
        [] \<Rightarrow> []
      | c # s' \<Rightarrow>
          (case marker s of
             Some (m, rest) \<Rightarrow>
               if m = n then r @ replace_marker n r rest else c # replace_marker n r s'
           | None \<Rightarrow> c # replace_marker n r s'))"
  by pat_completeness auto
termination
  by (relation "measure (\<lambda>(n, r, s). length s)") (auto dest: marker_length)

declare replace_marker.simps [simp del]

definition arg :: "string \<Rightarrow> string \<Rightarrow> string" where
  "arg s r = (case lowest_marker s of None \<Rightarrow> s | Some n \<Rightarrow> replace_marker n r s)"

text \<open>Text without a percent sign is passed over.\<close>

definition no_percent :: "string \<Rightarrow> bool" where
  "no_percent s \<longleftrightarrow> CHR ''%'' \<notin> set s"

lemma no_percent_simps [simp]:
  "no_percent []" "no_percent (c # s) \<longleftrightarrow> c \<noteq> CHR ''%'' \<and> no_percent s"
  "no_percent (s @ t) \<longleftrightarrow> no_percent s \<and> no_percent t"
  by (auto simp: no_percent_def)

lemma lowest_marker_clean [simp]: "no_percent a \<Longrightarrow> lowest_marker (a @ s) = lowest_marker s"
  by (induction a) (simp_all add: marker_def)

lemma replace_marker_Nil [simp]: "replace_marker n r [] = []"
  by (simp add: replace_marker.simps)

lemma replace_marker_clean_Cons: "c \<noteq> CHR ''%'' \<Longrightarrow> replace_marker n r (c # s) = c # replace_marker n r s"
  by (subst replace_marker.simps) (simp add: marker_def)

lemma replace_marker_clean: "no_percent a \<Longrightarrow> replace_marker n r (a @ s) = a @ replace_marker n r s"
  by (induction a) (simp_all add: replace_marker_clean_Cons)

lemma replace_marker_hit:
  "marker s = Some (n, rest) \<Longrightarrow> replace_marker n r s = r @ replace_marker n r rest"
  by (subst replace_marker.simps) (auto simp: marker_def split: list.splits)

lemma replace_marker_miss:
  "marker (c # s) = Some (m, rest) \<Longrightarrow> m \<noteq> n \<Longrightarrow> replace_marker n r (c # s) = c # replace_marker n r s"
  by (subst replace_marker.simps) simp

section \<open>Table (DBMeta/db_table.cpp)\<close>

record table =
  name :: string
  short_name :: string
  field_names :: "string list"

definition table_set_name :: "string \<Rightarrow> table \<Rightarrow> table" where
  "table_set_name v t = t\<lparr>name := v\<rparr>"

definition table_set_short_name :: "string \<Rightarrow> table \<Rightarrow> table" where
  "table_set_short_name v t = t\<lparr>short_name := v\<rparr>"

definition table_set_field_names :: "string list \<Rightarrow> table \<Rightarrow> table" where
  "table_set_field_names v t = t\<lparr>field_names := v\<rparr>"

definition table_not :: "table \<Rightarrow> bool" where
  "table_not t \<longleftrightarrow> name t = [] \<or> field_names t = []"

definition db_table_name :: "string \<Rightarrow> string \<Rightarrow> string" where
  "db_table_name table_name db_name = (if db_name = [] then table_name else db_name @ ''.'' @ table_name)"

definition db_table :: "table \<Rightarrow> string \<Rightarrow> table" where
  "db_table T db_name = T\<lparr>name := db_table_name (name T) db_name\<rparr>"

section \<open>Placeholders\<close>

text \<open>
  \<open>get_q_array\<close>: a string of question marks into which the loop writes brackets and commas at the
  positions it passes.  The functions give what stands from the current position on, \<open>n\<close> characters
  from the end, with \<open>c\<close> columns of the current row done.
\<close>

function (sequential) q_loop :: "nat \<Rightarrow> nat \<Rightarrow> nat \<Rightarrow> string"
  and q_cell :: "nat \<Rightarrow> nat \<Rightarrow> nat \<Rightarrow> string" where
  "q_loop fields_count n c =
     (if n = 0 then []
      else if c \<ge> fields_count then
        CHR '')'' # (if n = 1 then [] else CHR '','' # q_cell fields_count (n - 2) 0)
      else q_cell fields_count n c)"
| "q_cell fields_count n c =
     (if n = 0 then []
      else (if c = 0 then CHR ''('' else CHR '','') #
           (if n = 1 then [] else CHR ''?'' # q_loop fields_count (n - 2) (c + 1)))"
  by pat_completeness auto
termination
  by (relation "measure (\<lambda>x. case x of Inl (f, n, c) \<Rightarrow> 2 * n + 1 | Inr (f, n, c) \<Rightarrow> 2 * n)") auto

declare q_loop.simps [simp del] q_cell.simps [simp del]

definition get_q_array :: "nat \<Rightarrow> nat \<Rightarrow> string" where
  "get_q_array fields_count row_count = q_loop fields_count ((fields_count * 2 + 2) * row_count - 1) 0"

definition q_row :: "nat \<Rightarrow> string" where
  "q_row f = ''('' @ join '','' (replicate f ''?'') @ '')''"

text \<open>The list of placeholders in \<open>insert_query\<close>: commas at the odd positions.\<close>

definition q_list :: "nat \<Rightarrow> string" where
  "q_list k = map (\<lambda>i. if i mod 2 = 1 then CHR '','' else CHR ''?'') [0..<2 * k - 1]"

section \<open>Statements (Database/db_base.cpp)\<close>

definition escape_fields ::
    "(string \<Rightarrow> string) \<Rightarrow> table \<Rightarrow> nat list \<Rightarrow> bool \<Rightarrow> string list" where
  "escape_fields escape t field_ids use_short_name =
     (let prefix = (if use_short_name \<and> short_name t \<noteq> [] then short_name t @ ''.'' else [])
      in map (\<lambda>(i, f). escape (prefix @ f))
           (filter (\<lambda>(i, f). field_ids = [] \<or> i \<in> set field_ids) (enumerate 0 (field_names t))))"

definition create_table_query :: "table \<Rightarrow> string list \<Rightarrow> string" where
  "create_table_query t types =
     (if table_not t \<or> length (field_names t) \<noteq> length types then []
      else arg (arg ''create table if not exists %1 (%2)'' (name t))
             (join '','' (map2 (\<lambda>f ty. f @ '' '' @ ty) (field_names t) types)))"

definition select_query :: "(string \<Rightarrow> string) \<Rightarrow> table \<Rightarrow> string \<Rightarrow> nat list \<Rightarrow> string" where
  "select_query escape t suffix field_ids =
     (if table_not t then []
      else
        (let table_name = (if short_name t = [] then name t else name t @ '' '' @ short_name t)
         in arg (arg (arg ''SELECT %1 FROM %2 %3;''
              (join '','' (escape_fields escape t field_ids True))) table_name) suffix))"

definition insert_query ::
    "(string \<Rightarrow> string) \<Rightarrow> table \<Rightarrow> nat \<Rightarrow> string \<Rightarrow> nat list \<Rightarrow> string \<Rightarrow> string" where
  "insert_query escape t values_size suffix field_ids method =
     (let fields = escape_fields escape t field_ids False
      in if table_not t \<or> fields = [] \<or> count_char CHR ''?'' suffix + length fields \<noteq> values_size then []
         else
           (let sql = arg (arg (arg (method @ '' INTO %1(%2) VALUES(%3)'') (name t)) (join '','' fields))
                        (q_list (length fields))
            in (if suffix = [] then sql else sql @ '' '' @ suffix) @ '';''))"

definition update_query ::
    "(string \<Rightarrow> string) \<Rightarrow> table \<Rightarrow> nat \<Rightarrow> string \<Rightarrow> nat list \<Rightarrow> string" where
  "update_query escape t values_size where_clause field_ids =
     (let fields = escape_fields escape t field_ids False
      in if table_not t \<or> fields = [] \<or> count_char CHR ''?'' where_clause + length fields \<noteq> values_size
         then []
         else
           (let sql = arg (arg ''UPDATE %1 SET %2'' (name t)) (join '','' (map (\<lambda>f. f @ ''=?'') fields))
            in if where_clause = [] then sql else sql @ '' WHERE '' @ where_clause))"

definition del_query :: "string \<Rightarrow> string \<Rightarrow> string" where
  "del_query table_name where_clause =
     (if table_name = [] then []
      else ''DELETE FROM '' @ table_name @ (if where_clause = [] then [] else '' WHERE '' @ where_clause))"

definition truncate_query :: "string \<Rightarrow> string" where
  "truncate_query table_name = ''TRUNCATE TABLE '' @ table_name @ '';''"

definition row_count_query :: "string \<Rightarrow> string \<Rightarrow> string" where
  "row_count_query table_name where_clause =
     (if table_name = [] then []
      else ''SELECT COUNT(*) FROM '' @ table_name @
           (if where_clause = [] then [] else '' WHERE '' @ where_clause))"

section \<open>The texts\<close>

subsection \<open>Placeholders\<close>

fun cells :: "nat \<Rightarrow> nat \<Rightarrow> string" where
  "cells c 0 = []"
| "cells c (Suc k) = (if c = 0 then CHR ''('' else CHR '','') # CHR ''?'' # cells (Suc c) k"

lemma q_loop_row:
  "c \<le> f \<Longrightarrow> k = f - c \<Longrightarrow> 0 < m \<Longrightarrow> q_loop f (2 * k + m) c = cells c k @ q_loop f m f"
proof (induction k arbitrary: c)
  case 0
  then show ?case by simp
next
  case (Suc k)
  then have "c < f" "k = f - Suc c" by simp_all
  then have "q_loop f (2 * Suc k + m) c = q_cell f (2 * Suc k + m) c"
    by (subst q_loop.simps) simp
  also have "\<dots> = (if c = 0 then CHR ''('' else CHR '','') # CHR ''?'' # q_loop f (2 * k + m) (Suc c)"
    by (subst q_cell.simps) simp
  also have "q_loop f (2 * k + m) (Suc c) = cells (Suc c) k @ q_loop f m f"
    using Suc.prems by (intro Suc.IH) auto
  finally show ?case by simp
qed

lemma cells_Suc: "cells (Suc c) k = concat (replicate k '',?'')"
  by (induction k arbitrary: c) simp_all

lemma join_replicate: "join '','' (replicate (Suc k) ''?'') = ''?'' @ concat (replicate k '',?'')"
  by (induction k) simp_all

lemma cells_row: "0 < f \<Longrightarrow> cells 0 f @ '')'' = q_row f"
  by (cases f) (simp_all add: q_row_def join_replicate cells_Suc del: replicate.simps(2))

lemma q_cell_loop: "0 < f \<Longrightarrow> 0 < n \<Longrightarrow> q_cell f n 0 = q_loop f n 0"
  by (subst q_loop.simps) simp

lemma q_loop_rows:
  assumes "0 < f"
  shows "q_loop f ((2 * f + 2) * Suc r - 1) 0 = join '','' (replicate (Suc r) (q_row f))"
proof (induction r)
  case 0
  have "q_loop f (2 * f + 1) 0 = cells 0 f @ q_loop f 1 f"
    by (intro q_loop_row) simp_all
  also have "q_loop f 1 f = '')''" by (subst q_loop.simps) simp
  finally show ?case using cells_row [OF assms] by simp
next
  case (Suc r)
  let ?n = "(2 * f + 2) * Suc r - 1"
  have n: "0 < ?n" by simp
  have "(2 * f + 2) * Suc (Suc r) - 1 = 2 * f + (?n + 2)" using n by simp
  then have "q_loop f ((2 * f + 2) * Suc (Suc r) - 1) 0 = cells 0 f @ q_loop f (?n + 2) f"
    using q_loop_row [of 0 f f "?n + 2"] by simp
  also have "q_loop f (?n + 2) f = '')'' @ '','' @ q_cell f ?n 0"
    by (subst q_loop.simps) simp
  also have "q_cell f ?n 0 = join '','' (replicate (Suc r) (q_row f))"
    using q_cell_loop [OF assms n] Suc by simp
  finally show ?case
    using cells_row [OF assms] by (simp flip: append_assoc)
qed

lemma concat_replicate_snoc: "concat (replicate k x) @ x = concat (replicate (Suc k) x)"
  by (induction k) simp_all

lemma q_list_Suc: "q_list (Suc k) = ''?'' @ concat (replicate k '',?'')"
proof (induction k)
  case 0
  then show ?case by (simp add: q_list_def)
next
  case (Suc k)
  have "[0..<2 * Suc (Suc k) - 1] = [0..<2 * Suc k - 1] @ [2 * k + 1, 2 * k + 2]"
    by simp
  then have "q_list (Suc (Suc k)) = q_list (Suc k) @ '',?''"
    by (simp only: q_list_def map_append) simp
  also have "\<dots> = ''?'' @ concat (replicate k '',?'') @ '',?''" using Suc by simp
  also have "concat (replicate k '',?'') @ '',?'' = concat (replicate (Suc k) '',?'')"
    by (rule concat_replicate_snoc)
  finally show ?case .
qed

subsection \<open>Substitution\<close>

lemma replace_marker_Cons:
  "replace_marker n r (c # s) =
     (case marker (c # s) of
        Some (m, rest) \<Rightarrow> if m = n then r @ replace_marker n r rest else c # replace_marker n r s
      | None \<Rightarrow> c # replace_marker n r s)"
  by (subst replace_marker.simps) (simp split: option.splits)

lemmas marker_eval = marker_def digit_def replace_marker_Cons replace_marker_clean arg_def

lemma select_text:
  assumes "no_percent F" "no_percent T"
  shows "arg (arg (arg ''SELECT %1 FROM %2 %3;'' F) T) S = ''SELECT '' @ F @ '' FROM '' @ T @ '' '' @ S @ '';''"
  using assms by (simp add: marker_eval)

lemma insert_text:
  assumes "no_percent M" "no_percent N" "no_percent F"
  shows "arg (arg (arg (M @ '' INTO %1(%2) VALUES(%3)'') N) F) P =
    M @ '' INTO '' @ N @ ''('' @ F @ '') VALUES('' @ P @ '')''"
  using assms by (simp add: marker_eval)

lemma update_text:
  assumes "no_percent N"
  shows "arg (arg ''UPDATE %1 SET %2'' N) P = ''UPDATE '' @ N @ '' SET '' @ P"
  using assms by (simp add: marker_eval)

subsection \<open>Counting placeholders\<close>

lemma count_char_simps [simp]:
  "count_char c [] = 0" "count_char c (x # s) = (if x = c then Suc (count_char c s) else count_char c s)"
  "count_char c (s @ t) = count_char c s + count_char c t"
  by (simp_all add: count_char_def)

lemma count_join:
  "count_char CHR ''?'' (join '','' xs) = sum_list (map (count_char CHR ''?'') xs)"
  by (induction "'',''" xs rule: join.induct) simp_all

lemma no_percent_join: "no_percent (join '','' xs) \<longleftrightarrow> (\<forall>x \<in> set xs. no_percent x)"
  by (induction "'',''" xs rule: join.induct) simp_all

lemma count_concat_replicate: "count_char c (concat (replicate k x)) = k * count_char c x"
  by (induction k) simp_all

lemma q_list_eq: "0 < k \<Longrightarrow> q_list k = join '','' (replicate k ''?'')"
  by (cases k) (simp_all add: q_list_Suc join_replicate del: replicate.simps(2))

text \<open>Names as the application gives them: no percent sign and no question mark.\<close>

definition tame :: "string \<Rightarrow> bool" where
  "tame s \<longleftrightarrow> no_percent s \<and> count_char CHR ''?'' s = 0"

lemma count_tame_list: "\<forall>x \<in> set xs. tame x \<Longrightarrow> sum_list (map (count_char CHR ''?'') xs) = 0"
  by (induction xs) (simp_all add: tame_def)

section \<open>exec\<close>

text \<open>
  The connection as the loop sees it: whether it is open, opening it, running a prepared statement
  with bound values, closing it.
\<close>

record ('d, 'r) driver =
  drv_is_open :: "'d \<Rightarrow> bool"
  drv_open :: "'d \<Rightarrow> bool \<times> 'd"
  drv_exec :: "string \<Rightarrow> string list \<Rightarrow> 'd \<Rightarrow> 'r option \<times> 'd"
  drv_close :: "'d \<Rightarrow> 'd"

fun exec_loop ::
    "('d, 'r) driver \<Rightarrow> string \<Rightarrow> string list \<Rightarrow> nat \<Rightarrow> 'd \<Rightarrow> 'r option \<times> 'd" where
  "exec_loop D sql vals 0 d = (None, d)"
| "exec_loop D sql vals (Suc attempts) d =
     (case (if drv_is_open D d then (True, d) else drv_open D d) of
        (False, d1) \<Rightarrow> exec_loop D sql vals attempts d1
      | (True, d1) \<Rightarrow>
          (case drv_exec D sql vals d1 of
             (Some r, d2) \<Rightarrow> (Some r, d2)
           | (None, d2) \<Rightarrow> exec_loop D sql vals attempts (drv_close D d2)))"

definition exec :: "('d, 'r) driver \<Rightarrow> string \<Rightarrow> string list \<Rightarrow> 'd \<Rightarrow> 'r option \<times> 'd" where
  "exec D sql vals d = (if sql = [] then (None, d) else exec_loop D sql vals 3 d)"

text \<open>The operations that build a statement and run it.\<close>

definition db_select where
  "db_select D escape t suffix vals field_ids d = exec D (select_query escape t suffix field_ids) vals d"

definition db_create_table where
  "db_create_table D t types d =
     (case exec D (create_table_query t types) [] d of (r, d1) \<Rightarrow> (r \<noteq> None, d1))"

definition db_insert where
  "db_insert D escape t vals suffix field_ids method d =
     exec D (insert_query escape t (length vals) suffix field_ids method) vals d"

definition db_replace where
  "db_replace D escape t vals field_ids d = db_insert D escape t vals [] field_ids ''REPLACE'' d"

definition db_update where
  "db_update D escape t vals where_clause field_ids d =
     exec D (update_query escape t (length vals) where_clause field_ids) vals d"

definition db_del where
  "db_del D table_name where_clause vals d = exec D (del_query table_name where_clause) vals d"

definition db_truncate where
  "db_truncate D table_name d = exec D (truncate_query table_name) [] d"

text \<open>A row of the first column of the result, as a number; 0 when there is none.\<close>

definition db_row_count where
  "db_row_count D to_uint table_name where_clause vals d =
     (if table_name = [] then (0 :: u32, d)
      else (case exec D (row_count_query table_name where_clause) vals d of
              (None, d1) \<Rightarrow> (0, d1)
            | (Some r, d1) \<Rightarrow> (case to_uint r of None \<Rightarrow> 0 | Some n \<Rightarrow> n, d1)))"

section \<open>Connection_Info (Database/db_connection_info.cpp)\<close>

record connection_info =
  ci_port :: int
  ci_driver_name :: string
  ci_connect_options :: string
  ci_host :: string
  ci_db_name :: string
  ci_login :: string
  ci_password :: string
  ci_prefix :: string

text \<open>The settings of a \<open>QSqlDatabase\<close>; a fresh one has port -1 and empty strings.\<close>

record sql_database =
  sd_driver :: string
  sd_options :: string
  sd_port :: int
  sd_host :: string
  sd_user :: string
  sd_password :: string
  sd_name :: string

definition connection_info_new :: connection_info where
  "connection_info_new =
     \<lparr>ci_port = -1, ci_driver_name = [], ci_connect_options = [], ci_host = [], ci_db_name = [],
      ci_login = [], ci_password = [], ci_prefix = []\<rparr>"

text \<open>The constructor with all settings, and the setters.\<close>

definition connection_info_with ::
    "string \<Rightarrow> string \<Rightarrow> string \<Rightarrow> string \<Rightarrow> int \<Rightarrow> string \<Rightarrow> string \<Rightarrow> string \<Rightarrow> connection_info" where
  "connection_info_with db_name login password host port prefix driver_name connect_options =
     \<lparr>ci_port = port, ci_driver_name = driver_name, ci_connect_options = connect_options, ci_host = host,
      ci_db_name = db_name, ci_login = login, ci_password = password, ci_prefix = prefix\<rparr>"

definition ci_set_port :: "int \<Rightarrow> connection_info \<Rightarrow> connection_info" where
  "ci_set_port v ci = ci\<lparr>ci_port := v\<rparr>"

definition ci_set_driver_name :: "string \<Rightarrow> connection_info \<Rightarrow> connection_info" where
  "ci_set_driver_name v ci = ci\<lparr>ci_driver_name := v\<rparr>"

definition ci_set_connect_options :: "string \<Rightarrow> connection_info \<Rightarrow> connection_info" where
  "ci_set_connect_options v ci = ci\<lparr>ci_connect_options := v\<rparr>"

definition ci_set_host :: "string \<Rightarrow> connection_info \<Rightarrow> connection_info" where
  "ci_set_host v ci = ci\<lparr>ci_host := v\<rparr>"

definition ci_set_db_name :: "string \<Rightarrow> connection_info \<Rightarrow> connection_info" where
  "ci_set_db_name v ci = ci\<lparr>ci_db_name := v\<rparr>"

definition ci_set_login :: "string \<Rightarrow> connection_info \<Rightarrow> connection_info" where
  "ci_set_login v ci = ci\<lparr>ci_login := v\<rparr>"

definition ci_set_password :: "string \<Rightarrow> connection_info \<Rightarrow> connection_info" where
  "ci_set_password v ci = ci\<lparr>ci_password := v\<rparr>"

definition ci_set_prefix :: "string \<Rightarrow> connection_info \<Rightarrow> connection_info" where
  "ci_set_prefix v ci = ci\<lparr>ci_prefix := v\<rparr>"

lemmas ci_setters = ci_set_port_def ci_set_driver_name_def ci_set_connect_options_def ci_set_host_def ci_set_db_name_def
  ci_set_login_def ci_set_password_def ci_set_prefix_def

definition from_db :: "sql_database \<Rightarrow> string \<Rightarrow> connection_info" where
  "from_db db prefix =
     \<lparr>ci_port = sd_port db, ci_driver_name = sd_driver db, ci_connect_options = sd_options db,
      ci_host = sd_host db, ci_db_name = sd_name db, ci_login = sd_user db,
      ci_password = sd_password db, ci_prefix = prefix\<rparr>"

definition to_db :: "connection_info \<Rightarrow> sql_database" where
  "to_db ci =
     (let db = \<lparr>sd_driver = ci_driver_name ci, sd_options = [], sd_port = -1, sd_host = [], sd_user = [],
                sd_password = [], sd_name = []\<rparr>;
          db1 = (if ci_connect_options ci \<noteq> [] then db\<lparr>sd_options := ci_connect_options ci\<rparr> else db);
          db2 = (if ci_port ci > 0 then db1\<lparr>sd_port := ci_port ci\<rparr> else db1)
      in db2\<lparr>sd_host := ci_host ci, sd_user := ci_login ci, sd_password := ci_password ci,
             sd_name := ci_db_name ci\<rparr>)"

text \<open>The two static values: the common connection and the prefix of table names.\<close>

record db_statics =
  common_info :: connection_info
  common_prefix :: string

definition set_common :: "connection_info \<Rightarrow> db_statics \<Rightarrow> db_statics" where
  "set_common ci st = st\<lparr>common_info := ci, common_prefix := ci_prefix ci\<rparr>"

section \<open>Properties\<close>

text \<open>
  The loop that punches brackets and commas into a string of question marks writes, for
  any number of rows and any positive number of columns, the bracketed rows separated by commas.
\<close>

theorem get_q_array_is_rows:
  assumes "0 < fields_count"
  shows "get_q_array fields_count row_count = join '','' (replicate row_count (q_row fields_count))"
proof (cases row_count)
  case 0
  then show ?thesis by (simp add: get_q_array_def q_loop.simps)
next
  case (Suc r)
  then show ?thesis
    using q_loop_rows [OF assms, of r] by (simp add: get_q_array_def mult.commute)
qed

theorem get_q_array_is_rows_witness: "get_q_array 2 3 = ''(?,?),(?,?),(?,?)''"
  using get_q_array_is_rows [of 2 3] by (simp add: q_row_def numeral_eq_Suc)

text \<open>
  An insert statement is built only when it binds exactly the values it is given: the
  text is the method, the table, the chosen fields and one placeholder for each, and it contains as
  many placeholders as there are values.
\<close>

theorem insert_binds_all_values:
  assumes "insert_query escape t values_size suffix field_ids method \<noteq> []"
    and "tame method" "tame (name t)" "\<forall>f \<in> set (escape_fields escape t field_ids False). tame f"
  defines "cols \<equiv> escape_fields escape t field_ids False"
  shows "insert_query escape t values_size suffix field_ids method =
      method @ '' INTO '' @ name t @ ''('' @ join '','' cols @ '') VALUES('' @
      join '','' (replicate (length cols) ''?'') @ '')'' @
      (if suffix = [] then [] else '' '' @ suffix) @ '';'' \<and>
    count_char CHR ''?'' (insert_query escape t values_size suffix field_ids method) = values_size"
proof -
  have ne: "cols \<noteq> []" and size: "count_char CHR ''?'' suffix + length cols = values_size"
    and t: "\<not> table_not t"
    using assms(1) by (auto simp: insert_query_def cols_def Let_def split: if_splits)
  have q: "q_list (length cols) = join '','' (replicate (length cols) ''?'')"
    using ne by (simp add: q_list_eq)
  have clean: "no_percent method" "no_percent (name t)" "no_percent (join '','' cols)"
    using assms(2-4) by (auto simp: tame_def no_percent_join cols_def)
  have sql: "insert_query escape t values_size suffix field_ids method =
      method @ '' INTO '' @ name t @ ''('' @ join '','' cols @ '') VALUES('' @
      join '','' (replicate (length cols) ''?'') @ '')'' @
      (if suffix = [] then [] else '' '' @ suffix) @ '';''"
    using ne size t insert_text [OF clean] by (simp add: insert_query_def cols_def [symmetric] q Let_def)
  have "count_char CHR ''?'' (join '','' cols) = 0"
    using count_tame_list assms(4) by (simp add: count_join cols_def)
  moreover have "count_char CHR ''?'' (join '','' (replicate (length cols) ''?'')) = length cols"
    by (simp add: count_join sum_list_replicate)
  ultimately have "count_char CHR ''?'' (insert_query escape t values_size suffix field_ids method) = values_size"
    using assms(2,3) size by (auto simp: sql tame_def)
  with sql show ?thesis by simp
qed

text \<open>
  The same for update: one \<open>field=?\<close> for each chosen field, the condition behind it, and
  as many placeholders as values.
\<close>

theorem update_binds_all_values:
  assumes "update_query escape t values_size where_clause field_ids \<noteq> []"
    and "tame (name t)" "\<forall>f \<in> set (escape_fields escape t field_ids False). tame f"
  defines "cols \<equiv> escape_fields escape t field_ids False"
  shows "update_query escape t values_size where_clause field_ids =
      ''UPDATE '' @ name t @ '' SET '' @ join '','' (map (\<lambda>f. f @ ''=?'') cols) @
      (if where_clause = [] then [] else '' WHERE '' @ where_clause) \<and>
    count_char CHR ''?'' (update_query escape t values_size where_clause field_ids) = values_size"
proof -
  have size: "count_char CHR ''?'' where_clause + length cols = values_size"
    and ok: "\<not> table_not t" "cols \<noteq> []"
    using assms(1) by (auto simp: update_query_def cols_def Let_def split: if_splits)
  have sql: "update_query escape t values_size where_clause field_ids =
      ''UPDATE '' @ name t @ '' SET '' @ join '','' (map (\<lambda>f. f @ ''=?'') cols) @
      (if where_clause = [] then [] else '' WHERE '' @ where_clause)"
    using size ok assms(2) update_text [of "name t"]
    by (simp add: update_query_def cols_def [symmetric] Let_def tame_def)
  have "\<forall>f \<in> set cols. tame f" using assms(3) by (simp add: cols_def)
  then have "sum_list (map (count_char CHR ''?'' \<circ> (\<lambda>f. f @ ''=?'')) cols) = length cols"
    by (induction cols) (simp_all add: tame_def)
  then have "count_char CHR ''?'' (update_query escape t values_size where_clause field_ids) = values_size"
    using assms(2) size by (auto simp: sql tame_def count_join)
  with sql show ?thesis by simp
qed

text \<open>One attempt, and the state after a number of attempts that failed.\<close>

definition attempt :: "('d, 'r) driver \<Rightarrow> string \<Rightarrow> string list \<Rightarrow> 'd \<Rightarrow> 'r option \<times> 'd" where
  "attempt D sql vals d =
     (case (if drv_is_open D d then (True, d) else drv_open D d) of
        (False, d1) \<Rightarrow> (None, d1)
      | (True, d1) \<Rightarrow>
          (case drv_exec D sql vals d1 of
             (Some r, d2) \<Rightarrow> (Some r, d2) | (None, d2) \<Rightarrow> (None, drv_close D d2)))"

fun attempts_failed :: "('d, 'r) driver \<Rightarrow> string \<Rightarrow> string list \<Rightarrow> nat \<Rightarrow> 'd \<Rightarrow> 'd option" where
  "attempts_failed D sql vals 0 d = Some d"
| "attempts_failed D sql vals (Suc k) d =
     (case attempt D sql vals d of
        (None, d1) \<Rightarrow> attempts_failed D sql vals k d1 | (Some _, _) \<Rightarrow> None)"

lemma exec_loop_attempt:
  "exec_loop D sql vals (Suc n) d =
     (case attempt D sql vals d of (Some r, d1) \<Rightarrow> (Some r, d1) | (None, d1) \<Rightarrow> exec_loop D sql vals n d1)"
  by (auto simp: attempt_def split: prod.splits option.splits bool.splits)

lemma exec_loop_first_success:
  "exec_loop D sql vals n d = (Some r, d') \<longleftrightarrow>
     (\<exists>k < n. \<exists>d1. attempts_failed D sql vals k d = Some d1 \<and> attempt D sql vals d1 = (Some r, d'))"
proof (induction n arbitrary: d)
  case 0
  then show ?case by simp
next
  case (Suc n)
  obtain x d1 where a: "attempt D sql vals d = (x, d1)" by (cases "attempt D sql vals d")
  show ?case
  proof (cases x)
    case None
    have "(\<exists>k < Suc n. \<exists>d2. attempts_failed D sql vals k d = Some d2 \<and> attempt D sql vals d2 = (Some r, d'))
      \<longleftrightarrow> (\<exists>k < n. \<exists>d2. attempts_failed D sql vals k d1 = Some d2 \<and> attempt D sql vals d2 = (Some r, d'))"
      using a None by (auto simp: less_Suc_eq_0_disj)
    then show ?thesis using Suc a None by (simp only: exec_loop_attempt) simp
  next
    case (Some y)
    then show ?thesis using a by (simp only: exec_loop_attempt) (auto simp: less_Suc_eq_0_disj)
  qed
qed

text \<open>
  A statement is tried at most three times, each time on a connection that is open or
  has just been opened, the connection being closed after a failure; the result is that of the
  first attempt that succeeds, and none if all three fail or the text is empty.
\<close>

theorem exec_is_first_of_three_attempts:
  "exec D sql vals d = (Some r, d') \<longleftrightarrow>
     sql \<noteq> [] \<and>
     (\<exists>k < 3. \<exists>d1. attempts_failed D sql vals k d = Some d1 \<and> attempt D sql vals d1 = (Some r, d'))"
  by (simp add: exec_def exec_loop_first_success)

text \<open>
  Connection settings survive the way through a \<open>QSqlDatabase\<close>, for a positive port and
  for the default -1; the driver's own default replaces any other port.
\<close>

theorem connection_info_roundtrip:
  "from_db (to_db ci) (ci_prefix ci) = (if ci_port ci > 0 then ci else ci\<lparr>ci_port := -1\<rparr>)"
  by (cases ci) (simp add: from_db_def to_db_def Let_def)

text \<open>Settings that are set one by one are those of the constructor, whatever they were before.\<close>

lemma set_one_by_one:
  "ci_set_port port (ci_set_driver_name drv (ci_set_connect_options opts (ci_set_host host (ci_set_db_name db
     (ci_set_login login (ci_set_password pw (ci_set_prefix prefix ci))))))) =
   connection_info_with db login pw host port prefix drv opts"
  by (cases ci) (simp add: ci_setters connection_info_with_def)

section \<open>Examples\<close>

definition sample_table :: table where
  "sample_table = \<lparr>name = ''dev'', short_name = ''d'', field_names = [''id'', ''nm'']\<rparr>"

theorem insert_binds_all_values_witness:
  "insert_query (\<lambda>s. s) sample_table 2 [] [] ''INSERT'' = ''INSERT INTO dev(id,nm) VALUES(?,?);''"
  using insert_binds_all_values [of "\<lambda>s. s" sample_table 2 "[]" "[]" "''INSERT''"]
  by (simp add: insert_query_def escape_fields_def sample_table_def table_not_def Let_def tame_def
      numeral_eq_Suc)

theorem update_binds_all_values_witness:
  "update_query (\<lambda>s. s) sample_table 2 ''id=?'' [1] = ''UPDATE dev SET nm=? WHERE id=?''"
  using update_binds_all_values [of "\<lambda>s. s" sample_table 2 "''id=?''" "[1]"]
  by (simp add: update_query_def escape_fields_def sample_table_def table_not_def Let_def tame_def
      numeral_eq_Suc)

end
