(* ===== verification/Db_Builder.thy ===== *)
theory Db_Builder
  imports Db_Query
begin

text \<open>
  \<open>DBMeta/db_meta.h\<close> and \<open>Database/db_builder.h\<close>: the columns that the macro
  \<open>HELPZ_DB_META\<close> generates for a class, the construction of objects from result rows, and the
  texts that select rows by a list of numbers. An object type is described by its columns; the macros
  \<open>DB_A\<close> and its variants make the getter and the setter of a column from a member of the class
  and its type, with the conversions of \<open>QVariant\<close> as a parameter.
\<close>

section \<open>Columns (DBMeta/db_meta.h)\<close>

text \<open>
  The macro takes its arguments in groups of three: a column's name, its getter and its setter.
  \<open>None\<close> is the null \<open>QVariant\<close>.
\<close>

record ('o, 'v) column =
  col_name :: string
  col_get :: "'o \<Rightarrow> 'v option"
  col_set :: "'v option \<Rightarrow> 'o \<Rightarrow> 'o"

record ('o, 'v) meta =
  meta_table :: string
  meta_short_name :: string
  meta_use_common_prefix :: bool
  meta_columns :: "('o, 'v) column list"

definition meta_table_name :: "db_statics \<Rightarrow> ('o, 'v) meta \<Rightarrow> string" where
  "meta_table_name st M =
     (if meta_use_common_prefix M then common_prefix st @ meta_table M else meta_table M)"

definition table_column_names :: "('o, 'v) meta \<Rightarrow> string list" where
  "table_column_names M = map col_name (meta_columns M)"

definition col_count :: "('o, 'v) meta \<Rightarrow> nat" where
  "col_count M = length (meta_columns M)"

definition value_getter :: "('o, 'v) meta \<Rightarrow> 'o \<Rightarrow> nat \<Rightarrow> 'v option" where
  "value_getter M obj pos = (if pos < col_count M then col_get (meta_columns M ! pos) obj else None)"

definition value_setter :: "('o, 'v) meta \<Rightarrow> nat \<Rightarrow> 'v option \<Rightarrow> 'o \<Rightarrow> 'o" where
  "value_setter M pos v obj = (if pos < col_count M then col_set (meta_columns M ! pos) v obj else obj)"

definition to_variantlist :: "('o, 'v) meta \<Rightarrow> 'o \<Rightarrow> 'v option list" where
  "to_variantlist M obj = map (value_getter M obj) [0..<col_count M]"

text \<open>
  The macros for one column. An object is the list of its members, which the accessors \<open>A()\<close>,
  \<open>set_A\<close> and the member pointer \<open>&T::A\<close> read and write. Each macro names the type
  \<open>AT\<close> of the argument of its setter; \<open>DB_AT\<close> also has the two conversions
  \<open>A_to_db\<close> and \<open>set_A_from_db\<close> of the class.
\<close>

datatype ('t, 'v) attribute =
    DB_A 't
  | DB_AM 't
  | DB_AMN 't
  | DB_AN 't
  | DB_AT 't "'v \<Rightarrow> 'v" "'v \<Rightarrow> 'v"
  | DB_ANS 't

text \<open>
  What is used of Qt: \<open>value<T>()\<close> of a variant (\<open>None\<close> is the null variant), the
  conversion of a value to \<open>bool\<close>, \<open>isEmpty\<close>, and the text \<open>""\<close>.
\<close>

record ('t, 'v) qvariant_ops =
  qt_value :: "'t \<Rightarrow> 'v option \<Rightarrow> 'v"
  qt_true :: "'v \<Rightarrow> bool"
  qt_isEmpty :: "'v \<Rightarrow> bool"
  qt_empty_text :: 'v

fun attribute_get :: "('t, 'v) qvariant_ops \<Rightarrow> ('t, 'v) attribute \<Rightarrow> 'v \<Rightarrow> 'v option" where
  "attribute_get Q (DB_A t) v = Some v"
| "attribute_get Q (DB_AM t) v = Some v"
| "attribute_get Q (DB_AMN t) v = (if qt_true Q v then Some v else None)"
| "attribute_get Q (DB_AN t) v = (if qt_true Q v then Some v else None)"
| "attribute_get Q (DB_AT t wr rd) v = Some (wr v)"
| "attribute_get Q (DB_ANS t) v = Some (if qt_isEmpty Q v then qt_empty_text Q else v)"

definition db_set_value_from_variant ::
  "('t, 'v) qvariant_ops \<Rightarrow> 't \<Rightarrow> ('v \<Rightarrow> 'o \<Rightarrow> 'o) \<Rightarrow> 'v option \<Rightarrow> 'o \<Rightarrow> 'o" where
  "db_set_value_from_variant Q t setter x obj = setter (qt_value Q t x) obj"

fun attribute_set :: "('t, 'v) qvariant_ops \<Rightarrow> ('t, 'v) attribute \<Rightarrow> nat \<Rightarrow> 'v option \<Rightarrow> 'v list \<Rightarrow> 'v list" where
  "attribute_set Q (DB_A t) i = db_set_value_from_variant Q t (\<lambda>v obj. obj[i := v])"
| "attribute_set Q (DB_AM t) i = db_set_value_from_variant Q t (\<lambda>v obj. obj[i := v])"
| "attribute_set Q (DB_AMN t) i = db_set_value_from_variant Q t (\<lambda>v obj. obj[i := v])"
| "attribute_set Q (DB_AN t) i = db_set_value_from_variant Q t (\<lambda>v obj. obj[i := v])"
| "attribute_set Q (DB_AT t wr rd) i =
     db_set_value_from_variant Q t (\<lambda>v obj. obj[i := rd v])"
| "attribute_set Q (DB_ANS t) i = db_set_value_from_variant Q t (\<lambda>v obj. obj[i := v])"

definition class_columns ::
  "('t, 'v) qvariant_ops \<Rightarrow> (string \<times> ('t, 'v) attribute) list \<Rightarrow> ('v list, 'v) column list" where
  "class_columns Q attrs =
     map (\<lambda>(i, nm, a). \<lparr>col_name = nm, col_get = (\<lambda>obj. attribute_get Q a (obj ! i)), col_set = attribute_set Q a i\<rparr>)
       (enumerate 0 attrs)"

definition class_meta ::
  "('t, 'v) qvariant_ops \<Rightarrow> string \<Rightarrow> string \<Rightarrow> bool \<Rightarrow> (string \<times> ('t, 'v) attribute) list \<Rightarrow> ('v list, 'v) meta" where
  "class_meta Q t_name t_short_name prefix attrs =
     \<lparr>meta_table = t_name, meta_short_name = t_short_name, meta_use_common_prefix = prefix,
      meta_columns = class_columns Q attrs\<rparr>"

text \<open>\<open>db_table<T>(db_name)\<close> on the generated description.\<close>

definition meta_db_table :: "db_statics \<Rightarrow> ('o, 'v) meta \<Rightarrow> string \<Rightarrow> table" where
  "meta_db_table st M db_name =
     \<lparr>name = db_table_name (meta_table_name st M) db_name, short_name = meta_short_name M,
      field_names = table_column_names M\<rparr>"

section \<open>Objects from rows (Database/db_builder.h)\<close>

definition db_fill_item :: "('o, 'v) meta \<Rightarrow> 'v option list \<Rightarrow> 'o \<Rightarrow> 'o" where
  "db_fill_item M row item =
     fold (\<lambda>i. value_setter M i (row ! i)) [0..<min (col_count M) (length row)] item"

definition db_build :: "('o, 'v) meta \<Rightarrow> 'o \<Rightarrow> 'v option list \<Rightarrow> 'o" where
  "db_build M fresh row = db_fill_item M row fresh"

text \<open>\<open>while (q.next()) c.insert(c.end(), db_build<T>(q))\<close>\<close>

fun db_build_list :: "('o, 'v) meta \<Rightarrow> 'o \<Rightarrow> 'v option list list \<Rightarrow> 'o list \<Rightarrow> 'o list" where
  "db_build_list M fresh [] c = c"
| "db_build_list M fresh (row # rows) c = db_build_list M fresh rows (c @ [db_build M fresh row])"

definition db_build_first :: "('o, 'v) meta \<Rightarrow> 'o \<Rightarrow> 'v option list list \<Rightarrow> 'o" where
  "db_build_first M fresh rows = (case rows of [] \<Rightarrow> fresh | row # _ \<Rightarrow> db_build M fresh row)"

section \<open>Conditions\<close>

text \<open>\<open>QString::number\<close>\<close>

fun number :: "nat \<Rightarrow> string" where
  "number n = (if n < 10 then [char_of (48 + n)] else number (n div 10) @ [char_of (48 + n mod 10)])"

declare number.simps [simp del]

definition id_terms :: "nat list \<Rightarrow> string" where
  "id_terms ids = concat (map (\<lambda>i. number i @ '','') ids)"

text \<open>The last character of a string is replaced.\<close>

definition replace_last :: "string \<Rightarrow> char \<Rightarrow> string" where
  "replace_last s c = butlast s @ [c]"

definition db_get_items_list_suffix :: "('o, 'v) meta \<Rightarrow> nat list \<Rightarrow> nat \<Rightarrow> string" where
  "db_get_items_list_suffix M ids column_index =
     (if ids = [] \<or> length (table_column_names M) \<le> column_index then []
      else replace_last
        (''WHERE '' @ (if meta_short_name M \<noteq> [] then meta_short_name M @ ''.'' else []) @
         (table_column_names M ! column_index) @ '' IN ('' @ id_terms ids) CHR '')'')"

text \<open>\<open>None\<close> is \<open>first()\<close> of an empty list of columns.\<close>

definition db_build_item_suffix :: "('o, 'v) meta \<Rightarrow> nat \<Rightarrow> string option" where
  "db_build_item_suffix M i =
     (case table_column_names M of
        [] \<Rightarrow> None
      | c # _ \<Rightarrow> Some (''WHERE '' @ (if meta_short_name M \<noteq> [] then meta_short_name M @ ''.'' else []) @
                       c @ ''='' @ number i))"

text \<open>
  The overloads that run the statement themselves: \<open>select\<close> on the table of the class, the objects of the
  rows it yields, and nothing at all for an empty condition.
\<close>

definition db_build_list_suffix ::
    "('d, 'v option list list) driver \<Rightarrow> (string \<Rightarrow> string) \<Rightarrow> db_statics \<Rightarrow> ('o, 'v) meta \<Rightarrow> 'o
     \<Rightarrow> string \<Rightarrow> string \<Rightarrow> 'd \<Rightarrow> 'o list \<times> 'd" where
  "db_build_list_suffix D escape st M fresh suffix db_name d =
     (case db_select D escape (meta_db_table st M db_name) suffix [] [] d of
        (None, d1) \<Rightarrow> ([], d1)
      | (Some rows, d1) \<Rightarrow> (db_build_list M fresh rows [], d1))"

definition db_build_list_ids ::
    "('d, 'v option list list) driver \<Rightarrow> (string \<Rightarrow> string) \<Rightarrow> db_statics \<Rightarrow> ('o, 'v) meta \<Rightarrow> 'o
     \<Rightarrow> nat list \<Rightarrow> string \<Rightarrow> nat \<Rightarrow> 'd \<Rightarrow> 'o list \<times> 'd" where
  "db_build_list_ids D escape st M fresh ids db_name column_index d =
     (let suffix = db_get_items_list_suffix M ids column_index
      in if suffix = [] then ([], d)
         else db_build_list_suffix D escape st M fresh suffix db_name d)"

definition db_build_item ::
    "('d, 'v option list list) driver \<Rightarrow> (string \<Rightarrow> string) \<Rightarrow> db_statics \<Rightarrow> ('o, 'v) meta \<Rightarrow> 'o
     \<Rightarrow> nat \<Rightarrow> string \<Rightarrow> 'd \<Rightarrow> ('o \<times> 'd) option" where
  "db_build_item D escape st M fresh i db_name d =
     (case db_build_item_suffix M i of
        None \<Rightarrow> None
      | Some suffix \<Rightarrow>
          (case db_select D escape (meta_db_table st M db_name) suffix [] [] d of
             (None, d1) \<Rightarrow> Some (fresh, d1)
           | (Some rows, d1) \<Rightarrow> Some (db_build_first M fresh rows, d1)))"

text \<open>\<open>ids\<close> is the container, \<open>pack\<close> the pack of further arguments.\<close>

definition get_db_field_in_sql :: "string \<Rightarrow> nat list \<Rightarrow> nat list \<Rightarrow> string" where
  "get_db_field_in_sql field_name ids pack =
     (let one = (length pack + length ids = 1);
          sql = field_name @ (if one then ''='' else '' IN ('') @ id_terms ids @ id_terms pack
      in if one then butlast sql else replace_last sql CHR '')'')"

section \<open>Columns that can be read and written\<close>

text \<open>
  What Qt documents: a variant that holds a value of the type gives this value, the null variant gives the
  default value of the type, only the default value counts as false, and all empty texts are equal.
  \<open>of_type\<close> tells the values of a type.
\<close>

definition variant_documented :: "('t, 'v) qvariant_ops \<Rightarrow> ('t \<Rightarrow> 'v \<Rightarrow> bool) \<Rightarrow> ('t \<Rightarrow> 'v) \<Rightarrow> bool" where
  "variant_documented Q of_type dflt \<longleftrightarrow>
     (\<forall>t v. of_type t v \<longrightarrow> qt_value Q t (Some v) = v) \<and>
     (\<forall>t. qt_value Q t None = dflt t) \<and>
     (\<forall>t v. of_type t v \<and> \<not> qt_true Q v \<longrightarrow> v = dflt t) \<and>
     (\<forall>v. qt_isEmpty Q v \<longrightarrow> v = qt_empty_text Q)"

text \<open>
  A member of an object of the class: a value of the type of its column, or one that the two functions of a
  \<open>DB_AT\<close> column convert and convert back.
\<close>

fun member_ok :: "('t \<Rightarrow> 'v \<Rightarrow> bool) \<Rightarrow> ('t, 'v) attribute \<Rightarrow> 'v \<Rightarrow> bool" where
  "member_ok of_type (DB_A t) v \<longleftrightarrow> of_type t v"
| "member_ok of_type (DB_AM t) v \<longleftrightarrow> of_type t v"
| "member_ok of_type (DB_AMN t) v \<longleftrightarrow> of_type t v"
| "member_ok of_type (DB_AN t) v \<longleftrightarrow> of_type t v"
| "member_ok of_type (DB_AT t wr rd) v \<longleftrightarrow> of_type t (wr v) \<and> rd (wr v) = v"
| "member_ok of_type (DB_ANS t) v \<longleftrightarrow> of_type t v"

definition object_ok ::
  "('t \<Rightarrow> 'v \<Rightarrow> bool) \<Rightarrow> (string \<times> ('t, 'v) attribute) list \<Rightarrow> 'v list \<Rightarrow> bool" where
  "object_ok of_type attrs obj \<longleftrightarrow> list_all2 (\<lambda>(nm, a) v. member_ok of_type a v) attrs obj"

text \<open>The value a column takes from a field of a row.\<close>

fun read_member :: "('t, 'v) qvariant_ops \<Rightarrow> ('t, 'v) attribute \<Rightarrow> 'v option \<Rightarrow> 'v" where
  "read_member Q (DB_A t) x = qt_value Q t x"
| "read_member Q (DB_AM t) x = qt_value Q t x"
| "read_member Q (DB_AMN t) x = qt_value Q t x"
| "read_member Q (DB_AN t) x = qt_value Q t x"
| "read_member Q (DB_AT t wr rd) x = rd (qt_value Q t x)"
| "read_member Q (DB_ANS t) x = qt_value Q t x"

lemma attribute_set_read: "attribute_set Q a i x obj = obj[i := read_member Q a x]"
  by (cases a) (simp_all add: db_set_value_from_variant_def)

lemma read_written_member:
  assumes "variant_documented Q of_type dflt" and "member_ok of_type a v"
  shows "read_member Q a (attribute_get Q a v) = v"
  using assms by (cases a) (auto simp: variant_documented_def)

lemma class_meta_columns:
  "col_count (class_meta Q n s p attrs) = length attrs"
  "i < length attrs \<Longrightarrow> value_getter (class_meta Q n s p attrs) obj i = attribute_get Q (snd (attrs ! i)) (obj ! i)"
  "i < length attrs \<Longrightarrow>
     value_setter (class_meta Q n s p attrs) i x obj = obj[i := read_member Q (snd (attrs ! i)) x]"
  by (auto simp: class_meta_def class_columns_def col_count_def value_getter_def value_setter_def
      attribute_set_read nth_enumerate_eq split: prod.splits)

lemma fill_members:
  assumes "n \<le> length attrs" and "length obj = length attrs"
  shows "fold (\<lambda>i. value_setter (class_meta Q nm s p attrs) i (row ! i)) [0..<n] obj =
    map (\<lambda>i. read_member Q (snd (attrs ! i)) (row ! i)) [0..<n] @ drop n obj"
  using assms(1)
proof (induction n)
  case (Suc n)
  then show ?case
    using assms(2) by (simp add: class_meta_columns list_update_append flip: Cons_nth_drop_Suc)
qed simp

lemma build_members:
  assumes "length fresh = length attrs" and "k = min (length attrs) (length row)"
  shows "db_build (class_meta Q nm s p attrs) fresh row =
    map (\<lambda>i. read_member Q (snd (attrs ! i)) (row ! i)) [0..<k] @ drop k fresh"
  using assms by (simp add: db_build_def db_fill_item_def class_meta_columns(1) fill_members)

lemma build_to_variantlist:
  assumes "variant_documented Q of_type dflt" and "object_ok of_type attrs obj" and "length fresh = length attrs"
  shows "db_build (class_meta Q nm s p attrs) fresh (to_variantlist (class_meta Q nm s p attrs) obj) = obj"
proof -
  have len: "length obj = length attrs"
    using assms(2) by (simp add: object_ok_def list_all2_lengthD)
  have ok: "member_ok of_type (snd (attrs ! i)) (obj ! i)" if "i < length attrs" for i
    using assms(2) that by (auto simp: object_ok_def list_all2_conv_all_nth case_prod_beta)
  have "db_build (class_meta Q nm s p attrs) fresh (to_variantlist (class_meta Q nm s p attrs) obj) =
      map (\<lambda>i. obj ! i) [0..<length attrs]"
    using assms(3) read_written_member [OF assms(1) ok]
    by (simp add: build_members to_variantlist_def class_meta_columns)
  then show ?thesis
    by (simp add: map_nth flip: len)
qed

lemma db_build_list_map: "db_build_list M fresh rows c = c @ map (db_build M fresh) rows"
  by (induction M fresh rows c rule: db_build_list.induct) simp_all

lemma id_terms_join: "ids \<noteq> [] \<Longrightarrow> id_terms ids = join '','' (map number ids) @ '',''"
proof (induction ids)
  case (Cons i ids)
  then show ?case by (cases ids) (simp_all add: id_terms_def)
qed simp

section \<open>Properties\<close>

text \<open>
  Property C39.  Objects survive the database. A class has any columns made by \<open>DB_A\<close> and its
  variants over its members. From every row each member is taken from the field of its position, converted
  to the type of its column, as far as the row goes, and the members behind keep the values of a new object;
  and when \<open>QVariant\<close> converts as documented, the rows that \<open>to_variantlist\<close> makes
  of a list of objects, whose members are values of the types of their columns, are built back into the same
  objects, in the same order, behind what the container held.
\<close>

theorem objects_roundtrip:
  assumes "M = class_meta Q nm s p attrs" and "length fresh = length attrs"
  shows "(\<forall>row. length (db_build M fresh row) = length attrs \<and>
      (\<forall>i < length attrs. db_build M fresh row ! i =
        (if i < length row then read_member Q (snd (attrs ! i)) (row ! i) else fresh ! i))) \<and>
    (\<forall>of_type dflt. variant_documented Q of_type dflt \<and> list_all (object_ok of_type attrs) objs \<longrightarrow>
      db_build_list M fresh (map (to_variantlist M) objs) c = c @ objs)"
proof (intro conjI allI impI)
  fix row
  have "db_build M fresh row = map (\<lambda>i. read_member Q (snd (attrs ! i)) (row ! i))
      [0..<min (length attrs) (length row)] @ drop (min (length attrs) (length row)) fresh"
    unfolding assms(1) using assms(2) by (rule build_members) simp
  note members = this
  show "length (db_build M fresh row) = length attrs"
    using assms(2) by (simp add: members)
  show "db_build M fresh row ! i =
      (if i < length row then read_member Q (snd (attrs ! i)) (row ! i) else fresh ! i)"
    if "i < length attrs" for i
    using assms(2) that by (simp add: members nth_append)
next
  fix of_type dflt
  assume "variant_documented Q of_type dflt \<and> list_all (object_ok of_type attrs) objs"
  then have "\<forall>obj \<in> set objs. db_build M fresh (to_variantlist M obj) = obj"
    using build_to_variantlist [OF _ _ assms(2)] by (auto simp: list_all_iff assms(1))
  then show "db_build_list M fresh (map (to_variantlist M) objs) c = c @ objs"
    by (simp add: db_build_list_map map_idI)
qed

text \<open>
  A null in the row is read as the default value of the type: an object that writes a value as null and
  whose column is of the kind that does not is not told apart from one that holds the default value.
\<close>

lemma null_read_as_default:
  assumes "variant_documented Q of_type dflt"
  shows "attribute_set Q (DB_A t) i None obj = obj[i := dflt t]"
  using assms by (simp add: db_set_value_from_variant_def variant_documented_def)

text \<open>
  The condition on a list of numbers: an equation for a single number, otherwise a
  bracketed list, each number once and in order.
\<close>

theorem field_in_sql_text:
  assumes "ids @ pack \<noteq> []"
  shows "get_db_field_in_sql field_name ids pack =
    (case ids @ pack of
       [i] \<Rightarrow> field_name @ ''='' @ number i
     | _ \<Rightarrow> field_name @ '' IN ('' @ join '','' (map number (ids @ pack)) @ '')'')"
proof -
  have "id_terms ids @ id_terms pack = id_terms (ids @ pack)" by (simp add: id_terms_def)
  also have "\<dots> = join '','' (map number (ids @ pack)) @ '',''"
    using assms by (rule id_terms_join)
  finally have terms: "id_terms ids @ id_terms pack = join '','' (map number (ids @ pack)) @ '',''" .
  have last: "butlast (a @ b @ c @ '','') = a @ b @ c" for a b c
    by (simp add: butlast_append)
  show ?thesis
  proof (cases "length pack + length ids = 1")
    case True
    then obtain i where i: "ids @ pack = [i]"
      by (metis add.commute length_0_conv length_Suc_conv length_append One_nat_def)
    then show ?thesis
      using True terms last [of field_name "''=''" "number i"] by (simp add: get_db_field_in_sql_def Let_def)
  next
    case False
    then have "length (ids @ pack) \<noteq> 1" by simp
    with assms obtain i j r where ij: "ids @ pack = i # j # r"
      by (metis One_nat_def length_Cons list.exhaust list.size(3))
    have "get_db_field_in_sql field_name ids pack =
        butlast (field_name @ '' IN ('' @ join '','' (map number (ids @ pack)) @ '','') @ '')''"
      using False by (simp add: get_db_field_in_sql_def Let_def replace_last_def terms)
    then have "get_db_field_in_sql field_name ids pack =
        (field_name @ '' IN ('' @ join '','' (map number (ids @ pack))) @ '')''"
      by (simp only: last)
    then show ?thesis by (simp add: ij)
  qed
qed

text \<open>
  With no number at all the same function leaves an unbalanced bracket, which no database
  accepts.
\<close>

theorem field_in_sql_empty: "get_db_field_in_sql field_name [] [] = field_name @ '' IN )''"
  by (simp add: get_db_field_in_sql_def id_terms_def replace_last_def butlast_append)

text \<open>
  The suffix that selects rows by a list of numbers is empty exactly when there is no
  number or no such column, and otherwise names the column, with the short name of the table if it has
  one, and lists the numbers in brackets.
\<close>

theorem items_list_suffix_text:
  "db_get_items_list_suffix M ids column_index =
    (if ids = [] \<or> col_count M \<le> column_index then []
     else ''WHERE '' @ (if meta_short_name M \<noteq> [] then meta_short_name M @ ''.'' else []) @
       (table_column_names M ! column_index) @ '' IN ('' @ join '','' (map number ids) @ '')'')"
  by (simp add: db_get_items_list_suffix_def replace_last_def id_terms_join butlast_append
      col_count_def table_column_names_def)

section \<open>Examples\<close>

text \<open>Numbers and texts; a text is read as the number zero and a number as the empty text.\<close>

datatype cell = Cell_Int int | Cell_Text string

datatype cell_type = T_Int | T_Text

fun cell_value :: "cell_type \<Rightarrow> cell option \<Rightarrow> cell" where
  "cell_value T_Int (Some (Cell_Int n)) = Cell_Int n"
| "cell_value T_Int _ = Cell_Int 0"
| "cell_value T_Text (Some (Cell_Text x)) = Cell_Text x"
| "cell_value T_Text _ = Cell_Text []"

fun cell_of_type :: "cell_type \<Rightarrow> cell \<Rightarrow> bool" where
  "cell_of_type T_Int (Cell_Int n) \<longleftrightarrow> True"
| "cell_of_type T_Text (Cell_Text x) \<longleftrightarrow> True"
| "cell_of_type _ _ \<longleftrightarrow> False"

definition cell_qt :: "(cell_type, cell) qvariant_ops" where
  "cell_qt = \<lparr>qt_value = cell_value, qt_true = (\<lambda>v. v \<noteq> Cell_Int 0 \<and> v \<noteq> Cell_Text []),
     qt_isEmpty = (\<lambda>v. v = Cell_Text []), qt_empty_text = Cell_Text []\<rparr>"

lemma cell_variants_documented: "variant_documented cell_qt cell_of_type (\<lambda>t. cell_value t None)"
proof -
  have "cell_value t (Some v) = v" "\<not> qt_true cell_qt v \<Longrightarrow> v = cell_value t None" if "cell_of_type t v" for t v
    using that by (cases t; cases v; simp add: cell_qt_def)+
  then show ?thesis
    by (simp add: variant_documented_def) (simp add: cell_qt_def)
qed

fun negate :: "cell \<Rightarrow> cell" where
  "negate (Cell_Int n) = Cell_Int (- n)"
| "negate v = v"

definition pair_attributes :: "(string \<times> (cell_type, cell) attribute) list" where
  "pair_attributes =
     [(''id'', DB_A T_Int), (''parent'', DB_AN T_Int), (''title'', DB_ANS T_Text), (''value'', DB_AT T_Int negate negate)]"

definition pair_meta :: "(cell list, cell) meta" where
  "pair_meta = class_meta cell_qt ''pair'' ''p'' True pair_attributes"

theorem objects_roundtrip_witness:
  "to_variantlist pair_meta [Cell_Int 1, Cell_Int 0, Cell_Text [], Cell_Int 3] =
     [Some (Cell_Int 1), None, Some (Cell_Text []), Some (Cell_Int (- 3))] \<and>
   db_build_list pair_meta [Cell_Int 0, Cell_Int 0, Cell_Text [], Cell_Int 0]
     (map (to_variantlist pair_meta) [[Cell_Int 1, Cell_Int 0, Cell_Text [], Cell_Int 3]]) [] =
     [[Cell_Int 1, Cell_Int 0, Cell_Text [], Cell_Int 3]]"
proof
  show "to_variantlist pair_meta [Cell_Int 1, Cell_Int 0, Cell_Text [], Cell_Int 3] =
      [Some (Cell_Int 1), None, Some (Cell_Text []), Some (Cell_Int (- 3))]"
    by (simp add: to_variantlist_def pair_meta_def class_meta_columns pair_attributes_def cell_qt_def upt_rec)
  have "list_all (object_ok cell_of_type pair_attributes) [[Cell_Int 1, Cell_Int 0, Cell_Text [], Cell_Int 3]]"
    by (simp add: object_ok_def pair_attributes_def)
  moreover have "length [Cell_Int 0, Cell_Int 0, Cell_Text [], Cell_Int 0] = length pair_attributes"
    by (simp add: pair_attributes_def)
  note objects_roundtrip [OF pair_meta_def this]
  ultimately show "db_build_list pair_meta [Cell_Int 0, Cell_Int 0, Cell_Text [], Cell_Int 0]
     (map (to_variantlist pair_meta) [[Cell_Int 1, Cell_Int 0, Cell_Text [], Cell_Int 3]]) [] =
     [[Cell_Int 1, Cell_Int 0, Cell_Text [], Cell_Int 3]]"
    using cell_variants_documented by (metis append_Nil)
qed

theorem field_in_sql_text_witness:
  "get_db_field_in_sql ''id'' [4, 12] [] = ''id IN (4,12)''"
  using field_in_sql_text [of "[4, 12]" "[]" "''id''"] by (simp add: number.simps char_of_def bit_Suc_0_iff)

end
