(* ===== verification/Dtls_Session.thy ===== *)
theory Dtls_Session
  imports Db_Builder "HOL-Library.Sublist"
begin

text \<open>
  \<open>DTLS/dtls_session_manager_sql.cpp\<close>: TLS sessions kept in a database.  The statements are given with
  their texts and with their meaning on the two tables; the key derivation, the encryption of a
  session, the choice that \<open>limit\<close> makes and which statements the database takes are parameters.  What a
  call does depends on the thread it is made in: in the thread of the manager it runs the slot, in another thread
  it emits the signal.
\<close>

section \<open>State\<close>

record session_row =
  session_id :: string
  session_start :: int
  hostname :: string
  hostport :: nat
  session_blob :: bytes

record metadata_row =
  passphrase_salt :: bytes
  passphrase_iterations :: u32
  passphrase_check :: u32

record 's session_lib =
  pbkdf :: "string \<Rightarrow> bytes \<Rightarrow> u32 \<Rightarrow> bytes"
  encrypt :: "bytes \<Rightarrow> 's \<Rightarrow> bytes"
  decrypt :: "bytes \<Rightarrow> bytes \<Rightarrow> 's option"
  s_id :: "'s \<Rightarrow> bytes"
  s_start :: "'s \<Rightarrow> time"
  s_hostname :: "'s \<Rightarrow> string"
  s_port :: "'s \<Rightarrow> nat"

record session_manager =
  sm_sessions :: "session_row list"
  sm_session_key :: bytes
  sm_max_sessions :: nat
  sm_session_lifetime :: time

section \<open>Opening\<close>

datatype open_error = Password_Not_Valid | Multiple_Salts | Short_Derivation

definition make_uint16 :: "u8 \<Rightarrow> u8 \<Rightarrow> u32" where
  "make_uint16 hi lo = of_nat (256 * unat hi + unat lo)"

text \<open>The derived bytes: two for the check value, the rest is the session key.\<close>

definition derive :: "bytes \<Rightarrow> (u32 \<times> bytes) option" where
  "derive x = (case x of a # b # key \<Rightarrow> Some (make_uint16 a b, key) | _ \<Rightarrow> None)"

definition sm_new :: "session_row list \<Rightarrow> bytes \<Rightarrow> nat \<Rightarrow> time \<Rightarrow> session_manager" where
  "sm_new rows key max_sessions session_lifetime =
     \<lparr>sm_sessions = rows, sm_session_key = key, sm_max_sessions = max_sessions,
      sm_session_lifetime = session_lifetime\<rparr>"

text \<open>
  The constructor on the two tables: the session key and the metadata afterwards.  \<open>salt\<close> and
  \<open>iterations\<close> are what the random number generator and the timed derivation yield for a new database.
\<close>

definition sm_open ::
    "'s session_lib \<Rightarrow> string \<Rightarrow> bytes \<Rightarrow> u32 \<Rightarrow> metadata_row list \<Rightarrow> open_error + bytes \<times> metadata_row list" where
  "sm_open L passphrase salt iterations meta =
     (case meta of
        [m] \<Rightarrow>
          (case derive (pbkdf L passphrase (passphrase_salt m) (passphrase_iterations m)) of
             None \<Rightarrow> Inl Short_Derivation
           | Some (check, key) \<Rightarrow>
               if check \<noteq> passphrase_check m then Inl Password_Not_Valid else Inr (key, meta))
      | [] \<Rightarrow>
          (case derive (pbkdf L passphrase salt iterations) of
             None \<Rightarrow> Inl Short_Derivation
           | Some (check, key) \<Rightarrow>
               Inr (key, [\<lparr>passphrase_salt = salt, passphrase_iterations = iterations, passphrase_check = check\<rparr>]))
      | _ \<Rightarrow> Inl Multiple_Salts)"

section \<open>Texts\<close>

definition hex_digit :: "nat \<Rightarrow> char" where
  "hex_digit n = (if n < 10 then char_of (48 + n) else char_of (55 + n))"

definition hex_encode :: "bytes \<Rightarrow> string" where
  "hex_encode bs = concat (map (\<lambda>b. [hex_digit (unat b div 16), hex_digit (unat b mod 16)]) bs)"

definition quote :: char where
  "quote = char_of (39 :: nat)"

definition load_id_where :: "bytes \<Rightarrow> string" where
  "load_id_where sid = ''where session_id = '' @ [quote] @ hex_encode sid @ [quote]"

definition load_server_where :: "string \<Rightarrow> nat \<Rightarrow> string" where
  "load_server_where host port =
     arg (arg (''where hostname = '' @ [quote] @ ''%1'' @ [quote] @
       '' and hostport = %2 order by session_start desc'') host) (number port)"

definition remove_where :: "string \<Rightarrow> string" where
  "remove_where hex = ''session_id = '' @ [quote] @ hex @ [quote]"

definition expire_where :: "int \<Rightarrow> string" where
  "expire_where t =
     ''session_start <= '' @ (if t < 0 then ''-'' @ number (nat (- t)) else number (nat t))"

definition surplus_where :: "nat \<Rightarrow> string" where
  "surplus_where k = ''session_id in (select session_id from tls_sessions limit '' @ number k @ '')''"

definition sessions_table :: table where
  "sessions_table =
     \<lparr>name = ''tls_sessions'', short_name = ''ts'',
      field_names = [''session_id'', ''session_start'', ''hostname'', ''hostport'', ''session'']\<rparr>"

text \<open>
  The database: \<open>db_pick k ids\<close> are the numbers that \<open>select session_id ... limit
  k\<close> yields, and \<open>db_takes\<close> tells whether it takes a statement at a time. Where it does
  not, the query is not active and no result is looked at: the code goes on with the next statement.
\<close>

record session_db =
  db_pick :: "nat \<Rightarrow> string list \<Rightarrow> string list"
  db_takes :: "time \<Rightarrow> string \<Rightarrow> bool"

definition select_text :: "string \<Rightarrow> string" where
  "select_text where_text = select_query (\<lambda>f. f) sessions_table where_text [4]"

definition del_text :: "string \<Rightarrow> string" where
  "del_text cond = del_query (name sessions_table) cond"

definition replace_text :: string where
  "replace_text = insert_query (\<lambda>f. f) sessions_table 5 [] [] ''REPLACE''"

definition count_text :: string where
  "count_text = row_count_query ''tls_sessions'' []"

section \<open>Slots\<close>

text \<open>\<open>load_session_slot\<close>: the first selected row that can be decrypted.\<close>

fun load_session_slot :: "'s session_lib \<Rightarrow> bytes \<Rightarrow> session_row list \<Rightarrow> 's option" where
  "load_session_slot L key [] = None"
| "load_session_slot L key (r # rs) =
     (case decrypt L key (session_blob r) of Some s \<Rightarrow> Some s | None \<Rightarrow> load_session_slot L key rs)"

definition remove_entry_slot :: "session_db \<Rightarrow> time \<Rightarrow> string \<Rightarrow> session_manager \<Rightarrow> session_manager" where
  "remove_entry_slot D now hex m =
     (if db_takes D now (del_text (remove_where hex))
      then m\<lparr>sm_sessions := filter (\<lambda>r. session_id r \<noteq> hex) (sm_sessions m)\<rparr> else m)"

text \<open>\<open>numRowsAffected\<close> of a query that is not active is -1.\<close>

definition remove_all_slot :: "session_db \<Rightarrow> time \<Rightarrow> session_manager \<Rightarrow> int \<times> session_manager" where
  "remove_all_slot D now m =
     (if db_takes D now (del_text []) then (int (length (sm_sessions m)), m\<lparr>sm_sessions := []\<rparr>) else (-1, m))"

text \<open>\<open>duration_cast\<close> to seconds rounds towards zero.\<close>

definition to_seconds :: "time \<Rightarrow> int" where
  "to_seconds t = (if 0 \<le> t then t div seconds 1 else - ((- t) div seconds 1))"

definition expire_time :: "time \<Rightarrow> session_manager \<Rightarrow> int" where
  "expire_time now m = to_seconds (now - sm_session_lifetime m)"

definition expired :: "time \<Rightarrow> session_manager \<Rightarrow> session_row \<Rightarrow> bool" where
  "expired now m r \<longleftrightarrow> session_start r \<le> expire_time now m"

text \<open>The number of rows, which the database reports below \<open>2 ^ 32\<close>; 0 if the statement fails.\<close>

definition session_count :: "session_db \<Rightarrow> time \<Rightarrow> session_row list \<Rightarrow> nat" where
  "session_count D now rows = (if db_takes D now count_text then length rows else 0)"

definition prune_session_cache :: "session_db \<Rightarrow> time \<Rightarrow> session_manager \<Rightarrow> session_manager" where
  "prune_session_cache D now m =
     (let rows = (if db_takes D now (del_text (expire_where (expire_time now m)))
                  then filter (\<lambda>r. \<not> expired now m r) (sm_sessions m) else sm_sessions m);
          n = session_count D now rows;
          surplus = n - sm_max_sessions m
      in m\<lparr>sm_sessions :=
             (if 0 < sm_max_sessions m \<and> sm_max_sessions m < n \<and> db_takes D now (del_text (surplus_where surplus))
              then filter (\<lambda>r. session_id r \<notin> set (db_pick D surplus (map session_id rows))) rows
              else rows)\<rparr>)"

text \<open>\<open>REPLACE\<close> with the session number as the primary key.\<close>

definition replace_row :: "session_db \<Rightarrow> time \<Rightarrow> session_row \<Rightarrow> session_row list \<Rightarrow> session_row list" where
  "replace_row D now r rows =
     (if db_takes D now replace_text then filter (\<lambda>x. session_id x \<noteq> session_id r) rows @ [r] else rows)"

definition save_slot :: "session_db \<Rightarrow> time \<Rightarrow> session_row \<Rightarrow> session_manager \<Rightarrow> session_manager" where
  "save_slot D now r m = prune_session_cache D now (m\<lparr>sm_sessions := replace_row D now r (sm_sessions m)\<rparr>)"

section \<open>Calls\<close>

text \<open>
  What an event of the manager's thread does. The signal \<open>load_session\<close> is connected to itself,
  so that its event emits the signal again.
\<close>

datatype slot_call = Remove_Entry_Slot string | Remove_All_Slot | Save_Slot session_row | Emit_Load_Session string

text \<open>
  A call either has run its slot or has emitted its signal. The first argument of the calls,
  \<open>diff\<close>, is what \<open>check_db_thread_diff\<close> returns: the call is not made in the
  thread of the manager.
\<close>

datatype 'r call_outcome = Ran 'r | Emitted slot_call

definition load_from_session_id ::
    "bool \<Rightarrow> 's session_lib \<Rightarrow> session_db \<Rightarrow> time \<Rightarrow> bytes \<Rightarrow> session_manager \<Rightarrow> 's option call_outcome" where
  "load_from_session_id diff L D now sid m =
     (if diff then Emitted (Emit_Load_Session (load_id_where sid))
      else Ran (load_session_slot L (sm_session_key m)
        (if db_takes D now (select_text (load_id_where sid))
         then filter (\<lambda>r. session_id r = hex_encode sid) (sm_sessions m) else [])))"

definition load_from_server_info ::
    "bool \<Rightarrow> 's session_lib \<Rightarrow> session_db \<Rightarrow> time \<Rightarrow> string \<Rightarrow> nat \<Rightarrow> session_manager \<Rightarrow> 's option call_outcome" where
  "load_from_server_info diff L D now host port m =
     (if diff then Emitted (Emit_Load_Session (load_server_where host port))
      else Ran (load_session_slot L (sm_session_key m)
        (if db_takes D now (select_text (load_server_where host port))
         then sort_key (\<lambda>r. - session_start r)
           (filter (\<lambda>r. hostname r = host \<and> hostport r = port) (sm_sessions m)) else [])))"

definition remove_entry ::
    "bool \<Rightarrow> session_db \<Rightarrow> time \<Rightarrow> bytes \<Rightarrow> session_manager \<Rightarrow> session_manager call_outcome" where
  "remove_entry diff D now sid m =
     (if diff then Emitted (Remove_Entry_Slot (hex_encode sid)) else Ran (remove_entry_slot D now (hex_encode sid) m))"

text \<open>The number of rows is converted to \<open>size_t\<close>.\<close>

definition remove_all ::
    "bool \<Rightarrow> session_db \<Rightarrow> time \<Rightarrow> session_manager \<Rightarrow> (64 word \<times> session_manager) call_outcome" where
  "remove_all diff D now m =
     (if diff then Emitted Remove_All_Slot
      else Ran (case remove_all_slot D now m of (n, m1) \<Rightarrow> (word_of_int n, m1)))"

text \<open>The start is cast to \<open>int\<close>, of 32 bits.\<close>

definition session_values :: "'s session_lib \<Rightarrow> bytes \<Rightarrow> 's \<Rightarrow> session_row" where
  "session_values L key s =
     \<lparr>session_id = hex_encode (s_id L s), session_start = sint (of_int (to_seconds (s_start L s)) :: 32 word),
      hostname = s_hostname L s, hostport = s_port L s, session_blob = encrypt L key s\<rparr>"

definition save ::
    "bool \<Rightarrow> 's session_lib \<Rightarrow> session_db \<Rightarrow> time \<Rightarrow> 's \<Rightarrow> session_manager \<Rightarrow> session_manager call_outcome" where
  "save diff L D now s m =
     (let r = session_values L (sm_session_key m) s
      in if diff then Emitted (Save_Slot r) else Ran (save_slot D now r m))"

section \<open>Properties\<close>

definition ids_distinct :: "session_row list \<Rightarrow> bool" where
  "ids_distinct rows = distinct (map session_id rows)"

lemma distinct_map_filter_ids: "ids_distinct rows \<Longrightarrow> ids_distinct (filter P rows)"
  unfolding ids_distinct_def by (induction rows) auto

lemma ids_distinct_replace: "ids_distinct rows \<Longrightarrow> ids_distinct (replace_row D now r rows)"
  using distinct_map_filter_ids [of rows "\<lambda>x. session_id x \<noteq> session_id r"]
  by (auto simp: replace_row_def ids_distinct_def)

lemma length_filter_picked:
  assumes "ids_distinct rows" "distinct ps" "set ps \<subseteq> set (map session_id rows)"
  shows "length (filter (\<lambda>r. session_id r \<notin> set ps) rows) = length rows - length ps"
proof -
  have "length (filter (\<lambda>r. session_id r \<in> set ps) rows) = card (set ps)"
  proof -
    have "map session_id (filter (\<lambda>r. session_id r \<in> set ps) rows) = filter (\<lambda>i. i \<in> set ps) (map session_id rows)"
      by (simp add: filter_map comp_def)
    moreover have "distinct (filter (\<lambda>i. i \<in> set ps) (map session_id rows))"
      using assms(1) by (simp add: ids_distinct_def)
    ultimately have "length (filter (\<lambda>r. session_id r \<in> set ps) rows) =
        card (set (filter (\<lambda>i. i \<in> set ps) (map session_id rows)))"
      by (metis distinct_card length_map)
    also have "set (filter (\<lambda>i. i \<in> set ps) (map session_id rows)) = set ps" using assms(3) by auto
    finally show ?thesis .
  qed
  then show ?thesis
    using sum_length_filter_compl [of "\<lambda>r. session_id r \<in> set ps" rows] assms(2)
    by (simp add: distinct_card)
qed

text \<open>What \<open>limit\<close> promises: as many of the numbers as were asked for.\<close>

definition picks :: "session_db \<Rightarrow> bool" where
  "picks D \<longleftrightarrow> (\<forall>k ids. k \<le> length ids \<longrightarrow> distinct ids \<longrightarrow>
     distinct (db_pick D k ids) \<and> length (db_pick D k ids) = k \<and> set (db_pick D k ids) \<subseteq> set ids)"

lemma expired_sessions [simp]:
  "expire_time now (m\<lparr>sm_sessions := x\<rparr>) = expire_time now m" "expired now (m\<lparr>sm_sessions := x\<rparr>) = expired now m"
  by (simp_all add: expire_time_def expired_def fun_eq_iff)

text \<open>The rows after the expired sessions were deleted, as far as the database did so.\<close>

definition kept_rows :: "session_db \<Rightarrow> time \<Rightarrow> session_manager \<Rightarrow> session_row list" where
  "kept_rows D now m =
     (if db_takes D now (del_text (expire_where (expire_time now m)))
      then filter (\<lambda>r. \<not> expired now m r) (sm_sessions m) else sm_sessions m)"

lemma prune_rows:
  "sm_sessions (prune_session_cache D now m) =
     (let rows = kept_rows D now m; n = session_count D now rows; k = n - sm_max_sessions m
      in if 0 < sm_max_sessions m \<and> sm_max_sessions m < n \<and> db_takes D now (del_text (surplus_where k))
         then filter (\<lambda>r. session_id r \<notin> set (db_pick D k (map session_id rows))) rows else rows)"
  by (simp add: prune_session_cache_def kept_rows_def Let_def)

lemma save_slot_key [simp]: "sm_session_key (save_slot D now r m) = sm_session_key m"
  by (simp add: save_slot_def prune_session_cache_def Let_def)

lemma prune_bounded:
  assumes "picks D" and "ids_distinct (sm_sessions m)" and "0 < sm_max_sessions m"
    and "db_takes D now count_text" and "\<And>k. db_takes D now (del_text (surplus_where k))"
  shows "length (sm_sessions (prune_session_cache D now m)) \<le> sm_max_sessions m"
proof -
  let ?rows = "kept_rows D now m"
  let ?ps = "db_pick D (length ?rows - sm_max_sessions m) (map session_id ?rows)"
  have d: "ids_distinct ?rows"
    using assms(2) by (simp add: kept_rows_def distinct_map_filter_ids)
  have "distinct ?ps \<and> length ?ps = length ?rows - sm_max_sessions m \<and> set ?ps \<subseteq> set (map session_id ?rows)"
    using assms(1) d unfolding picks_def ids_distinct_def by (metis diff_le_self length_map)
  with d have "length (filter (\<lambda>r. session_id r \<notin> set ?ps) ?rows) =
      length ?rows - (length ?rows - sm_max_sessions m)"
    using length_filter_picked by metis
  then show ?thesis
    using assms(3-5) by (simp add: prune_rows session_count_def Let_def)
qed

text \<open>
  Property C31.  After a session is saved, in the thread of the manager or by the event that another thread has posted,
  session numbers are unique, whichever statements the database has taken.  If it took the one that deletes the
  expired sessions no session older than the lifetime is left, and if it took the count and
  the deletion of the surplus, and the number of sessions is limited, the limit is kept, whichever
  sessions the database picks.  If it refused the deletion of the surplus, all sessions that have not expired stay.
\<close>

theorem save_keeps_cache_bounded:
  assumes "ids_distinct (sm_sessions m)" and "picks D" and "m' = save_slot D now r m"
  shows "ids_distinct (sm_sessions m') \<and>
    (db_takes D now (del_text (expire_where (expire_time now m))) \<longrightarrow>
       (\<forall>x \<in> set (sm_sessions m'). expire_time now m < session_start x)) \<and>
    (db_takes D now count_text \<and> (\<forall>k. db_takes D now (del_text (surplus_where k))) \<longrightarrow>
       0 < sm_max_sessions m \<longrightarrow> length (sm_sessions m') \<le> sm_max_sessions m) \<and>
    ((\<forall>k. \<not> db_takes D now (del_text (surplus_where k))) \<longrightarrow>
       (\<forall>x \<in> set (sm_sessions m). expire_time now m < session_start x \<longrightarrow> session_id x \<noteq> session_id r \<longrightarrow>
         x \<in> set (sm_sessions m')))"
proof -
  let ?m = "m\<lparr>sm_sessions := replace_row D now r (sm_sessions m)\<rparr>"
  have m': "sm_sessions m' = sm_sessions (prune_session_cache D now ?m)"
    by (simp add: assms(3) save_slot_def)
  have d: "ids_distinct (sm_sessions ?m)"
    using assms(1) by (simp add: ids_distinct_replace)
  then have "ids_distinct (kept_rows D now ?m)"
    by (simp add: kept_rows_def distinct_map_filter_ids)
  then have "ids_distinct (sm_sessions m')"
    by (simp add: m' prune_rows Let_def distinct_map_filter_ids)
  moreover have "set (sm_sessions m') \<subseteq> set (kept_rows D now ?m)"
    by (auto simp: m' prune_rows Let_def)
  moreover have "x \<in> set (kept_rows D now ?m)"
    if "x \<in> set (sm_sessions m)" "expire_time now m < session_start x" "session_id x \<noteq> session_id r" for x
    using that by (simp add: kept_rows_def replace_row_def expired_def)
  ultimately show ?thesis
    using prune_bounded [OF assms(2) d, of now]
    by (auto simp: m' prune_rows Let_def kept_rows_def expired_def not_le)
qed

text \<open>
  Property C32.  In the thread of the manager, a session that is saved is found again under its number by every later
  load in that thread, if it has not outlived the lifetime when it is saved, the cache has room for it, and
  the database takes the statements that write it and read it.
\<close>

theorem saved_session_is_loaded:
  assumes "decrypt L (sm_session_key m) (encrypt L (sm_session_key m) s) = Some s"
    and "\<not> expired now m (session_values L (sm_session_key m) s)"
    and "sm_max_sessions m = 0 \<or> length (sm_sessions m) < sm_max_sessions m"
    and "db_takes D now replace_text" and "db_takes D later (select_text (load_id_where (s_id L s)))"
  shows "\<exists>m'. save False L D now s m = Ran m' \<and>
    load_from_session_id False L D later (s_id L s) m' = Ran (Some s)"
proof -
  let ?r = "session_values L (sm_session_key m) s"
  let ?m = "m\<lparr>sm_sessions := replace_row D now ?r (sm_sessions m)\<rparr>"
  let ?rows = "kept_rows D now ?m"
  let ?m' = "save_slot D now ?r m"
  have "length ?rows \<le> length (replace_row D now ?r (sm_sessions m))"
    by (simp add: kept_rows_def)
  also have "\<dots> \<le> length (sm_sessions m) + 1"
    by (simp add: replace_row_def)
  finally have "\<not> (0 < sm_max_sessions m \<and> sm_max_sessions m < session_count D now ?rows)"
    using assms(3) by (auto simp: session_count_def)
  then have rows: "sm_sessions ?m' = ?rows"
    by (auto simp: save_slot_def prune_rows Let_def)
  have "filter (\<lambda>r. session_id r = session_id ?r) ?rows = [?r]"
    using assms(2,4) by (auto simp: kept_rows_def replace_row_def filter_empty_conv)
  then have "load_from_session_id False L D later (s_id L s) ?m' = Ran (Some s)"
    using assms(1,5) by (simp add: load_from_session_id_def rows save_slot_key) (simp add: session_values_def)
  then show ?thesis
    by (simp add: save_def Let_def)
qed

text \<open>
  In another thread the same call emits the signal instead, and nothing is loaded.
\<close>

lemma load_in_other_thread_emits:
  "load_from_session_id True L D now sid m = Emitted (Emit_Load_Session (load_id_where sid))"
  by (simp add: load_from_session_id_def)

text \<open>
  MySQL, the driver that is used unless another is named, does not take a subquery with \<open>limit\<close>
  behind \<open>in\<close>. There the cache grows without limit: every session that is saved and has not
  expired is added.
\<close>

theorem limit_not_kept:
  assumes "\<And>k. \<not> db_takes D now (del_text (surplus_where k))"
    and "db_takes D now replace_text" and "\<not> expired now m r"
    and "\<forall>x \<in> set (sm_sessions m). \<not> expired now m x \<and> session_id x \<noteq> session_id r"
  shows "sm_sessions (save_slot D now r m) = sm_sessions m @ [r]"
proof -
  have "filter (\<lambda>x. session_id x \<noteq> session_id r) (sm_sessions m) = sm_sessions m"
    "filter (\<lambda>x. \<not> expired now m x) (sm_sessions m) = sm_sessions m"
    using assms(4) by (auto intro: filter_True)
  then show ?thesis
    using assms(1-3) by (simp add: save_slot_def prune_rows kept_rows_def replace_row_def Let_def)
qed

text \<open>
  A database that was created with a passphrase opens with it again and yields the same
  session key; a passphrase whose check value differs is refused.
\<close>

theorem passphrase_roundtrip:
  assumes "sm_open L pass salt iterations [] = Inr (key, meta)"
  shows "sm_open L pass salt' iterations' meta = Inr (key, meta) \<and>
    (\<forall>other check' key'. derive (pbkdf L other salt iterations) = Some (check', key') \<longrightarrow>
       map passphrase_check meta \<noteq> [check'] \<longrightarrow>
       sm_open L other salt' iterations' meta = Inl Password_Not_Valid)"
  using assms by (auto simp: sm_open_def split: option.splits prod.splits if_splits)

text \<open>A session that starts after the 32-bit seconds have run out is expired as soon as it is saved.\<close>

lemma late_session_expires_at_once:
  assumes "s_start L s = seconds 2147483648" "now = s_start L s" "sm_session_lifetime m = seconds 7200"
  shows "expired now m (session_values L key s)"
  using assms by (simp add: expired_def expire_time_def session_values_def to_seconds_def seconds_def)

section \<open>Examples\<close>

text \<open>Sessions are numbers here, kept in clear.\<close>

definition plain_lib :: "nat session_lib" where
  "plain_lib =
     \<lparr>pbkdf = (\<lambda>pass salt it. [1, 2, of_nat (length pass)]), encrypt = (\<lambda>key s. [of_nat s]),
      decrypt = (\<lambda>key b. case b of [x] \<Rightarrow> Some (unat x) | _ \<Rightarrow> None), s_id = (\<lambda>s. [of_nat s]),
      s_start = (\<lambda>s. seconds 100), s_hostname = (\<lambda>s. ''host''), s_port = (\<lambda>s. 443)\<rparr>"

text \<open>A database that takes every statement and one that takes only those that end in a semicolon.\<close>

definition willing_db :: session_db where
  "willing_db = \<lparr>db_pick = take, db_takes = (\<lambda>_ _. True)\<rparr>"

definition keeping_db :: session_db where
  "keeping_db = \<lparr>db_pick = take, db_takes = (\<lambda>_ q. last q = CHR '';'')\<rparr>"

lemma keeping_db_takes: "\<not> db_takes keeping_db now (del_text (surplus_where k))" "db_takes keeping_db now replace_text"
  by (simp_all add: keeping_db_def del_text_def del_query_def surplus_where_def sessions_table_def replace_text_def insert_query_def
      escape_fields_def table_not_def Let_def) 

lemma limit_not_kept_example:
  "length (sm_sessions (save_slot keeping_db (seconds 110) (session_values plain_lib [3] 6)
     (sm_new [session_values plain_lib [3] 5] [3] 1 (seconds 60)))) = 2"
proof -
  have "sm_sessions (save_slot keeping_db (seconds 110) (session_values plain_lib [3] 6)
      (sm_new [session_values plain_lib [3] 5] [3] 1 (seconds 60))) =
    sm_sessions (sm_new [session_values plain_lib [3] 5] [3] 1 (seconds 60)) @ [session_values plain_lib [3] 6]"
    by (rule limit_not_kept)
      (simp_all add: keeping_db_takes sm_new_def expired_def expire_time_def session_values_def
        plain_lib_def seconds_def to_seconds_def hex_encode_def hex_digit_def)
  then show ?thesis
    by (simp add: sm_new_def)
qed

lemma willing_db_picks: "picks willing_db"
  by (auto simp: picks_def willing_db_def dest: in_set_takeD)

theorem save_keeps_cache_bounded_witness:
  "length (sm_sessions (save_slot willing_db (seconds 110) (session_values plain_lib [3] 5)
     (sm_new [] [3] 1 (seconds 60)))) \<le> 1"
  using save_keeps_cache_bounded [OF _ willing_db_picks refl, of "sm_new [] [3] 1 (seconds 60)" "seconds 110"
      "session_values plain_lib [3] 5"]
  by (simp add: sm_new_def ids_distinct_def willing_db_def)

theorem saved_session_is_loaded_witness:
  "\<exists>m'. save False plain_lib willing_db (seconds 110) 5 (sm_new [] [3] 1 (seconds 60)) = Ran m' \<and>
     load_from_session_id False plain_lib willing_db (seconds 115) [5] m' = Ran (Some 5)"
  using saved_session_is_loaded [of plain_lib "sm_new [] [3] 1 (seconds 60)" 5 "seconds 110" willing_db "seconds 115"]
  by (simp add: plain_lib_def sm_new_def expired_def expire_time_def session_values_def seconds_def to_seconds_def
      willing_db_def)

theorem passphrase_roundtrip_witness:
  "sm_open plain_lib ''pw'' [7] 7
     [\<lparr>passphrase_salt = [9], passphrase_iterations = 5, passphrase_check = 258\<rparr>] =
   Inr ([2], [\<lparr>passphrase_salt = [9], passphrase_iterations = 5, passphrase_check = 258\<rparr>])"
proof -
  have "sm_open plain_lib ''pw'' [9] 5 [] =
      Inr ([2], [\<lparr>passphrase_salt = [9], passphrase_iterations = 5, passphrase_check = 258\<rparr>])"
    by (simp add: sm_open_def plain_lib_def derive_def make_uint16_def)
  from passphrase_roundtrip [OF this] show ?thesis by simp
qed

end
