(* ===== verification/Session_Threads.thy ===== *)
theory Session_Threads
  imports Dtls_Session Worker_Pool
begin

text \<open>
  \<open>DTLS/dtls_session_manager_sql.cpp\<close>: the session manager lives in the thread of its database.
  A call from that thread runs the slot at once; a call from another thread emits a signal, which posts an
  event to the thread of the manager, and all but the removal of one entry block until the event has been
  handled.
\<close>

section \<open>State\<close>

datatype 's session_call = Load_Session_Id bytes | Load_Server_Info string nat | Remove_Entry bytes | Remove_All | Save 's

datatype slot_result = Removed int | Nothing_Returned

datatype 's session_result = Loaded "'s option" | Returned slot_result

text \<open>
  An event carries the caller that waits for it. \<open>owner_blocked\<close>: the thread of the manager
  waits inside a handler. The last two fields are the history: the slots that have run, each with whether it
  was posted and its time, and what callers got.
\<close>

record session_threads =
  manager :: session_manager
  events :: "(nat option \<times> slot_call) list"
  owner_blocked :: bool
  blocked :: "nat list"
  slots_run :: "(bool \<times> slot_call \<times> time) list"
  results :: "(nat \<times> slot_result) list"

definition session_threads_new :: "session_manager \<Rightarrow> session_threads" where
  "session_threads_new m =
     \<lparr>manager = m, events = [], owner_blocked = False, blocked = [], slots_run = [], results = []\<rparr>"

section \<open>Calls\<close>

fun run_slot :: "session_db \<Rightarrow> time \<Rightarrow> slot_call \<Rightarrow> session_manager \<Rightarrow> slot_result \<times> session_manager" where
  "run_slot D now (Remove_Entry_Slot hex) m = (Nothing_Returned, remove_entry_slot D now hex m)"
| "run_slot D now Remove_All_Slot m = (case remove_all_slot D now m of (n, m1) \<Rightarrow> (Removed n, m1))"
| "run_slot D now (Save_Slot r) m = (Nothing_Returned, save_slot D now r m)"
| "run_slot D now (Emit_Load_Session q) m = (Nothing_Returned, m)"

text \<open>What a call hands over; a session is encrypted in the thread of the caller.\<close>

fun slot_of :: "'s session_lib \<Rightarrow> bytes \<Rightarrow> 's session_call \<Rightarrow> slot_call" where
  "slot_of L key (Load_Session_Id sid) = Emit_Load_Session (load_id_where sid)"
| "slot_of L key (Load_Server_Info host port) = Emit_Load_Session (load_server_where host port)"
| "slot_of L key (Remove_Entry sid) = Remove_Entry_Slot (hex_encode sid)"
| "slot_of L key Remove_All = Remove_All_Slot"
| "slot_of L key (Save s) = Save_Slot (session_values L key s)"

fun is_load :: "slot_call \<Rightarrow> bool" where
  "is_load (Emit_Load_Session q) = True"
| "is_load _ = False"

text \<open>The types of the connections: only the removal of an entry does not block.\<close>

fun is_blocking :: "slot_call \<Rightarrow> bool" where
  "is_blocking (Remove_Entry_Slot hex) = False"
| "is_blocking _ = True"

text \<open>What a load in the thread of the manager has found.\<close>

fun loaded :: "'s option call_outcome \<Rightarrow> 's option" where
  "loaded (Ran x) = x"
| "loaded (Emitted q) = None"

text \<open>A call in the thread of the manager; \<open>None\<close>: that thread is blocked.\<close>

definition own_call ::
    "'s session_lib \<Rightarrow> session_db \<Rightarrow> time \<Rightarrow> 's session_call \<Rightarrow> session_threads \<Rightarrow>
     ('s session_result \<times> session_threads) option" where
  "own_call L D now c s =
     (if owner_blocked s then None
      else Some
        (case c of
           Load_Session_Id sid \<Rightarrow> (Loaded (loaded (load_from_session_id False L D now sid (manager s))), s)
         | Load_Server_Info host port \<Rightarrow>
             (Loaded (loaded (load_from_server_info False L D now host port (manager s))), s)
         | _ \<Rightarrow>
             let q = slot_of L (sm_session_key (manager s)) c
             in case run_slot D now q (manager s) of
                  (r, m) \<Rightarrow> (Returned r, s\<lparr>manager := m, slots_run := slots_run s @ [(False, q, now)]\<rparr>)))"

text \<open>A call in another thread \<open>k\<close>; \<open>None\<close>: this thread still waits.\<close>

definition other_call :: "'s session_lib \<Rightarrow> nat \<Rightarrow> 's session_call \<Rightarrow> session_threads \<Rightarrow> session_threads option" where
  "other_call L k c s =
     (if k \<in> set (blocked s) then None
      else
        (let q = slot_of L (sm_session_key (manager s)) c
         in if is_blocking q then Some (s\<lparr>events := events s @ [(Some k, q)], blocked := blocked s @ [k]\<rparr>)
            else Some (s\<lparr>events := events s @ [(None, q)], results := results s @ [(k, Nothing_Returned)]\<rparr>)))"

text \<open>
  The thread of the manager handles its next event.  The signal \<open>load_session\<close>, emitted there, posts an event to
  the same thread and waits for it, which Qt reports as a dead lock.
\<close>

definition handle_event :: "session_db \<Rightarrow> time \<Rightarrow> session_threads \<Rightarrow> session_threads option" where
  "handle_event D now s =
     (if owner_blocked s then None
      else
        (case events s of
           [] \<Rightarrow> None
         | (k, q) # evs \<Rightarrow>
             if is_load q then Some (s\<lparr>events := evs @ [(None, q)], owner_blocked := True\<rparr>)
             else
               (case run_slot D now q (manager s) of
                  (r, m) \<Rightarrow>
                    let s1 = s\<lparr>manager := m, events := evs, slots_run := slots_run s @ [(True, q, now)]\<rparr>
                    in Some (case k of
                               None \<Rightarrow> s1
                             | Some i \<Rightarrow> s1\<lparr>blocked := remove1 i (blocked s1), results := results s1 @ [(i, r)]\<rparr>))))"

datatype 's session_event = Own_Call time "'s session_call" | Other_Call nat "'s session_call" | Handle_Event time

inductive session_step ::
    "'s session_lib \<Rightarrow> session_db \<Rightarrow> session_threads \<Rightarrow> 's session_event \<Rightarrow> session_threads \<Rightarrow> bool" for L D where
  own: "own_call L D now c s = Some (r, s') \<Longrightarrow> session_step L D s (Own_Call now c) s'"
| other: "other_call L k c s = Some s' \<Longrightarrow> session_step L D s (Other_Call k c) s'"
| handle: "handle_event D now s = Some s' \<Longrightarrow> session_step L D s (Handle_Event now) s'"

inductive_cases session_stepE: "session_step L D s e s'"

section \<open>Facts\<close>

lemma slots_keep_key [simp]:
  "sm_session_key (remove_entry_slot D now hex m) = sm_session_key m"
  "sm_session_key (snd (remove_all_slot D now m)) = sm_session_key m"
  by (simp_all add: remove_entry_slot_def remove_all_slot_def)

text \<open>In another thread every call emits the signal whose event this model posts.\<close>

lemma calls_emit_slots:
  "load_from_session_id True L D now sid m = Emitted (slot_of L (sm_session_key m) (Load_Session_Id sid))"
  "load_from_server_info True L D now host port m = Emitted (slot_of L (sm_session_key m) (Load_Server_Info host port))"
  "remove_entry True D now sid m = Emitted (slot_of L (sm_session_key m) (Remove_Entry sid))"
  "remove_all True D now m = Emitted (slot_of L (sm_session_key m) Remove_All)"
  "save True L D now s m = Emitted (slot_of L (sm_session_key m) (Save s))"
  by (simp_all add: load_from_session_id_def load_from_server_info_def remove_entry_def remove_all_def save_def Let_def)

text \<open>In the thread of the manager the calls run the slots of this model.\<close>

lemma calls_run_slots:
  "remove_entry False D now sid m = Ran (snd (run_slot D now (slot_of L key (Remove_Entry sid)) m))"
  "\<exists>n. fst (run_slot D now Remove_All_Slot m) = Removed n \<and>
     remove_all False D now m = Ran (word_of_int n, snd (run_slot D now Remove_All_Slot m))"
  "save False L D now s m = Ran (snd (run_slot D now (slot_of L (sm_session_key m) (Save s)) m))"
  by (simp_all add: remove_entry_def remove_all_def save_def Let_def split_beta)

lemma run_slot_key [simp]: "sm_session_key (snd (run_slot D now q m)) = sm_session_key m"
  by (cases q) (simp_all add: split_beta)

definition slot_effect :: "session_db \<Rightarrow> bool \<times> slot_call \<times> time \<Rightarrow> session_manager \<Rightarrow> session_manager" where
  "slot_effect D x m = (case x of (_, q, now) \<Rightarrow> snd (run_slot D now q m))"

text \<open>The slots that the calls of a sequence of events ask for, in other threads and in the thread of the manager.\<close>

definition posted_slots :: "'s session_lib \<Rightarrow> bytes \<Rightarrow> 's session_event list \<Rightarrow> slot_call list" where
  "posted_slots L key es = concat (map (\<lambda>e. case e of Other_Call k c \<Rightarrow> [slot_of L key c] | _ \<Rightarrow> []) es)"

definition own_slots :: "'s session_lib \<Rightarrow> bytes \<Rightarrow> 's session_event list \<Rightarrow> (slot_call \<times> time) list" where
  "own_slots L key es = concat (map (\<lambda>e. case e of
       Own_Call now c \<Rightarrow> if is_load (slot_of L key c) then [] else [(slot_of L key c, now)] | _ \<Rightarrow> []) es)"

lemma posted_slots_append [simp]: "posted_slots L key (es @ fs) = posted_slots L key es @ posted_slots L key fs"
  by (simp add: posted_slots_def)

lemma own_slots_append [simp]: "own_slots L key (es @ fs) = own_slots L key es @ own_slots L key fs"
  by (simp add: own_slots_def)

definition callers :: "session_threads \<Rightarrow> nat list" where
  "callers s = List.map_filter fst (events s)"

text \<open>Who waits: each blocked thread waits for one event, unless the thread of the manager is blocked.\<close>

definition waiting_ok :: "session_threads \<Rightarrow> bool" where
  "waiting_ok s \<longleftrightarrow> distinct (callers s) \<and> distinct (blocked s) \<and> set (callers s) \<subseteq> set (blocked s) \<and>
     (\<not> owner_blocked s \<longrightarrow> set (callers s) = set (blocked s))"

lemma map_filter_append [simp]: "List.map_filter f (xs @ ys) = List.map_filter f xs @ List.map_filter f ys"
  by (simp add: List.map_filter_def)

lemma waiting_ok_step: "waiting_ok s \<Longrightarrow> session_step L D s e s' \<Longrightarrow> waiting_ok s'"
  by (erule session_stepE)
    (auto simp: waiting_ok_def callers_def own_call_def other_call_def handle_event_def Let_def List.map_filter_simps
      split: if_splits option.splits list.splits prod.splits session_call.splits)

lemma waiting_ok_run: "run_of (session_step L D) (session_threads_new m) es s \<Longrightarrow> waiting_ok s"
proof (induction rule: run_of.induct)
  case run_start
  show ?case by (simp add: waiting_ok_def callers_def session_threads_new_def List.map_filter_simps)
qed (rule waiting_ok_step)

text \<open>As long as no other thread loads a session:\<close>

definition handed_over ::
    "'s session_lib \<Rightarrow> session_db \<Rightarrow> session_manager \<Rightarrow> 's session_event list \<Rightarrow> session_threads \<Rightarrow> bool" where
  "handed_over L D m es s \<longleftrightarrow>
     posted_slots L (sm_session_key m) es = map (\<lambda>(_, q, _). q) (filter fst (slots_run s)) @ map snd (events s) \<and>
     own_slots L (sm_session_key m) es = map snd (filter (\<lambda>x. \<not> fst x) (slots_run s)) \<and>
     manager s = fold (slot_effect D) (slots_run s) m \<and>
     sm_session_key (manager s) = sm_session_key m \<and> \<not> owner_blocked s"

definition no_other_load :: "'s session_lib \<Rightarrow> bytes \<Rightarrow> 's session_event list \<Rightarrow> bool" where
  "no_other_load L key es = list_all (\<lambda>q. \<not> is_load q) (posted_slots L key es)"

lemma own_call_handed_over:
  assumes "handed_over L D m es s" "own_call L D now c s = Some (r, s')"
  shows "handed_over L D m (es @ [Own_Call now c]) s'"
  using assms
  by (cases c)
    (auto simp: handed_over_def own_call_def Let_def posted_slots_def own_slots_def slot_effect_def split_beta
      split: if_splits)

lemma other_call_handed_over:
  assumes "handed_over L D m es s" "other_call L k c s = Some s'"
  shows "handed_over L D m (es @ [Other_Call k c]) s'"
  using assms by (auto simp: handed_over_def other_call_def Let_def posted_slots_def own_slots_def split: if_splits)

lemma handle_event_handed_over:
  assumes "handed_over L D m es s" "handle_event D now s = Some s'" "no_other_load L (sm_session_key m) es"
  shows "handed_over L D m (es @ [Handle_Event now]) s'"
proof -
  obtain k q evs where e: "events s = (k, q) # evs" and b: "\<not> owner_blocked s"
    using assms(2) by (auto simp: handle_event_def split: if_splits list.splits)
  have "\<not> is_load q" using assms(1,3) e by (auto simp: handed_over_def no_other_load_def)
  then show ?thesis
    using assms(1,2) e b
    by (auto simp: handed_over_def handle_event_def posted_slots_def own_slots_def slot_effect_def split_beta Let_def
        split: option.splits)
qed

lemma handed_over_run:
  "run_of (session_step L D) (session_threads_new m) es s \<Longrightarrow> no_other_load L (sm_session_key m) es \<Longrightarrow>
   handed_over L D m es s"
proof (induction rule: run_of.induct)
  case run_start
  show ?case by (simp add: handed_over_def session_threads_new_def posted_slots_def own_slots_def)
next
  case (run_step es s e s')
  then have "handed_over L D m es s" "no_other_load L (sm_session_key m) es"
    by (simp_all add: no_other_load_def)
  with run_step.hyps(2) show ?case
    by (auto elim!: session_stepE intro: own_call_handed_over other_call_handed_over handle_event_handed_over)
qed

section \<open>Properties\<close>

text \<open>
  Property C33.  The hand-over loses and repeats nothing: as long as no other thread loads a session, the calls of the other
  threads run exactly once and in the order they were made, between the calls of the thread of the manager, which
  run in their order; the stored sessions are those of this one sequence; and the threads that wait are
  those with an event that is still to be handled.
\<close>

theorem session_calls_in_order:
  assumes "run_of (session_step L D) (session_threads_new m) es s" "no_other_load L (sm_session_key m) es"
  shows "posted_slots L (sm_session_key m) es = map (\<lambda>(_, q, _). q) (filter fst (slots_run s)) @ map snd (events s) \<and>
    own_slots L (sm_session_key m) es = map snd (filter (\<lambda>x. \<not> fst x) (slots_run s)) \<and>
    manager s = fold (slot_effect D) (slots_run s) m \<and>
    set (blocked s) = set (callers s) \<and> \<not> owner_blocked s"
  using handed_over_run [OF assms] waiting_ok_run [OF assms(1)] by (simp add: handed_over_def waiting_ok_def)

lemma handle_event_possible:
  assumes "handed_over L D m es s" "no_other_load L (sm_session_key m) es" "events s = e # evs"
  shows "\<exists>s'. handle_event D now s = Some s' \<and> events s' = evs"
proof -
  obtain k q where e: "e = (k, q)" by fastforce
  have "\<not> is_load q" "\<not> owner_blocked s" using assms e by (auto simp: handed_over_def no_other_load_def)
  then show ?thesis using assms(3) e by (auto simp: handle_event_def Let_def split: prod.split option.split)
qed

lemma events_drain:
  "run_of (session_step L D) (session_threads_new m) es s \<Longrightarrow> no_other_load L (sm_session_key m) es \<Longrightarrow>
   length (events s) = n \<Longrightarrow>
   \<exists>s'. run_of (session_step L D) s (replicate n (Handle_Event now)) s' \<and> events s' = [] \<and> blocked s' = []"
proof (induction n arbitrary: es s)
  case 0
  then have "blocked s = []"
    using waiting_ok_run [OF "0.prems"(1)] handed_over_run [OF "0.prems"(1,2)]
    by (simp add: waiting_ok_def handed_over_def callers_def List.map_filter_simps)
  then show ?case using "0.prems"(3) run_of.run_start [of "session_step L D" s] by auto
next
  case (Suc n)
  obtain e evs where "events s = e # evs" using Suc.prems(3) by (cases "events s") auto
  then obtain s1 where s1: "handle_event D now s = Some s1" "length (events s1) = n"
    using handle_event_possible [OF handed_over_run [OF Suc.prems(1,2)] Suc.prems(2)] Suc.prems(3) by force
  then have step: "session_step L D s (Handle_Event now) s1" by (intro session_step.handle)
  have "no_other_load L (sm_session_key m) (es @ [Handle_Event now])"
    using Suc.prems(2) by (simp add: no_other_load_def posted_slots_def)
  from Suc.IH [OF run_of.run_step [OF Suc.prems(1) step] this s1(2)] show ?case
    using run_Cons [of "session_step L D" s "Handle_Event now" s1, OF step] by auto
qed

text \<open>
  Property C34.  No caller is left waiting: from every state that is reached without a load from another thread, as
  many steps of the thread of the manager as there are events handle all of them and release every thread that waits.
\<close>

theorem session_callers_released:
  assumes "run_of (session_step L D) (session_threads_new m) es s" "no_other_load L (sm_session_key m) es"
  shows "\<exists>s'. run_of (session_step L D) s (replicate (length (events s)) (Handle_Event now)) s' \<and>
    events s' = [] \<and> blocked s' = []"
  by (rule events_drain [OF assms refl])

section \<open>What goes wrong\<close>

text \<open>A load from another thread never returns, whatever the threads do afterwards.\<close>

definition load_stuck :: "nat \<Rightarrow> session_threads \<Rightarrow> bool" where
  "load_stuck k s \<longleftrightarrow> waiting_ok s \<and> k \<in> set (blocked s) \<and>
     (owner_blocked s \<or> (\<exists>q. (Some k, q) \<in> set (events s) \<and> is_load q))"

lemma caller_once:
  assumes "waiting_ok s" "events s = (Some k, q) # evs"
  shows "(Some k, q') \<notin> set evs"
proof
  assume "(Some k, q') \<in> set evs"
  then have "k \<in> set (List.map_filter fst evs)" by (auto simp: List.map_filter_def intro: rev_image_eqI)
  then show False using assms by (simp add: waiting_ok_def callers_def List.map_filter_simps)
qed

lemma load_stuck_step: "load_stuck k s \<Longrightarrow> session_step L D s e s' \<Longrightarrow> load_stuck k s'"
proof -
  assume st: "load_stuck k s" and step: "session_step L D s e s'"
  have "k \<in> set (blocked s') \<and> (owner_blocked s' \<or> (\<exists>q. (Some k, q) \<in> set (events s') \<and> is_load q))"
    using step
  proof cases
    case (own now c r)
    then show ?thesis using st
      by (auto simp: load_stuck_def own_call_def Let_def split: if_splits session_call.splits prod.splits)
  next
    case (other k c)
    then show ?thesis using st by (auto simp: load_stuck_def other_call_def Let_def split: if_splits)
  next
    case (handle now)
    then obtain i q evs where e: "events s = (i, q) # evs" "\<not> owner_blocked s"
      by (auto simp: handle_event_def split: if_splits list.splits)
    then obtain q' where q': "(Some k, q') \<in> set (events s)" "is_load q'" using st by (auto simp: load_stuck_def)
    have "\<not> is_load q \<Longrightarrow> i \<noteq> Some k \<and> (Some k, q') \<in> set evs"
      using q' e(1) caller_once [of s k q evs q'] st by (auto simp: load_stuck_def)
    then show ?thesis
      using handle(2) e st q'(2)
      by (auto simp: handle_event_def load_stuck_def Let_def split_beta in_set_remove1 split: if_splits option.splits)
  qed
  then show ?thesis using st step waiting_ok_step by (auto simp: load_stuck_def)
qed

lemma load_from_other_thread_never_returns:
  assumes "run_of (session_step L D) (session_threads_new m) es s" "other_call L k (Load_Session_Id sid) s = Some s1"
    and "run_of (session_step L D) s1 fs s2"
  shows "k \<in> set (blocked s2)"
proof -
  have "session_step L D s (Other_Call k (Load_Session_Id sid)) s1" using assms(2) by (rule session_step.other)
  then have "waiting_ok s1" using waiting_ok_run [OF assms(1)] waiting_ok_step by blast
  then have "load_stuck k s1"
    using assms(2) by (auto simp: load_stuck_def other_call_def Let_def split: if_splits)
  with assms(3) have "load_stuck k s2"
    by (induction rule: run_of.induct) (auto intro: load_stuck_step)
  then show ?thesis by (simp add: load_stuck_def)
qed

section \<open>Examples\<close>

text \<open>Thread 7 saves the session 5, thread 8 removes the entry 9, and the first event is handled.\<close>

definition sample_events :: "nat session_event list" where
  "sample_events = [Other_Call 7 (Save 5), Other_Call 8 (Remove_Entry [9]), Handle_Event (seconds 110)]"

definition sample_manager :: session_manager where
  "sample_manager = sm_new [] [3] 1 (seconds 60)"

lemma sample_events_run:
  "\<exists>s. run_of (session_step plain_lib willing_db) (session_threads_new sample_manager) sample_events s \<and>
     length (events s) = 1"
proof -
  let ?s0 = "session_threads_new sample_manager"
  obtain s1 where 1: "other_call plain_lib 7 (Save 5) ?s0 = Some s1" "owner_blocked s1 = False" "blocked s1 = [7]"
      "\<exists>q. events s1 = [(Some 7, Save_Slot q)]"
    by (simp add: other_call_def session_threads_new_def)
  obtain s2 where 2: "other_call plain_lib 8 (Remove_Entry [9]) s1 = Some s2" "owner_blocked s2 = False"
      "\<exists>q h. events s2 = [(Some 7, Save_Slot q), (None, Remove_Entry_Slot h)]"
    using 1 by (auto simp: other_call_def)
  obtain s3 where 3: "handle_event willing_db (seconds 110) s2 = Some s3" "length (events s3) = 1"
    using 2 by (auto simp: handle_event_def)
  have "run_of (session_step plain_lib willing_db) ?s0 sample_events s3"
    unfolding sample_events_def
    by (rule run_Cons, rule session_step.other, rule 1(1), rule run_Cons, rule session_step.other, rule 2(1),
        rule run_Cons, rule session_step.handle, rule 3(1), rule run_start)
  then show ?thesis using 3(2) by blast
qed

lemma sample_events_no_load: "no_other_load plain_lib key sample_events"
  by (simp add: no_other_load_def posted_slots_def sample_events_def)

theorem session_calls_in_order_witness:
  "\<exists>s. run_of (session_step plain_lib willing_db) (session_threads_new sample_manager) sample_events s \<and>
     length (filter fst (slots_run s)) = 1 \<and> filter (\<lambda>x. \<not> fst x) (slots_run s) = [] \<and> \<not> owner_blocked s"
proof -
  obtain s where s: "run_of (session_step plain_lib willing_db) (session_threads_new sample_manager) sample_events s"
    "length (events s) = 1" using sample_events_run by blast
  note o = session_calls_in_order [OF s(1) sample_events_no_load]
  have "length (posted_slots plain_lib (sm_session_key sample_manager) sample_events) = 2"
    by (simp add: posted_slots_def sample_events_def)
  then have "length (filter fst (slots_run s)) = 1" using o s(2) by simp
  moreover have "own_slots plain_lib (sm_session_key sample_manager) sample_events = []"
    by (simp add: own_slots_def sample_events_def)
  ultimately show ?thesis using o s(1) by auto
qed

theorem session_callers_released_witness:
  "\<exists>s s'. run_of (session_step plain_lib willing_db) (session_threads_new sample_manager) sample_events s \<and>
     run_of (session_step plain_lib willing_db) s [Handle_Event (seconds 120)] s' \<and> blocked s' = []"
proof -
  obtain s where s: "run_of (session_step plain_lib willing_db) (session_threads_new sample_manager) sample_events s"
    "length (events s) = 1" using sample_events_run by blast
  with session_callers_released [OF s(1) sample_events_no_load, of "seconds 120"] show ?thesis by auto
qed

end
