(* ===== verification/Db_Thread.thy ===== *)
theory Db_Thread
  imports Worker_Pool Db_Query
begin

text \<open>
  \<open>Database/db_thread.cpp\<close>: threads that run queued database work.  The state is the queue, the break
  flag and what each thread is doing; \<open>run\<close> is cut at the places where the mutex is free.  The pool
  satisfies the contract \<open>task_pool\<close>.
\<close>

section \<open>State\<close>

text \<open>A task is a callback of the application or a statement with its list of value lists.\<close>

datatype db_task =
    Callback nat
  | Pending_Query string "string list list" "nat option"

record db_thread =
  dt_break_flag :: bool
  data_queue :: "db_task list"
  thread_work :: "db_task option list"
  thread_ended :: "bool list"
  dt_started :: "db_task list"
  dt_finished :: "db_task list"

definition db_thread_new :: "nat \<Rightarrow> db_thread" where
  "db_thread_new thread_count =
     \<lparr>dt_break_flag = False, data_queue = [], thread_work = replicate thread_count None,
      thread_ended = replicate thread_count False, dt_started = [], dt_finished = []\<rparr>"

section \<open>Operations\<close>

text \<open>
  A thread that waits may go on whenever the condition of its wait holds: the calls that change the condition notify, and the
  notifications themselves are not modelled.
\<close>

definition dt_stop :: "db_thread \<Rightarrow> db_thread" where
  "dt_stop s = s\<lparr>dt_break_flag := True\<rparr>"

text \<open>The destructor stops the threads, then it waits until all of them are joined.\<close>

definition dt_joined :: "db_thread \<Rightarrow> bool" where
  "dt_joined s \<longleftrightarrow> (\<forall>e \<in> set (thread_ended s). e)"

definition add_task :: "db_task \<Rightarrow> db_thread \<Rightarrow> db_thread" where
  "add_task t s = s\<lparr>data_queue := data_queue s @ [t]\<rparr>"

definition add_query :: "nat \<Rightarrow> db_thread \<Rightarrow> db_thread" where
  "add_query callback s = add_task (Callback callback) s"

text \<open>An empty statement is refused.\<close>

definition add_pending_query ::
    "string \<Rightarrow> string list list \<Rightarrow> nat option \<Rightarrow> db_thread \<Rightarrow> db_thread" where
  "add_pending_query sql values_list callback s =
     (if sql = [] then s else add_task (Pending_Query sql values_list callback) s)"

text \<open>
  Thread \<open>k\<close> passes the wait: it ends when the flag is set, otherwise it takes the front task.
  \<open>None\<close>: it cannot pass.
\<close>

definition dt_pass_wait :: "nat \<Rightarrow> db_thread \<Rightarrow> db_thread option" where
  "dt_pass_wait k s =
     (if k \<ge> length (thread_work s) \<or> thread_work s ! k \<noteq> None \<or> thread_ended s ! k then None
      else if dt_break_flag s then Some (s\<lparr>thread_ended := (thread_ended s)[k := True]\<rparr>)
      else (case data_queue s of
              [] \<Rightarrow> None
            | t # ts \<Rightarrow> Some (s\<lparr>data_queue := ts, thread_work := (thread_work s)[k := Some t],
                               dt_started := dt_started s @ [t]\<rparr>)))"

text \<open>The task has run; what it throws is swallowed.\<close>

definition dt_task_done :: "nat \<Rightarrow> db_thread \<Rightarrow> db_thread option" where
  "dt_task_done k s =
     (if k \<ge> length (thread_work s) then None
      else (case thread_work s ! k of
              None \<Rightarrow> None
            | Some t \<Rightarrow> Some (s\<lparr>thread_work := (thread_work s)[k := None],
                               dt_finished := dt_finished s @ [t]\<rparr>)))"

text \<open>
  \<open>process_query\<close>: the statement is executed without values or once for each value list, and the
  callback, if there is one, sees every result with its values, in order.
\<close>

fun exec_each ::
    "('d, 'r) driver \<Rightarrow> string \<Rightarrow> string list list \<Rightarrow> 'd \<Rightarrow> ('r option \<times> string list) list \<times> 'd" where
  "exec_each D sql [] d = ([], d)"
| "exec_each D sql (vals # vs) d =
     (case exec D sql vals d of
        (r, d1) \<Rightarrow> (case exec_each D sql vs d1 of (rs, d2) \<Rightarrow> ((r, vals) # rs, d2)))"

definition process_query ::
    "('d, 'r) driver \<Rightarrow> string \<Rightarrow> string list list \<Rightarrow> nat option \<Rightarrow> 'd
     \<Rightarrow> ('r option \<times> string list) list \<times> 'd" where
  "process_query D sql values_list callback d =
     (case exec_each D sql (if values_list = [] then [[]] else values_list) d of
        (rs, d1) \<Rightarrow> (if callback = None then [] else rs, d1))"

section \<open>Steps\<close>

inductive db_thread_step :: "db_thread \<Rightarrow> db_task pool_event \<Rightarrow> db_thread \<Rightarrow> bool" where
  submit: "db_thread_step s (Submit t) (add_task t s)"
| take: "dt_pass_wait k s = Some s' \<Longrightarrow> \<not> dt_break_flag s \<Longrightarrow> db_thread_step s (Take k) s'"
| leave: "dt_pass_wait k s = Some s' \<Longrightarrow> dt_break_flag s \<Longrightarrow> db_thread_step s (Leave k) s'"
| finish: "dt_task_done k s = Some s' \<Longrightarrow> db_thread_step s (Finish k) s'"
| halt: "db_thread_step s Halt (dt_stop s)"

inductive_cases db_thread_stepE:
  "db_thread_step s (Submit t) s'" "db_thread_step s (Take k) s'" "db_thread_step s (Leave k) s'"
  "db_thread_step s (Finish k) s'" "db_thread_step s Halt s'"

interpretation dbp: ending_pool db_thread_step "db_thread_new n" data_queue thread_work dt_started dt_finished
  dt_break_flag thread_ended for n
proof
  show "data_queue (db_thread_new n) = [] \<and> busy (thread_work (db_thread_new n)) = [] \<and>
      dt_started (db_thread_new n) = [] \<and> dt_finished (db_thread_new n) = []"
    by (simp add: db_thread_new_def busy_def)
  show "length (thread_ended (db_thread_new n)) = length (thread_work (db_thread_new n))" by (simp add: db_thread_new_def)
  show "\<exists>s'. db_thread_step s (Leave k) s'"
    if "dt_break_flag s" "k < length (thread_work s)" "thread_work s ! k = None" "\<not> thread_ended s ! k" for s k
    using that by (intro exI, intro db_thread_step.leave) (simp_all add: dt_pass_wait_def)
  show "\<exists>s'. db_thread_step s (Finish k) s'" if "k < length (thread_work s)" "thread_work s ! k = Some t" for s k t
    using that by (intro exI, intro db_thread_step.finish) (simp add: dt_task_done_def)
qed (auto elim!: db_thread_stepE simp: add_task_def dt_stop_def dt_pass_wait_def dt_task_done_def
    split: if_splits list.splits option.splits)

section \<open>Properties\<close>

text \<open>
  With any number of threads and in every interleaving, the tasks started are exactly the
  first ones submitted, in the order of submission, and each of them is either finished or being
  worked on, once.
\<close>

theorem db_tasks_started_in_order_once:
  assumes "run_of db_thread_step (db_thread_new n) es s"
  shows "submitted es = dt_started s @ data_queue s \<and>
    mset (dt_started s) = mset (dt_finished s) + mset (busy (thread_work s))"
  using dbp.started_in_order [OF assms] dbp.started_once [OF assms] by simp

text \<open>
  Property C20.  The threads refine the abstract server: every run, in whatever interleaving of the threads,
  is a run of a server that keeps one queue and a set of tasks in work; it accepts the tasks that were
  submitted, begins those the threads started, in the same order, and completes those they finished.
\<close>

theorem db_thread_refines_server:
  assumes "run_of db_thread_step (db_thread_new n) es s"
  shows "\<exists>as. run_of task_server_step \<lparr>sv_queue = [], sv_work = {#}, sv_stopped = False\<rparr> as
      \<lparr>sv_queue = data_queue s, sv_work = mset (busy (thread_work s)), sv_stopped = dt_break_flag s\<rparr> \<and>
    accepted as = submitted es \<and> begun as = dt_started s \<and> completed as = dt_finished s"
  using dbp.refines_server [OF assms] by (simp add: dbp.as_server_def) (simp add: db_thread_new_def busy_def)

text \<open>
  With a single thread the tasks finish in the order of their submission.
\<close>

theorem db_single_thread_in_order:
  assumes "run_of db_thread_step (db_thread_new 1) es s"
  shows "prefix (dt_finished s) (submitted es)"
  using dbp.started_in_order [OF assms] dbp.one_thread_in_order [OF _ assms]
  by (simp add: db_thread_new_def)

text \<open>
  After \<open>stop\<close> no further task is started, whatever is still in the queue.
\<close>

theorem db_stop_abandons_queue:
  assumes "run_of db_thread_step (dt_stop s0) es s"
  shows "dt_started s = dt_started s0"
  using dbp.halted_starts_nothing [OF _ assms] by (simp add: dt_stop_def)

text \<open>
  Property C21.  The destructor returns: from any state the pool has reached, it sets the flag and joins the
  threads. However the threads interleave, and whatever is still submitted, they take exactly as many steps
  more as there are tasks in work and threads that have not ended, at most two for each thread; as long as
  they are not all joined one of them can take a step.
\<close>

theorem db_destructor_returns:
  assumes "run_of db_thread_step (db_thread_new n) es s" "run_of db_thread_step (dt_stop s) fs s'"
  shows "length (filter own_event fs) + to_go (thread_work s') (thread_ended s') = to_go (thread_work s) (thread_ended s) \<and>
    to_go (thread_work s) (thread_ended s) \<le> 2 * n \<and>
    (dt_joined s' \<and> busy (thread_work s') = [] \<or> (\<exists>e s''. own_event e \<and> db_thread_step s' e s''))"
  using dbp.destroyed_pool_ends [OF assms(1) db_thread_step.halt assms(2)] by (simp add: db_thread_new_def dt_joined_def)

lemma exec_each_values: "map snd (fst (exec_each D sql vs d)) = vs"
  by (induction D sql vs d rule: exec_each.induct) (auto split: prod.splits)

text \<open>
  A pending query hands its callback one result for each list of values, in order, and
  one result for no values when there is no list; without a callback nothing is handed out.
\<close>

theorem pending_query_answers_each:
  "map snd (fst (process_query D sql values_list callback d)) =
     (if callback = None then [] else if values_list = [] then [[]] else values_list)"
  using exec_each_values [of D sql "if values_list = [] then [[]] else values_list" d]
  by (auto simp: process_query_def split: prod.splits)

section \<open>Examples\<close>

lemma two_tasks_run:
  "run_of db_thread_step (db_thread_new 1) [Submit (Callback 1), Submit (Callback 2), Take 0, Finish 0]
     ((db_thread_new 1)
        \<lparr>data_queue := [Callback 2], dt_started := [Callback 1], dt_finished := [Callback 1]\<rparr>)"
proof -
  let ?s0 = "db_thread_new 1"
  let ?s1 = "?s0\<lparr>data_queue := [Callback 1]\<rparr>"
  let ?s2 = "?s0\<lparr>data_queue := [Callback 1, Callback 2]\<rparr>"
  let ?s3 = "?s0\<lparr>data_queue := [Callback 2], thread_work := [Some (Callback 1)], dt_started := [Callback 1]\<rparr>"
  have a: "db_thread_step ?s0 (Submit (Callback 1)) ?s1"
    using db_thread_step.submit [of ?s0 "Callback 1"] by (simp add: add_task_def db_thread_new_def)
  have b: "db_thread_step ?s1 (Submit (Callback 2)) ?s2"
    using db_thread_step.submit [of ?s1 "Callback 2"] by (simp add: add_task_def db_thread_new_def)
  have c: "db_thread_step ?s2 (Take 0) ?s3"
    by (rule db_thread_step.take) (simp_all add: dt_pass_wait_def db_thread_new_def)
  have d: "db_thread_step ?s3 (Finish 0)
      (?s0\<lparr>data_queue := [Callback 2], dt_started := [Callback 1], dt_finished := [Callback 1]\<rparr>)"
    by (rule db_thread_step.finish) (simp add: dt_task_done_def db_thread_new_def)
  show ?thesis
    by (rule run_Cons, rule a, rule run_Cons, rule b, rule run_Cons, rule c, rule run_Cons, rule d,
        rule run_start)
qed

theorem db_tasks_started_in_order_once_witness:
  "submitted [Submit (Callback 1), Submit (Callback 2), Take 0, Finish 0] = [Callback 1] @ [Callback 2]"
  using db_tasks_started_in_order_once [OF two_tasks_run] by simp

theorem db_thread_refines_server_witness:
  "\<exists>as. run_of task_server_step \<lparr>sv_queue = [], sv_work = {#}, sv_stopped = False\<rparr> as
      \<lparr>sv_queue = [Callback 2], sv_work = {#}, sv_stopped = False\<rparr> \<and>
    accepted as = [Callback 1, Callback 2] \<and> begun as = [Callback 1] \<and> completed as = [Callback 1]"
  using db_thread_refines_server [OF two_tasks_run]
  by (simp add: db_thread_new_def busy_def submitted_def)

text \<open>One thread has finished a task when the destructor is called, with another task in the queue.\<close>

theorem db_destructor_returns_witness:
  "\<exists>e s. own_event e \<and> db_thread_step (dt_stop ((db_thread_new 1)
     \<lparr>data_queue := [Callback 2], dt_started := [Callback 1], dt_finished := [Callback 1]\<rparr>)) e s"
  using db_destructor_returns [OF two_tasks_run run_start] by (auto simp: dt_joined_def dt_stop_def db_thread_new_def)

theorem db_single_thread_in_order_witness:
  "prefix [Callback 1] (submitted [Submit (Callback 1), Submit (Callback 2), Take 0, Finish 0])"
  using db_single_thread_in_order [OF two_tasks_run] by simp

theorem db_stop_abandons_queue_witness:
  "dt_started (add_task (Callback 1) (dt_stop (db_thread_new 2))) = []"
proof -
  let ?s = "dt_stop (db_thread_new 2)"
  have "run_of db_thread_step ?s [Submit (Callback 1)] (add_task (Callback 1) ?s)"
    by (rule run_Cons, rule db_thread_step.submit, rule run_start)
  from db_stop_abandons_queue [OF this] show ?thesis by (simp add: db_thread_new_def)
qed

end
