(* ===== verification/Db_Delete.thy ===== *)
theory Db_Delete
  imports Db_Query
begin

text \<open>
  \<open>Database/db_delete_row.cpp\<close>: deleting a row together with the rows that refer to it, along a tree
  of tables.  The helper issues a sequence of statements and stops at the first that fails; the
  statements are modelled with their texts and, for the correctness of what they delete, with their
  meaning on a database of rows.
\<close>

section \<open>Delete_Row_Info\<close>

datatype row_info =
  Row_Info (ri_table: table) (ri_field_i: int) (ri_childs: "row_info list") (ri_set_null: bool)
    (ri_pk_i: int)

definition field_at :: "table \<Rightarrow> int \<Rightarrow> string" where
  "field_at t i =
     (if i < 0 \<or> i \<ge> int (length (field_names t)) then [] else field_names t ! nat i)"

definition ri_table_name :: "row_info \<Rightarrow> string" where
  "ri_table_name r = name (ri_table r)"

definition ri_field_name :: "row_info \<Rightarrow> string" where
  "ri_field_name r = field_at (ri_table r) (ri_field_i r)"

definition ri_pk_name :: "row_info \<Rightarrow> string" where
  "ri_pk_name r = field_at (ri_table r) (ri_pk_i r)"

section \<open>Statements\<close>

datatype cond =
    Equals string string
  | In_Select string string string string string

fun cond_text :: "cond \<Rightarrow> string" where
  "cond_text (Equals f v) = f @ ''='' @ v"
| "cond_text (In_Select f pk tbl pf v) =
     f @ arg (arg (arg (arg '' IN(SELECT %1 FROM %2 WHERE %3 = %4)'' pk) tbl) pf) v"

datatype stmt = Set_Null row_info cond | Delete row_info cond

text \<open>
  The text that is executed: \<open>fill\<close> is the callback that may extend the condition (the identity when
  there is none), and \<open>update\<close> binds the null value to the one field of an ad-hoc table.
\<close>

fun stmt_text :: "(string \<Rightarrow> string) \<Rightarrow> (row_info \<Rightarrow> string \<Rightarrow> string) \<Rightarrow> stmt \<Rightarrow> string" where
  "stmt_text escape fill (Set_Null d c) =
     update_query escape \<lparr>name = ri_table_name d, short_name = [], field_names = [ri_field_name d]\<rparr> 1
       (fill d (cond_text c)) []"
| "stmt_text escape fill (Delete d c) = del_query (ri_table_name d) (fill d (cond_text c))"

section \<open>Delete_Row_Helper\<close>

text \<open>\<open>del_impl(del_parent)\<close>, up to the execution of its statements.\<close>

function del_impl :: "string \<Rightarrow> row_info \<Rightarrow> stmt list" where
  "del_impl i parent =
     concat (map (\<lambda>d.
       del_impl i d @
       (let c = (if ri_set_null d \<and> ri_table_name d = ri_table_name parent
                 then Equals (ri_pk_name parent) i
                 else In_Select (ri_field_name d) (ri_pk_name parent) (ri_table_name parent)
                        (ri_field_name parent) i)
        in [if ri_set_null d then Set_Null d c else Delete d c])) (ri_childs parent))"
  by pat_completeness auto
termination
proof (relation "measure (\<lambda>(i, r). size r)")
  fix i parent d
  assume "d \<in> set (ri_childs parent)"
  then show "((i, d), i, parent) \<in> measure (\<lambda>(i, r). size r)"
    by (cases parent) (auto dest: size_list_estimation' [where f = size, OF _ order_refl])
qed simp

declare del_impl.simps [simp del]

definition del_statements :: "string \<Rightarrow> row_info \<Rightarrow> stmt list" where
  "del_statements i r =
     concat (map (\<lambda>d.
       if ri_set_null d then [Set_Null d (Equals (ri_field_name d) i)]
       else del_impl i d @ [Delete d (Equals (ri_field_name d) i)]) (ri_childs r)) @
     [Delete r (Equals (ri_pk_name r) i)]"

text \<open>One statement after the other; a failure is the exception that makes \<open>del\<close> return false.\<close>

fun run_statements :: "(stmt \<Rightarrow> 'd \<Rightarrow> bool \<times> 'd) \<Rightarrow> stmt list \<Rightarrow> 'd \<Rightarrow> bool \<times> 'd" where
  "run_statements run [] d = (True, d)"
| "run_statements run (s # ss) d =
     (case run s d of (True, d') \<Rightarrow> run_statements run ss d' | (False, d') \<Rightarrow> (False, d'))"

definition delete_row :: "(stmt \<Rightarrow> 'd \<Rightarrow> bool \<times> 'd) \<Rightarrow> string \<Rightarrow> row_info \<Rightarrow> 'd \<Rightarrow> bool \<times> 'd" where
  "delete_row run i r d = run_statements run (del_statements i r) d"

section \<open>Meaning of the statements\<close>

text \<open>A row gives each field a value or null; a database gives each table its rows.\<close>

type_synonym row = "string \<Rightarrow> string option"
type_synonym database = "string \<Rightarrow> row list"

fun holds :: "database \<Rightarrow> cond \<Rightarrow> row \<Rightarrow> bool" where
  "holds db (Equals f v) x \<longleftrightarrow> x f = Some v"
| "holds db (In_Select f pk tbl pf v) x \<longleftrightarrow>
     (\<exists>y \<in> set (db tbl). y pf = Some v \<and> y pk \<noteq> None \<and> x f = y pk)"

text \<open>
  The database takes a statement or refuses it, as \<open>ok\<close> says; a refused statement changes nothing and
  leaves the query inactive.
\<close>

fun stmt_info :: "stmt \<Rightarrow> row_info" where
  "stmt_info (Delete d c) = d"
| "stmt_info (Set_Null d c) = d"

definition target :: "stmt \<Rightarrow> string" where
  "target s = ri_table_name (stmt_info s)"

fun stmt_effect :: "stmt \<Rightarrow> database \<Rightarrow> row list" where
  "stmt_effect (Delete d c) db = filter (\<lambda>x. \<not> holds db c x) (db (ri_table_name d))"
| "stmt_effect (Set_Null d c) db =
     map (\<lambda>x. if holds db c x then x(ri_field_name d := None) else x) (db (ri_table_name d))"

definition run_stmt :: "(stmt \<Rightarrow> bool) \<Rightarrow> stmt \<Rightarrow> database \<Rightarrow> bool \<times> database" where
  "run_stmt ok s db = (if ok s then (True, db(target s := stmt_effect s db)) else (False, db))"

section \<open>Properties\<close>

lemma ri_names:
  "ri_table_name (Row_Info t f cs n k) = name t" "ri_field_name (Row_Info t f cs n k) = field_at t f"
  "ri_pk_name (Row_Info t f cs n k) = field_at t k"
  by (simp_all add: ri_table_name_def ri_field_name_def ri_pk_name_def)

lemma del_impl_Row:
  "del_impl i (Row_Info t f cs n k) =
     concat (map (\<lambda>d.
       del_impl i d @
       (let c = (if ri_set_null d \<and> ri_table_name d = name t
                 then Equals (field_at t k) i
                 else In_Select (ri_field_name d) (field_at t k) (name t) (field_at t f) i)
        in [if ri_set_null d then Set_Null d c else Delete d c])) cs)"
  by (subst del_impl.simps) (simp only: ri_names row_info.sel)

lemma run_statements_append:
  "run_statements run (xs @ ys) d =
     (case run_statements run xs d of (True, d') \<Rightarrow> run_statements run ys d' | (False, d') \<Rightarrow> (False, d'))"
  by (induction run xs d rule: run_statements.induct) (auto split: prod.splits bool.splits)

text \<open>
  The row itself goes last: a failing statement on a referring table ends the deletion
  with a failure, in the state that statement left, before the statement on the row itself is run.
\<close>

theorem failed_child_keeps_row:
  assumes "run_statements run (butlast (del_statements i r)) d = (False, d')"
  shows "delete_row run i r d = (False, d') \<and>
    last (del_statements i r) = Delete r (Equals (ri_pk_name r) i)"
proof -
  have "del_statements i r = butlast (del_statements i r) @ [Delete r (Equals (ri_pk_name r) i)]"
    by (simp add: del_statements_def butlast_append)
  with assms show ?thesis
    by (metis (no_types, lifting) case_prod_conv delete_row_def last_snoc run_statements_append
        bool.case(2))
qed

section \<open>Statements on tables of their own\<close>

text \<open>The tables a statement reads beside the one it changes.\<close>

fun cond_reads :: "cond \<Rightarrow> string set" where
  "cond_reads (Equals f v) = {}"
| "cond_reads (In_Select f pk tbl pf v) = {tbl}"

fun stmt_reads :: "stmt \<Rightarrow> string set" where
  "stmt_reads (Delete d c) = insert (ri_table_name d) (cond_reads c)"
| "stmt_reads (Set_Null d c) = insert (ri_table_name d) (cond_reads c)"

definition undisturbed :: "stmt list \<Rightarrow> bool" where
  "undisturbed = sorted_wrt (\<lambda>s s'. target s \<notin> stmt_reads s')"

lemma holds_cong: "(\<And>t. t \<in> cond_reads c \<Longrightarrow> db' t = db t) \<Longrightarrow> holds db' c x = holds db c x"
  by (cases c) auto

lemma stmt_effect_cong:
  assumes "\<And>t. t \<in> stmt_reads s \<Longrightarrow> db' t = db t"
  shows "stmt_effect s db' = stmt_effect s db"
proof (cases s)
  case (Set_Null d c)
  with assms have "holds db' c x = holds db c x" "db' (ri_table_name d) = db (ri_table_name d)" for x
    by (simp_all add: holds_cong [of c db' db])
  with Set_Null show ?thesis
    by simp
next
  case (Delete d c)
  with assms have "holds db' c x = holds db c x" "db' (ri_table_name d) = db (ri_table_name d)" for x
    by (simp_all add: holds_cong [of c db' db])
  with Delete show ?thesis
    by simp
qed

lemma target_in_reads [simp]: "target s \<in> stmt_reads s"
  by (cases s) (auto simp: target_def)

text \<open>
  Statements of which none reads a table an earlier one has changed act on the tables as they were;
  the run succeeds when all are taken, and tables without a statement keep their rows in any case.
\<close>

lemma run_undisturbed:
  assumes "undisturbed ss" and "run_statements (run_stmt ok) ss db = (taken, db')"
  shows "taken \<longleftrightarrow> list_all ok ss"
    and "taken \<Longrightarrow> s \<in> set ss \<Longrightarrow> db' (target s) = stmt_effect s db"
    and "t \<notin> target ` set ss \<Longrightarrow> db' t = db t"
proof -
  have "(taken \<longleftrightarrow> list_all ok ss) \<and>
    (taken \<longrightarrow> (\<forall>s \<in> set ss. db' (target s) = stmt_effect s db)) \<and>
    (\<forall>t. t \<notin> target ` set ss \<longrightarrow> db' t = db t)"
    using assms
  proof (induction ss arbitrary: db)
    case (Cons s ss)
    show ?case
    proof (cases "ok s")
      case True
      let ?db = "db(target s := stmt_effect s db)"
      have und: "undisturbed ss" and s: "\<And>s'. s' \<in> set ss \<Longrightarrow> target s \<notin> stmt_reads s'"
        using Cons.prems(1) by (auto simp: undisturbed_def)
      have run: "run_statements (run_stmt ok) ss ?db = (taken, db')"
        using Cons.prems(2) True by (simp add: run_stmt_def [of ok s])
      have eff: "stmt_effect s' ?db = stmt_effect s' db" if "s' \<in> set ss" for s'
        by (rule stmt_effect_cong) (use s [OF that] in auto)
      have "target s \<notin> target ` set ss"
        using s target_in_reads by force
      then show ?thesis
        using Cons.IH [OF und run] True by (simp add: eff del: fun_upd_apply) (simp add: fun_upd_def)
    qed (use Cons.prems in \<open>auto simp: run_stmt_def\<close>)
  qed simp
  then show "taken \<longleftrightarrow> list_all ok ss"
    "taken \<Longrightarrow> s \<in> set ss \<Longrightarrow> db' (target s) = stmt_effect s db"
    "t \<notin> target ` set ss \<Longrightarrow> db' t = db t"
    by blast+
qed

section \<open>Two levels of referring tables\<close>

text \<open>The tables of the tree down to the second level.\<close>

definition child_tables :: "row_info \<Rightarrow> string list" where
  "child_tables c = map ri_table_name (ri_childs c) @ [ri_table_name c]"

definition tree_tables :: "row_info \<Rightarrow> string list" where
  "tree_tables r = concat (map child_tables (ri_childs r)) @ [ri_table_name r]"

definition two_levels :: "row_info \<Rightarrow> bool" where
  "two_levels r \<longleftrightarrow> (\<forall>c \<in> set (ri_childs r). \<forall>g \<in> set (ri_childs c). ri_childs g = [])"

text \<open>What becomes of the rows \<open>xs\<close> of a referring table when those with \<open>P\<close> lose what they refer to.\<close>

definition dropped_or_nulled :: "row_info \<Rightarrow> (row \<Rightarrow> bool) \<Rightarrow> row list \<Rightarrow> row list" where
  "dropped_or_nulled d P xs =
     (if ri_set_null d then map (\<lambda>x. if P x then x(ri_field_name d := None) else x) xs
      else filter (\<lambda>x. \<not> P x) xs)"

definition grandchild_stmt :: "string \<Rightarrow> row_info \<Rightarrow> row_info \<Rightarrow> stmt" where
  "grandchild_stmt i c g =
     (let q = In_Select (ri_field_name g) (ri_pk_name c) (ri_table_name c) (ri_field_name c) i
      in if ri_set_null g then Set_Null g q else Delete g q)"

definition child_stmts :: "string \<Rightarrow> row_info \<Rightarrow> stmt list" where
  "child_stmts i c =
     (if ri_set_null c then [Set_Null c (Equals (ri_field_name c) i)]
      else map (grandchild_stmt i c) (ri_childs c) @ [Delete c (Equals (ri_field_name c) i)])"

lemma del_impl_leaves:
  assumes "\<forall>g \<in> set (ri_childs c). ri_childs g = [] \<and> ri_table_name g \<noteq> ri_table_name c"
  shows "del_impl i c = map (grandchild_stmt i c) (ri_childs c)"
proof -
  have "del_impl i g = []" if "g \<in> set (ri_childs c)" for g
    using assms that by (subst del_impl.simps) simp
  with assms have "del_impl i c = concat (map (\<lambda>g. [grandchild_stmt i c g]) (ri_childs c))"
    by (subst del_impl.simps, intro arg_cong [where f = concat] map_cong refl)
      (simp add: grandchild_stmt_def Let_def)
  then show ?thesis
    by simp
qed

lemma target_grandchild_stmt [simp]: "target (grandchild_stmt i c g) = ri_table_name g"
  by (simp add: grandchild_stmt_def target_def Let_def)

lemma reads_grandchild_stmt [simp]:
  "stmt_reads (grandchild_stmt i c g) = {ri_table_name g, ri_table_name c}"
  by (simp add: grandchild_stmt_def Let_def)

lemma effect_grandchild_stmt:
  "stmt_effect (grandchild_stmt i c g) db =
     dropped_or_nulled g (\<lambda>x. \<exists>y \<in> set (db (ri_table_name c)).
       y (ri_field_name c) = Some i \<and> y (ri_pk_name c) \<noteq> None \<and> x (ri_field_name g) = y (ri_pk_name c))
       (db (ri_table_name g))"
  by (simp add: grandchild_stmt_def dropped_or_nulled_def Let_def)

lemma del_statements_two_levels:
  assumes "two_levels r" and "distinct (tree_tables r)"
  shows "del_statements i r =
    concat (map (child_stmts i) (ri_childs r)) @ [Delete r (Equals (ri_pk_name r) i)]"
proof -
  have "del_impl i c = map (grandchild_stmt i c) (ri_childs c)" if c: "c \<in> set (ri_childs r)" for c
  proof (rule del_impl_leaves)
    have "distinct (child_tables c)"
      using assms(2) c by (simp add: tree_tables_def distinct_concat_iff)
    then have "ri_table_name c \<notin> ri_table_name ` set (ri_childs c)"
      by (simp add: child_tables_def)
    with assms(1) c show "\<forall>g \<in> set (ri_childs c). ri_childs g = [] \<and> ri_table_name g \<noteq> ri_table_name c"
      unfolding two_levels_def by (metis imageI)
  qed
  then have "map (\<lambda>d. if ri_set_null d then [Set_Null d (Equals (ri_field_name d) i)]
       else del_impl i d @ [Delete d (Equals (ri_field_name d) i)]) (ri_childs r) =
     map (child_stmts i) (ri_childs r)"
    by (simp add: child_stmts_def)
  then show ?thesis
    by (simp only: del_statements_def)
qed

lemma target_simps [simp]:
  "target (Delete d c) = ri_table_name d" "target (Set_Null d c) = ri_table_name d"
  by (simp_all add: target_def)

lemma child_stmts_tables:
  assumes "s \<in> set (child_stmts i c)"
  shows "stmt_reads s \<subseteq> set (child_tables c)" and "target s \<in> set (child_tables c)"
  using assms by (auto simp: child_stmts_def child_tables_def split: if_splits)

lemma undisturbed_append:
  "undisturbed (xs @ ys) \<longleftrightarrow>
     undisturbed xs \<and> undisturbed ys \<and> (\<forall>x \<in> set xs. \<forall>y \<in> set ys. target x \<notin> stmt_reads y)"
  by (simp add: undisturbed_def sorted_wrt_append)

lemma undisturbed_single [simp]: "undisturbed [s]"
  by (simp add: undisturbed_def)

lemma undisturbed_grandchildren:
  assumes "distinct (map ri_table_name gs @ [ri_table_name c])"
  shows "undisturbed (map (grandchild_stmt i c) gs)"
  using assms by (induction gs) (auto simp: undisturbed_def)

lemma undisturbed_child:
  assumes "distinct (child_tables c)"
  shows "undisturbed (child_stmts i c)"
proof -
  have "ri_table_name c \<notin> ri_table_name ` set (ri_childs c)"
    using assms by (simp add: child_tables_def)
  then have "\<forall>g \<in> set (ri_childs c). ri_table_name g \<noteq> ri_table_name c"
    by (metis imageI)
  moreover have "undisturbed (map (grandchild_stmt i c) (ri_childs c))"
    using assms by (intro undisturbed_grandchildren) (simp add: child_tables_def)
  ultimately show ?thesis
    by (simp add: child_stmts_def undisturbed_append)
qed

lemma undisturbed_children:
  assumes "distinct (concat (map child_tables cs))"
  shows "undisturbed (concat (map (child_stmts i) cs))"
  using assms
proof (induction cs)
  case (Cons c cs)
  have "target s \<notin> stmt_reads s'" if "s \<in> set (child_stmts i c)" and "s' \<in> set (child_stmts i c')" and "c' \<in> set cs"
    for s s' c'
    using Cons.prems child_stmts_tables [OF that(1)] child_stmts_tables [OF that(2)] that(3) by auto
  with Cons undisturbed_child [of c i] show ?case
    by (auto simp: undisturbed_append)
qed (simp add: undisturbed_def)

lemma undisturbed_del_statements:
  assumes "two_levels r" and "distinct (tree_tables r)"
  shows "undisturbed (del_statements i r)"
proof -
  have "target s \<noteq> ri_table_name r" if "s \<in> set (child_stmts i c)" and "c \<in> set (ri_childs r)" for s c
    using assms(2) child_stmts_tables(2) [OF that(1)] that(2) by (auto simp: tree_tables_def)
  moreover have "undisturbed (concat (map (child_stmts i) (ri_childs r)))"
    using assms(2) by (intro undisturbed_children) (simp add: tree_tables_def)
  ultimately show ?thesis
    unfolding del_statements_two_levels [OF assms] by (auto simp: undisturbed_append)
qed

lemma targets_del_statements:
  assumes "two_levels r" and "distinct (tree_tables r)"
  shows "target ` set (del_statements i r) \<subseteq> set (tree_tables r)"
  using child_stmts_tables(2) [of _ i]
  by (fastforce simp: del_statements_two_levels [OF assms] tree_tables_def)

lemma table_in_one_child:
  assumes "distinct (concat (map child_tables cs))" and "c \<in> set cs" and "c' \<in> set cs"
    and "t \<in> set (child_tables c)" and "t \<in> set (child_tables c')"
  shows "c' = c"
  using assms by (induction cs) auto

lemma grandchild_not_target:
  assumes "two_levels r" and "distinct (tree_tables r)" and "c \<in> set (ri_childs r)"
    and "g \<in> set (ri_childs c)" and "ri_set_null c"
  shows "ri_table_name g \<notin> target ` set (del_statements i r)"
proof
  assume "ri_table_name g \<in> target ` set (del_statements i r)"
  then obtain s where s: "s \<in> set (del_statements i r)" "target s = ri_table_name g"
    by force
  have "ri_table_name g \<in> set (child_tables c)"
    using assms(4) by (simp add: child_tables_def)
  moreover from this have "ri_table_name g \<noteq> ri_table_name r"
    using assms(2,3) by (auto simp: tree_tables_def)
  with s obtain c' where c': "c' \<in> set (ri_childs r)" "s \<in> set (child_stmts i c')"
    by (auto simp: del_statements_two_levels [OF assms(1,2)])
  moreover have "ri_table_name g \<in> set (child_tables c')"
    using child_stmts_tables(2) [OF c'(2)] s(2) by simp
  ultimately have "c' = c"
    using table_in_one_child assms(2,3) by (simp add: tree_tables_def) blast
  then have "ri_table_name c = ri_table_name g"
    using c'(2) s(2) assms(5) by (simp add: child_stmts_def)
  moreover have "distinct (child_tables c)"
    using assms(2,3) by (auto simp: tree_tables_def distinct_concat_iff)
  ultimately show False
    using assms(4) by (simp add: child_tables_def)
qed

text \<open>A statement that is refused leaves the row itself in place.\<close>

lemma refused_keeps_row:
  assumes "two_levels r" and "distinct (tree_tables r)"
    and "delete_row (run_stmt ok) i r db = (False, db')"
  shows "db' (ri_table_name r) = db (ri_table_name r)"
proof -
  let ?ss = "concat (map (child_stmts i) (ri_childs r))"
  obtain ok1 db1 where run: "run_statements (run_stmt ok) ?ss db = (ok1, db1)"
    by force
  have "ri_table_name r \<notin> target ` set ?ss"
    using assms(2) child_stmts_tables(2) [of _ i] by (auto simp: tree_tables_def)
  then have "db1 (ri_table_name r) = db (ri_table_name r)"
    using run_undisturbed(3) [OF undisturbed_children run] assms(2) by (simp add: tree_tables_def)
  with run assms(3) show ?thesis
    by (auto simp: delete_row_def del_statements_two_levels [OF assms(1,2)] run_statements_append run_stmt_def
        split: bool.splits if_splits)
qed

text \<open>
  Property C40.  A tree of tables two levels deep, with any number of referring tables on each level, each
  of them set to null or deleted from, every table occurring once and no callback that extends the
  conditions.  The deletion reports success exactly when the database took every
  statement.  Then the row is gone; each child table has lost the rows that referred to it, or has their
  reference set to null; each table below a child table that is deleted from has lost (or has set to
  null) exactly the rows that refer to one of the removed child rows, and each table below a child
  table that is set to null keeps all its rows.  When a statement is refused the row itself stays.  In both cases no
  other table changes.
\<close>

theorem two_levels_deleted:
  assumes levels: "two_levels r" and tables: "distinct (tree_tables r)"
    and run: "delete_row (run_stmt ok) i r db = (taken, db')"
  shows "(taken \<longleftrightarrow> (\<forall>s \<in> set (del_statements i r). ok s)) \<and>
    (taken \<longrightarrow>
      db' (ri_table_name r) = filter (\<lambda>x. x (ri_pk_name r) \<noteq> Some i) (db (ri_table_name r)) \<and>
      (\<forall>c \<in> set (ri_childs r).
        db' (ri_table_name c) =
          dropped_or_nulled c (\<lambda>y. y (ri_field_name c) = Some i) (db (ri_table_name c)) \<and>
        (\<forall>g \<in> set (ri_childs c).
          db' (ri_table_name g) =
            (if ri_set_null c then db (ri_table_name g)
             else dropped_or_nulled g (\<lambda>x. \<exists>y \<in> set (db (ri_table_name c)).
                 y (ri_field_name c) = Some i \<and> y (ri_pk_name c) \<noteq> None \<and>
                 x (ri_field_name g) = y (ri_pk_name c)) (db (ri_table_name g)))))) \<and>
    (\<not> taken \<longrightarrow> db' (ri_table_name r) = db (ri_table_name r)) \<and>
    (\<forall>t. t \<notin> set (tree_tables r) \<longrightarrow> db' t = db t)"
  (is "?status \<and> (taken \<longrightarrow> ?row \<and> ?children) \<and> ?kept \<and> ?others")
proof (intro conjI impI)
  note ss = del_statements_two_levels [OF levels tables, of i]
  note stmts = run_undisturbed [OF undisturbed_del_statements [OF levels tables, of i] run [unfolded delete_row_def]]
  show ?status
    using stmts(1) by (simp add: list_all_iff)
  show ?others
    using stmts(3) targets_del_statements [OF levels tables, of i] by blast
  show "db' (ri_table_name r) = db (ri_table_name r)" if "\<not> taken"
    using refused_keeps_row [OF levels tables] run that by simp
  show ?row if taken
    using stmts(2) [OF that, of "Delete r (Equals (ri_pk_name r) i)"] by (simp add: ss)
  show ?children if taken
  proof (intro ballI conjI)
    fix c assume c: "c \<in> set (ri_childs r)"
    then have sub: "set (child_stmts i c) \<subseteq> set (del_statements i r)"
      by (auto simp: ss)
    show "db' (ri_table_name c) =
        dropped_or_nulled c (\<lambda>y. y (ri_field_name c) = Some i) (db (ri_table_name c))"
      using stmts(2) [OF that subsetD [OF sub, of "last (child_stmts i c)"]]
      by (cases "ri_set_null c") (simp_all add: child_stmts_def dropped_or_nulled_def)
    fix g assume g: "g \<in> set (ri_childs c)"
    show "db' (ri_table_name g) = (if ri_set_null c then db (ri_table_name g)
        else dropped_or_nulled g (\<lambda>x. \<exists>y \<in> set (db (ri_table_name c)). y (ri_field_name c) = Some i \<and>
          y (ri_pk_name c) \<noteq> None \<and> x (ri_field_name g) = y (ri_pk_name c)) (db (ri_table_name g)))"
    proof (cases "ri_set_null c")
      case True
      with stmts(3) grandchild_not_target [OF levels tables c g] show ?thesis
        by simp
    next
      case False
      with g sub have "grandchild_stmt i c g \<in> set (del_statements i r)"
        by (auto simp: child_stmts_def)
      with stmts(2) [OF that] False show ?thesis
        by (force simp: effect_grandchild_stmt)
    qed
  qed
qed

section \<open>Three levels\<close>

definition tbl :: "string \<Rightarrow> table" where
  "tbl n = \<lparr>name = n, short_name = [], field_names = [''id'', ''ref'']\<rparr>"

definition entry :: "string \<Rightarrow> string \<Rightarrow> row" where
  "entry i r = [''id'' \<mapsto> i, ''ref'' \<mapsto> r]"

text \<open>Four tables, each referring to the one before by its field \<open>ref\<close>.\<close>

definition chain4 :: row_info where
  "chain4 =
     Row_Info (tbl ''a'') 0
       [Row_Info (tbl ''b'') 1
         [Row_Info (tbl ''c'') 1 [Row_Info (tbl ''d'') 1 [] False 0] False 0] False 0] False 0"

definition chain4_db :: database where
  "chain4_db = (\<lambda>_. [])
     (''a'' := [entry ''1'' ''0'', entry ''2'' ''0''],
      ''b'' := [entry ''7'' ''1'', entry ''1'' ''2''],
      ''c'' := [entry ''8'' ''7'', entry ''9'' ''1''],
      ''d'' := [entry ''5'' ''8'', entry ''6'' ''9''])"

text \<open>
  On the third level the statement compares with the number of the deleted row where it should compare with
  the rows of the level between: deleting row 1 of \<open>a\<close> takes row 7 of \<open>b\<close> and row
  8 of \<open>c\<close> with it, but leaves row 5 of \<open>d\<close>, which refers to the latter, and
  deletes row 6 of \<open>d\<close>, which belongs to row 2 of \<open>a\<close>.
\<close>

theorem three_levels_delete_wrong_rows:
  "\<exists>db. delete_row (run_stmt (\<lambda>_. True)) ''1'' chain4 chain4_db = (True, db) \<and>
     db ''a'' = [entry ''2'' ''0''] \<and> db ''b'' = [entry ''1'' ''2''] \<and> db ''c'' = [entry ''9'' ''1''] \<and>
     db ''d'' = [entry ''5'' ''8'']"
  by (simp add: delete_row_def chain4_def chain4_db_def del_statements_def del_impl_Row Let_def
      ri_names tbl_def field_at_def entry_def run_stmt_def)

text \<open>
  A table below itself that is set to null: \<open>b\<close> refers to \<open>a\<close> by its field
  \<open>ref\<close> and to itself by its field \<open>up\<close>. The condition for the inner level
  compares the key of \<open>b\<close> with the number of the deleted row of \<open>a\<close>: deleting row
  1 of \<open>a\<close> cuts row 1 of \<open>b\<close>, which belongs to row 2 of \<open>a\<close>, from the
  row above it, while row 9, which is below the deleted row 7, keeps its reference to it.
\<close>

definition self_tbl :: table where
  "self_tbl = \<lparr>name = ''b'', short_name = [], field_names = [''id'', ''ref'', ''up'']\<rparr>"

definition self_tree :: row_info where
  "self_tree = Row_Info (tbl ''a'') 0 [Row_Info self_tbl 1 [Row_Info self_tbl 2 [] True 0] False 0] False 0"

definition self_db :: database where
  "self_db = (\<lambda>_. [])
     (''a'' := [entry ''1'' ''0'', entry ''2'' ''0''],
      ''b'' := [entry ''7'' ''1'', (entry ''1'' ''2'')(''up'' \<mapsto> ''9''), (entry ''9'' ''2'')(''up'' \<mapsto> ''7'')])"

theorem self_reference_cut_by_wrong_number:
  "snd (delete_row (run_stmt (\<lambda>_. True)) ''1'' self_tree self_db) ''b'' =
     [(entry ''1'' ''2'')(''up'' := None), (entry ''9'' ''2'')(''up'' \<mapsto> ''7'')]"
  by (simp add: delete_row_def self_tree_def self_db_def self_tbl_def del_statements_def del_impl_Row Let_def
      ri_names tbl_def field_at_def entry_def run_stmt_def)

section \<open>Examples\<close>

definition chain2 :: row_info where
  "chain2 = Row_Info (tbl ''a'') 0 [Row_Info (tbl ''b'') 1 [Row_Info (tbl ''c'') 1 [] False 0] False 0] False 0"

text \<open>Two child tables, one of them set to null, and two tables below the other, again one set to null.\<close>

definition tree2 :: row_info where
  "tree2 = Row_Info (tbl ''a'') 0
     [Row_Info (tbl ''e'') 1 [Row_Info (tbl ''f'') 1 [] False 0] True 0,
      Row_Info (tbl ''b'') 1 [Row_Info (tbl ''c'') 1 [] False 0, Row_Info (tbl ''d'') 1 [] True 0] False 0]
     False 0"

definition tree2_db :: database where
  "tree2_db = (\<lambda>_. [])
     (''a'' := [entry ''1'' ''0'', entry ''2'' ''0''],
      ''b'' := [entry ''7'' ''1'', entry ''1'' ''2''],
      ''c'' := [entry ''8'' ''7'', entry ''9'' ''1''],
      ''d'' := [entry ''5'' ''7'', entry ''6'' ''1''],
      ''e'' := [entry ''3'' ''1'', entry ''4'' ''2''],
      ''f'' := [entry ''2'' ''3''])"

theorem two_levels_deleted_witness:
  "fst (delete_row (run_stmt (\<lambda>_. True)) ''1'' tree2 tree2_db) \<and>
   map (snd (delete_row (run_stmt (\<lambda>_. True)) ''1'' tree2 tree2_db)) [''a'', ''b'', ''c'', ''d'', ''e'', ''f''] =
     [[entry ''2'' ''0''], [entry ''1'' ''2''], [entry ''9'' ''1''],
      [(entry ''5'' ''7'')(''ref'' := None), entry ''6'' ''1''],
      [(entry ''3'' ''1'')(''ref'' := None), entry ''4'' ''2''], [entry ''2'' ''3'']]"
proof -
  let ?d = "delete_row (run_stmt (\<lambda>_. True)) ''1'' tree2 tree2_db"
  have "two_levels tree2" "distinct (tree_tables tree2)"
    by (simp_all add: tree2_def two_levels_def tree_tables_def child_tables_def ri_names tbl_def)
  note two_levels_deleted [OF this, of "\<lambda>_. True" "''1''" tree2_db "fst ?d" "snd ?d"]
  then show ?thesis
    by (simp add: tree2_def ri_names tbl_def) 
      (simp add: tree2_db_def field_at_def entry_def dropped_or_nulled_def ri_names)
qed

theorem failed_child_keeps_row_witness:
  "delete_row (\<lambda>s d. (False, d)) ''1'' chain2 (3 :: nat) = (False, 3)"
  using failed_child_keeps_row [of "\<lambda>s d. (False, d)" "''1''" chain2 "3 :: nat" 3]
  by (simp add: chain2_def del_statements_def del_impl_Row Let_def)

end
