(* ===== verification/Db_Connection.thy ===== *)
theory Db_Connection
  imports Db_Query
begin

text \<open>
  The connection of a \<open>DB::Base\<close> (\<open>Database/db_base.cpp\<close>): its name in the
  registry of \<open>QSqlDatabase\<close>, how it is opened, closed and renamed. With these operations the
  retry loop of \<open>exec\<close> runs on the registry, so that what it leaves open or closed can be
  stated. The database server is a parameter.
\<close>

section \<open>The registry\<close>

record connection =
  cn_settings :: sql_database
  cn_open :: bool

record 'srv sql_world =
  registry :: "string \<rightharpoonup> connection"
  server_state :: 'srv

text \<open>The server: whether it accepts a connection with given settings, and what it answers to a statement.\<close>

record ('srv, 'r) server_ops =
  sv_accepts :: "sql_database \<Rightarrow> 'srv \<Rightarrow> bool \<times> 'srv"
  sv_run :: "string \<Rightarrow> string list \<Rightarrow> 'srv \<Rightarrow> 'r option \<times> 'srv"

record db_base =
  db_silent :: bool
  connection_name :: string
  base_info :: connection_info

section \<open>Names\<close>

text \<open>The thread and a random number, both already written as numbers.\<close>

definition gen_thread_based_name :: "string \<Rightarrow> string \<Rightarrow> string" where
  "gen_thread_based_name thread_id random = arg (arg ''hz_db_%1_%2'' thread_id) random"

definition db_base_new :: "string \<Rightarrow> connection_info \<Rightarrow> string \<Rightarrow> db_base" where
  "db_base_new generated ci nm =
     \<lparr>db_silent = False, connection_name = (if nm = [] then generated else nm), base_info = ci\<rparr>"

text \<open>\<open>Base(QSqlDatabase&, prefix)\<close>\<close>

definition base_of_db :: "string \<Rightarrow> sql_database \<Rightarrow> string \<Rightarrow> string \<Rightarrow> db_base" where
  "base_of_db generated db nm prefix = db_base_new generated (from_db db prefix) nm"

definition set_silent :: "bool \<Rightarrow> db_base \<Rightarrow> db_base" where
  "set_silent v b = b\<lparr>db_silent := v\<rparr>"

section \<open>The connection\<close>

text \<open>\<open>None\<close> is an invalid \<open>QSqlDatabase\<close>.\<close>

definition base_database :: "db_base \<Rightarrow> 'srv sql_world \<Rightarrow> connection option" where
  "base_database b w = (if connection_name b = [] then None else registry w (connection_name b))"

definition base_is_open :: "db_base \<Rightarrow> 'srv sql_world \<Rightarrow> bool" where
  "base_is_open b w = (case base_database b w of None \<Rightarrow> False | Some c \<Rightarrow> cn_open c)"

text \<open>The connection is closed if it is open, and leaves the registry.\<close>

definition base_close :: "db_base \<Rightarrow> 'srv sql_world \<Rightarrow> 'srv sql_world" where
  "base_close b w =
     (if connection_name b = [] then w
      else
        (let w1 =
           (case base_database b w of
              None \<Rightarrow> w
            | Some c \<Rightarrow>
                if cn_open c then w\<lparr>registry := (registry w)(connection_name b \<mapsto> c\<lparr>cn_open := False\<rparr>)\<rparr> else w)
         in w1\<lparr>registry := (registry w1)(connection_name b := None)\<rparr>))"

text \<open>\<open>create_connection(db)\<close> on a connection of the registry; an open one is closed first.\<close>

definition create_connection_with ::
    "('srv, 'r) server_ops \<Rightarrow> string \<Rightarrow> db_base \<Rightarrow> 'srv sql_world \<Rightarrow> bool \<times> db_base \<times> 'srv sql_world" where
  "create_connection_with S nm b w =
     (case registry w nm of
        None \<Rightarrow> (False, b, w)
      | Some c \<Rightarrow>
          (case sv_accepts S (cn_settings c) (server_state w) of
             (ok, srv) \<Rightarrow>
               let w1 = w\<lparr>registry := (registry w)(nm \<mapsto> c\<lparr>cn_open := ok\<rparr>), server_state := srv\<rparr>
               in if \<not> ok then (False, b, w1)
                  else (True, if connection_name b \<noteq> nm then b\<lparr>connection_name := nm\<rparr> else b, w1)))"

definition base_create_connection ::
    "('srv, 'r) server_ops \<Rightarrow> db_base \<Rightarrow> 'srv sql_world \<Rightarrow> bool \<times> db_base \<times> 'srv sql_world" where
  "base_create_connection S b w =
     (let w1 =
        (if base_database b w \<noteq> None then w
         else w\<lparr>registry := (registry w)(connection_name b \<mapsto>
                  \<lparr>cn_settings = to_db (base_info b), cn_open = False\<rparr>)\<rparr>)
      in create_connection_with S (connection_name b) b w1)"

definition set_connection_info :: "connection_info \<Rightarrow> db_base \<Rightarrow> 'srv sql_world \<Rightarrow> db_base \<times> 'srv sql_world" where
  "set_connection_info ci b w = (b\<lparr>base_info := ci\<rparr>, base_close b w)"

text \<open>The settings of a fresh \<open>QSqlDatabase\<close>, which an invalid one has.\<close>

definition no_settings :: sql_database where
  "no_settings = to_db connection_info_new"

definition set_connection_name ::
    "string \<Rightarrow> string \<Rightarrow> string \<Rightarrow> db_base \<Rightarrow> 'srv sql_world \<Rightarrow> db_base \<times> 'srv sql_world" where
  "set_connection_name generated nm prefix b w =
     (let w1 = base_close b w;
          b1 = b\<lparr>connection_name := nm\<rparr>;
          db = (case base_database b1 w1 of None \<Rightarrow> no_settings | Some c \<Rightarrow> cn_settings c);
          b2 = b1\<lparr>base_info := from_db db prefix\<rparr>
      in (if nm = [] then b2\<lparr>connection_name := generated\<rparr> else b2, w1))"

text \<open>The destructor.\<close>

definition base_destroy :: "db_base \<Rightarrow> 'srv sql_world \<Rightarrow> 'srv sql_world" where
  "base_destroy b w =
     (if connection_name b = [] then w
      else
        (let w1 = (if registry w (connection_name b) \<noteq> None
                   then w\<lparr>registry := (registry w)(connection_name b := None)\<rparr> else w)
         in if registry w1 (connection_name b) \<noteq> None then base_close b w1 else w1))"

section \<open>exec on the registry\<close>

text \<open>A statement on a connection that is not open fails without reaching the server.\<close>

definition run_query ::
    "('srv, 'r) server_ops \<Rightarrow> string \<Rightarrow> string list \<Rightarrow> db_base \<times> 'srv sql_world \<Rightarrow> 'r option \<times> db_base \<times> 'srv sql_world" where
  "run_query S sql vals d =
     (case d of (b, w) \<Rightarrow>
        if \<not> base_is_open b w then (None, b, w)
        else (case sv_run S sql vals (server_state w) of (r, srv) \<Rightarrow> (r, b, w\<lparr>server_state := srv\<rparr>)))"

definition base_driver :: "('srv, 'r) server_ops \<Rightarrow> (db_base \<times> 'srv sql_world, 'r) driver" where
  "base_driver S =
     \<lparr>drv_is_open = (\<lambda>(b, w). base_is_open b w), drv_open = (\<lambda>(b, w). base_create_connection S b w),
      drv_exec = run_query S, drv_close = (\<lambda>(b, w). (b, base_close b w))\<rparr>"

section \<open>Facts\<close>

lemma base_close_eq:
  "base_close b w =
     (if connection_name b = [] then w else w\<lparr>registry := (registry w)(connection_name b := None)\<rparr>)"
  by (simp add: base_close_def base_database_def Let_def split: option.split)

lemma base_close_not_open: "\<not> base_is_open b (base_close b w)"
  by (simp add: base_is_open_def base_close_eq base_database_def)

lemma create_connection_name:
  "fst (snd (base_create_connection S b w)) = b"
  by (simp add: base_create_connection_def create_connection_with_def Let_def split: option.split prod.split)

lemma create_connection_open:
  "connection_name b \<noteq> [] \<Longrightarrow> base_create_connection S b w = (ok, b', w') \<Longrightarrow> base_is_open b' w' = ok"
  by (auto simp: base_create_connection_def create_connection_with_def base_is_open_def base_database_def Let_def
      split: option.splits prod.splits if_splits)

text \<open>An operation touches the registry only under the name of the connection.\<close>

lemma registry_frame:
  assumes "nm \<noteq> connection_name b"
  shows "registry (base_close b w) nm = registry w nm"
    and "registry (snd (snd (base_create_connection S b w))) nm = registry w nm"
    and "registry (base_destroy b w) nm = registry w nm"
    and "registry (snd (snd (run_query S sql vals (b, w)))) nm = registry w nm"
  using assms
  by (auto simp: base_close_eq base_create_connection_def create_connection_with_def base_destroy_def run_query_def
      Let_def split: option.split prod.split)

lemma base_create_parts: "\<exists>ok w'. base_create_connection S b w = (ok, b, w')"
  using create_connection_name [of S b w] by (metis prod.collapse)

lemma run_query_parts: "\<exists>r w'. run_query S sql vals (b, w) = (r, b, w') \<and> registry w' = registry w"
  by (auto simp: run_query_def split: prod.split)

text \<open>One attempt of the loop, on the registry.\<close>

lemma attempt_base:
  "attempt (base_driver S) sql vals (b, w) =
     (case (if base_is_open b w then (True, b, w) else base_create_connection S b w) of
        (False, d1) \<Rightarrow> (None, d1)
      | (True, d1) \<Rightarrow>
          (case run_query S sql vals d1 of
             (Some r, d2) \<Rightarrow> (Some r, d2) | (None, b2, w2) \<Rightarrow> (None, b2, base_close b2 w2)))"
  by (simp add: attempt_def base_driver_def split: prod.split option.split bool.split)

lemma attempt_registry:
  assumes "attempt (base_driver S) sql vals (b, w) = (r, b', w')" "connection_name b \<noteq> []"
  shows "b' = b \<and> (base_is_open b' w' \<longleftrightarrow> r \<noteq> None) \<and> (\<forall>n. n \<noteq> connection_name b \<longrightarrow> registry w' n = registry w n)"
proof -
  obtain ok w1 where o: "(if base_is_open b w then (True, b, w) else base_create_connection S b w) = (ok, b, w1)"
    "base_is_open b w1 = ok" "\<forall>n. n \<noteq> connection_name b \<longrightarrow> registry w1 n = registry w n"
    using base_create_parts [of S b w] create_connection_open [OF assms(2), of S w] registry_frame(2) [of _ b S w]
    by (cases "base_is_open b w") auto
  obtain q w2 where q: "run_query S sql vals (b, w1) = (q, b, w2)" "registry w2 = registry w1"
    using run_query_parts by blast
  have op: "base_is_open b w2 = base_is_open b w1" using q(2) by (simp add: base_is_open_def base_database_def)
  show ?thesis
    using assms(1) o q op base_close_not_open [of b w2] registry_frame(1) [of _ b w2]
    unfolding attempt_base o(1) by (cases ok; cases q) auto
qed

lemma exec_loop_registry:
  assumes "exec_loop (base_driver S) sql vals n (b, w) = (r, b', w')" "connection_name b \<noteq> []" "0 < n"
  shows "b' = b \<and> (base_is_open b' w' \<longleftrightarrow> r \<noteq> None) \<and> (\<forall>m. m \<noteq> connection_name b \<longrightarrow> registry w' m = registry w m)"
  using assms
proof (induction n arbitrary: w)
  case (Suc n)
  obtain x b1 w1 where a: "attempt (base_driver S) sql vals (b, w) = (x, b1, w1)"
    by (cases "attempt (base_driver S) sql vals (b, w)") auto
  note f = attempt_registry [OF a Suc.prems(2)]
  show ?case
  proof (cases "x = None \<and> n \<noteq> 0")
    case True
    then have "exec_loop (base_driver S) sql vals n (b, w1) = (r, b', w')"
      using Suc.prems(1) a f by (simp only: exec_loop_attempt) simp
    from Suc.IH [OF this Suc.prems(2)] True f show ?thesis by auto
  next
    case False
    then have "(x, b1, w1) = (r, b', w')"
      using Suc.prems(1) a by (cases x; cases n) (simp_all only: exec_loop_attempt, simp_all)
    with f show ?thesis by auto
  qed
qed simp

section \<open>Properties\<close>

text \<open>
  Property C35.  After a statement that is not empty, on a named connection, the connection is open exactly
  when the statement succeeded, the object keeps its name and settings, and no other connection of the
  program has changed.
\<close>

theorem exec_leaves_connection:
  assumes "exec (base_driver S) sql vals (b, w) = (r, b', w')" "sql \<noteq> []" "connection_name b \<noteq> []"
  shows "b' = b \<and> (base_is_open b' w' \<longleftrightarrow> r \<noteq> None) \<and>
    (\<forall>n. n \<noteq> connection_name b \<longrightarrow> registry w' n = registry w n)"
  using exec_loop_registry [of S sql vals 3 b w r b' w'] assms by (auto simp: exec_def)

text \<open>
  A statement opens the connection it needs: with a server that accepts the settings and answers, it
  succeeds from every state of the registry.
\<close>

theorem exec_opens_on_demand:
  assumes "\<And>c srv. fst (sv_accepts S c srv)" "\<And>srv. fst (sv_run S sql vals srv) \<noteq> None" "sql \<noteq> []" "connection_name b \<noteq> []"
  shows "fst (exec (base_driver S) sql vals (b, w)) \<noteq> None"
proof -
  obtain ok w1 where o: "(if base_is_open b w then (True, b, w) else base_create_connection S b w) = (ok, b, w1)"
    using base_create_parts [of S b w] by (cases "base_is_open b w") auto
  have "ok"
  proof (cases "base_is_open b w")
    case False
    then have "base_create_connection S b w = (ok, b, w1)" using o by simp
    with assms(4) show ?thesis
      using assms(1) [of _ "server_state w"]
      by (auto simp: base_create_connection_def create_connection_with_def base_database_def Let_def split: option.splits prod.splits if_splits)
        (metis fst_conv)+
  qed (use o in simp)
  moreover have "base_is_open b w1"
    using o create_connection_open [OF assms(4), of S w] \<open>ok\<close> by (auto split: if_splits)
  then obtain r w2 where "run_query S sql vals (b, w1) = (Some r, b, w2)"
    using assms(2) [of "server_state w1"] by (cases "sv_run S sql vals (server_state w1)") (auto simp: run_query_def)
  ultimately have "attempt (base_driver S) sql vals (b, w) = (Some r, b, w2)"
    unfolding attempt_base o by simp
  then show ?thesis using assms(3) by (simp add: exec_def numeral_3_eq_3 exec_loop_attempt del: exec_loop.simps)
qed

text \<open>The destructor takes the connection out of the registry; the call of \<open>close\<close> behind it is never reached.\<close>

lemma destroyed_connection_is_gone:
  "connection_name b \<noteq> [] \<Longrightarrow> registry (base_destroy b w) = (registry w)(connection_name b := None)"
  by (auto simp: base_destroy_def Let_def)

text \<open>A connection that is replaced by another stays in the registry, as it was.\<close>

lemma replaced_connection_stays:
  assumes "create_connection_with S nm b w = (True, b', w')" "nm \<noteq> connection_name b"
  shows "connection_name b' = nm \<and> registry w' (connection_name b) = registry w (connection_name b)"
  using assms by (auto simp: create_connection_with_def Let_def split: option.splits prod.splits if_splits)

lemma renamed_to_unknown_has_no_settings:
  assumes "registry w nm = None" "nm \<noteq> []"
  shows "base_info (fst (set_connection_name gen nm prefix b w)) = connection_info_new\<lparr>ci_prefix := prefix\<rparr>"
  using assms
  by (auto simp: set_connection_name_def Let_def base_database_def base_close_eq no_settings_def from_db_def to_db_def
      connection_info_new_def)

section \<open>Examples\<close>

definition sample_server :: "(nat, nat) server_ops" where
  "sample_server = \<lparr>sv_accepts = (\<lambda>_ n. (True, n)), sv_run = (\<lambda>_ _ n. (Some n, n + 1))\<rparr>"

theorem exec_leaves_connection_witness:
  "exec (base_driver sample_server) ''SELECT 1'' [] (db_base_new ''c'' connection_info_new [], \<lparr>registry = Map.empty, server_state = 4\<rparr>) =
     (Some 4, db_base_new ''c'' connection_info_new [],
      \<lparr>registry = [''c'' \<mapsto> \<lparr>cn_settings = no_settings, cn_open = True\<rparr>], server_state = 5\<rparr>) \<and>
   base_is_open (db_base_new ''c'' connection_info_new [])
     \<lparr>registry = [''c'' \<mapsto> \<lparr>cn_settings = no_settings, cn_open = True\<rparr>], server_state = 5 :: nat\<rparr>"
proof -
  let ?b = "db_base_new ''c'' connection_info_new []"
  have e: "exec (base_driver sample_server) ''SELECT 1'' [] (?b, \<lparr>registry = Map.empty, server_state = 4\<rparr>) =
     (Some 4, ?b, \<lparr>registry = [''c'' \<mapsto> \<lparr>cn_settings = no_settings, cn_open = True\<rparr>], server_state = 5\<rparr>)"
    by (simp add: exec_def numeral_3_eq_3 base_driver_def base_is_open_def base_database_def base_create_connection_def
        create_connection_with_def run_query_def sample_server_def db_base_new_def no_settings_def)
  have "connection_name ?b \<noteq> []" by (simp add: db_base_new_def)
  with exec_leaves_connection [OF e] e show ?thesis by simp
qed

end
