(* ===== verification/Base_Stream.thy ===== *)
theory Base_Stream
  imports Prelude
begin

unbundle bit_operations_syntax

text \<open>
  \<open>Base/data_stream.h\<close> and \<open>data_stream.cpp\<close>: integers read from a byte vector in
  either byte order, and \<open>Base/zstring.cpp\<close>. A read loads the bytes as the machine does and
  swaps them in a loop when the orders differ; it is shown to be the positional value of the bytes.
\<close>

section \<open>Data_Stream\<close>

datatype byte_order = BigEndian | LittleEndian

datatype ds_status = Ok | ReadPastEnd

record data_stream =
  m_data :: bytes
  m_idx :: nat
  m_status :: ds_status
  m_byteOrder :: byte_order
  m_systemOrder :: byte_order

text \<open>
  The test of \<open>systemByteOrder\<close> is on the pointer to the probe, which is never null.
\<close>

definition systemByteOrder :: "byte_order \<Rightarrow> byte_order" where
  "systemByteOrder machine = (let pointer_not_null = True in if pointer_not_null then LittleEndian else BigEndian)"

definition data_stream_new :: "byte_order \<Rightarrow> bytes \<Rightarrow> data_stream" where
  "data_stream_new machine data =
     \<lparr>m_data = data, m_idx = 0, m_status = Ok, m_byteOrder = BigEndian,
      m_systemOrder = systemByteOrder machine\<rparr>"

definition atEnd :: "data_stream \<Rightarrow> bool" where
  "atEnd s \<longleftrightarrow> m_idx s = length (m_data s)"

definition has :: "nat \<Rightarrow> data_stream \<Rightarrow> bool" where
  "has cnt s \<longleftrightarrow> m_idx s + cnt \<le> length (m_data s)"

definition setByteOrder :: "byte_order \<Rightarrow> data_stream \<Rightarrow> data_stream" where
  "setByteOrder b s = s\<lparr>m_byteOrder := b\<rparr>"

text \<open>The value of bytes, the first one counting least.\<close>

fun le_value :: "bytes \<Rightarrow> nat" where
  "le_value [] = 0"
| "le_value (b # bs) = unat b + 256 * le_value bs"

text \<open>A load of \<open>sizeof(T)\<close> bytes by the machine.\<close>

definition load :: "byte_order \<Rightarrow> bytes \<Rightarrow> 'a::len word" where
  "load machine bs = of_nat (if machine = LittleEndian then le_value bs else le_value (rev bs))"

text \<open>The loop that turns the bytes round; for a signed type the right shift is arithmetic.\<close>

fun swap_loop :: "bool \<Rightarrow> nat \<Rightarrow> 'a::len word \<Rightarrow> 'a word \<Rightarrow> 'a word" where
  "swap_loop sgnd 0 tmp result = tmp"
| "swap_loop sgnd (Suc n) tmp result =
     swap_loop sgnd n (push_bit 8 tmp OR (result AND 0xFF))
       (if sgnd then signed_drop_bit 8 result else drop_bit 8 result)"

text \<open>\<open>None\<close>: the variable is not assigned.\<close>

definition ds_read_int ::
    "byte_order \<Rightarrow> bool \<Rightarrow> nat \<Rightarrow> data_stream \<Rightarrow> 'a::len word option \<times> data_stream" where
  "ds_read_int machine sgnd size_of s =
     (if has size_of s \<and> m_status s = Ok then
        (let result = load machine (take size_of (drop (m_idx s) (m_data s)))
         in (Some (if m_byteOrder s \<noteq> m_systemOrder s then swap_loop sgnd size_of 0 result else result),
             s\<lparr>m_idx := m_idx s + size_of\<rparr>))
      else (None, s\<lparr>m_status := ReadPastEnd\<rparr>))"

section \<open>The swapping loop\<close>

lemma take_bit_signed_shift:
  fixes r :: "'a::len word"
  assumes "n + 8 \<le> LENGTH('a)"
  shows "take_bit n (signed_drop_bit 8 r) = take_bit n (drop_bit 8 r)"
  using assms by (intro bit_word_eqI) (auto simp: bit_simps)

lemma take_bit_shift_cong:
  fixes r q :: "'a::len word"
  assumes "take_bit (n + 8) r = take_bit (n + 8) q"
  shows "take_bit n (drop_bit 8 r) = take_bit n (drop_bit 8 q)"
proof (rule bit_word_eqI)
  fix k
  have "bit (take_bit (n + 8) r) (8 + k) = bit (take_bit (n + 8) q) (8 + k)" using assms by simp
  then show "bit (take_bit n (drop_bit 8 r)) k = bit (take_bit n (drop_bit 8 q)) k"
    by (auto simp: bit_simps)
qed

lemma low_byte_cong:
  fixes r q :: "'a::len word"
  assumes "take_bit (n + 8) r = take_bit (n + 8) q"
  shows "r AND 0xFF = q AND 0xFF"
proof -
  have m: "(0xFF :: 'a word) = mask 8" by (simp add: mask_eq_exp_minus_1)
  have "take_bit 8 (take_bit (n + 8) r) = take_bit 8 (take_bit (n + 8) q)" using assms by simp
  then show ?thesis by (simp add: m take_bit_eq_mask [symmetric])
qed

text \<open>Only the low bytes matter, so that arithmetic and logical shifts agree.\<close>

lemma swap_loop_signed:
  fixes r q tmp :: "'a::len word"
  assumes "8 * n \<le> LENGTH('a)" "take_bit (8 * n) r = take_bit (8 * n) q"
  shows "swap_loop sgnd n tmp r = swap_loop False n tmp q"
  using assms
proof (induction n arbitrary: tmp r q)
  case (Suc n)
  have e: "take_bit (8 * n + 8) r = take_bit (8 * n + 8) q" using Suc.prems(2) by (simp add: add.commute)
  have "take_bit (8 * n) (if sgnd then signed_drop_bit 8 r else drop_bit 8 r) = take_bit (8 * n) (drop_bit 8 q)"
    using take_bit_signed_shift [of "8 * n" r] take_bit_shift_cong [OF e] Suc.prems(1) by simp
  with Suc.IH Suc.prems(1) low_byte_cong [OF e] show ?case by simp
qed simp

lemma le_value_less: "le_value bs < 256 ^ length bs"
proof (induction bs)
  case (Cons b bs)
  then show ?case using unat_u8_less [of b] by simp
qed simp

lemma le_value_append: "le_value (bs @ cs) = le_value bs + 256 ^ length bs * le_value cs"
  by (induction bs) (simp_all add: algebra_simps)

lemma shift_or_byte:
  fixes tmp :: "'a::len word"
  assumes "b < 256" "8 \<le> LENGTH('a)"
  shows "push_bit 8 tmp OR of_nat b = 256 * tmp + of_nat b"
proof -
  have "of_nat b = take_bit 8 (of_nat b :: 'a word)"
    using assms(1) by (simp add: take_bit_nat_eq_self flip: of_nat_take_bit)
  then have "\<not> bit (of_nat b :: 'a word) k" if "8 \<le> k" for k
    using that by (metis bit_take_bit_iff leD)
  then have "push_bit 8 tmp + of_nat b = push_bit 8 tmp OR of_nat b"
    by (intro disjunctive_add) (auto simp: bit_simps not_le)
  then show ?thesis by (simp add: push_bit_eq_mult mult.commute)
qed

lemma swap_loop_value:
  fixes tmp :: "'a::len word"
  assumes "8 * length bs \<le> LENGTH('a)"
  shows "swap_loop False (length bs) tmp (of_nat (le_value bs)) =
    256 ^ length bs * tmp + of_nat (le_value (rev bs))"
  using assms
proof (induction bs arbitrary: tmp)
  case (Cons b bs)
  have l: "le_value (b # bs) < 2 ^ LENGTH('a)"
  proof -
    have "le_value (b # bs) < 256 ^ length (b # bs)" by (rule le_value_less)
    also have "\<dots> = (2 ^ 8) ^ length (b # bs)" by simp
    also have "\<dots> = 2 ^ (8 * length (b # bs))" by (rule power_mult [symmetric])
    also have "\<dots> \<le> 2 ^ LENGTH('a)" using Cons.prems by (intro power_increasing) simp_all
    finally show ?thesis .
  qed
  have u: "unat (of_nat (le_value (b # bs)) :: 'a word) = le_value (b # bs)"
    using l by (simp only: unat_of_nat mod_less)
  have m: "(0xFF :: 'a word) = mask 8" by (simp add: mask_eq_exp_minus_1)
  have low: "(of_nat (le_value (b # bs)) :: 'a word) AND 0xFF = of_nat (unat b)"
  proof -
    have "(of_nat (le_value (b # bs)) :: 'a word) AND 0xFF = take_bit 8 (of_nat (le_value (b # bs)))"
      by (simp only: m take_bit_eq_mask)
    also have "\<dots> = of_nat (take_bit 8 (le_value (b # bs)))" by (simp only: of_nat_take_bit)
    also have "take_bit 8 (le_value (b # bs)) = unat b"
      using unat_u8_less [of b] by (simp add: take_bit_eq_mod)
    finally show ?thesis .
  qed
  have high: "drop_bit 8 (of_nat (le_value (b # bs)) :: 'a word) = of_nat (le_value bs)"
  proof (rule word_unat_eq_iff [THEN iffD2])
    have "unat (drop_bit 8 (of_nat (le_value (b # bs)) :: 'a word)) = le_value (b # bs) div 256"
      unfolding unat_drop_bit_eq u by (simp add: drop_bit_eq_div)
    also have "\<dots> = le_value bs" using unat_u8_less [of b] by simp
    also have "\<dots> = unat (of_nat (le_value bs) :: 'a word)"
      using l by (simp add: unat_of_nat take_bit_nat_eq_self)
    finally show "unat (drop_bit 8 (of_nat (le_value (b # bs)) :: 'a word)) = unat (of_nat (le_value bs) :: 'a word)" .
  qed
  have "swap_loop False (length (b # bs)) tmp (of_nat (le_value (b # bs))) =
      swap_loop False (length bs) (256 * tmp + of_nat (unat b)) (of_nat (le_value bs))"
    using shift_or_byte [of "unat b" tmp] unat_u8_less [of b] Cons.prems
    by (simp only: length_Cons swap_loop.simps low high if_False) simp
  also have "\<dots> = 256 ^ length bs * (256 * tmp + of_nat (unat b)) + of_nat (le_value (rev bs))"
    using Cons.prems by (intro Cons.IH) simp
  finally show ?case by (simp add: le_value_append algebra_simps)
qed simp

section \<open>Properties\<close>

text \<open>
  On a little-endian machine a read of a one, two or four byte integer, signed or not,
  yields the big-endian value of the next bytes by default and the little-endian value after
  \<open>setByteOrder\<close>, and moves on; a read past the end assigns nothing and makes every later read fail.
\<close>

theorem data_stream_reads_in_order:
  fixes s :: data_stream
  assumes "8 * n = LENGTH('a::len)" "m_systemOrder s = systemByteOrder LittleEndian"
  shows "(ds_read_int LittleEndian sgnd n s :: 'a word option \<times> data_stream) =
    (if m_status s = Ok \<and> m_idx s + n \<le> length (m_data s) then
       (let bs = take n (drop (m_idx s) (m_data s))
        in (Some (of_nat (if m_byteOrder s = BigEndian then le_value (rev bs) else le_value bs)),
            s\<lparr>m_idx := m_idx s + n\<rparr>))
     else (None, s\<lparr>m_status := ReadPastEnd\<rparr>))"
proof (cases "m_status s = Ok \<and> m_idx s + n \<le> length (m_data s)")
  case True
  let ?bs = "take n (drop (m_idx s) (m_data s))"
  have l: "length ?bs = n" using True by auto
  have "swap_loop sgnd n 0 (of_nat (le_value ?bs) :: 'a word) = of_nat (le_value (rev ?bs))"
    using swap_loop_signed [of n "of_nat (le_value ?bs) :: 'a word" "of_nat (le_value ?bs)" sgnd 0]
      swap_loop_value [of ?bs "0 :: 'a word"] assms(1) l
    by simp
  then show ?thesis
    using True assms(2) by (cases "m_byteOrder s") (simp_all add: ds_read_int_def has_def load_def
        systemByteOrder_def Let_def)
qed (auto simp: ds_read_int_def has_def)

text \<open>
  On a big-endian machine the wrong answer of \<open>systemByteOrder\<close> turns the bytes round when it should not.
\<close>

lemma big_endian_machine_reads_reversed:
  "fst (ds_read_int BigEndian False 2 (data_stream_new BigEndian [1, 2])) = Some (0x0201 :: u16)"
  using swap_loop_value [of "[2, 1]" "0 :: u16"]
  by (simp add: ds_read_int_def data_stream_new_def has_def load_def systemByteOrder_def Let_def
      numeral_2_eq_2 [symmetric] del: swap_loop.simps)

section \<open>String\<close>

text \<open>\<open>std::isspace\<close> in the C locale.\<close>

definition isspace :: "char \<Rightarrow> bool" where
  "isspace c = (let n = of_char c in n = (32 :: nat) \<or> 9 \<le> n \<and> n \<le> 13)"

definition ltrim :: "string \<Rightarrow> string" where
  "ltrim s = dropWhile isspace s"

definition rtrim :: "string \<Rightarrow> string" where
  "rtrim s = rev (dropWhile isspace (rev s))"

definition trim :: "string \<Rightarrow> string" where
  "trim s = rtrim (ltrim s)"

lemma rtrim_clean: "rtrim s = [] \<or> \<not> isspace (last (rtrim s))"
proof (cases "dropWhile isspace (rev s)")
  case (Cons c cs)
  then have "\<not> isspace c" by (metis hd_dropWhile list.sel(1) list.distinct(1))
  with Cons show ?thesis by (simp add: rtrim_def)
qed (simp add: rtrim_def)

text \<open>Trimming leaves no space at either end, and does nothing a second time.\<close>

lemma trim_idempotent: "trim (trim s) = trim s"
proof -
  have hd: "ltrim s = [] \<or> \<not> isspace (hd (ltrim s))"
    using hd_dropWhile [of isspace s] by (auto simp: ltrim_def)
  have p: "\<exists>t. ltrim s = trim s @ t"
    using takeWhile_dropWhile_id [of isspace "rev (ltrim s)"]
    by (metis rev_append rev_rev_ident rtrim_def trim_def)
  then have "trim s = [] \<or> \<not> isspace (hd (trim s))" using hd by (metis Nil_is_append_conv hd_append2)
  then have "ltrim (trim s) = trim s" by (cases "trim s") (auto simp: ltrim_def)
  moreover have "rtrim (trim s) = trim s"
    using rtrim_clean [of "ltrim s"] unfolding trim_def rtrim_def
    by (cases "dropWhile isspace (rev (ltrim s))") auto
  ultimately show ?thesis by (metis trim_def)
qed

section \<open>Examples\<close>

theorem data_stream_reads_in_order_witness:
  "(ds_read_int LittleEndian True 4 (data_stream_new LittleEndian [1, 2, 3, 4, 5]) :: u32 option \<times> data_stream) =
    (Some 0x01020304, (data_stream_new LittleEndian [1, 2, 3, 4, 5])\<lparr>m_idx := 4\<rparr>)"
  using data_stream_reads_in_order [of 4 "data_stream_new LittleEndian [1, 2, 3, 4, 5]" True, where 'a = 32]
  by (simp add: data_stream_new_def)

end
