(* ===== verification/Base_Settings.thy ===== *)
theory Base_Settings
  imports Base_Stream
begin

text \<open>
  \<open>Base/settings.cpp\<close>: the value of a parameter in a text of lines \<open>name=value\<close>,
  read and replaced by searching the text, and \<open>Base/settingshelper.h\<close>: parameters read from
  \<open>QSettings\<close>, with defaults that are stored when they are missing. Positions are 64-bit words,
  because the code computes with the largest one, \<open>npos\<close>.
\<close>

section \<open>Searching in a string\<close>

type_synonym u64 = "64 word"

definition npos :: u64 where
  "npos = - 1"

definition occurs_at :: "string \<Rightarrow> string \<Rightarrow> nat \<Rightarrow> bool" where
  "occurs_at text s i \<longleftrightarrow> i + length s \<le> length text \<and> take (length s) (drop i text) = s"

text \<open>\<open>std::string::find\<close>: the first occurrence at or behind a position.\<close>

definition find_from :: "string \<Rightarrow> string \<Rightarrow> nat \<Rightarrow> nat option" where
  "find_from text s k = List.find (occurs_at text s) [k ..< Suc (length text)]"

definition string_find :: "string \<Rightarrow> string \<Rightarrow> u64 \<Rightarrow> u64" where
  "string_find text s pos = (case find_from text s (unat pos) of None \<Rightarrow> npos | Some i \<Rightarrow> of_nat i)"

definition substr :: "string \<Rightarrow> u64 \<Rightarrow> u64 \<Rightarrow> string" where
  "substr text pos n = take (unat n) (drop (unat pos) text)"

definition string_replace :: "string \<Rightarrow> u64 \<Rightarrow> u64 \<Rightarrow> string \<Rightarrow> string" where
  "string_replace text pos n s = take (unat pos) text @ s @ drop (unat n) (drop (unat pos) text)"

section \<open>Settings\<close>

text \<open>The value, and the range it was found in when the two positions are written.\<close>

definition get_param_value :: "string \<Rightarrow> string \<Rightarrow> string \<times> (u64 \<times> u64) option" where
  "get_param_value text param =
     (let pos = string_find text param 0;
          pos = string_find text ''='' (pos + of_nat (length param))
      in if pos = npos then ([], None)
         else
           (let pos = pos + 1;
                pos_end = string_find text [CHR 0x0A] pos
            in (trim (substr text pos (pos_end - pos)), Some (pos, pos_end))))"

definition set_param_value :: "string \<Rightarrow> string \<Rightarrow> string \<Rightarrow> bool \<times> string" where
  "set_param_value text param v =
     (case get_param_value text param of
        (_, None) \<Rightarrow> (False, text)
      | (old_value, Some (pos, pos_end)) \<Rightarrow>
          if pos = npos \<or> old_value = v then (False, text)
          else (True, string_replace text pos (pos_end - pos) v))"

section \<open>Facts\<close>

lemma find_upt_Some:
  "List.find P [k ..< n] = Some i \<longleftrightarrow> k \<le> i \<and> i < n \<and> P i \<and> (\<forall>j. k \<le> j \<and> j < i \<longrightarrow> \<not> P j)"
proof (induction "n - k" arbitrary: k)
  case (Suc m)
  then have "[k ..< n] = k # [Suc k ..< n]" "m = n - Suc k" "k < n" by (simp_all add: upt_conv_Cons)
  note k = this
  show ?case
  proof (cases "P k")
    case True
    then have "(k \<le> i \<and> i < n \<and> P i \<and> (\<forall>j. k \<le> j \<and> j < i \<longrightarrow> \<not> P j)) \<longleftrightarrow> i = k"
      using k(3) by (auto dest: spec [of _ k])
    moreover have "List.find P [k ..< n] = Some k" using k(1) True by simp
    ultimately show ?thesis by auto
  next
    case False
    then have "k \<le> j \<and> P j \<longleftrightarrow> Suc k \<le> j \<and> P j" for j by (cases "j = k") auto
    then have c: "(\<forall>j. k \<le> j \<and> j < i \<longrightarrow> \<not> P j) \<longleftrightarrow> (\<forall>j. Suc k \<le> j \<and> j < i \<longrightarrow> \<not> P j)"
      "k \<le> i \<and> P i \<longleftrightarrow> Suc k \<le> i \<and> P i" by blast+
    have "List.find P [k ..< n] = List.find P [Suc k ..< n]" using k(1) False by simp
    then have "List.find P [k ..< n] = Some i \<longleftrightarrow>
        (Suc k \<le> i \<and> P i) \<and> i < n \<and> (\<forall>j. Suc k \<le> j \<and> j < i \<longrightarrow> \<not> P j)"
      using Suc(1) [OF k(2)] by (simp add: conj_ac)
    also have "\<dots> \<longleftrightarrow> (k \<le> i \<and> P i) \<and> i < n \<and> (\<forall>j. k \<le> j \<and> j < i \<longrightarrow> \<not> P j)" unfolding c ..
    finally show ?thesis by (simp add: conj_ac)
  qed
qed simp

lemma find_from_Some:
  "find_from text s k = Some i \<longleftrightarrow>
     k \<le> i \<and> occurs_at text s i \<and> (\<forall>j. k \<le> j \<and> j < i \<longrightarrow> \<not> occurs_at text s j)"
  unfolding find_from_def find_upt_Some by (auto simp: occurs_at_def)

lemma find_from_None: "find_from text s k = None \<longleftrightarrow> (\<forall>j \<ge> k. \<not> occurs_at text s j)"
  unfolding find_from_def find_None_iff by (auto simp: occurs_at_def)

lemma occurs_at_prefix:
  assumes "take n text = take n text'" "i + length s \<le> n" "n \<le> length text" "n \<le> length text'"
  shows "occurs_at text s i = occurs_at text' s i"
proof -
  have "take (length s) (drop i (take n text)) = take (length s) (drop i (take n text'))"
    using assms(1) by simp
  then have "take (length s) (drop i text) = take (length s) (drop i text')"
    using assms(2) le_diff_conv2 [of i n "length s"] by (simp add: drop_take min_absorb1 add.commute)
  then show ?thesis using assms(2-4) by (simp add: occurs_at_def)
qed

lemma find_from_prefix:
  assumes "take n text = take n text'" "n \<le> length text" "n \<le> length text'"
    and "find_from text s k = Some i" "i + length s \<le> n"
  shows "find_from text' s k = Some i"
  using assms(4,5) occurs_at_prefix [OF assms(1) _ assms(2,3), of _ s] unfolding find_from_Some by auto

lemma occurs_at_char: "occurs_at text [c] i \<longleftrightarrow> i < length text \<and> text ! i = c"
  by (cases "i < length text") (auto simp: occurs_at_def take_Suc_conv_app_nth hd_drop_conv_nth take_Suc)

lemma unat_u64: "n < 2 ^ 63 \<Longrightarrow> unat (of_nat n :: u64) = n"
  by (simp add: unat_of_nat take_bit_nat_eq_self)

text \<open>Where a value stands: behind the first equals sign after the name, to the end of the line.\<close>

definition line_end :: "string \<Rightarrow> nat \<Rightarrow> nat" where
  "line_end text k = (case find_from text [CHR 0x0A] k of None \<Rightarrow> length text | Some i \<Rightarrow> i)"

lemma string_find_found: "find_from text s (unat pos) = Some i \<Longrightarrow> string_find text s pos = of_nat i"
  by (simp add: string_find_def)

lemma unat_npos: "unat npos = 2 ^ 64 - 1"
  by (simp add: npos_def unsigned_minus_1_eq_mask mask_eq_exp_minus_1)

lemma of_nat_not_npos: "n < 2 ^ 63 \<Longrightarrow> (of_nat n :: u64) \<noteq> npos"
proof
  assume n: "n < 2 ^ 63" and "(of_nat n :: u64) = npos"
  then have "unat (of_nat n :: u64) = unat npos" by simp
  then show False using n unat_u64 [OF n] by (simp add: unat_npos)
qed

text \<open>The length of the value that the two positions give, also when the line is the last one.\<close>

lemma value_length:
  assumes "length text < 2 ^ 63" "k \<le> length text"
  defines "pe \<equiv> string_find text [CHR 0x0A] (of_nat k)"
  shows "take (unat (pe - of_nat k)) (drop k text) = take (line_end text k - k) (drop k text)"
    and "drop (unat (pe - of_nat k)) (drop k text) = drop (line_end text k) text"
proof -
  have k: "unat (of_nat k :: u64) = k" using assms(1,2) by (simp add: unat_u64)
  have "take (unat (pe - of_nat k)) (drop k text) = take (line_end text k - k) (drop k text) \<and>
    drop (unat (pe - of_nat k)) (drop k text) = drop (line_end text k) text"
  proof (cases "find_from text [CHR 0x0A] k")
    case None
    then have "pe = npos" by (simp add: pe_def string_find_def k)
    moreover have "unat (npos - of_nat k) = 2 ^ 64 - 1 - k"
      using k assms(1,2) by (simp add: unat_sub unat_npos word_le_nat_alt)
    ultimately show ?thesis using None assms(1) by (simp add: line_end_def)
  next
    case (Some x)
    then have x: "k \<le> x" "x < length text" by (auto simp: find_from_Some occurs_at_char)
    then have "unat (of_nat x :: u64) = x" using assms(1) by (simp add: unat_u64)
    then have "unat (pe - of_nat k) = x - k"
      using Some k x by (simp add: pe_def string_find_def unat_sub word_le_nat_alt)
    then show ?thesis using Some x by (simp add: line_end_def)
  qed
  then show "take (unat (pe - of_nat k)) (drop k text) = take (line_end text k - k) (drop k text)"
    "drop (unat (pe - of_nat k)) (drop k text) = drop (line_end text k) text" by blast+
qed

lemma get_param_value_found:
  assumes "length text < 2 ^ 63" "find_from text param 0 = Some p" "find_from text ''='' (p + length param) = Some e"
  shows "get_param_value text param =
      (trim (take (line_end text (e + 1) - (e + 1)) (drop (e + 1) text)),
       Some (of_nat (e + 1), string_find text [CHR 0x0A] (of_nat (e + 1))))"
proof -
  have e: "e < length text" "p + length param \<le> length text"
    using assms(2,3) by (auto simp: find_from_Some occurs_at_char)
  have "string_find text param 0 = of_nat p" using assms(2) by (simp add: string_find_def)
  then have "string_find text ''='' (string_find text param 0 + of_nat (length param)) = of_nat e"
    using assms(1,3) e(2) unat_u64 [of "p + length param"] by (simp add: string_find_def)
  moreover have "(of_nat e :: u64) \<noteq> npos" using e(1) assms(1) by (simp add: of_nat_not_npos)
  moreover have "unat (of_nat (e + 1) :: u64) = e + 1" using e(1) assms(1) unat_u64 [of "e + 1"] by simp
  ultimately show ?thesis
    using value_length(1) [of "text" "e + 1"] assms(1) e(1)
    by (simp add: get_param_value_def Let_def substr_def add.commute)
qed

lemma get_param_value_none:
  assumes "length text < 2 ^ 63" "find_from text param 0 = Some p" "find_from text ''='' (p + length param) = None"
  shows "get_param_value text param = ([], None)"
proof -
  have e: "p + length param \<le> length text"
    using assms(2) by (auto simp: find_from_Some occurs_at_def)
  have "string_find text param 0 = of_nat p" using assms(2) by (simp add: string_find_def)
  then have "string_find text ''='' (string_find text param 0 + of_nat (length param)) = npos"
    using assms(1,3) e unat_u64 [of "p + length param"] by (simp add: string_find_def)
  then show ?thesis by (simp add: get_param_value_def Let_def)
qed

section \<open>Properties\<close>

lemma line_end_after:
  assumes "CHR 0x0A \<notin> set v" "drop k text = [] \<or> text ! k = CHR 0x0A" "k \<le> length text" "n \<le> length text"
  shows "line_end (take n text @ v @ drop k text) n = n + length v"
proof -
  let ?t = "take n text @ v @ drop k text"
  have no: "\<not> occurs_at ?t [CHR 0x0A] j" if "n \<le> j" "j < n + length v" for j
  proof -
    have "v ! (j - n) \<in> set v" using that by simp
    then have "v ! (j - n) \<noteq> CHR 0x0A" using assms(1) by metis
    moreover have "j - n < length v" using that by simp
    ultimately show ?thesis using that assms(4) by (simp add: occurs_at_char nth_append)
  qed
  show ?thesis
  proof (cases "drop k text")
    case Nil
    then have "find_from ?t [CHR 0x0A] n = None"
      using no assms(4) by (auto simp: find_from_None) (auto simp: occurs_at_char)
    then show ?thesis using Nil assms(4) by (simp add: line_end_def)
  next
    case (Cons c cs)
    then have "c = CHR 0x0A" using assms(2,3) by (metis drop_eq_Nil2 hd_drop_conv_nth linorder_not_less list.distinct(1) list.sel(1))
    then have "occurs_at ?t [CHR 0x0A] (n + length v)"
      using Cons assms(4) by (simp add: occurs_at_char nth_append)
    then have "find_from ?t [CHR 0x0A] n = Some (n + length v)" using no by (simp add: find_from_Some)
    then show ?thesis by (simp add: line_end_def)
  qed
qed

lemma line_end_bound: "k \<le> length text \<Longrightarrow> k \<le> line_end text k \<and> line_end text k \<le> length text"
  by (auto simp: line_end_def find_from_Some occurs_at_char split: option.split)

lemma line_end_char: "drop (line_end text k) text = [] \<or> text ! line_end text k = CHR 0x0A"
  by (auto simp: line_end_def find_from_Some occurs_at_char split: option.split)

text \<open>
  A parameter that is in the text reads back as it was set: after \<open>set_param_value\<close> has
  replaced the value, \<open>get_param_value\<close> yields the new one without the spaces around it, and
  setting the same value again changes nothing.
\<close>

theorem set_param_read_back:
  assumes "length text + length v < 2 ^ 63" "find_from text param 0 = Some p" "CHR 0x0A \<notin> set v" "trim v = v"
    and "set_param_value text param v = (True, text')"
  shows "fst (get_param_value text' param) = v \<and> set_param_value text' param v = (False, text')"
proof -
  have l: "length text < 2 ^ 63" using assms(1) by simp
  obtain e where e: "find_from text ''='' (p + length param) = Some e"
    using assms(5) get_param_value_none [OF l assms(2)]
    by (cases "find_from text ''='' (p + length param)") (auto simp: set_param_value_def)
  let ?n = "e + 1" and ?k = "line_end text (e + 1)"
  have n: "?n \<le> length text" "p + length param \<le> e" using e by (auto simp: find_from_Some occurs_at_char)
  note g = get_param_value_found [OF l assms(2) e]
  have u: "unat (of_nat ?n :: u64) = ?n" using n(1) l unat_u64 [of ?n] by simp
  have t': "text' = take ?n text @ v @ drop ?k text"
    using assms(5) g value_length(2) [OF l n(1)] u
    by (simp add: set_param_value_def string_replace_def split: if_splits)
  have len: "length text' < 2 ^ 63" using assms(1) n(1) line_end_bound [OF n(1)] by (auto simp: t')
  have pre: "take ?n text = take ?n text'" "?n \<le> length text'" using n(1) by (simp_all add: t')
  have p': "find_from text' param 0 = Some p" "find_from text' ''='' (p + length param) = Some e"
    using find_from_prefix [OF pre(1) n(1) pre(2) assms(2)] find_from_prefix [OF pre(1) n(1) pre(2) e] n(2) by simp_all
  have "line_end text' ?n = ?n + length v"
    unfolding t' using line_end_bound [OF n(1)] n(1) assms(3) line_end_char by (intro line_end_after) auto
  then have "take (line_end text' ?n - ?n) (drop ?n text') = v"
    using n(1) by (simp add: t')
  then have "get_param_value text' param =
      (v, Some (of_nat ?n, string_find text' [CHR 0x0A] (of_nat ?n)))"
    using get_param_value_found [OF len p'] assms(4) by simp
  then show ?thesis by (simp add: set_param_value_def)
qed

text \<open>
  A parameter that is not in the text: the search for the equals sign starts at \<open>npos\<close> plus the length of the
  name, which wraps round to the start of the text, and the value of another parameter is returned and replaced.
\<close>

lemma missing_param_reads_another:
  "fst (get_param_value ''key=5'' ''z'') = ''5''"
  "set_param_value ''key=5'' ''z'' ''7'' = (True, ''key=7'')"
  by (simp_all add: get_param_value_def set_param_value_def string_find_def find_from_def occurs_at_def substr_def
      trim_def ltrim_def rtrim_def isspace_def npos_def string_replace_def upt_rec)

section \<open>SettingsHelper\<close>

text \<open>
  \<open>QSettings\<close>: variants under keys, with the groups that are open; a name in groups is the key with the
  groups in front.  How a store is kept in a file is not modelled.
\<close>

record 'v settings =
  store :: "string \<rightharpoonup> 'v"
  groups :: "string list"

definition key_of :: "'v settings \<Rightarrow> string \<Rightarrow> string" where
  "key_of s name = concat (map (\<lambda>g. g @ ''/'') (groups s)) @ name"

text \<open>
  An argument is a value or a \<open>Param\<close>: a name, a default, an optional function that normalises what is
  read, and the conversion of a variant to the type of the argument.
\<close>

datatype ('v, 't) setting_arg =
    Plain 't
  | Param string 'v "('v \<Rightarrow> 'v) option" "'v \<Rightarrow> 't"

definition normalized :: "('v \<Rightarrow> 'v) option \<Rightarrow> 'v \<Rightarrow> 'v" where
  "normalized f x = (case f of None \<Rightarrow> x | Some g \<Rightarrow> g x)"

definition getValue :: "('v, 't) setting_arg \<Rightarrow> 'v settings \<Rightarrow> 't \<times> 'v settings" where
  "getValue a s =
     (case a of
        Plain x \<Rightarrow> (x, s)
      | Param name dflt f cast \<Rightarrow>
          (case store s (key_of s name) of
             Some x \<Rightarrow> (cast (normalized f x), s)
           | None \<Rightarrow> (cast (normalized f dflt), s\<lparr>store := (store s)(key_of s name \<mapsto> dflt)\<rparr>)))"

fun parse_params :: "('v, 't) setting_arg list \<Rightarrow> 'v settings \<Rightarrow> 't list \<times> 'v settings" where
  "parse_params [] s = ([], s)"
| "parse_params (a # as) s =
     (case getValue a s of (x, s1) \<Rightarrow> (case parse_params as s1 of (xs, s2) \<Rightarrow> (x # xs, s2)))"

text \<open>The life of a \<open>SettingsHelper\<close>: the constructor reads, the destructor closes the group.\<close>

definition settings_helper :: "string \<Rightarrow> ('v, 't) setting_arg list \<Rightarrow> 'v settings \<Rightarrow> 't list \<times> 'v settings" where
  "settings_helper begin_group as s =
     (let end_group = begin_group \<noteq> [];
          s1 = (if end_group then s\<lparr>groups := groups s @ [begin_group]\<rparr> else s);
          (xs, s2) = parse_params as s1
      in (xs, if end_group then s2\<lparr>groups := butlast (groups s2)\<rparr> else s2))"

text \<open>\<open>SettingsHelperPtr::make\<close>: the object that is constructed from the values.\<close>

definition make_from_settings ::
    "('t list \<Rightarrow> 'o) \<Rightarrow> string \<Rightarrow> ('v, 't) setting_arg list \<Rightarrow> 'v settings \<Rightarrow> 'o \<times> 'v settings" where
  "make_from_settings construct begin_group as s =
     (case settings_helper begin_group as s of (xs, s1) \<Rightarrow> (construct xs, s1))"

lemma parse_params_groups: "groups (snd (parse_params as s)) = groups s"
  by (induction as s rule: parse_params.induct)
    (auto simp: getValue_def split: setting_arg.splits option.splits prod.splits)

lemma getValue_extends: "store s \<subseteq>\<^sub>m store (snd (getValue a s))"
  by (auto simp: getValue_def map_le_def split: setting_arg.splits option.splits)

lemma parse_params_extends: "store s \<subseteq>\<^sub>m store (snd (parse_params as s))"
proof (induction as s rule: parse_params.induct)
  case (2 a as s)
  have "store s \<subseteq>\<^sub>m store (snd (getValue a s))" by (rule getValue_extends)
  also have "\<dots> \<subseteq>\<^sub>m store (snd (parse_params as (snd (getValue a s))))" using 2 by (simp add: prod_eq_iff)
  finally show ?case by (simp add: split_beta)
qed simp

text \<open>Reading again from a store that has all that the first reading left gives the same.\<close>

lemma getValue_again:
  assumes "store (snd (getValue a s)) \<subseteq>\<^sub>m store t" "groups t = groups s"
  shows "getValue a t = (fst (getValue a s), t)"
proof (cases a)
  case (Param name dflt f cast)
  have k: "key_of t name = key_of s name" using assms(2) by (simp add: key_of_def)
  have "store (snd (getValue a s)) (key_of s name) = store t (key_of s name)"
    using assms(1) Param
    by (cases "store s (key_of s name)") (auto simp: map_le_def getValue_def dom_def)
  then show ?thesis using k Param by (auto simp: getValue_def split: option.splits)
qed (simp add: getValue_def)

lemma parse_params_again:
  assumes "store (snd (parse_params as s)) \<subseteq>\<^sub>m store t" "groups t = groups s"
  shows "parse_params as t = (fst (parse_params as s), t)"
  using assms
proof (induction as s arbitrary: t rule: parse_params.induct)
  case (2 a as s)
  let ?s = "snd (getValue a s)"
  have st: "store (snd (parse_params as ?s)) \<subseteq>\<^sub>m store t" using "2.prems"(1) by (simp add: split_beta)
  have g: "groups t = groups ?s"
    using "2.prems"(2) by (auto simp: getValue_def split: setting_arg.splits option.splits)
  have "getValue a t = (fst (getValue a s), t)"
    using map_le_trans [OF parse_params_extends st] "2.prems"(2) by (rule getValue_again)
  moreover have "parse_params as t = (fst (parse_params as ?s), t)"
    using "2.IH" [of "fst (getValue a s)" ?s t] st g by simp
  ultimately show ?case by (simp add: split_beta)
qed simp

text \<open>
  Reading settings fills in what is missing and nothing else: entries that are there stay, the
  groups are as before, and reading the same parameters again yields the same values and leaves the settings alone.
\<close>

theorem settings_read_again:
  assumes "settings_helper g as s = (xs, s')"
  shows "settings_helper g as s' = (xs, s') \<and> store s \<subseteq>\<^sub>m store s' \<and> groups s' = groups s"
proof -
  let ?o = "\<lambda>s. if g = [] then s else s\<lparr>groups := groups s @ [g]\<rparr>"
  let ?r = "parse_params as (?o s)"
  have xs: "xs = fst ?r" and s': "s' = (if g = [] then snd ?r else (snd ?r)\<lparr>groups := butlast (groups (snd ?r))\<rparr>)"
    using assms by (auto simp: settings_helper_def Let_def split_beta split: if_splits)
  have gr: "groups (snd ?r) = groups (?o s)" by (rule parse_params_groups)
  then have gs: "groups s' = groups s" "?o s' = snd ?r" "store s' = store (snd ?r)"
    by (auto simp: s' split: if_splits)
  have "parse_params as (?o s') = (xs, ?o s')"
    unfolding gs(2) xs using gr by (intro parse_params_again) simp_all
  then have "settings_helper g as s' = (xs, s')"
    by (auto simp: settings_helper_def Let_def)
  moreover have "store s \<subseteq>\<^sub>m store s'"
    using parse_params_extends [of "?o s" as] gs(3) by (auto split: if_splits)
  ultimately show ?thesis using gs(1) by blast
qed

section \<open>Examples\<close>

theorem set_param_read_back_witness:
  "fst (get_param_value (''b=30'' @ [CHR 0x0A]) ''b'') = ''30'' \<and>
   set_param_value (''b=30'' @ [CHR 0x0A]) ''b'' ''30'' = (False, ''b=30'' @ [CHR 0x0A])"
proof -
  let ?t = "''b=2'' @ [CHR 0x0A]"
  have s: "set_param_value ?t ''b'' ''30'' = (True, ''b=30'' @ [CHR 0x0A])"
    by (simp add: get_param_value_def set_param_value_def string_find_def find_from_def occurs_at_def substr_def
        trim_def ltrim_def rtrim_def isspace_def npos_def string_replace_def upt_rec)
  have f: "find_from ?t ''b'' 0 = Some 0" by (simp add: find_from_def occurs_at_def upt_rec)
  have t: "trim ''30'' = ''30''" by (simp add: trim_def ltrim_def rtrim_def isspace_def)
  show ?thesis by (rule set_param_read_back [OF _ f _ t s]) simp_all
qed

theorem settings_read_again_witness:
  "settings_helper ''Net'' [Param ''port'' (22 :: int) None (\<lambda>x. x + 1), Plain 5]
     \<lparr>store = [''Net/port'' \<mapsto> 22], groups = []\<rparr> = ([23, 5], \<lparr>store = [''Net/port'' \<mapsto> 22], groups = []\<rparr>)"
proof -
  have "settings_helper ''Net'' [Param ''port'' (22 :: int) None (\<lambda>x. x + 1), Plain 5] \<lparr>store = Map.empty, groups = []\<rparr> =
      ([23, 5], \<lparr>store = [''Net/port'' \<mapsto> 22], groups = []\<rparr>)"
    by (simp add: settings_helper_def getValue_def key_of_def normalized_def)
  from settings_read_again [OF this] show ?thesis by simp
qed

end
