(* ===== verification/Base_File.thy ===== *)
theory Base_File
  imports Prelude
begin

unbundle bit_operations_syntax

text \<open>
  \<open>Base/zfile.cpp\<close>: a file by its name and descriptor.  The file system is a map from names to contents with
  the calls of POSIX that the class makes; whether a file may be opened, how many bytes a write takes and
  whether a file can be cut are decided by the system and hence parameters.
\<close>

section \<open>Modes (Base/zfile.h)\<close>

definition READ_ONLY :: u32 where "READ_ONLY = 0"
definition WRITE_ONLY :: u32 where "WRITE_ONLY = 1"
definition READ_WRITE :: u32 where "READ_WRITE = 2"
definition CREATE :: u32 where "CREATE = 0x40"
definition TRUNCATE :: u32 where "TRUNCATE = 0x200"
definition APPEND :: u32 where "APPEND = 0x400"

lemmas mode_defs = READ_ONLY_def WRITE_ONLY_def READ_WRITE_def CREATE_def TRUNCATE_def APPEND_def

section \<open>The system\<close>

record filesystem =
  files :: "string \<rightharpoonup> bytes"
  directories :: "string set"

record posix =
  may_open :: "string \<Rightarrow> u32 \<Rightarrow> bool"
  write_takes :: "string \<Rightarrow> bytes \<Rightarrow> nat option"
  may_truncate :: "string \<Rightarrow> bool"
  may_mkdir :: "string \<Rightarrow> bool"

text \<open>A descriptor: the mode it was opened with and its position; \<open>None\<close> is \<open>-1\<close>.\<close>

type_synonym descriptor = "(u32 \<times> nat) option"

definition sys_open :: "posix \<Rightarrow> string \<Rightarrow> u32 \<Rightarrow> filesystem \<Rightarrow> descriptor \<times> filesystem" where
  "sys_open P name mode w =
     (if \<not> may_open P name mode \<or> files w name = None \<and> mode AND CREATE = 0 then (None, w)
      else
        (let old = (case files w name of None \<Rightarrow> [] | Some bs \<Rightarrow> bs);
             bs = (if mode AND TRUNCATE \<noteq> 0 then [] else old)
         in (Some (mode, 0), w\<lparr>files := (files w)(name \<mapsto> bs)\<rparr>)))"

definition content_of :: "string \<Rightarrow> filesystem \<Rightarrow> bytes" where
  "content_of name w = (case files w name of None \<Rightarrow> [] | Some bs \<Rightarrow> bs)"

definition writable :: "u32 \<Rightarrow> bool" where
  "writable mode \<longleftrightarrow> mode AND 3 \<noteq> READ_ONLY"

definition readable :: "u32 \<Rightarrow> bool" where
  "readable mode \<longleftrightarrow> mode AND 3 \<noteq> WRITE_ONLY"

text \<open>Writing at a position; a gap before it is filled with zero bytes.\<close>

definition write_at :: "nat \<Rightarrow> bytes \<Rightarrow> bytes \<Rightarrow> bytes" where
  "write_at pos bs old =
     take pos (old @ replicate (pos - length old) 0) @ bs @ drop (pos + length bs) old"

definition resized :: "nat \<Rightarrow> bytes \<Rightarrow> bytes" where
  "resized n bs = take n bs @ replicate (n - length bs) 0"

section \<open>File\<close>

record zfile =
  fd :: descriptor
  file_name :: string

definition file_new :: "string \<Rightarrow> zfile" where
  "file_new name = \<lparr>fd = None, file_name = name\<rparr>"

definition is_opened :: "zfile \<Rightarrow> bool" where
  "is_opened f \<longleftrightarrow> fd f \<noteq> None"

definition file_close :: "zfile \<Rightarrow> zfile" where
  "file_close f = (if is_opened f then f\<lparr>fd := None\<rparr> else f)"

definition file_open :: "posix \<Rightarrow> u32 \<Rightarrow> zfile \<Rightarrow> filesystem \<Rightarrow> bool \<times> zfile \<times> filesystem" where
  "file_open P mode f w =
     (case sys_open P (file_name f) mode w of
        (d, w1) \<Rightarrow> let f1 = (file_close f)\<lparr>fd := d\<rparr> in (is_opened f1, f1, w1))"

text \<open>\<open>seek\<close>: a negative position is refused.\<close>

definition file_seek :: "int \<Rightarrow> zfile \<Rightarrow> bool \<times> zfile" where
  "file_seek pos f =
     (case fd f of
        None \<Rightarrow> (False, f)
      | Some (mode, _) \<Rightarrow> if pos < 0 then (False, f) else (True, f\<lparr>fd := Some (mode, nat pos)\<rparr>))"

definition file_write :: "posix \<Rightarrow> bytes \<Rightarrow> zfile \<Rightarrow> filesystem \<Rightarrow> bool \<times> zfile \<times> filesystem" where
  "file_write P data f w =
     (case fd f of
        None \<Rightarrow> (False, f, w)
      | Some (mode, pos) \<Rightarrow>
          (case (if writable mode then write_takes P (file_name f) data else None) of
             None \<Rightarrow> (False, f, w)
           | Some n \<Rightarrow>
               let old = content_of (file_name f) w;
                   start = (if mode AND APPEND \<noteq> 0 then length old else pos)
               in (n = length data, f\<lparr>fd := Some (mode, start + n)\<rparr>,
                   w\<lparr>files := (files w)(file_name f \<mapsto> write_at start (take n data) old)\<rparr>)))"

definition file_truncate :: "posix \<Rightarrow> nat \<Rightarrow> zfile \<Rightarrow> filesystem \<Rightarrow> bool \<times> filesystem" where
  "file_truncate P n f w =
     (case fd f of
        None \<Rightarrow> (False, w)
      | Some (mode, _) \<Rightarrow>
          if writable mode \<and> may_truncate P (file_name f)
          then (True, w\<lparr>files := (files w)(file_name f \<mapsto> resized n (content_of (file_name f) w))\<rparr>)
          else (False, w))"

definition file_rewrite :: "posix \<Rightarrow> bytes \<Rightarrow> zfile \<Rightarrow> filesystem \<Rightarrow> bool \<times> zfile \<times> filesystem" where
  "file_rewrite P data f w =
     (case file_seek 0 f of
        (False, f1) \<Rightarrow> (False, f1, w)
      | (True, f1) \<Rightarrow>
          (case file_write P data f1 w of
             (False, f2, w1) \<Rightarrow> (False, f2, w1)
           | (True, f2, w1) \<Rightarrow>
               (case file_truncate P (length data) f2 w1 of (ok, w2) \<Rightarrow> (ok, f2, w2))))"

text \<open>
  \<open>read_all\<close>: the size defaults to that of the file. What \<open>read\<close> returns is stored
  in an unsigned variable: \<open>-1\<close> becomes the largest size, for which \<open>resize\<close>
  throws, and after \<open>0\<close> the buffer keeps its zero bytes.
\<close>

datatype file_exn = Length_Error

definition sys_read :: "nat \<Rightarrow> zfile \<Rightarrow> filesystem \<Rightarrow> bytes option \<times> zfile" where
  "sys_read n f w =
     (case fd f of
        None \<Rightarrow> (None, f)
      | Some (mode, pos) \<Rightarrow>
          if readable mode
          then (let bs = take n (drop pos (content_of (file_name f) w)) in (Some bs, f\<lparr>fd := Some (mode, pos + length bs)\<rparr>))
          else (None, f))"

definition read_all :: "nat option \<Rightarrow> zfile \<Rightarrow> filesystem \<Rightarrow> (file_exn + bytes) \<times> zfile" where
  "read_all sz f w =
     (case fd f of
        None \<Rightarrow> (Inr [], f)
      | Some (mode, _) \<Rightarrow>
          let n = (case sz of None \<Rightarrow> length (content_of (file_name f) w) | Some n \<Rightarrow> n);
              f1 = f\<lparr>fd := Some (mode, 0)\<rparr>
          in (case sys_read n f1 w of
                (None, f2) \<Rightarrow> (Inl Length_Error, f2)
              | (Some bs, f2) \<Rightarrow> (Inr (if length bs > 0 then bs else replicate n 0), f2)))"

section \<open>Static operations\<close>

definition file_exist :: "string \<Rightarrow> filesystem \<Rightarrow> bool" where
  "file_exist name w \<longleftrightarrow> files w name \<noteq> None \<or> name \<in> directories w"

definition read_all_of :: "posix \<Rightarrow> string \<Rightarrow> nat option \<Rightarrow> filesystem \<Rightarrow> (file_exn + bytes) \<times> filesystem" where
  "read_all_of P name sz w =
     (case file_open P READ_ONLY (file_new name) w of (_, f, w1) \<Rightarrow> (fst (read_all sz f w1), w1))"

definition write_to :: "posix \<Rightarrow> string \<Rightarrow> bytes \<Rightarrow> u32 \<Rightarrow> filesystem \<Rightarrow> bool \<times> filesystem" where
  "write_to P name data mode w =
     (case file_open P mode (file_new name) w of
        (_, f, w1) \<Rightarrow> (case file_write P data f w1 of (ok, _, w2) \<Rightarrow> (ok, w2)))"

definition create_dir :: "posix \<Rightarrow> string \<Rightarrow> filesystem \<Rightarrow> bool \<times> filesystem" where
  "create_dir P name w =
     (if may_mkdir P name \<and> \<not> file_exist name w then (True, w\<lparr>directories := insert name (directories w)\<rparr>)
      else (False, w))"

section \<open>Properties\<close>

lemma file_close_name [simp]: "file_name (file_close f) = file_name f"
  by (simp add: file_close_def)

lemma write_at_start: "resized (length bs) (write_at 0 bs old) = bs"
  by (simp add: write_at_def resized_def)

definition write_position :: "u32 \<Rightarrow> nat \<Rightarrow> bytes \<Rightarrow> nat" where
  "write_position mode pos old = (if mode AND APPEND \<noteq> 0 then length old else pos)"

lemma file_write_True:
  assumes "file_write P data f w = (True, f', w')" "fd f = Some (mode, pos)"
  defines "k \<equiv> write_position mode pos (content_of (file_name f) w)"
  shows "file_name f' = file_name f" "fd f' = Some (mode, k + length data)"
    "files w' = (files w)(file_name f \<mapsto> write_at k data (content_of (file_name f) w))"
  using assms(1,2)
  by (auto simp: file_write_def Let_def k_def write_position_def split: option.splits prod.splits if_splits)

text \<open>
  When \<open>rewrite\<close> reports success on a file that was not opened for appending, the file holds
  exactly the new data, and all other files are as before.
\<close>

theorem rewrite_replaces_content:
  assumes "fd f = Some (mode, pos)" "mode AND APPEND = 0" "file_rewrite P data f w = (True, f', w')"
  shows "files w' = (files w)(file_name f \<mapsto> data)"
proof -
  have sk: "file_seek 0 f = (True, f\<lparr>fd := Some (mode, 0)\<rparr>)" using assms(1) by (simp add: file_seek_def)
  obtain f2 w1 where w: "file_write P data (f\<lparr>fd := Some (mode, 0)\<rparr>) w = (True, f2, w1)"
    and t: "file_truncate P (length data) f2 w1 = (True, w')"
    using assms(3) sk by (auto simp: file_rewrite_def split: prod.splits bool.splits)
  from file_write_True [OF w, of mode 0] assms(2) have
    "file_name f2 = file_name f" "fd f2 = Some (mode, length data)"
    "files w1 = (files w)(file_name f \<mapsto> write_at 0 data (content_of (file_name f) w))"
    by (simp_all add: write_position_def)
  then show ?thesis
    using t by (auto simp: file_truncate_def content_of_def write_at_start split: if_splits)
qed

text \<open>
  What the static \<open>write\<close> reports as written with its default mode, the static
  \<open>read_all\<close> reads back.
\<close>

theorem written_file_read_back:
  assumes "write_to P name data (CREATE OR WRITE_ONLY OR TRUNCATE) w = (True, w')" "may_open P name READ_ONLY"
  shows "fst (read_all_of P name None w') = Inr data"
proof -
  let ?m = "CREATE OR WRITE_ONLY OR TRUNCATE"
  obtain ok f w1 where o: "file_open P ?m (file_new name) w = (ok, f, w1)" by (cases "file_open P ?m (file_new name) w") auto
  then obtain f' where wr: "file_write P data f w1 = (True, f', w')"
    using assms(1) by (auto simp: write_to_def split: prod.splits)
  have "fd f \<noteq> None" using wr by (cases "fd f") (auto simp: file_write_def)
  then have f: "fd f = Some (?m, 0)" "file_name f = name" "content_of name w1 = []"
    using o by (auto simp: file_open_def sys_open_def file_new_def content_of_def mode_defs Let_def
        split: if_splits prod.splits)
  have "files w' name = Some data"
    using file_write_True(3) [OF wr f(1)] f by (auto simp: mode_defs write_at_def write_position_def)
  then show ?thesis
    using assms(2)
    by (simp add: read_all_of_def file_open_def sys_open_def file_new_def read_all_def sys_read_def readable_def
        content_of_def mode_defs Let_def)
qed

text \<open>Reading from a file that was opened for writing only ends in an exception.\<close>

lemma read_all_write_only_throws:
  assumes "fd f = Some (mode, pos)" "mode AND 3 = WRITE_ONLY"
  shows "fst (read_all sz f w) = Inl Length_Error"
  using assms by (simp add: read_all_def sys_read_def readable_def Let_def)

text \<open>A size given for an empty file yields that many zero bytes.\<close>

lemma read_all_of_empty_file:
  assumes "fd f = Some (mode, pos)" "readable mode" "files w (file_name f) = Some []"
  shows "fst (read_all (Some n) f w) = Inr (replicate n 0)"
  using assms by (simp add: read_all_def sys_read_def content_of_def Let_def)

section \<open>Examples\<close>

definition posix_sample :: posix where
  "posix_sample =
     \<lparr>may_open = (\<lambda>_ _. True), write_takes = (\<lambda>_ bs. Some (length bs)), may_truncate = (\<lambda>_. True),
      may_mkdir = (\<lambda>_. True)\<rparr>"

definition sample_fs :: filesystem where
  "sample_fs = \<lparr>files = [''f'' \<mapsto> [1, 2, 3]], directories = {}\<rparr>"

theorem rewrite_replaces_content_witness:
  "files (snd (snd (file_rewrite posix_sample [9] \<lparr>fd = Some (READ_WRITE, 3), file_name = ''f''\<rparr> sample_fs))) =
     [''f'' \<mapsto> [9]]"
proof -
  let ?f = "\<lparr>fd = Some (READ_WRITE, 3), file_name = ''f''\<rparr>"
  obtain ok f' w' where r: "file_rewrite posix_sample [9] ?f sample_fs = (ok, f', w')"
    by (cases "file_rewrite posix_sample [9] ?f sample_fs") auto
  moreover have "ok"
    using r by (auto simp: file_rewrite_def file_seek_def file_write_def file_truncate_def posix_sample_def
        sample_fs_def writable_def mode_defs Let_def)
  ultimately show ?thesis
    using rewrite_replaces_content [of ?f READ_WRITE 3 posix_sample "[9]" sample_fs f' w']
    by (simp add: mode_defs sample_fs_def)
qed

theorem written_file_read_back_witness:
  "fst (read_all_of posix_sample ''g'' None
     (snd (write_to posix_sample ''g'' [4, 5] (CREATE OR WRITE_ONLY OR TRUNCATE) sample_fs))) = Inr [4, 5]"
proof -
  let ?m = "CREATE OR WRITE_ONLY OR TRUNCATE"
  obtain ok w' where r: "write_to posix_sample ''g'' [4, 5] ?m sample_fs = (ok, w')"
    by (cases "write_to posix_sample ''g'' [4, 5] ?m sample_fs")
  moreover have "ok"
    using r by (auto simp: write_to_def file_open_def sys_open_def file_new_def file_write_def posix_sample_def
        sample_fs_def writable_def mode_defs Let_def)
  ultimately show ?thesis
    using written_file_read_back [of posix_sample "''g''" "[4, 5]" sample_fs w'] by (simp add: posix_sample_def)
qed

end
