(* ===== verification/Base_Console.thy ===== *)
theory Base_Console
  imports Prelude
begin

text \<open>
  \<open>Base/consolereader.cpp\<close>: a line of the terminal per activation of a notifier. What the
  standard input gives is the list of texts that successive reads of the device return. The text stream of
  Qt is a parameter: from the reads that are ahead it gives a line, null if there is none, and the reads it
  has not taken.
\<close>

section \<open>The slot and its activations\<close>

type_synonym text_stream = "string list \<Rightarrow> string option \<times> string list"

text \<open>The slot makes a stream of its own for every activation and emits the line it reads.\<close>

definition console_text :: "text_stream \<Rightarrow> string list \<Rightarrow> string option \<times> string list" where
  "console_text stream reads = (let (line, reads') = stream reads in (line, reads'))"

text \<open>What is emitted when the notifier activates the slot so many times.\<close>

primrec console_lines :: "text_stream \<Rightarrow> nat \<Rightarrow> string list \<Rightarrow> string option list" where
  "console_lines stream 0 reads = []"
| "console_lines stream (Suc n) reads =
     (let (line, reads') = console_text stream reads in line # console_lines stream n reads')"

text \<open>
  A buffered stream: it takes a read as a whole, and what it has taken behind the line goes with the stream.
  Without anything to read the line is null.
\<close>

definition without_return :: "string \<Rightarrow> string" where
  "without_return l = (if l \<noteq> [] \<and> last l = CHR 0x0D then butlast l else l)"

definition buffered :: "text_stream \<Rightarrow> bool" where
  "buffered stream \<longleftrightarrow>
     (\<forall>l rest reads. CHR 0x0A \<notin> set l \<longrightarrow> stream ((l @ CHR 0x0A # rest) # reads) = (Some (without_return l), reads)) \<and>
     stream [] = (None, [])"

section \<open>Lines of a terminal\<close>

text \<open>A terminal gives one line per read: the reader emits the lines that are typed, each once and in order.\<close>

lemma typed_lines_emitted:
  assumes "buffered stream" "\<forall>l \<in> set ls. CHR 0x0A \<notin> set l"
  shows "console_lines stream (length ls) (map (\<lambda>l. l @ [CHR 0x0A]) ls) = map (\<lambda>l. Some (without_return l)) ls"
  using assms(2) by (induction ls) (use assms(1) in \<open>simp_all add: buffered_def console_text_def\<close>)

section \<open>What goes wrong\<close>

text \<open>At the end of the input the notifier goes on: every activation emits a null text.\<close>

lemma end_of_input_emits_null:
  assumes "buffered stream"
  shows "console_lines stream n [] = replicate n None"
  by (induction n) (use assms in \<open>simp_all add: buffered_def console_text_def\<close>)

text \<open>When one read returns several lines, as from a pipe or after a paste, all but the first are lost with the stream.\<close>

lemma lines_of_one_read_lost:
  assumes "buffered stream" "CHR 0x0A \<notin> set l"
  shows "console_lines stream (Suc n) [l @ CHR 0x0A # rest] = Some (without_return l) # replicate n None"
  using assms end_of_input_emits_null [OF assms(1), of n] by (simp add: buffered_def console_text_def)

section \<open>An example\<close>

text \<open>A stream that takes reads until it has a line; a read that returns nothing ends its last one.\<close>

fun take_line :: "string \<Rightarrow> text_stream" where
  "take_line buf [] = (if buf = [] then None else Some buf, [])"
| "take_line buf (r # rs) =
     (if r = [] then (if buf = [] then None else Some buf, rs)
      else if CHR 0x0A \<in> set (buf @ r) then (Some (without_return (takeWhile (\<lambda>c. c \<noteq> CHR 0x0A) (buf @ r))), rs)
      else take_line (buf @ r) rs)"

lemma take_line_buffered: "buffered (take_line [])"
proof -
  have "takeWhile (\<lambda>c. c \<noteq> CHR 0x0A) (l @ CHR 0x0A # rest) = l" if "CHR 0x0A \<notin> set l" for l rest
    using that by (subst takeWhile_append2) auto
  then show ?thesis by (simp add: buffered_def)
qed

lemma pasted_lines_lost:
  "console_lines (take_line []) 2 [''a'' @ [CHR 0x0A] @ ''b'' @ [CHR 0x0A]] = [Some ''a'', None]"
  using lines_of_one_read_lost [OF take_line_buffered, of "''a''" 1 "''b'' @ [CHR 0x0A]"]
  by (simp add: without_return_def numeral_2_eq_2)

end
