(* ===== verification/Base_Thread.thy ===== *)
theory Base_Thread
  imports Worker_Pool
begin

text \<open>
  \<open>Base/simplethread.h\<close>: a thread that constructs an object, publishes a pointer to it and
  keeps a promise that others wait on in \<open>ptr()\<close>. The thread and one caller of
  \<open>ptr()\<close> take turns in any order; a step ends where the other side can see the state.
\<close>

section \<open>State\<close>

datatype promise_value = Bool_Value bool | Exception_Value

text \<open>Where the thread is: in \<open>run\<close> and \<open>started\<close>, or in the handler of an exception.\<close>

datatype thread_pc =
    T_Created | T_Constructing | T_Started | T_Stored | T_Promised | T_Promises_Freed
  | T_Executing | T_Exec_Returned | T_Object_Destroyed | T_Finished
  | T_Caught | T_Exception_Set | T_Caught_Freed | T_Failed | T_Terminated

text \<open>Where the caller is in \<open>ptr()\<close>, and how the call ended.\<close>

datatype ptr_result = Got_Object | Got_Null | Bad_Start_Result | Rethrown | Undefined

datatype caller_pc = C_Entry | C_Loaded_Null | C_Checked | C_Waiting | C_Woken | C_Returned ptr_result

text \<open>
  \<open>promises\<close> is the pointer and \<open>promises_alive\<close> the object;
  \<open>shared_state\<close> is what the future sees, which outlives both.
\<close>

record param_thread =
  t_pc :: thread_pc
  args_alive :: bool
  ptr_set :: bool
  object_alive :: bool
  promises_set :: bool
  promises_alive :: bool
  shared_state :: "promise_value option"
  c_pc :: caller_pc

definition param_thread_new :: param_thread where
  "param_thread_new =
     \<lparr>t_pc = T_Created, args_alive = True, ptr_set = False, object_alive = False,
      promises_set = True, promises_alive = True, shared_state = None, c_pc = C_Entry\<rparr>"

section \<open>The thread\<close>

text \<open>
  The next step of the thread; \<open>throws\<close> tells whether the constructor of the object, or the event loop,
  throws.  An exception after the promise is kept leaves \<open>run\<close>, which ends the process.
\<close>

definition thread_next :: "bool \<Rightarrow> param_thread \<Rightarrow> param_thread" where
  "thread_next throws s =
     (case t_pc s of
        T_Created \<Rightarrow> s\<lparr>t_pc := T_Constructing\<rparr>
      | T_Constructing \<Rightarrow>
          if throws then s\<lparr>t_pc := T_Caught\<rparr> else s\<lparr>t_pc := T_Started, object_alive := True\<rparr>
      | T_Started \<Rightarrow> s\<lparr>t_pc := T_Stored, ptr_set := True\<rparr>
      | T_Stored \<Rightarrow> s\<lparr>t_pc := T_Promised, shared_state := Some (Bool_Value True)\<rparr>
      | T_Promised \<Rightarrow> s\<lparr>t_pc := T_Promises_Freed, promises_alive := False\<rparr>
      | T_Promises_Freed \<Rightarrow> s\<lparr>t_pc := T_Executing, promises_set := False, args_alive := False\<rparr>
      | T_Executing \<Rightarrow>
          if throws then s\<lparr>t_pc := T_Terminated, object_alive := False\<rparr> else s\<lparr>t_pc := T_Exec_Returned\<rparr>
      | T_Exec_Returned \<Rightarrow> s\<lparr>t_pc := T_Object_Destroyed, object_alive := False\<rparr>
      | T_Object_Destroyed \<Rightarrow> s\<lparr>t_pc := T_Finished, ptr_set := False\<rparr>
      | T_Caught \<Rightarrow> s\<lparr>t_pc := T_Exception_Set, shared_state := Some Exception_Value\<rparr>
      | T_Exception_Set \<Rightarrow> s\<lparr>t_pc := T_Caught_Freed, promises_alive := False\<rparr>
      | T_Caught_Freed \<Rightarrow> s\<lparr>t_pc := T_Failed, promises_set := False\<rparr>
      | _ \<Rightarrow> s)"

definition is_running :: "param_thread \<Rightarrow> bool" where
  "is_running s \<longleftrightarrow> t_pc s \<notin> {T_Created, T_Finished, T_Failed, T_Terminated}"

section \<open>The caller\<close>

text \<open>
  \<open>ptr()\<close>: the pointer is loaded; when it is null and there are promises, the future is taken from them and
  waited for, and the pointer is loaded again.  \<open>None\<close>: the caller cannot step.  A use of the promises that
  finds the pointer null or the object gone is undefined.
\<close>

definition caller_next :: "param_thread \<Rightarrow> param_thread option" where
  "caller_next s =
     (case c_pc s of
        C_Entry \<Rightarrow>
          if \<not> is_running s then None
          else Some (s\<lparr>c_pc := (if ptr_set s then C_Returned Got_Object else C_Loaded_Null)\<rparr>)
      | C_Loaded_Null \<Rightarrow> Some (s\<lparr>c_pc := (if promises_set s then C_Checked else C_Returned Got_Null)\<rparr>)
      | C_Checked \<Rightarrow>
          Some (s\<lparr>c_pc := (if promises_set s \<and> promises_alive s then C_Waiting else C_Returned Undefined)\<rparr>)
      | C_Waiting \<Rightarrow>
          (case shared_state s of
             None \<Rightarrow> None
           | Some Exception_Value \<Rightarrow> Some (s\<lparr>c_pc := C_Returned Rethrown\<rparr>)
           | Some (Bool_Value b) \<Rightarrow> Some (s\<lparr>c_pc := (if b then C_Woken else C_Returned Bad_Start_Result)\<rparr>))
      | C_Woken \<Rightarrow> Some (s\<lparr>c_pc := C_Returned (if ptr_set s then Got_Object else Got_Null)\<rparr>)
      | C_Returned _ \<Rightarrow> None)"

datatype pt_event = Thread_Step bool | Caller_Step

inductive pt_step :: "param_thread \<Rightarrow> pt_event \<Rightarrow> param_thread \<Rightarrow> bool" where
  thread_steps: "pt_step s (Thread_Step throws) (thread_next throws s)"
| caller_steps: "caller_next s = Some s' \<Longrightarrow> pt_step s Caller_Step s'"

inductive_cases pt_stepE: "pt_step s e s'"

text \<open>The same steps as a function, to run given sequences.\<close>

fun pt_run :: "pt_event list \<Rightarrow> param_thread \<Rightarrow> param_thread option" where
  "pt_run [] s = Some s"
| "pt_run (Thread_Step throws # es) s = pt_run es (thread_next throws s)"
| "pt_run (Caller_Step # es) s = (case caller_next s of None \<Rightarrow> None | Some s1 \<Rightarrow> pt_run es s1)"

lemma pt_run_sound: "pt_run es s = Some s' \<Longrightarrow> run_of pt_step s es s'"
  by (induction es s rule: pt_run.induct)
    (auto intro: run_start run_Cons pt_step.intros split: option.splits)

section \<open>The invariant\<close>

text \<open>What holds at each place of the thread.\<close>

definition thread_facts :: "thread_pc \<Rightarrow> bool \<times> bool \<times> bool \<times> bool \<times> promise_value option" where
  "thread_facts pc =
     (case pc of
        T_Created \<Rightarrow> (False, False, True, True, None)
      | T_Constructing \<Rightarrow> (False, False, True, True, None)
      | T_Started \<Rightarrow> (False, True, True, True, None)
      | T_Stored \<Rightarrow> (True, True, True, True, None)
      | T_Promised \<Rightarrow> (True, True, True, True, Some (Bool_Value True))
      | T_Promises_Freed \<Rightarrow> (True, True, True, False, Some (Bool_Value True))
      | T_Executing \<Rightarrow> (True, True, False, False, Some (Bool_Value True))
      | T_Exec_Returned \<Rightarrow> (True, True, False, False, Some (Bool_Value True))
      | T_Object_Destroyed \<Rightarrow> (True, False, False, False, Some (Bool_Value True))
      | T_Terminated \<Rightarrow> (True, False, False, False, Some (Bool_Value True))
      | T_Finished \<Rightarrow> (False, False, False, False, Some (Bool_Value True))
      | T_Caught \<Rightarrow> (False, False, True, True, None)
      | T_Exception_Set \<Rightarrow> (False, False, True, True, Some Exception_Value)
      | T_Caught_Freed \<Rightarrow> (False, False, True, False, Some Exception_Value)
      | T_Failed \<Rightarrow> (False, False, False, False, Some Exception_Value))"

text \<open>The places at which the thread has published the object, or has given up.\<close>

definition published :: "thread_pc \<Rightarrow> bool" where
  "published pc \<longleftrightarrow> pc \<in> {T_Stored, T_Promised, T_Promises_Freed, T_Executing, T_Exec_Returned,
     T_Object_Destroyed, T_Finished, T_Terminated}"

definition gave_up :: "thread_pc \<Rightarrow> bool" where
  "gave_up pc \<longleftrightarrow> pc \<in> {T_Exception_Set, T_Caught_Freed, T_Failed}"

definition pt_ok :: "param_thread \<Rightarrow> bool" where
  "pt_ok s \<longleftrightarrow>
     (ptr_set s, object_alive s, promises_set s, promises_alive s, shared_state s) = thread_facts (t_pc s) \<and>
     (c_pc s \<noteq> C_Entry \<longrightarrow> t_pc s \<noteq> T_Created) \<and>
     (case c_pc s of
        C_Woken \<Rightarrow> shared_state s = Some (Bool_Value True)
      | C_Returned Got_Object \<Rightarrow> published (t_pc s)
      | C_Returned Rethrown \<Rightarrow> gave_up (t_pc s)
      | C_Returned Bad_Start_Result \<Rightarrow> False
      | _ \<Rightarrow> True)"

lemma thread_next_ok: "pt_ok s \<Longrightarrow> pt_ok (thread_next throws s)"
  by (cases "t_pc s")
    (auto simp: pt_ok_def thread_next_def thread_facts_def published_def gave_up_def
      split: caller_pc.splits ptr_result.splits)

lemma caller_next_ok: "pt_ok s \<Longrightarrow> caller_next s = Some s' \<Longrightarrow> pt_ok s'"
  by (cases "t_pc s"; cases "c_pc s")
    (auto simp: pt_ok_def caller_next_def thread_facts_def published_def gave_up_def is_running_def
      split: if_splits)

lemma pt_reachable_ok: "run_of pt_step param_thread_new es s \<Longrightarrow> pt_ok s"
proof (induction rule: run_of.induct)
  case run_start
  show ?case by (simp add: pt_ok_def param_thread_new_def thread_facts_def)
next
  case (run_step es s e s')
  then show ?case by (auto elim!: pt_stepE intro: thread_next_ok caller_next_ok)
qed

section \<open>Properties\<close>

text \<open>
  Property C36.  However the thread and a caller of \<open>ptr()\<close> interleave: the caller gets the object only when the
  thread has published it, gets an exception only when the construction threw, and never the error for a
  bad start; it wakes only after the promise was kept, and when the thread has ended no caller is left
  waiting.
\<close>

theorem ptr_tells_outcome:
  assumes "run_of pt_step param_thread_new es s"
  shows "(c_pc s = C_Returned Got_Object \<longrightarrow> published (t_pc s)) \<and>
    (c_pc s = C_Returned Rethrown \<longrightarrow> gave_up (t_pc s) \<and> shared_state s = Some Exception_Value) \<and>
    c_pc s \<noteq> C_Returned Bad_Start_Result \<and>
    (c_pc s = C_Woken \<longrightarrow> shared_state s = Some (Bool_Value True)) \<and>
    (c_pc s = C_Waiting \<and> \<not> is_running s \<longrightarrow> caller_next s \<noteq> None)"
  using pt_reachable_ok [OF assms]
  by (auto simp: pt_ok_def published_def gave_up_def thread_facts_def is_running_def caller_next_def
      split: thread_pc.splits promise_value.splits)

text \<open>
  The pointer to the promises is tested and used without a lock: the thread can free the object between
  the two.
\<close>

lemma ptr_may_use_freed_promises:
  "\<exists>es s. run_of pt_step param_thread_new es s \<and> c_pc s = C_Returned Undefined"
proof -
  let ?es = "[Thread_Step False, Caller_Step, Caller_Step, Thread_Step False, Thread_Step False, Thread_Step False,
      Thread_Step False, Caller_Step]"
  have "\<exists>s. pt_run ?es param_thread_new = Some s \<and> c_pc s = C_Returned Undefined"
    by (simp add: thread_next_def caller_next_def param_thread_new_def is_running_def)
  then show ?thesis using pt_run_sound by blast
qed

text \<open>The object is destroyed before the pointer is cleared, so that \<open>ptr()\<close> can return a dangling pointer.\<close>

lemma ptr_may_dangle:
  "\<exists>es s. run_of pt_step param_thread_new es s \<and> c_pc s = C_Returned Got_Object \<and> \<not> object_alive s \<and>
     is_running s"
proof -
  have "\<exists>s. pt_run (replicate 8 (Thread_Step False) @ [Caller_Step]) param_thread_new = Some s \<and>
      c_pc s = C_Returned Got_Object \<and> \<not> object_alive s \<and> is_running s"
    by (simp add: numeral_eq_Suc thread_next_def caller_next_def param_thread_new_def is_running_def)
  then show ?thesis using pt_run_sound by blast
qed

section \<open>Examples\<close>

theorem ptr_tells_outcome_witness:
  "\<exists>s. pt_run [Thread_Step False, Thread_Step True, Caller_Step, Caller_Step, Caller_Step, Thread_Step True, Caller_Step]
      param_thread_new = Some s \<and> c_pc s = C_Returned Rethrown \<and> shared_state s = Some Exception_Value"
proof -
  let ?es = "[Thread_Step False, Thread_Step True, Caller_Step, Caller_Step, Caller_Step, Thread_Step True, Caller_Step]"
  obtain s where s: "pt_run ?es param_thread_new = Some s" "c_pc s = C_Returned Rethrown"
    by (simp add: thread_next_def caller_next_def param_thread_new_def is_running_def)
  with ptr_tells_outcome [OF pt_run_sound [OF s(1)]] show ?thesis by blast
qed

end
