(* ===== verification/Base_Logging.thy ===== *)
theory Base_Logging
  imports Prelude
begin

text \<open>
  \<open>Base/logging.cpp\<close>: the message handler of the program, which writes to the console, to the system log or to a
  file.  The outputs are the effects of the operations; the time stamp of a line is a parameter.
\<close>

section \<open>State\<close>

datatype msg_type = Debug_Msg | Info_Msg | Warning_Msg | Critical_Msg | Fatal_Msg

datatype syslog_level = LOG_DEBUG | LOG_INFO | LOG_WARNING | LOG_ERR | LOG_CRIT

datatype log_effect =
    Console msg_type string
  | Syslog syslog_level string
  | Log_Line string
  | Open_Syslog
  | Close_Syslog
  | Close_File

text \<open>\<open>file\<close>: the object, and whether it could be opened and hence has a text stream.\<close>

record logging =
  log_debug :: bool
  log_syslog :: bool
  log_initialized :: bool
  log_file :: bool
  log_stream :: bool
  log_posted :: "(msg_type \<times> string \<times> string) list"

definition logging_new :: "bool \<Rightarrow> bool \<Rightarrow> logging" where
  "logging_new debug use_syslog =
     \<lparr>log_debug = debug, log_syslog = use_syslog, log_initialized = False, log_file = False, log_stream = False,
      log_posted = []\<rparr>"

definition set_debug :: "bool \<Rightarrow> logging \<Rightarrow> logging" where
  "set_debug v l = l\<lparr>log_debug := v\<rparr>"

definition set_syslog :: "bool \<Rightarrow> logging \<Rightarrow> logging" where
  "set_syslog v l = l\<lparr>log_syslog := v\<rparr>"

section \<open>Operations\<close>

fun type_char :: "msg_type \<Rightarrow> char" where
  "type_char Info_Msg = CHR ''I''"
| "type_char Debug_Msg = CHR ''D''"
| "type_char Warning_Msg = CHR ''W''"
| "type_char Critical_Msg = CHR ''C''"
| "type_char Fatal_Msg = CHR ''F''"

text \<open>\<open>stamp\<close> is the present time in the format asked for.\<close>

definition get_prefix :: "(string \<Rightarrow> string) \<Rightarrow> msg_type \<Rightarrow> string \<Rightarrow> string \<Rightarrow> string" where
  "get_prefix stamp ty category date_format =
     stamp date_format @ ''['' @ category @ '']['' @ [type_char ty] @ ''] ''"

fun syslog_level_of :: "msg_type \<Rightarrow> syslog_level" where
  "syslog_level_of Info_Msg = LOG_INFO"
| "syslog_level_of Debug_Msg = LOG_DEBUG"
| "syslog_level_of Warning_Msg = LOG_WARNING"
| "syslog_level_of Critical_Msg = LOG_ERR"
| "syslog_level_of Fatal_Msg = LOG_CRIT"

definition log_save :: "(string \<Rightarrow> string) \<Rightarrow> msg_type \<Rightarrow> string \<Rightarrow> string \<Rightarrow> logging \<Rightarrow> log_effect list" where
  "log_save stamp ty category str l =
     (if log_syslog l then [Syslog (syslog_level_of ty) (''['' @ category @ ''] '' @ str)]
      else if log_stream l then [Log_Line (get_prefix stamp ty category ''[hh:mm:ss dd.MM]'' @ str)]
      else [])"

text \<open>
  The handler: the console, then the signal \<open>new_message\<close>, which is connected to
  \<open>save\<close>. In the thread of the logging object the slot runs at once, from any other thread the
  call is posted to that thread, which delivers the posted calls in order.
\<close>

definition log_handler ::
    "(string \<Rightarrow> string) \<Rightarrow> bool \<Rightarrow> msg_type \<Rightarrow> string \<Rightarrow> string \<Rightarrow> logging \<Rightarrow> log_effect list \<times> logging" where
  "log_handler stamp own_thread ty category str l =
     (if \<not> log_debug l \<and> ty = Debug_Msg then ([], l)
      else
        (let console = (if \<not> log_syslog l \<or> log_debug l
                        then [Console ty (get_prefix stamp ty category ''[hh:mm:ss]'' @ str)] else [])
         in if own_thread then (console @ log_save stamp ty category str l, l)
            else (console, l\<lparr>log_posted := log_posted l @ [(ty, category, str)]\<rparr>)))"

definition log_deliver :: "(string \<Rightarrow> string) \<Rightarrow> logging \<Rightarrow> log_effect list \<times> logging" where
  "log_deliver stamp l =
     (case log_posted l of
        [] \<Rightarrow> ([], l)
      | (ty, category, str) # rest \<Rightarrow> (log_save stamp ty category str l, l\<lparr>log_posted := rest\<rparr>))"

definition log_init :: "bool \<Rightarrow> logging \<Rightarrow> log_effect list \<times> logging" where
  "log_init file_opens l =
     (if log_initialized l then ([], l)
      else if log_syslog l then ([Open_Syslog], l\<lparr>log_initialized := True\<rparr>)
      else ([], l\<lparr>log_file := True, log_stream := file_opens, log_initialized := True\<rparr>))"

text \<open>The destructor; \<open>None\<close>: it uses a file that was never made.\<close>

definition log_destroy :: "logging \<Rightarrow> log_effect list option" where
  "log_destroy l =
     (if \<not> log_initialized l then Some []
      else if log_syslog l then Some [Close_Syslog]
      else if log_file l then Some [Close_File]
      else None)"

section \<open>Facts\<close>

text \<open>Delivery of all posted calls.\<close>

fun deliver_all :: "(string \<Rightarrow> string) \<Rightarrow> nat \<Rightarrow> logging \<Rightarrow> log_effect list \<times> logging" where
  "deliver_all stamp 0 l = ([], l)"
| "deliver_all stamp (Suc n) l =
     (case log_deliver stamp l of (es, l1) \<Rightarrow> (case deliver_all stamp n l1 of (fs, l2) \<Rightarrow> (es @ fs, l2)))"

lemma log_save_posted [simp]: "log_save stamp ty category str (l\<lparr>log_posted := q\<rparr>) = log_save stamp ty category str l"
  by (simp add: log_save_def)

lemma deliver_all_posted:
  "deliver_all stamp (length (log_posted l)) l =
     (concat (map (\<lambda>(ty, category, str). log_save stamp ty category str l) (log_posted l)), l\<lparr>log_posted := []\<rparr>)"
proof (induction "log_posted l" arbitrary: l)
  case (Cons m ms)
  obtain ty category str where m: "m = (ty, category, str)" by (cases m)
  have "deliver_all stamp (length ms) (l\<lparr>log_posted := ms\<rparr>) =
      (concat (map (\<lambda>(ty, category, str). log_save stamp ty category str l) ms), l\<lparr>log_posted := []\<rparr>)"
    using Cons(1) [of "l\<lparr>log_posted := ms\<rparr>"] by simp
  then show ?case by (simp add: Cons(2) [symmetric] m log_deliver_def)
qed (simp add: log_deliver_def)

text \<open>
  Messages from another thread are saved as they would have been at once, in their order, when the flags
  have not changed meanwhile.
\<close>

lemma posted_saved_in_order:
  assumes "log_posted l = []" "\<not> (ty = Debug_Msg \<and> \<not> log_debug l)"
  shows "fst (log_handler stamp False ty category str l) @
      fst (deliver_all stamp 1 (snd (log_handler stamp False ty category str l))) =
    fst (log_handler stamp True ty category str l)"
  using assms by (auto simp: log_handler_def log_deliver_def Let_def)

text \<open>
  A message reaches exactly one of the system log and the file, or neither when the file could not be
  opened; debug messages reach nothing unless debugging is on, and with the system log the console is used for
  debugging only.
\<close>

lemma handler_sinks:
  "fst (log_handler stamp True ty category str l) =
     (if ty = Debug_Msg \<and> \<not> log_debug l then []
      else if log_syslog l then
        (if log_debug l then [Console ty (get_prefix stamp ty category ''[hh:mm:ss]'' @ str)] else []) @
        [Syslog (syslog_level_of ty) (''['' @ category @ ''] '' @ str)]
      else
        Console ty (get_prefix stamp ty category ''[hh:mm:ss]'' @ str) #
        (if log_stream l then [Log_Line (get_prefix stamp ty category ''[hh:mm:ss dd.MM]'' @ str)] else []))"
  by (simp add: log_handler_def log_save_def)

lemma levels_distinct: "syslog_level_of a = syslog_level_of b \<longleftrightarrow> a = b"
  by (cases a; cases b) simp_all

lemma init_once: "log_init o2 (snd (log_init o1 l)) = ([], snd (log_init o1 l))"
  by (simp add: log_init_def)

lemma destroy_after_init:
  "log_initialized l = False \<Longrightarrow> log_destroy (snd (log_init opens l)) \<noteq> None"
  by (simp add: log_init_def log_destroy_def)

text \<open>
  The destructor asks the present value of the flag what to close: initialised with the system log and
  then switched to the file, it uses a file that does not exist.
\<close>

lemma destroy_after_switch_undefined:
  "log_destroy (set_syslog False (snd (log_init opens (logging_new debug True)))) = None"
  by (simp add: log_init_def log_destroy_def logging_new_def set_syslog_def)

end
