(* ===== verification/Service_Base.thy ===== *)
theory Service_Base
  imports Base_Logging
begin

text \<open>
  \<open>Service/service.cpp\<close> and \<open>service.h\<close>: the service object with its log thread
  and its worker, the restart of the worker, and the signals that end the process. The worker class is given
  by the names of its methods; the framework QtService around it is in \<open>Qt_Service\<close>.
\<close>

section \<open>The worker\<close>

text \<open>The loop of \<open>Impl::create_worker\<close> over the methods of the worker class, with its early exit.\<close>

fun find_slots :: "string list \<Rightarrow> bool \<Rightarrow> bool \<Rightarrow> bool \<times> bool" where
  "find_slots [] has_log has_restart = (has_log, has_restart)"
| "find_slots (name # names) has_log has_restart =
     (let (l, r) =
        (if name = ''logMessage'' then (True, has_restart)
         else if name = ''serviceRestart'' then (has_log, True)
         else (has_log, has_restart))
      in if l \<and> r then (l, r) else find_slots names l r)"

text \<open>The objects: workers are numbered in the order they are made.\<close>

datatype service_effect =
    Start_Log_Thread
  | Worker_Made nat
  | Connect_Log nat
  | Connect_Restart nat
  | Disconnect_Log
  | Worker_Deleted nat
  | Commands nat "string list"
  | Quit_Log_Thread
  | Terminate_Log_Thread
  | Backtrace
  | App_Exit int
  | Process_Exit int

record service_object =
  srv_log :: logging
  worker :: nat
  next_worker :: nat
  service_effects :: "service_effect list"

definition perform :: "service_effect list \<Rightarrow> service_object \<Rightarrow> service_object" where
  "perform es s = s\<lparr>service_effects := service_effects s @ es\<rparr>"

definition object_create_worker :: "string list \<Rightarrow> service_object \<Rightarrow> service_object" where
  "object_create_worker methods s =
     (let n = next_worker s;
          (l, r) = find_slots methods False False
      in perform ([Worker_Made n] @ (if l then [Connect_Log n] else []) @ (if r then [Connect_Restart n] else []))
           (s\<lparr>worker := n, next_worker := n + 1\<rparr>))"

text \<open>The log thread has made the logging object \<open>l\<close>.\<close>

definition object_new :: "logging \<Rightarrow> bool \<Rightarrow> string list \<Rightarrow> service_object" where
  "object_new l debug methods =
     object_create_worker methods
       \<lparr>srv_log = set_syslog True (set_debug debug l), worker = 0, next_worker = 0,
        service_effects = [Start_Log_Thread]\<rparr>"

definition object_restart :: "string list \<Rightarrow> service_object \<Rightarrow> service_object" where
  "object_restart methods s = object_create_worker methods (perform [Worker_Deleted (worker s)] s)"

definition object_destroy :: "bool \<Rightarrow> service_object \<Rightarrow> service_object" where
  "object_destroy log_ends s =
     perform ([Disconnect_Log, Worker_Deleted (worker s), Quit_Log_Thread] @
       (if log_ends then [] else [Terminate_Log_Thread])) s"

definition object_process_commands :: "string list \<Rightarrow> service_object \<Rightarrow> service_object" where
  "object_process_commands cmds s = perform [Commands (worker s) cmds] s"

section \<open>Base\<close>

datatype signal_number = SIGTERM | SIGINT | SIGSEGV | SIGFPE

record service_base =
  srv_object :: "service_object option"
  caught :: "signal_number set"
  past :: "service_effect list"

definition base_new :: service_base where
  "base_new = \<lparr>srv_object = None, caught = {}, past = []\<rparr>"

text \<open>\<open>service_.reset()\<close>; each object has a trace of its own, and the effects of an object that is gone are kept.\<close>

definition base_stop :: "bool \<Rightarrow> service_base \<Rightarrow> service_base" where
  "base_stop log_ends b =
     (case srv_object b of
        None \<Rightarrow> b
      | Some s \<Rightarrow> b\<lparr>srv_object := None, past := past b @ service_effects (object_destroy log_ends s)\<rparr>)"

text \<open>\<open>start\<close> makes the new object before the old one, if any, is released.\<close>

definition base_start :: "bool \<Rightarrow> logging \<Rightarrow> bool \<Rightarrow> bool \<Rightarrow> string list \<Rightarrow> service_base \<Rightarrow> service_base" where
  "base_start log_ends l immediately signal_catch_disabled methods b =
     (let s = object_new l immediately methods; b1 = base_stop log_ends b
      in b1\<lparr>srv_object := Some s,
            caught := caught b1 \<union> {SIGTERM, SIGINT} \<union> (if signal_catch_disabled then {} else {SIGSEGV, SIGFPE})\<rparr>)"

text \<open>\<open>None\<close>: a call through the null pointer.\<close>

definition base_process_commands :: "string list \<Rightarrow> service_base \<Rightarrow> service_base option" where
  "base_process_commands cmds b =
     (case srv_object b of
        None \<Rightarrow> None
      | Some s \<Rightarrow> Some (b\<lparr>srv_object := Some (object_process_commands cmds s)\<rparr>))"

definition exit_code :: "signal_number \<Rightarrow> int" where
  "exit_code sig = (if sig = SIGSEGV \<or> sig = SIGFPE then 1 else 0)"

text \<open>\<open>None\<close>: no \<open>Base\<close> exists yet.  What is done outside the object comes last.\<close>

definition term_handler ::
    "bool \<Rightarrow> signal_number \<Rightarrow> service_base option \<Rightarrow> service_base option \<times> service_effect list" where
  "term_handler log_ends sig b =
     (map_option (base_stop log_ends) b,
      (if exit_code sig = 1 then [Backtrace] else []) @ [App_Exit (exit_code sig), Process_Exit (exit_code sig)])"

text \<open>The option that runs the service in the foreground; the first argument is the name of the program.\<close>

fun immediately_loop :: "string list \<Rightarrow> bool" where
  "immediately_loop [] = False"
| "immediately_loop (a # as) = (if a = ''-e'' \<or> a = ''-exec'' then True else immediately_loop as)"

definition is_immediately :: "string list \<Rightarrow> bool" where
  "is_immediately argv = immediately_loop (drop 1 argv)"

section \<open>Properties\<close>

text \<open>The early exit of the loop does not change its outcome.\<close>

lemma find_slots_members:
  "find_slots names l r =
     (if l \<and> r \<and> names \<noteq> [] then (True, True) else (l \<or> ''logMessage'' \<in> set names, r \<or> ''serviceRestart'' \<in> set names))"
  by (induction names l r rule: find_slots.induct) (auto simp: Let_def)

lemma find_slots_outcome:
  "find_slots names False False = (''logMessage'' \<in> set names, ''serviceRestart'' \<in> set names)"
  by (simp add: find_slots_members)

lemma is_immediately_iff: "is_immediately argv \<longleftrightarrow> ''-e'' \<in> set (drop 1 argv) \<or> ''-exec'' \<in> set (drop 1 argv)"
proof -
  have "immediately_loop as \<longleftrightarrow> ''-e'' \<in> set as \<or> ''-exec'' \<in> set as" for as
    by (induction as) auto
  then show ?thesis by (simp add: is_immediately_def)
qed

text \<open>The workers that have been made and not deleted.\<close>

fun alive :: "service_effect list \<Rightarrow> nat list \<Rightarrow> nat list" where
  "alive [] ws = ws"
| "alive (Worker_Made n # es) ws = alive es (ws @ [n])"
| "alive (Worker_Deleted n # es) ws = alive es (remove1 n ws)"
| "alive (_ # es) ws = alive es ws"

lemma alive_append: "alive (es @ fs) ws = alive fs (alive es ws)"
  by (induction es ws rule: alive.induct) simp_all

lemma object_create_worker_alive:
  "alive (service_effects s) [] = [] \<Longrightarrow> alive (service_effects (object_create_worker methods s)) [] = [next_worker s]"
  by (simp add: object_create_worker_def perform_def alive_append Let_def split_beta)

lemma object_create_worker_current: "worker (object_create_worker methods s) = next_worker s"
  by (simp add: object_create_worker_def perform_def Let_def split_beta)

text \<open>
  A service object has exactly one worker at any time, through any number of restarts, and none once
  it is destroyed: each worker is deleted once, before the next is made.
\<close>

theorem one_worker_at_a_time:
  "alive (service_effects ((object_restart methods ^^ n) (object_new l debug methods))) [] =
     [worker ((object_restart methods ^^ n) (object_new l debug methods))] \<and>
   alive (service_effects (object_destroy log_ends ((object_restart methods ^^ n) (object_new l debug methods)))) [] = []"
proof -
  have "alive (service_effects ((object_restart methods ^^ n) (object_new l debug methods))) [] =
     [worker ((object_restart methods ^^ n) (object_new l debug methods))]"
  proof (induction n)
    case 0
    show ?case
      using object_create_worker_alive [of "\<lparr>srv_log = set_syslog True (set_debug debug l), worker = 0, next_worker = 0,
          service_effects = [Start_Log_Thread]\<rparr>"]
      by (simp add: object_new_def object_create_worker_current)
  next
    case (Suc n)
    let ?s = "(object_restart methods ^^ n) (object_new l debug methods)"
    have "alive (service_effects (perform [Worker_Deleted (worker ?s)] ?s)) [] = []"
      using Suc by (simp add: perform_def alive_append)
    then show ?case
      using object_create_worker_alive [of "perform [Worker_Deleted (worker ?s)] ?s" methods]
      by (simp add: object_restart_def [of methods ?s] object_create_worker_current)
  qed
  then show ?thesis by (simp add: object_destroy_def perform_def alive_append)
qed

text \<open>A crash ends the process with code 1, a request to end with code 0.\<close>

lemma exit_codes: "exit_code sig = (case sig of SIGTERM \<Rightarrow> 0 | SIGINT \<Rightarrow> 0 | SIGSEGV \<Rightarrow> 1 | SIGFPE \<Rightarrow> 1)"
  by (cases sig) (simp_all add: exit_code_def)

lemma stopped_base_has_no_service: "srv_object (base_stop log_ends b) = None"
  by (simp add: base_stop_def split: option.split)

text \<open>Commands that arrive when the service is not started, or stopped, go through a null pointer.\<close>

lemma commands_when_stopped_undefined: "base_process_commands cmds (base_stop log_ends b) = None"
  by (simp add: base_process_commands_def stopped_base_has_no_service)

end
