(* ===== verification/Widgets.thy ===== *)
theory Widgets
  imports Prelude
begin

text \<open>
  \<open>Widgets/\<close> and \<open>DBWidgets/\<close>: small classes over the widgets of Qt. A widget of
  Qt is a state of any type, the calls the classes make on it are the fields of a record, and what they are
  documented to do is a predicate on the record.
\<close>

section \<open>A table that selects several items while control is held\<close>

datatype selection_mode = No_Selection | SingleSelection | MultiSelection | ExtendedSelection | ContiguousSelection

datatype selection_behavior = SelectItems | SelectRows | SelectColumns

record 'v table_view =
  selectionMode :: "'v \<Rightarrow> selection_mode"
  setSelectionMode :: "selection_mode \<Rightarrow> 'v \<Rightarrow> 'v"
  selectionBehavior :: "'v \<Rightarrow> selection_behavior"
  setSelectionBehavior :: "selection_behavior \<Rightarrow> 'v \<Rightarrow> 'v"
  clearSelection :: "'v \<Rightarrow> 'v"
  base_keyPressEvent :: "nat \<Rightarrow> bool \<Rightarrow> 'v \<Rightarrow> 'v"
  base_keyReleaseEvent :: "nat \<Rightarrow> 'v \<Rightarrow> 'v"

text \<open>A key goes down, with the modifiers being exactly control or not, or it goes up.\<close>

datatype key_event = Press nat bool | Release nat

definition keyPressEvent :: "'v table_view \<Rightarrow> nat \<Rightarrow> bool \<Rightarrow> 'v \<Rightarrow> 'v" where
  "keyPressEvent T key control v =
     base_keyPressEvent T key control
       (if control \<and> selectionMode T v \<noteq> MultiSelection
        then setSelectionBehavior T SelectItems (setSelectionMode T MultiSelection (clearSelection T v))
        else v)"

definition keyReleaseEvent :: "'v table_view \<Rightarrow> nat \<Rightarrow> 'v \<Rightarrow> 'v" where
  "keyReleaseEvent T key v =
     base_keyReleaseEvent T key
       (if selectionMode T v = MultiSelection
        then setSelectionBehavior T SelectRows (setSelectionMode T SingleSelection v)
        else v)"

fun key_step :: "'v table_view \<Rightarrow> key_event \<Rightarrow> 'v \<Rightarrow> 'v" where
  "key_step T (Press key control) v = keyPressEvent T key control v"
| "key_step T (Release key) v = keyReleaseEvent T key v"

text \<open>The setters set, and nothing else that is called changes mode or behaviour.\<close>

definition keeps_selection :: "'v table_view \<Rightarrow> ('v \<Rightarrow> 'v) \<Rightarrow> bool" where
  "keeps_selection T f \<longleftrightarrow>
     (\<forall>v. selectionMode T (f v) = selectionMode T v \<and> selectionBehavior T (f v) = selectionBehavior T v)"

definition table_view_ok :: "'v table_view \<Rightarrow> bool" where
  "table_view_ok T \<longleftrightarrow>
     (\<forall>v m. selectionMode T (setSelectionMode T m v) = m \<and>
        selectionBehavior T (setSelectionMode T m v) = selectionBehavior T v) \<and>
     (\<forall>v b. selectionBehavior T (setSelectionBehavior T b v) = b \<and>
        selectionMode T (setSelectionBehavior T b v) = selectionMode T v) \<and>
     keeps_selection T (clearSelection T) \<and>
     (\<forall>k c. keeps_selection T (base_keyPressEvent T k c) \<and> keeps_selection T (base_keyReleaseEvent T k))"

text \<open>
  The intended machine: a press with control begins the selection of several items, the next release ends it; in between
  items are selected, afterwards one row.
\<close>

datatype table_state = Untouched | Several | One_Row

fun table_spec :: "key_event \<Rightarrow> table_state \<Rightarrow> table_state" where
  "table_spec (Press key control) s = (if control then Several else s)"
| "table_spec (Release key) s = (if s = Several then One_Row else s)"

fun shows_state :: "'v table_view \<Rightarrow> 'v \<Rightarrow> table_state \<Rightarrow> 'v \<Rightarrow> bool" where
  "shows_state T v0 Untouched v \<longleftrightarrow>
     selectionMode T v = selectionMode T v0 \<and> selectionBehavior T v = selectionBehavior T v0"
| "shows_state T v0 Several v \<longleftrightarrow> selectionMode T v = MultiSelection \<and> selectionBehavior T v = SelectItems"
| "shows_state T v0 One_Row v \<longleftrightarrow> selectionMode T v = SingleSelection \<and> selectionBehavior T v = SelectRows"

lemma key_step_shows:
  assumes "table_view_ok T" "selectionMode T v0 \<noteq> MultiSelection" "shows_state T v0 s v"
  shows "shows_state T v0 (table_spec e s) (key_step T e v)"
proof -
  note ok = assms(1) [unfolded table_view_ok_def keeps_selection_def]
  show ?thesis using ok assms(2,3)
    by (cases e; cases s) (simp_all add: keyPressEvent_def keyReleaseEvent_def)
qed

text \<open>Whatever keys are pressed and released, the table shows the state of the machine.\<close>

lemma table_refines_machine:
  assumes "table_view_ok T" "selectionMode T v \<noteq> MultiSelection"
  shows "shows_state T v (fold table_spec es Untouched) (fold (key_step T) es v)"
proof -
  have "shows_state T v s u \<Longrightarrow> shows_state T v (fold table_spec es s) (fold (key_step T) es u)" for s u
    by (induction es arbitrary: s u) (simp_all add: key_step_shows [OF assms])
  from this [of Untouched v] show ?thesis by simp
qed

text \<open>
  What goes wrong: a table that begins with the extended selection Qt gives it loses it with the first selection of several
  items, and the release of another key ends the selection while control is still held.
\<close>

lemma extended_selection_lost:
  assumes "table_view_ok T" "selectionMode T v = ExtendedSelection" "Release k \<in> set (dropWhile (\<lambda>e. \<forall>j. e \<noteq> Press j True) es)"
  shows "selectionMode T (fold (key_step T) es v) \<noteq> ExtendedSelection"
proof -
  let ?s = "fold table_spec es Untouched"
  have keep: "fold table_spec fs s \<noteq> Untouched" if "s \<noteq> Untouched" for fs s
    using that
  proof (induction fs arbitrary: s)
    case (Cons f fs)
    then show ?case by (cases f) auto
  qed simp
  have "fold table_spec fs Untouched \<noteq> Untouched" if "Release k \<in> set (dropWhile (\<lambda>e. \<forall>j. e \<noteq> Press j True) fs)" for fs
    using that
  proof (induction fs)
    case (Cons f fs)
    then show ?case by (cases f) (auto simp: keep split: if_splits)
  qed simp
  then have "?s \<noteq> Untouched" using assms(3) by blast
  moreover have "shows_state T v ?s (fold (key_step T) es v)" using table_refines_machine [OF assms(1)] assms(2) by simp
  ultimately show ?thesis by (cases ?s) auto
qed

lemma other_key_ends_selection:
  assumes "table_view_ok T" "selectionMode T v \<noteq> MultiSelection"
  shows "selectionMode T (fold (key_step T) [Press control True, Press a True, Release a] v) = SingleSelection"
  using table_refines_machine [OF assms, of "[Press control True, Press a True, Release a]"] by simp

definition table_sample :: "(selection_mode \<times> selection_behavior) table_view" where
  "table_sample = \<lparr>selectionMode = fst, setSelectionMode = (\<lambda>m v. (m, snd v)), selectionBehavior = snd,
     setSelectionBehavior = (\<lambda>b v. (fst v, b)), clearSelection = id, base_keyPressEvent = (\<lambda>_ _. id), base_keyReleaseEvent = (\<lambda>_. id)\<rparr>"

lemma table_sample_ok: "table_view_ok table_sample"
  by (simp add: table_view_ok_def keeps_selection_def table_sample_def)

section \<open>A line with a filter menu\<close>

text \<open>Actions are numbers; the signals the line emits.\<close>

datatype filter_signal = CaseSensitiv bool | FixedString bool

record filter_line =
  csAction :: nat
  toggle_connected :: "nat set"

definition filter_line_new :: "nat \<Rightarrow> filter_line" where
  "filter_line_new a = \<lparr>csAction = a, toggle_connected = {a}\<rparr>"

definition filterChanged :: "nat option \<Rightarrow> bool \<Rightarrow> filter_line \<Rightarrow> filter_signal list" where
  "filterChanged sender b w =
     (case sender of
        None \<Rightarrow> []
      | Some a \<Rightarrow> if a = csAction w then [CaseSensitiv b] else [FixedString b])"

text \<open>An action is toggled: if it is connected, the slot is called with it as the sender.\<close>

definition toggled :: "nat \<Rightarrow> bool \<Rightarrow> filter_line \<Rightarrow> filter_signal list" where
  "toggled a b w = (if a \<in> toggle_connected w then filterChanged (Some a) b w else [])"

text \<open>The line tells every change of its one action; the other signal is declared and never emitted.\<close>

lemma filter_signals:
  "concat (map (\<lambda>(a, b). toggled a b (filter_line_new c)) ts) = map (CaseSensitiv \<circ> snd) (filter (\<lambda>(a, b). a = c) ts)"
  by (induction ts) (auto simp: toggled_def filterChanged_def filter_line_new_def)

section \<open>A dialog with two buttons\<close>

text \<open>What the dialog asks of Qt; layouts of the buttons are numbered as they are made.\<close>

datatype dialog_call = Connect_Accept | Connect_Reject | New_Box | New_Row nat | Add_Stretch nat | Add_Ok nat | Add_Cancel nat | Add_Row nat | Set_Layout | Run

definition dialog_new :: "dialog_call list" where
  "dialog_new = [Connect_Accept, Connect_Reject, New_Box]"

definition dialog_exec :: "dialog_call list \<Rightarrow> dialog_call list" where
  "dialog_exec calls =
     (let n = length (filter (\<lambda>c. c = Run) calls)
      in calls @ [New_Row n, Add_Stretch n, Add_Ok n, Add_Cancel n, Add_Row n, Set_Layout, Run])"

lemma dialog_rows:
  "[r. Add_Row r \<leftarrow> (dialog_exec ^^ n) dialog_new] = [0..<n]"
  "length (filter (\<lambda>c. c = Run) ((dialog_exec ^^ n) dialog_new)) = n"
proof -
  have "[r. Add_Row r \<leftarrow> (dialog_exec ^^ n) dialog_new] = [0..<n] \<and> length (filter (\<lambda>c. c = Run) ((dialog_exec ^^ n) dialog_new)) = n"
    by (induction n) (simp_all add: dialog_new_def dialog_exec_def Let_def)
  then show "[r. Add_Row r \<leftarrow> (dialog_exec ^^ n) dialog_new] = [0..<n]"
    "length (filter (\<lambda>c. c = Run) ((dialog_exec ^^ n) dialog_new)) = n" by simp_all
qed

section \<open>A check box with a default and a line with a slot\<close>

datatype check_state = Unchecked | PartiallyChecked | Checked

record 'b check_box =
  cb_base :: 'b
  defaultCheckState :: check_state

definition check_box_new :: "'b \<Rightarrow> 'b check_box" where
  "check_box_new b = \<lparr>cb_base = b, defaultCheckState = Unchecked\<rparr>"

definition setDefaultCheckState :: "check_state \<Rightarrow> 'b check_box \<Rightarrow> 'b check_box" where
  "setDefaultCheckState s c = c\<lparr>defaultCheckState := s\<rparr>"

definition unCheck :: "(check_state \<Rightarrow> 'b \<Rightarrow> 'b) \<Rightarrow> 'b check_box \<Rightarrow> 'b check_box" where
  "unCheck setCheckState c = c\<lparr>cb_base := setCheckState (defaultCheckState c) (cb_base c)\<rparr>"

definition setPlaceholderText :: "(string \<Rightarrow> 'e \<Rightarrow> 'e) \<Rightarrow> string \<Rightarrow> 'e \<Rightarrow> 'e" where
  "setPlaceholderText base_setPlaceholderText t e = base_setPlaceholderText t e"

section \<open>Editors of dates\<close>

text \<open>
  A date edit of Qt: the date it has, its bounds and their setters. A date that is not valid is
  \<open>None\<close>; days are numbers. A date within the bounds is set.
\<close>

record 'd date_edit =
  de_date :: "'d \<Rightarrow> int"
  minimumDate :: "'d \<Rightarrow> int"
  maximumDate :: "'d \<Rightarrow> int"
  setDate :: "int option \<Rightarrow> 'd \<Rightarrow> 'd"
  setMaximumDate :: "int \<Rightarrow> 'd \<Rightarrow> 'd"
  setSpecialValueText :: "string \<Rightarrow> 'd \<Rightarrow> 'd"

definition date_edit_ok :: "'d date_edit \<Rightarrow> bool" where
  "date_edit_ok E \<longleftrightarrow>
     (\<forall>w. minimumDate E w \<le> maximumDate E w) \<and>
     (\<forall>w d. minimumDate E w \<le> d \<longrightarrow> d \<le> maximumDate E w \<longrightarrow> de_date E (setDate E (Some d) w) = d)"

text \<open>A value of a cell: null or not, and the date it converts to.\<close>

record cell =
  isNull :: bool
  toDate :: "int option"

text \<open>The text that stands for the smallest date is the Russian word for none.\<close>

definition date_widget_new :: "'d date_edit \<Rightarrow> int \<Rightarrow> string \<Rightarrow> 'd \<Rightarrow> 'd" where
  "date_widget_new E today none w = setMaximumDate E today (setSpecialValueText E none w)"

definition getData :: "'d date_edit \<Rightarrow> 'd \<Rightarrow> cell" where
  "getData E w = \<lparr>isNull = False, toDate = Some (de_date E w)\<rparr>"

definition setData :: "'d date_edit \<Rightarrow> cell \<Rightarrow> 'd \<Rightarrow> 'd" where
  "setData E value w = setDate E (if isNull value then Some (minimumDate E w) else toDate value) w"

text \<open>A date within the bounds is given back; no value is shown as none, and is given back as the smallest date.\<close>

lemma date_given_back:
  assumes "date_edit_ok E" "toDate value = Some d" "\<not> isNull value" "minimumDate E w \<le> d" "d \<le> maximumDate E w"
  shows "toDate (getData E (setData E value w)) = toDate value"
  using assms by (simp add: date_edit_ok_def getData_def setData_def)

lemma null_becomes_date:
  assumes "date_edit_ok E" "isNull value"
  shows "getData E (setData E value w) = \<lparr>isNull = False, toDate = Some (minimumDate E w)\<rparr>"
  using assms by (simp add: date_edit_ok_def getData_def setData_def)

text \<open>
  The delegate: an editor of points in time over cells, with the conversion to and from text as parameters.
\<close>

record 'e time_edit =
  new_time_edit :: 'e
  setCalendarPopup :: "bool \<Rightarrow> 'e \<Rightarrow> 'e"
  setDisplayFormat :: "string \<Rightarrow> 'e \<Rightarrow> 'e"
  setDateTime :: "time \<Rightarrow> 'e \<Rightarrow> 'e"
  dateTime :: "'e \<Rightarrow> time"

definition createEditor :: "'e time_edit \<Rightarrow> 'e" where
  "createEditor E = setDisplayFormat E ''hh:mm dd.MM.yy'' (setCalendarPopup E True (new_time_edit E))"

definition setEditorData :: "'e time_edit \<Rightarrow> (string \<Rightarrow> time option) \<Rightarrow> time \<Rightarrow> string \<Rightarrow> 'e \<Rightarrow> 'e" where
  "setEditorData E toDateTime now value e =
     setDateTime E (case toDateTime value of None \<Rightarrow> now | Some t \<Rightarrow> t) e"

definition setModelData :: "'e time_edit \<Rightarrow> (string \<Rightarrow> time \<Rightarrow> string) \<Rightarrow> 'e \<Rightarrow> string" where
  "setModelData E toString e = toString ''yyyy-MM-dd hh:mm:ss'' (dateTime E e)"

definition updateEditorGeometry :: "('r \<Rightarrow> 'e \<Rightarrow> 'e) \<Rightarrow> 'r \<Rightarrow> 'e \<Rightarrow> 'e" where
  "updateEditorGeometry setGeometry rect e = setGeometry rect e"

text \<open>A cell that is opened in an editor and left as it is: its text is written again, and a cell without a time gets the present one.\<close>

lemma opened_and_left:
  assumes "\<forall>t e. dateTime E (setDateTime E t e) = t"
  shows "setModelData E toString (setEditorData E toDateTime now value (createEditor E)) =
    toString ''yyyy-MM-dd hh:mm:ss'' (case toDateTime value of None \<Rightarrow> now | Some t \<Rightarrow> t)"
  using assms by (simp add: setModelData_def setEditorData_def)

end
