(* ===== verification/Net_Wait.thy ===== *)
theory Net_Wait
  imports Std_Map Worker_Pool
begin

text \<open>
  \<open>Network/waithelper.cpp\<close>: waiting for an answer in a nested event loop, and the table of
  commands that somebody waits for; \<open>Network/udpclient.cpp\<close>: the address of a peer.
\<close>

section \<open>WaitHelper\<close>

text \<open>What the event loop processes: the timer, an answer, anything else.\<close>

datatype 'v loop_event = Timer_Fires | Answer_Comes 'v | Other_Event

record 'v wait_helper =
  wh_interval :: int
  wh_result :: "'v option"
  wh_timer_active :: bool

definition wait_helper_new :: "int \<Rightarrow> 'v wait_helper" where
  "wait_helper_new msec_timeout = \<lparr>wh_interval = msec_timeout, wh_result = None, wh_timer_active = False\<rparr>"

text \<open>\<open>finish\<close>; the exit code matters only while the loop runs, which \<open>wait_exec\<close> sees.\<close>

definition wh_finish :: "'v \<Rightarrow> 'v wait_helper \<Rightarrow> 'v wait_helper" where
  "wh_finish v h = h\<lparr>wh_result := Some v\<rparr>"

text \<open>
  \<open>exec\<close> on the events that come: the exit code, the state and the events not processed.
  \<open>None\<close>: the loop is still running when the events given are used up.
\<close>

fun wait_exec :: "'v loop_event list \<Rightarrow> 'v wait_helper \<Rightarrow> (int \<times> 'v wait_helper \<times> 'v loop_event list) option" where
  "wait_exec [] h = None"
| "wait_exec (Timer_Fires # es) h = Some (0, h, es)"
| "wait_exec (Answer_Comes v # es) h = Some (1, wh_finish v h, es)"
| "wait_exec (Other_Event # es) h = wait_exec es h"

definition wh_wait :: "'v loop_event list \<Rightarrow> 'v wait_helper \<Rightarrow> (bool \<times> 'v wait_helper \<times> 'v loop_event list) option" where
  "wh_wait es h =
     (case wait_exec es (h\<lparr>wh_timer_active := True\<rparr>) of
        None \<Rightarrow> None
      | Some (ret_code, h1, rest) \<Rightarrow> Some (ret_code = 1, h1\<lparr>wh_timer_active := False\<rparr>, rest))"

section \<open>Waiter\<close>

text \<open>
  The table of commands that are waited for, and the waiters that exist: each has its command, and is valid
  when it owns the entry of the table.
\<close>

type_synonym waiter = "u16 \<times> bool"

record 'v waiters =
  wait_map :: "(u16, 'v wait_helper) std_map"
  existing :: "(nat \<times> waiter) list"

definition waiters_new :: "'v waiters" where
  "waiters_new = \<lparr>wait_map = [], existing = []\<rparr>"

text \<open>A waiter is made by its constructor and not copied.\<close>

definition waiter_new :: "nat \<Rightarrow> u16 \<Rightarrow> int \<Rightarrow> 'v waiters \<Rightarrow> 'v waiters" where
  "waiter_new i cmd msec_timeout s =
     (if map_find (wait_map s) cmd \<noteq> None then s\<lparr>existing := (i, cmd, False) # existing s\<rparr>
      else s\<lparr>wait_map := map_emplace cmd (wait_helper_new msec_timeout) (wait_map s),
          existing := (i, cmd, True) # existing s\<rparr>)"

definition waiter_destroy :: "nat \<Rightarrow> 'v waiters \<Rightarrow> 'v waiters" where
  "waiter_destroy i s =
     (case map_of (existing s) i of
        None \<Rightarrow> s
      | Some (cmd, valid) \<Rightarrow>
          s\<lparr>wait_map := (if valid then map_erase cmd (wait_map s) else wait_map s),
            existing := filter (\<lambda>(j, _). j \<noteq> i) (existing s)\<rparr>)"

text \<open>\<open>operator bool\<close>\<close>

definition waiter_valid :: "nat \<Rightarrow> 'v waiters \<Rightarrow> bool" where
  "waiter_valid i s = (case map_of (existing s) i of Some (_, valid) \<Rightarrow> valid | None \<Rightarrow> False)"

text \<open>An answer with a command reaches the helper of the table.\<close>

definition answer_command :: "u16 \<Rightarrow> 'v \<Rightarrow> 'v waiters \<Rightarrow> 'v waiters" where
  "answer_command cmd v s =
     (case map_find (wait_map s) cmd of
        None \<Rightarrow> s
      | Some h \<Rightarrow> s\<lparr>wait_map := map_set cmd (wh_finish v h) (wait_map s)\<rparr>)"

datatype 'v waiter_event = Make nat u16 int | Destroy nat | Answered u16 'v

inductive waiter_step :: "'v waiters \<Rightarrow> 'v waiter_event \<Rightarrow> 'v waiters \<Rightarrow> bool" where
  made: "map_of (existing s) i = None \<Longrightarrow> waiter_step s (Make i cmd t) (waiter_new i cmd t s)"
| destroyed: "waiter_step s (Destroy i) (waiter_destroy i s)"
| answered: "waiter_step s (Answered cmd v) (answer_command cmd v s)"

section \<open>UDPClient\<close>

datatype host_address = IPv4 u32 | IPv6 "128 word"

text \<open>\<open>QHostAddress::toIPv4Address\<close>: zero for an IPv6 address that does not map an IPv4 address.\<close>

definition to_ipv4 :: "host_address \<Rightarrow> u32" where
  "to_ipv4 h =
     (case h of
        IPv4 a \<Rightarrow> a
      | IPv6 a \<Rightarrow> if drop_bit 32 a = 0xffff then ucast a else 0)"

record udp_client =
  m_host :: host_address
  m_port :: u16

definition set_host :: "host_address \<Rightarrow> udp_client \<Rightarrow> udp_client" where
  "set_host h c = c\<lparr>m_host := h\<rparr>"

definition set_port :: "u16 \<Rightarrow> udp_client \<Rightarrow> udp_client" where
  "set_port p c = c\<lparr>m_port := p\<rparr>"

definition udp_equal :: "host_address \<Rightarrow> u16 \<Rightarrow> udp_client \<Rightarrow> bool" where
  "udp_equal h p c \<longleftrightarrow> to_ipv4 h = to_ipv4 (m_host c) \<and> p = m_port c"

text \<open>\<open>hostString\<close>, on the text of the address.\<close>

definition host_string :: "string \<Rightarrow> string" where
  "host_string h = (if take 7 h = ''::ffff:'' then drop 7 h else h)"

section \<open>Properties\<close>

text \<open>\<open>wait\<close> reports success exactly when an answer comes before the timer, and keeps that answer.\<close>

lemma wait_outcome:
  "wait_exec es h = (case dropWhile (\<lambda>e. e = Other_Event) es of
     [] \<Rightarrow> None | Timer_Fires # rest \<Rightarrow> Some (0, h, rest) | Answer_Comes v # rest \<Rightarrow> Some (1, wh_finish v h, rest)
   | Other_Event # rest \<Rightarrow> None)"
  by (induction es h rule: wait_exec.induct) simp_all

text \<open>The waiters that own an entry are one for each entry of the table.\<close>

definition owners :: "'v waiters \<Rightarrow> u16 list" where
  "owners s = map (fst \<circ> snd) (filter (snd \<circ> snd) (existing s))"

definition waiters_ok :: "'v waiters \<Rightarrow> bool" where
  "waiters_ok s \<longleftrightarrow> map_ok (wait_map s) \<and> distinct (map fst (existing s)) \<and> distinct (owners s) \<and>
     set (owners s) = fst ` set (wait_map s)"

lemma owners_iff: "cmd \<in> set (owners s) \<longleftrightarrow> (\<exists>i. (i, cmd, True) \<in> set (existing s))"
  by (force simp: owners_def)

lemma keys_iff: "cmd \<in> fst ` set (wait_map s) \<longleftrightarrow> map_find (wait_map s) cmd \<noteq> None"
  by (simp add: map_find_def map_of_eq_None_iff)

lemma owner_unique:
  assumes "distinct (owners s)" "(i, cmd, True) \<in> set (existing s)" "(j, cmd, True) \<in> set (existing s)"
  shows "i = j"
proof -
  have "inj_on (fst \<circ> snd) (set (filter (snd \<circ> snd) (existing s)))"
    using assms(1) by (simp add: owners_def distinct_map)
  from inj_onD [OF this, of "(i, cmd, True)" "(j, cmd, True)"] assms(2,3) show ?thesis by simp
qed

lemma waiter_new_ok:
  assumes "waiters_ok s" "map_of (existing s) i = None"
  shows "waiters_ok (waiter_new i cmd t s)"
proof -
  have i: "i \<notin> fst ` set (existing s)" using assms(2) by (simp add: map_of_eq_None_iff)
  show ?thesis
  proof (cases "map_find (wait_map s) cmd")
    case None
    then have "cmd \<notin> set (owners s)" using assms(1) keys_iff [of cmd s] by (auto simp: waiters_ok_def)
    with None assms(1) i show ?thesis
      by (auto simp: waiters_ok_def waiter_new_def owners_def set_map_emplace)
  next
    case (Some h)
    with assms(1) i show ?thesis by (auto simp: waiters_ok_def waiter_new_def owners_def)
  qed
qed

lemma keys_erase: "fst ` set (map_erase k m) = fst ` set m - {k}"
  by (auto simp: map_erase_def)

lemma waiter_destroy_ok:
  assumes "waiters_ok s"
  shows "waiters_ok (waiter_destroy i s)"
proof (cases "map_of (existing s) i")
  case (Some w)
  obtain cmd valid where w: "w = (cmd, valid)" by (cases w)
  let ?es = "filter (\<lambda>(j, _). j \<noteq> i) (existing s)"
  have mem: "(i, cmd, valid) \<in> set (existing s)" using Some w by (auto dest: map_of_SomeD)
  have d: "distinct (map fst (existing s))" "distinct (owners s)" "map_ok (wait_map s)"
    "set (owners s) = fst ` set (wait_map s)"
    using assms by (simp_all add: waiters_ok_def)
  have own: "owners (waiter_destroy i s) = map (fst \<circ> snd) (filter (snd \<circ> snd) ?es)"
    using Some w by (simp add: waiter_destroy_def owners_def)
  have "filter (snd \<circ> snd) ?es = filter (\<lambda>(j, _). j \<noteq> i) (filter (snd \<circ> snd) (existing s))"
    by (simp add: conj_commute)
  then have dist: "distinct (owners (waiter_destroy i s))"
    using distinct_map_filter [OF d(2) [unfolded owners_def]] unfolding own by metis
  have "set (owners (waiter_destroy i s)) = set (owners s) - (if valid then {cmd} else {})"
  proof -
    have "c \<in> set (owners (waiter_destroy i s)) \<longleftrightarrow> (\<exists>j. j \<noteq> i \<and> (j, c, True) \<in> set (existing s))" for c
      unfolding own by force
    moreover have "(\<exists>j. j \<noteq> i \<and> (j, c, True) \<in> set (existing s)) \<longleftrightarrow>
        c \<in> set (owners s) \<and> \<not> (valid \<and> c = cmd)" for c
      using mem owner_unique [OF d(2), of i cmd] d(1) unfolding owners_iff
      by (metis eq_key_imp_eq_value prod.inject)
    ultimately show ?thesis by auto
  qed
  then show ?thesis
    using dist d Some w by (auto simp: waiters_ok_def waiter_destroy_def keys_erase distinct_map_filter)
qed (use assms in \<open>simp add: waiter_destroy_def\<close>)

lemma keys_set: "fst ` set (map_set k h m) = fst ` set m"
  using keys_map_set [of k h m] by (metis list.set_map)

lemma answer_command_ok: "waiters_ok s \<Longrightarrow> waiters_ok (answer_command cmd v s)"
  by (auto simp: answer_command_def waiters_ok_def owners_def keys_set split: option.splits)

text \<open>
  Property C37.  Whatever waiters are made, answered and destroyed, in whatever order: the table has an entry for a
  command exactly when one existing waiter owns it, and never two waiters own the same command; a waiter for
  a command that is taken is not valid.
\<close>

theorem one_waiter_per_command:
  assumes "run_of waiter_step waiters_new es s"
  shows "(map_find (wait_map s) cmd \<noteq> None \<longleftrightarrow> (\<exists>i. (i, cmd, True) \<in> set (existing s))) \<and>
    ((i, cmd, True) \<in> set (existing s) \<longrightarrow> (j, cmd, True) \<in> set (existing s) \<longrightarrow> i = j)"
proof -
  have "waiters_ok s"
    using assms
  proof (induction rule: run_of.induct)
    case run_start
    show ?case by (simp add: waiters_ok_def waiters_new_def owners_def map_ok_Nil)
  next
    case (run_step es s e s')
    from run_step.hyps(2) run_step.IH show ?case
      by cases (auto intro: waiter_new_ok waiter_destroy_ok answer_command_ok)
  qed
  then show ?thesis
    using owner_unique [of s i cmd j] owners_iff [of cmd s] keys_iff [of cmd s] by (simp add: waiters_ok_def)
qed

text \<open>Two IPv6 peers with the same port are taken for one.\<close>

lemma ipv6_peers_equal:
  assumes "drop_bit 32 a \<noteq> 0xffff" "drop_bit 32 b \<noteq> 0xffff"
  shows "udp_equal (IPv6 a) p \<lparr>m_host = IPv6 b, m_port = p\<rparr>"
  using assms by (simp add: udp_equal_def to_ipv4_def)

lemma ipv4_peers_equal_iff: "udp_equal (IPv4 a) p \<lparr>m_host = IPv4 b, m_port = q\<rparr> \<longleftrightarrow> a = b \<and> p = q"
  by (simp add: udp_equal_def to_ipv4_def)

section \<open>Examples\<close>

theorem one_waiter_per_command_witness:
  "(0, 7, True) \<in> set (existing (waiter_new 1 7 5000 (waiter_new 0 7 5000 (waiters_new :: nat waiters)))) \<and>
   \<not> (1, 7, True) \<in> set (existing (waiter_new 1 7 5000 (waiter_new 0 7 5000 (waiters_new :: nat waiters))))"
proof -
  let ?s1 = "waiter_new 0 7 5000 (waiters_new :: nat waiters)"
  have "run_of waiter_step (waiters_new :: nat waiters) [Make 0 7 5000, Make 1 7 5000] (waiter_new 1 7 5000 ?s1)"
    by (rule run_Cons, rule waiter_step.made, simp add: waiters_new_def, rule run_Cons, rule waiter_step.made,
        simp add: waiter_new_def waiters_new_def, rule run_start)
  from one_waiter_per_command [OF this, of 7 0 1] show ?thesis
    by (simp add: waiter_new_def waiters_new_def map_find_def)
qed

end
