(* ===== verification/Openssl_Dtls.thy ===== *)
theory Openssl_Dtls
  imports Qt_Lib
begin

text \<open>
  \<open>DTLS/OpenSSL/\<close>: the older client and server on OpenSSL, which the build leaves out.  What the library
  answers is given: the digest as a function, and the outcomes of the calls in a loop as a list; a loop
  whose list ends has not returned yet (\<open>None\<close>).
\<close>

section \<open>Cookies\<close>

datatype peer = Peer_In u16 u32 | Peer_Other

record cookie =
  cookie_initialized :: bool
  secret :: bytes

text \<open>\<open>RAND_bytes\<close> yields a result code and, when this is 1, the bytes; the code is kept as a \<open>bool\<close>.\<close>

definition cookie_init :: "int \<times> bytes \<Rightarrow> cookie \<Rightarrow> cookie" where
  "cookie_init rand c =
     (if cookie_initialized c then c
      else c\<lparr>cookie_initialized := fst rand \<noteq> 0, secret := (if fst rand = 1 then snd rand else secret c)\<rparr>)"

text \<open>The first object of the process is the one that the callbacks use; making a second ends the process (\<open>None\<close>).\<close>

definition cookie_new :: "bytes \<Rightarrow> int \<times> bytes \<Rightarrow> bool \<Rightarrow> cookie option" where
  "cookie_new memory rand exists =
     (if exists then None else Some (cookie_init rand \<lparr>cookie_initialized = False, secret = memory\<rparr>))"

definition cookieProc ::
    "(bytes \<Rightarrow> bytes \<Rightarrow> bytes) \<Rightarrow> int \<times> bytes \<Rightarrow> peer \<Rightarrow> cookie \<Rightarrow> bytes option \<times> cookie" where
  "cookieProc hmac rand p c =
     (let c1 = cookie_init rand c
      in (if \<not> cookie_initialized c1 then None
          else (case p of Peer_In port a \<Rightarrow> Some (hmac (secret c1) (be16 port @ be32 a)) | Peer_Other \<Rightarrow> None), c1))"

definition genCookie ::
    "(bytes \<Rightarrow> bytes \<Rightarrow> bytes) \<Rightarrow> int \<times> bytes \<Rightarrow> peer \<Rightarrow> cookie \<Rightarrow> int \<times> bytes \<times> cookie" where
  "genCookie hmac rand p c =
     (case cookieProc hmac rand p c of (Some r, c1) \<Rightarrow> (1, r, c1) | (None, c1) \<Rightarrow> (0, [], c1))"

definition verifyCookie ::
    "(bytes \<Rightarrow> bytes \<Rightarrow> bytes) \<Rightarrow> int \<times> bytes \<Rightarrow> peer \<Rightarrow> bytes \<Rightarrow> cookie \<Rightarrow> int \<times> cookie" where
  "verifyCookie hmac rand p given c =
     (case cookieProc hmac rand p c of
        (Some r, c1) \<Rightarrow> (if length given = length r \<and> take (length r) given = r then 1 else 0, c1)
      | (None, c1) \<Rightarrow> (0, c1))"

section \<open>Sockets\<close>

record dtls_socket_o =
  o_ssl :: bool
  o_sock :: int
  o_port :: u16
  o_host :: string
  o_certificatePassword :: string

text \<open>\<open>open\<close>: the connection object is made, then the socket.\<close>

definition socket_open :: "int \<Rightarrow> dtls_socket_o \<Rightarrow> bool \<times> dtls_socket_o" where
  "socket_open fd s = (fd \<noteq> -1, s\<lparr>o_ssl := True, o_sock := fd\<rparr>)"

text \<open>\<open>addr\<close>: any address without a host, the address of the host, or zeros when it is not known.\<close>

definition socket_addr :: "(string \<Rightarrow> u32 option) \<Rightarrow> dtls_socket_o \<Rightarrow> (u16 \<times> u32) option" where
  "socket_addr gethostbyname s =
     (if o_host s = [] then Some (o_port s, 0)
      else map_option (\<lambda>a. (o_port s, a)) (gethostbyname (o_host s)))"

text \<open>The verification callback; \<open>verify_depth\<close> is 0.\<close>

definition dtls_verify_callback :: "bool \<Rightarrow> int \<Rightarrow> bool" where
  "dtls_verify_callback ok depth = (if \<not> ok \<and> 0 \<ge> depth then True else ok)"

definition setDHParams :: "bool \<Rightarrow> int \<Rightarrow> bool" where
  "setDHParams file_opens set_tmp_dh = (file_opens \<and> set_tmp_dh \<ge> 0)"

definition setPrivateKey :: "bool \<Rightarrow> bool \<Rightarrow> bool" where
  "setPrivateKey key_used key_checked = (key_used \<and> key_checked)"

definition genRsaKey :: "bool \<Rightarrow> bool" where
  "genRsaKey set_tmp_rsa = (if \<not> set_tmp_rsa then True else False)"

section \<open>The server\<close>

datatype ssl_error =
    SSL_ERROR_NONE | SSL_ERROR_WANT_READ | SSL_ERROR_WANT_WRITE | SSL_ERROR_WANT_X509_LOOKUP
  | SSL_ERROR_SYSCALL | SSL_ERROR_SSL | SSL_ERROR_ZERO_RETURN | SSL_ERROR_OTHER

datatype ssl_effect = Stdout bytes | Ack | Set_Shutdown | Printed string

text \<open>How an iteration of the outer loop gets something to read, or does not.\<close>

datatype wait_outcome = Already_Pending | Select_Failed | Readable | Nothing_To_Read

text \<open>\<open>SSL_accept\<close> yields a code; \<open>retry\<close> is what \<open>BIO_sock_should_retry\<close> says of it.\<close>

definition init_ssl_connection :: "int \<Rightarrow> bool \<Rightarrow> bool" where
  "init_ssl_connection i retry = (if i \<le> 0 then retry else True)"

datatype wait_exit = Reads | Goto_Err int | Goto_Shut int

text \<open>
  The outer loop of \<open>dtls_get_data\<close> up to the reading; each answer has the outcome of the wait, whether the
  handshake is finished, and what \<open>SSL_accept\<close> does otherwise.
\<close>

fun wait_loop :: "(wait_outcome \<times> bool \<times> int \<times> bool) list \<Rightarrow> wait_exit option" where
  "wait_loop [] = None"
| "wait_loop ((w, finished, i, retry) # ws) =
     (case w of
        Select_Failed \<Rightarrow> wait_loop ws
      | Nothing_To_Read \<Rightarrow> Some (Goto_Shut 2)
      | _ \<Rightarrow>
          if finished then Some Reads
          else if init_ssl_connection i retry then wait_loop ws else Some (Goto_Err 1))"

text \<open>The buffer as C reads it.\<close>

definition c_string :: "bytes \<Rightarrow> bytes" where
  "c_string buf = takeWhile (\<lambda>b. b \<noteq> 0) buf"

definition exit_text :: bytes where
  "exit_text = [0x65, 0x78, 0x69, 0x74]"

text \<open>
  The reading loop; an answer has the error, the bytes read and whether more are pending. The result is
  \<open>ret\<close> at the label \<open>ERR\<close>.
\<close>

fun read_loop ::
    "bytes \<Rightarrow> int \<Rightarrow> (ssl_error \<times> bytes \<times> bool) list \<Rightarrow> (int \<times> ssl_effect list) option" where
  "read_loop buf ret [] = None"
| "read_loop buf ret ((e, data, pending) # rs) =
     (case e of
        SSL_ERROR_NONE \<Rightarrow>
          (let buf1 = data @ drop (length data) buf;
               ret1 = (if pending then ret else 0)
           in if c_string buf1 \<noteq> exit_text
              then map_option (\<lambda>(r, es). (r, Stdout data # es)) (read_loop buf1 ret1 rs)
              else Some (ret1, [Stdout data]))
      | SSL_ERROR_WANT_READ \<Rightarrow> read_loop buf ret rs
      | SSL_ERROR_SYSCALL \<Rightarrow> Some (1, [Printed ''ERROR''])
      | SSL_ERROR_SSL \<Rightarrow> Some (1, [Printed ''ERROR''])
      | SSL_ERROR_ZERO_RETURN \<Rightarrow> Some (0, [Printed ''DONE''])
      | _ \<Rightarrow> Some (ret, []))"

text \<open>The loop that writes the acknowledgement; it writes again while input is pending.\<close>

fun write_loop :: "int \<Rightarrow> (ssl_error \<times> bool) list \<Rightarrow> (int \<times> ssl_effect list) option" where
  "write_loop ret [] = None"
| "write_loop ret ((e, pending) # ws) =
     (case e of
        SSL_ERROR_NONE \<Rightarrow>
          if pending then map_option (\<lambda>(r, es). (r, Ack # es)) (write_loop ret ws) else Some (ret, [Ack])
      | SSL_ERROR_SYSCALL \<Rightarrow> Some (1, [Printed ''ERROR''])
      | SSL_ERROR_SSL \<Rightarrow> Some (1, [Printed ''ERROR''])
      | SSL_ERROR_ZERO_RETURN \<Rightarrow> Some (1, [Printed ''DONE''])
      | SSL_ERROR_OTHER \<Rightarrow> write_loop ret ws
      | _ \<Rightarrow> map_option (\<lambda>(r, es). (r, Printed ''Write BLOCK'' # es)) (write_loop ret ws))"

record conversation =
  buffer :: "bytes option"
  waits :: "(wait_outcome \<times> bool \<times> int \<times> bool) list"
  reads :: "(ssl_error \<times> bytes \<times> bool) list"
  writes :: "(ssl_error \<times> bool) list"

text \<open>The labels \<open>shut\<close> and \<open>ERR\<close>.\<close>

definition at_shut :: "int \<Rightarrow> ssl_effect list" where
  "at_shut ret =
     (if ret \<noteq> 2 then [Printed ''CONNECTION CLOSED''] else []) @
     (if ret \<ge> 0 \<and> ret \<noteq> 2 then [Printed ''ACCEPT''] else [])"

definition at_err :: "int \<Rightarrow> (ssl_error \<times> bool) list \<Rightarrow> (int \<times> ssl_effect list) option" where
  "at_err ret ws =
     map_option (\<lambda>(r, es). (r, es @ [Set_Shutdown] @ at_shut r)) (if ret = 0 then write_loop ret ws else Some (ret, []))"

definition dtls_get_data :: "conversation \<Rightarrow> (int \<times> ssl_effect list) option" where
  "dtls_get_data c =
     (case buffer c of
        None \<Rightarrow> at_err 1 (writes c)
      | Some buf \<Rightarrow>
          (case wait_loop (waits c) of
             None \<Rightarrow> None
           | Some (Goto_Shut r) \<Rightarrow> Some (r, at_shut r)
           | Some (Goto_Err r) \<Rightarrow> at_err r (writes c)
           | Some Reads \<Rightarrow>
               (case read_loop buf 1 (reads c) of
                  None \<Rightarrow> None
                | Some (r, es) \<Rightarrow> map_option (\<lambda>(q, fs). (q, es @ fs)) (at_err r (writes c)))))"

fun bind_loop :: "conversation list \<Rightarrow> bool option" where
  "bind_loop [] = None"
| "bind_loop (c # cs) =
     (case dtls_get_data c of None \<Rightarrow> None | Some (r, _) \<Rightarrow> if r < 0 then Some True else bind_loop cs)"

definition server_bind :: "int \<Rightarrow> int \<Rightarrow> conversation list \<Rightarrow> dtls_socket_o \<Rightarrow> bool option" where
  "server_bind fd bound cs s =
     (if \<not> fst (socket_open fd s) then Some False else if bound = -1 then Some False else bind_loop cs)"

section \<open>The client\<close>

definition dtls_connect :: "bool \<Rightarrow> int \<Rightarrow> int" where
  "dtls_connect getsockname_ok select_result =
     (if \<not> getsockname_ok then -1 else if select_result < 0 then 1 else 0)"

fun connect_loop :: "(bool \<times> int) list \<Rightarrow> int option" where
  "connect_loop [] = None"
| "connect_loop ((g, r) # as) = (let ret = dtls_connect g r in if ret = 1 then connect_loop as else Some ret)"

text \<open>Words from the standard input are written until the peer closes.\<close>

fun client_write :: "(bytes \<times> ssl_error) list \<Rightarrow> int option" where
  "client_write [] = None"
| "client_write ((val, e) # ws) =
     (case e of
        SSL_ERROR_ZERO_RETURN \<Rightarrow> Some 0
      | SSL_ERROR_SSL \<Rightarrow> Some (-1)
      | SSL_ERROR_SYSCALL \<Rightarrow> Some (-1)
      | _ \<Rightarrow> client_write ws)"

fun client_read :: "(ssl_error \<times> bytes \<times> bool) list \<Rightarrow> (int \<times> bytes list) option" where
  "client_read [] = None"
| "client_read ((e, data, pending) # rs) =
     (case e of
        SSL_ERROR_NONE \<Rightarrow>
          if pending then map_option (\<lambda>(r, ds). (r, data # ds)) (client_read rs) else Some (0, [data])
      | SSL_ERROR_SYSCALL \<Rightarrow> Some (-1, [])
      | SSL_ERROR_SSL \<Rightarrow> Some (-1, [])
      | SSL_ERROR_ZERO_RETURN \<Rightarrow> Some (0, [])
      | _ \<Rightarrow> client_read rs)"

definition handle_data ::
    "(bytes \<times> ssl_error) list \<Rightarrow> (ssl_error \<times> bytes \<times> bool) list \<Rightarrow> int option" where
  "handle_data ws rs =
     (case client_write ws of
        None \<Rightarrow> None
      | Some r \<Rightarrow> if r = -1 then Some (-1) else map_option fst (client_read rs))"

definition client_connect ::
    "int \<Rightarrow> int \<Rightarrow> (bool \<times> int) list \<Rightarrow> (bytes \<times> ssl_error) list \<Rightarrow> (ssl_error \<times> bytes \<times> bool) list \<Rightarrow>
     dtls_socket_o \<Rightarrow> bool option" where
  "client_connect fd connected as ws rs s =
     (if \<not> fst (socket_open fd s) then Some False
      else if connected = -1 then Some False
      else (case connect_loop as of
              None \<Rightarrow> None
            | Some r \<Rightarrow> if r = -1 then Some False else map_option (\<lambda>q. q \<noteq> -1) (handle_data ws rs)))"

section \<open>Properties\<close>

lemma peer_bytes_inj: "be16 p @ be32 a = be16 q @ be32 b \<longleftrightarrow> p = q \<and> a = b"
proof -
  have "be16 p @ be32 a = be16 q @ be32 b \<longleftrightarrow> be16 p = be16 q \<and> be32 a = be32 b"
    by (simp add: be16_def)
  moreover have "be16 p = be16 q \<longleftrightarrow> p = q" by (metis from_be_be16 word_unat_eq_iff)
  moreover have "be32 a = be32 b \<longleftrightarrow> a = b" by (metis from_be_be32 word_unat_eq_iff)
  ultimately show ?thesis by simp
qed

text \<open>
  A cookie that was made for a peer is accepted from this peer and, as far as the digest distinguishes its
  inputs, from no other.
\<close>

theorem cookie_for_its_peer:
  assumes "cookie_initialized c" "inj (hmac (secret c))" "genCookie hmac rand (Peer_In port a) c = (1, ck, c')"
  shows "fst (verifyCookie hmac rand' q ck c') = 1 \<longleftrightarrow> q = Peer_In port a"
proof -
  have c': "c' = c" "ck = hmac (secret c) (be16 port @ be32 a)"
    using assms(1,3) by (auto simp: genCookie_def cookieProc_def cookie_init_def)
  have "(length ck = length r \<and> take (length r) ck = r) \<longleftrightarrow> ck = r" for r :: bytes by auto
  then show ?thesis
    using assms(1,2) c' peer_bytes_inj
    by (cases q) (auto simp: verifyCookie_def cookieProc_def cookie_init_def inj_eq)
qed

text \<open>What the server writes out is what it read, in order.\<close>

definition written_out :: "ssl_effect list \<Rightarrow> bytes list" where
  "written_out es = concat (map (\<lambda>e. case e of Stdout d \<Rightarrow> [d] | _ \<Rightarrow> []) es)"

definition records_of :: "(ssl_error \<times> bytes \<times> bool) list \<Rightarrow> bytes list" where
  "records_of rs = map (\<lambda>(_, d, _). d) (filter (\<lambda>(e, _). e = SSL_ERROR_NONE) rs)"

lemma written_out_simps [simp]:
  "written_out [] = []" "written_out (Stdout d # es) = d # written_out es"
  "written_out (Printed t # es) = written_out es"
  by (simp_all add: written_out_def)

lemma records_of_Cons: "records_of ((e, d, p) # rs) = (if e = SSL_ERROR_NONE then d # records_of rs else records_of rs)"
  by (simp add: records_of_def)

theorem read_loop_copies:
  "read_loop buf ret rs = Some (r, es) \<Longrightarrow> \<exists>n. written_out es = take n (records_of rs)"
proof (induction rs arbitrary: buf ret r es)
  case (Cons x rs)
  obtain e d p where x: "x = (e, d, p)" by (cases x)
  show ?case
  proof (cases e)
    case SSL_ERROR_NONE
    let ?buf = "d @ drop (length d) buf" and ?ret = "if p then ret else 0"
    show ?thesis
    proof (cases "c_string ?buf = exit_text")
      case True
      then have "written_out es = take 1 (records_of (x # rs))"
        using Cons.prems x SSL_ERROR_NONE by (auto simp: records_of_Cons)
      then show ?thesis by blast
    next
      case False
      then obtain fs where "read_loop ?buf ?ret rs = Some (r, fs)" "es = Stdout d # fs"
        using Cons.prems x SSL_ERROR_NONE by auto
      then obtain n where "written_out es = d # take n (records_of rs)" using Cons.IH by fastforce
      then have "written_out es = take (Suc n) (records_of (x # rs))"
        using x SSL_ERROR_NONE by (simp add: records_of_Cons)
      then show ?thesis by blast
    qed
  next
    case SSL_ERROR_WANT_READ
    then show ?thesis using Cons x by (auto simp: records_of_Cons)
  qed (use Cons.prems x in \<open>auto intro: exI [of _ 0]\<close>)
qed simp

lemma write_loop_result: "write_loop ret ws = Some (r, es) \<Longrightarrow> r = ret \<or> r = 1"
  by (induction ret ws arbitrary: es rule: write_loop.induct) (auto split: ssl_error.splits if_splits)

lemma read_loop_result: "read_loop buf ret rs = Some (r, es) \<Longrightarrow> r = ret \<or> r = 0 \<or> r = 1"
  by (induction buf ret rs arbitrary: es rule: read_loop.induct)
    (auto simp: Let_def split: ssl_error.splits if_splits)

lemma wait_loop_result: "wait_loop ws = Some r \<Longrightarrow> r \<in> {Reads, Goto_Err 1, Goto_Shut 2}"
  by (induction ws rule: wait_loop.induct) (auto split: wait_outcome.splits if_splits)

lemma at_err_result: "at_err ret ws = Some (r, es) \<Longrightarrow> r = ret \<or> r = 1"
  by (auto simp: at_err_def dest: write_loop_result split: if_splits)

lemma get_data_result: "dtls_get_data c = Some (r, es) \<Longrightarrow> r \<in> {0, 1, 2}"
  by (auto simp: dtls_get_data_def dest!: at_err_result read_loop_result wait_loop_result
      split: option.splits wait_exit.splits)

section \<open>What goes wrong\<close>

text \<open>\<open>bind\<close> ends its loop on a negative result, which \<open>dtls_get_data\<close> never has: it never returns.\<close>

lemma bind_never_returns: "fd \<noteq> -1 \<Longrightarrow> bound \<noteq> -1 \<Longrightarrow> server_bind fd bound cs s = None"
proof -
  have "bind_loop cs = None"
    by (induction cs) (auto dest!: get_data_result split: option.split)
  then show "fd \<noteq> -1 \<Longrightarrow> bound \<noteq> -1 \<Longrightarrow> server_bind fd bound cs s = None"
    by (simp add: server_bind_def socket_open_def)
qed

text \<open>The buffer is compared up to its first zero byte, with what a longer record left behind.\<close>

lemma exit_after_longer_text:
  "read_loop (replicate 16 0) 1 [(SSL_ERROR_NONE, [0x68, 0x65, 0x6c, 0x6c, 0x6f], False), (SSL_ERROR_NONE, exit_text, False)] =
     None"
  "read_loop (replicate 16 0) 1 [(SSL_ERROR_NONE, exit_text, False)] = Some (0, [Stdout exit_text])"
  by (simp_all add: c_string_def exit_text_def)

text \<open>A certificate of the peer that failed is accepted; a failed set-up of the parameters counts as done.\<close>

lemma failed_leaf_accepted: "dtls_verify_callback False 0"
  by (simp add: dtls_verify_callback_def)

lemma failed_dh_accepted: "setDHParams True 0"
  by (simp add: setDHParams_def)

lemma rsa_result_inverted: "genRsaKey set_tmp_rsa \<longleftrightarrow> \<not> set_tmp_rsa"
  by (simp add: genRsaKey_def)

end
