(* ===== verification/Openssl_Context.thy ===== *)
theory Openssl_Context
  imports Openssl_Dtls
begin

unbundle bit_operations_syntax

text \<open>
  The objects behind the sockets of \<open>DTLS/OpenSSL/\<close>: how the constructors set up a context of
  OpenSSL, and which objects and descriptors of the process the sockets make and give back. The descriptors
  of the process are a table with an owner for each; \<open>socket()\<close> yields the lowest number that
  is free, as POSIX has it.
\<close>

section \<open>The process\<close>

record process_o =
  lib_initialised :: bool
  bio_count :: nat
  ctx_count :: nat
  ssl_count :: nat
  descriptors :: "(nat \<times> nat) list"

definition lowest_free :: "(nat \<times> nat) list \<Rightarrow> nat" where
  "lowest_free fds = hd (filter (\<lambda>n. n \<notin> fst ` set fds) [0..<Suc (length fds)])"

text \<open>\<open>socket()\<close>, which may be refused, and \<open>close()\<close>, which closes whatever has the number.\<close>

definition sys_socket :: "bool \<Rightarrow> nat \<Rightarrow> process_o \<Rightarrow> int \<times> process_o" where
  "sys_socket granted owner w =
     (if granted then (int (lowest_free (descriptors w)), w\<lparr>descriptors := (lowest_free (descriptors w), owner) # descriptors w\<rparr>)
      else (-1, w))"

definition sys_close :: "int \<Rightarrow> process_o \<Rightarrow> process_o" where
  "sys_close fd w = w\<lparr>descriptors := filter (\<lambda>e. int (fst e) \<noteq> fd) (descriptors w)\<rparr>"

section \<open>Contexts\<close>

datatype ssl_option = SSL_OP_ALL | SSL_OP_NO_SSLv2

record ssl_ctx =
  verify_depth :: nat
  ctx_options :: "ssl_option set"
  read_ahead :: bool
  quiet_shutdown :: bool
  cookie_callbacks :: bool
  verify_mode :: u8
  verify_callback :: bool
  session_id_context :: string

definition ssl_ctx_new :: ssl_ctx where
  "ssl_ctx_new =
     \<lparr>verify_depth = 100, ctx_options = {}, read_ahead = False, quiet_shutdown = False, cookie_callbacks = False,
      verify_mode = 0, verify_callback = False, session_id_context = []\<rparr>"

text \<open>The constructor of \<open>DTLSSocket\<close>; the first one in the process loads the library.  The port is not set.\<close>

definition socket_new :: "u16 \<Rightarrow> process_o \<Rightarrow> dtls_socket_o \<times> ssl_ctx \<times> process_o" where
  "socket_new memory w =
     (let w1 = (if lib_initialised w then w else w\<lparr>lib_initialised := True, bio_count := bio_count w + 1\<rparr>)
      in (\<lparr>o_ssl = False, o_sock = -1, o_port = memory, o_host = [], o_certificatePassword = []\<rparr>,
          ssl_ctx_new\<lparr>verify_depth := 2, ctx_options := {SSL_OP_ALL, SSL_OP_NO_SSLv2}, read_ahead := True\<rparr>,
          w1\<lparr>ctx_count := ctx_count w1 + 1\<rparr>))"

definition setPort :: "u16 \<Rightarrow> dtls_socket_o \<Rightarrow> dtls_socket_o" where
  "setPort p s = s\<lparr>o_port := p\<rparr>"

definition setHost :: "string \<Rightarrow> dtls_socket_o \<Rightarrow> dtls_socket_o" where
  "setHost h s = s\<lparr>o_host := h\<rparr>"

definition setCertificatePassword :: "string \<Rightarrow> dtls_socket_o \<Rightarrow> dtls_socket_o" where
  "setCertificatePassword pw s = s\<lparr>o_certificatePassword := pw\<rparr>"

definition setCertificateChain :: "int \<Rightarrow> bool" where
  "setCertificateChain use_chain_file = (use_chain_file \<noteq> 0)"

definition setCACertificate :: "int \<Rightarrow> bool" where
  "setCACertificate load_verify_locations = (load_verify_locations \<noteq> 0)"

definition checkPasswordCallback :: "bytes \<Rightarrow> int \<Rightarrow> int" where
  "checkPasswordCallback buf num = 0"

text \<open>\<open>open\<close>: a new connection object and a new socket, whatever was there before.\<close>

definition open_o :: "bool \<Rightarrow> nat \<Rightarrow> dtls_socket_o \<Rightarrow> process_o \<Rightarrow> bool \<times> dtls_socket_o \<times> process_o" where
  "open_o granted owner s w =
     (case sys_socket granted owner (w\<lparr>ssl_count := ssl_count w + 1\<rparr>) of
        (fd, w1) \<Rightarrow> (case socket_open fd s of (ok, s1) \<Rightarrow> (ok, s1, w1)))"

text \<open>\<open>close\<close> leaves the number of the descriptor in the object.\<close>

definition close_o :: "dtls_socket_o \<Rightarrow> process_o \<Rightarrow> process_o" where
  "close_o s w = sys_close (o_sock s) w"

definition socket_destroy :: "dtls_socket_o \<Rightarrow> process_o \<Rightarrow> process_o" where
  "socket_destroy s w =
     (let w1 = (if o_ssl s then w\<lparr>ssl_count := ssl_count w - 1\<rparr> else w)
      in close_o s (w1\<lparr>ctx_count := ctx_count w1 - 1\<rparr>))"

text \<open>
  The server: the base class, the cookies (\<open>None\<close> if they end the process), then two more
  outputs, the callbacks and the mode of verification.
\<close>

definition SSL_VERIFY_PEER :: u8 where "SSL_VERIFY_PEER = 1"
definition SSL_VERIFY_CLIENT_ONCE :: u8 where "SSL_VERIFY_CLIENT_ONCE = 4"

definition dtls_server_new ::
    "u16 \<Rightarrow> bytes \<Rightarrow> int \<times> bytes \<Rightarrow> bool \<Rightarrow> process_o \<Rightarrow> (cookie \<times> dtls_socket_o \<times> ssl_ctx \<times> process_o) option" where
  "dtls_server_new memory secret_memory rand cookie_exists w =
     (case socket_new memory w of
        (s, c, w1) \<Rightarrow>
          map_option
            (\<lambda>ck. (ck, s,
               c\<lparr>quiet_shutdown := True, cookie_callbacks := True, verify_mode := SSL_VERIFY_CLIENT_ONCE, verify_callback := True,
                 ctx_options := ctx_options c \<union> {SSL_OP_ALL, SSL_OP_NO_SSLv2}, session_id_context := ''dtls-example''\<rparr>,
               w1\<lparr>bio_count := bio_count w1 + 2\<rparr>))
            (cookie_new secret_memory rand cookie_exists))"

section \<open>What is given back\<close>

text \<open>The calls on one socket between its construction and its end.\<close>

datatype socket_call = Call_Open bool | Call_Close

fun socket_calls :: "nat \<Rightarrow> socket_call list \<Rightarrow> dtls_socket_o \<times> process_o \<Rightarrow> dtls_socket_o \<times> process_o" where
  "socket_calls owner [] sw = sw"
| "socket_calls owner (Call_Open granted # cs) (s, w) =
     (case open_o granted owner s w of (ok, s1, w1) \<Rightarrow> socket_calls owner cs (s1, w1))"
| "socket_calls owner (Call_Close # cs) (s, w) = socket_calls owner cs (s, close_o s w)"

definition socket_life :: "u16 \<Rightarrow> nat \<Rightarrow> socket_call list \<Rightarrow> process_o \<Rightarrow> process_o" where
  "socket_life memory owner cs w =
     (case socket_new memory w of (s, c, w1) \<Rightarrow> case socket_calls owner cs (s, w1) of (s1, w2) \<Rightarrow> socket_destroy s1 w2)"

definition opens :: "socket_call list \<Rightarrow> nat" where
  "opens cs = length (filter (\<lambda>c. c \<noteq> Call_Close) cs)"

lemma lowest_free_fresh: "lowest_free fds \<notin> fst ` set fds"
proof -
  let ?f = "filter (\<lambda>n. n \<notin> fst ` set fds) [0..<Suc (length fds)]"
  have "card (fst ` set fds) \<le> length fds" by (metis card_length length_map set_map)
  then have "\<not> {0..<Suc (length fds)} \<subseteq> fst ` set fds"
    using card_mono [of "fst ` set fds" "{0..<Suc (length fds)}"] by auto
  then obtain x where "x \<in> {0..<Suc (length fds)}" "x \<notin> fst ` set fds" by blast
  then have "x \<in> set ?f" by (simp del: upt_Suc)
  then have "?f \<noteq> []" by (metis empty_iff empty_set)
  from hd_in_set [OF this] show ?thesis unfolding lowest_free_def set_filter by blast
qed

lemma filter_other_descriptors: "x \<notin> fst ` set fds \<Longrightarrow> filter (\<lambda>e. fst e \<noteq> x) fds = fds"
  by (induction fds) auto

lemma filter_no_descriptor: "filter (\<lambda>e. int (fst e) \<noteq> -1) fds = fds"
  by (induction fds) auto

lemma socket_calls_counts:
  "socket_calls owner cs (s, w) = (s', w') \<Longrightarrow>
   ssl_count w' = ssl_count w + opens cs \<and> ctx_count w' = ctx_count w \<and> bio_count w' = bio_count w \<and>
   (o_ssl s' \<longleftrightarrow> o_ssl s \<or> 0 < opens cs)"
proof (induction owner cs "(s, w)" arbitrary: s w rule: socket_calls.induct)
  case (2 owner granted cs s w)
  then show ?case
    by (cases granted) (auto simp: open_o_def sys_socket_def socket_open_def opens_def)
qed (auto simp: close_o_def sys_close_def opens_def)

text \<open>
  Exact account of a socket's life: the context is given back, and of the connection objects all but the last that
  \<open>open\<close> made stay.
\<close>

theorem socket_life_counts:
  "ctx_count (socket_life memory owner cs w) = ctx_count w"
  "ssl_count (socket_life memory owner cs w) = ssl_count w + (opens cs - 1)"
proof -
  obtain s1 w2 where l: "socket_calls owner cs (fst (socket_new memory w), snd (snd (socket_new memory w))) = (s1, w2)"
    by fastforce
  from socket_calls_counts [OF this]
  have "ctx_count (socket_life memory owner cs w) = ctx_count w \<and>
      ssl_count (socket_life memory owner cs w) = ssl_count w + (opens cs - 1)"
    using l by (auto simp: socket_life_def socket_new_def socket_destroy_def close_o_def sys_close_def Let_def)
  then show "ctx_count (socket_life memory owner cs w) = ctx_count w"
    "ssl_count (socket_life memory owner cs w) = ssl_count w + (opens cs - 1)" by simp_all
qed

text \<open>A socket that is opened once, or not at all, and left to its destructor gives its descriptor back and closes no other.\<close>

theorem one_open_gives_back: "descriptors (socket_life memory owner [Call_Open granted] w) = descriptors w"
    "descriptors (socket_life memory owner [] w) = descriptors w"
  using lowest_free_fresh [of "descriptors w"]
  by (auto simp: socket_life_def socket_new_def socket_destroy_def close_o_def sys_close_def Let_def open_o_def sys_socket_def
      socket_open_def filter_other_descriptors filter_no_descriptor)

section \<open>What goes wrong\<close>

text \<open>
  Once \<open>close\<close> was called, as \<open>DTLSServer::bind\<close> and a failed
  \<open>DTLSClient::connect\<close> do, the destructor closes the number again: it may belong to another
  part of the program by then.
\<close>

lemma second_close_hits_other:
  assumes "open_o True owner s w = (True, s1, w1)" "sys_socket True other (close_o s1 w1) = (fd, w2)"
  shows "(nat fd, other) \<in> set (descriptors w2)" "nat fd \<notin> fst ` set (descriptors (socket_destroy s1 w2))"
proof -
  let ?n = "lowest_free (descriptors w)"
  have s1: "o_sock s1 = int ?n" "w1 = w\<lparr>ssl_count := ssl_count w + 1, descriptors := (?n, owner) # descriptors w\<rparr>"
    using assms(1) by (auto simp: open_o_def sys_socket_def socket_open_def)
  then have "descriptors (close_o s1 w1) = descriptors w"
    using filter_other_descriptors [OF lowest_free_fresh] by (simp add: close_o_def sys_close_def)
  then have fd: "fd = int ?n" "descriptors w2 = (?n, other) # descriptors w"
    using assms(2) by (auto simp: sys_socket_def)
  then show "(nat fd, other) \<in> set (descriptors w2)" by simp
  show "nat fd \<notin> fst ` set (descriptors (socket_destroy s1 w2))"
    using s1 fd by (auto simp: socket_destroy_def close_o_def sys_close_def Let_def)
qed

text \<open>
  The server asks for a certificate of the client only if the mode contains \<open>SSL_VERIFY_PEER\<close>, of which
  \<open>SSL_VERIFY_CLIENT_ONCE\<close> is a refinement; alone it does nothing.
\<close>

definition asks_for_certificate :: "ssl_ctx \<Rightarrow> bool" where
  "asks_for_certificate c \<longleftrightarrow> verify_mode c AND SSL_VERIFY_PEER \<noteq> 0"

lemma server_asks_no_certificate:
  "dtls_server_new memory secret_memory rand cookie_exists w = Some (ck, s, c, w1) \<Longrightarrow> \<not> asks_for_certificate c"
  by (auto simp: dtls_server_new_def asks_for_certificate_def SSL_VERIFY_PEER_def SSL_VERIFY_CLIENT_ONCE_def split: prod.splits)

text \<open>Every server leaves two outputs behind; the destructor frees none.\<close>

lemma server_leaves_outputs:
  "dtls_server_new memory secret_memory rand cookie_exists w = Some (ck, s, c, w1) \<Longrightarrow>
   bio_count w + 2 \<le> bio_count (socket_destroy s w1)"
  by (auto simp: dtls_server_new_def socket_new_def socket_destroy_def close_o_def sys_close_def Let_def split: if_splits)

end
