(* ===== verification/Meta_Programs.thy ===== *)
theory Meta_Programs
  imports Db_Builder
begin

text \<open>
  What the compiler computes: the index sequences of \<open>Base/fake_integer_sequence.h\<close>, with which
  the library takes tuples apart, and the macros of \<open>DBMeta/db_meta.h\<close>, which count their
  arguments and write the functions of a table. The functions they write are those of
  \<open>Db_Builder\<close>.
\<close>

section \<open>Index sequences\<close>

definition concat_seq :: "nat list \<Rightarrow> nat list \<Rightarrow> nat list" where
  "concat_seq I1 I2 = I1 @ map (\<lambda>i. length I1 + i) I2"

function gen_seq :: "nat \<Rightarrow> nat list" where
  "gen_seq n = (if n = 0 then [] else if n = 1 then [0] else concat_seq (gen_seq (n div 2)) (gen_seq (n - n div 2)))"
  by pat_completeness auto
termination by (relation "measure id") auto

declare gen_seq.simps [simp del]

definition doubled_index_sequence :: "nat \<Rightarrow> nat list \<Rightarrow> nat list" where
  "doubled_index_sequence s is = is @ map (\<lambda>i. s + i) is"

definition inc_index_sequence :: "bool \<Rightarrow> nat list \<Rightarrow> nat list" where
  "inc_index_sequence need is = (if need then is @ [length is] else is)"

function make_index_sequence :: "nat \<Rightarrow> nat list" where
  "make_index_sequence n =
     (if n = 0 then []
      else inc_index_sequence (n mod 2 \<noteq> 0) (doubled_index_sequence (n div 2) (make_index_sequence (n div 2))))"
  by pat_completeness auto
termination by (relation "measure id") auto

declare make_index_sequence.simps [simp del]

lemma concat_seq_upt: "concat_seq [0..<a] [0..<b] = [0..<a + b]"
  by (simp add: concat_seq_def upt_add_eq_append [of 0] map_add_upt add.commute)

lemma gen_seq_upt: "gen_seq n = [0..<n]"
proof (induction n rule: gen_seq.induct)
  case (1 n)
  then show ?case
    by (cases "n = 0 \<or> n = 1") (auto simp: gen_seq.simps [of n] concat_seq_upt)
qed

lemma make_index_sequence_upt: "make_index_sequence n = [0..<n]"
proof (induction n rule: make_index_sequence.induct)
  case (1 n)
  have d: "doubled_index_sequence k [0..<k] = [0..<k + k]" for k
    using concat_seq_upt [of k k] by (simp add: doubled_index_sequence_def concat_seq_def)
  show ?case
  proof (cases "n = 0")
    case True
    then show ?thesis by (simp add: make_index_sequence.simps)
  next
    case False
    then have "make_index_sequence n = inc_index_sequence (n mod 2 \<noteq> 0) [0..<n div 2 + n div 2]"
      using 1 d by (simp add: make_index_sequence.simps [of n])
    moreover have "inc_index_sequence b [0..<k] = [0..<k + (if b then 1 else 0)]" for b k
      by (simp add: inc_index_sequence_def)
    moreover have "n div 2 + n div 2 + (if n mod 2 \<noteq> 0 then 1 else 0) = n" by presburger
    ultimately show ?thesis by presburger
  qed
qed

text \<open>
  The two generators agree, and \<open>f(std::get<Idx>(tuple)...)\<close> passes every member of the tuple
  once and in its order.
\<close>

theorem index_sequences_unpack:
  "gen_seq n = make_index_sequence n" "map (\<lambda>i. xs ! i) (make_index_sequence (length xs)) = xs"
  by (simp_all add: gen_seq_upt make_index_sequence_upt map_nth)

section \<open>Counting arguments\<close>

text \<open>The arguments of a macro: what the program wrote for a column, and the numbers the macro adds.\<close>

datatype ('o, 'v) token =
    Tok_Name string | Tok_Get "'o \<Rightarrow> 'v option" | Tok_Set "'v option \<Rightarrow> 'o \<Rightarrow> 'o" | Tok_Num nat | Tok_Macro nat

text \<open>\<open>DB_A(A)\<close> and its variants: three arguments for a column.\<close>

definition db_a :: "('o, 'v) column \<Rightarrow> ('o, 'v) token list" where
  "db_a c = [Tok_Name (col_name c), Tok_Get (col_get c), Tok_Set (col_set c)]"

definition HELPZ_DB_RSEQ_N :: "nat list" where
  "HELPZ_DB_RSEQ_N =
     [15,15,15,14,14,14,13,13,13,12,12,12,11,11,11,10,10,10,
      9,9,9,8,8,8,7,7,7,6,6,6,5,5,5,4,4,4,3,3,3,2,2,2,1,1,1,0]"

definition HELPZ_DB_ARG_N :: "'a list \<Rightarrow> 'a option" where
  "HELPZ_DB_ARG_N args = (if 45 < length args then Some (args ! 45) else None)"

definition HELPZ_DB_NARG :: "('o, 'v) token list \<Rightarrow> ('o, 'v) token option" where
  "HELPZ_DB_NARG args = HELPZ_DB_ARG_N (args @ map Tok_Num HELPZ_DB_RSEQ_N)"

definition HELPZ_PP_RSEQ_N :: "nat list" where
  "HELPZ_PP_RSEQ_N =
     [63,62,61,60,
      59,58,57,56,55,54,53,52,51,50,
      49,48,47,46,45,44,43,42,41,40,
      39,38,37,36,35,34,33,32,31,30,
      29,28,27,26,25,24,23,22,21,20,
      19,18,17,16,15,14,13,12,11,10,
      9,8,7,6,5,4,3,2,1,0]"

definition HELPZ_PP_ARG_N :: "'a list \<Rightarrow> 'a option" where
  "HELPZ_PP_ARG_N args = (if 63 < length args then Some (args ! 63) else None)"

definition HELPZ_PP_NARG :: "('o, 'v) token list \<Rightarrow> ('o, 'v) token option" where
  "HELPZ_PP_NARG args = HELPZ_PP_ARG_N (args @ map Tok_Num HELPZ_PP_RSEQ_N)"

lemma rseq_eq:
  "HELPZ_DB_RSEQ_N = map (\<lambda>i. (47 - i) div 3) [0..<46]" "HELPZ_PP_RSEQ_N = map (\<lambda>i. 63 - i) [0..<64]"
  by (code_simp, code_simp)

text \<open>
  Up to 45 arguments are counted in threes, a started three as a whole one; with more the macro yields the
  46th argument for their number, and a table of sixteen columns does not compile.
\<close>

lemma db_narg:
  assumes "0 < length args"
  shows "HELPZ_DB_NARG args = Some (if length args \<le> 45 then Tok_Num ((length args + 2) div 3) else args ! 45)"
  using assms by (auto simp: HELPZ_DB_NARG_def HELPZ_DB_ARG_N_def rseq_eq nth_append)

lemma pp_narg:
  assumes "0 < length args"
  shows "HELPZ_PP_NARG args = Some (if length args \<le> 63 then Tok_Num (length args) else args ! 63)"
  using assms by (auto simp: HELPZ_PP_NARG_def HELPZ_PP_ARG_N_def rseq_eq nth_append)

section \<open>For each\<close>

fun HELPZ_FE :: "nat \<Rightarrow> ('a \<Rightarrow> 'b) \<Rightarrow> 'a list \<Rightarrow> 'b list option" where
  "HELPZ_FE (Suc 0) what [x] = Some [what x]"
| "HELPZ_FE (Suc (Suc n)) what (x # xs) = map_option (\<lambda>ys. what x # ys) (HELPZ_FE (Suc n) what xs)"
| "HELPZ_FE _ _ _ = None"

text \<open>\<open>HELPZ_GET_MACRO\<close> picks the sixth argument, which is meant to be the name of one of the five macros.\<close>

definition HELPZ_FOR_EACH :: "(('o, 'v) token \<Rightarrow> 'b) \<Rightarrow> ('o, 'v) token list \<Rightarrow> 'b list option" where
  "HELPZ_FOR_EACH what args =
     (case (args @ map Tok_Macro [5, 4, 3, 2, 1]) ! 5 of Tok_Macro k \<Rightarrow> HELPZ_FE k what args | _ \<Rightarrow> None)"

lemma fe_map: "xs \<noteq> [] \<Longrightarrow> HELPZ_FE (length xs) what xs = Some (map what xs)"
proof (induction xs)
  case (Cons x xs)
  then show ?case by (cases xs) simp_all
qed simp

lemma for_each_map:
  assumes "0 < length args" "length args \<le> 5"
  shows "HELPZ_FOR_EACH what args = Some (map what args)"
proof -
  have "length args = 1 \<or> length args = 2 \<or> length args = 3 \<or> length args = 4 \<or> length args = 5"
    using assms by linarith
  then have "(args @ map Tok_Macro [5, 4, 3, 2, 1]) ! 5 = Tok_Macro (length args)" by (elim disjE) (simp_all add: nth_append)
  then show ?thesis using assms fe_map [of args what] by (simp add: HELPZ_FOR_EACH_def del: list.map)
qed

section \<open>The functions of a table\<close>

fun HELPZ_DB_QUOTE :: "nat \<Rightarrow> ('o, 'v) token list \<Rightarrow> string list option" where
  "HELPZ_DB_QUOTE (Suc 0) [Tok_Name a, gt, st] = Some [a]"
| "HELPZ_DB_QUOTE (Suc (Suc n)) (Tok_Name a # gt # st # ts) = map_option (\<lambda>as. a # as) (HELPZ_DB_QUOTE (Suc n) ts)"
| "HELPZ_DB_QUOTE _ _ = None"

text \<open>The cases of the two switches, in the order they are written.\<close>

fun HELPZ_DB_GETTER_CASE :: "nat \<Rightarrow> ('o, 'v) token list \<Rightarrow> (string \<times> ('o \<Rightarrow> 'v option)) list option" where
  "HELPZ_DB_GETTER_CASE (Suc 0) (Tok_Name a # Tok_Get gt # st # ts) = Some [(a, gt)]"
| "HELPZ_DB_GETTER_CASE (Suc (Suc n)) (Tok_Name a # Tok_Get gt # st # ts) =
     map_option (\<lambda>cs. (a, gt) # cs) (HELPZ_DB_GETTER_CASE (Suc n) ts)"
| "HELPZ_DB_GETTER_CASE _ _ = None"

fun HELPZ_DB_SETTER_CASE :: "nat \<Rightarrow> ('o, 'v) token list \<Rightarrow> (string \<times> ('v option \<Rightarrow> 'o \<Rightarrow> 'o)) list option" where
  "HELPZ_DB_SETTER_CASE (Suc 0) (Tok_Name a # gt # Tok_Set st # ts) = Some [(a, st)]"
| "HELPZ_DB_SETTER_CASE (Suc (Suc n)) (Tok_Name a # gt # Tok_Set st # ts) =
     map_option (\<lambda>cs. (a, st) # cs) (HELPZ_DB_SETTER_CASE (Suc n) ts)"
| "HELPZ_DB_SETTER_CASE _ _ = None"

text \<open>The enumeration gives \<open>COL_A\<close> the place of \<open>A\<close>; a \<open>switch\<close> jumps to the case whose constant has the value.\<close>

fun switch_on :: "string list \<Rightarrow> nat \<Rightarrow> (string \<times> 'c) list \<Rightarrow> 'c option" where
  "switch_on columns pos [] = None"
| "switch_on columns pos ((a, body) # cs) =
     (if pos < length columns \<and> columns ! pos = a then Some body else switch_on columns pos cs)"

record ('o, 'v) generated =
  gen_column_names :: "string list"
  gen_value_getter :: "'o \<Rightarrow> nat \<Rightarrow> 'v option"
  gen_value_setter :: "nat \<Rightarrow> 'v option \<Rightarrow> 'o \<Rightarrow> 'o"

text \<open>
  \<open>HELPZ_DB_META\<close>: the number of columns is counted and pasted into the names of the macros, of which there are
  fifteen each; \<open>None\<close> if the result does not compile.  A name that stands twice makes an enumeration with two
  equal constants.
\<close>

definition HELPZ_DB_META :: "('o, 'v) token list \<Rightarrow> ('o, 'v) generated option" where
  "HELPZ_DB_META args =
     (case HELPZ_DB_NARG args of
        Some (Tok_Num n) \<Rightarrow>
          if n = 0 \<or> 15 < n then None
          else
            (case (HELPZ_DB_QUOTE n args, HELPZ_DB_GETTER_CASE n args, HELPZ_DB_SETTER_CASE n args) of
               (Some names, Some getters, Some setters) \<Rightarrow>
                 if distinct names
                 then Some \<lparr>gen_column_names = names,
                        gen_value_getter = (\<lambda>obj pos. case switch_on names pos getters of Some g \<Rightarrow> g obj | None \<Rightarrow> None),
                        gen_value_setter = (\<lambda>pos v obj. case switch_on names pos setters of Some f \<Rightarrow> f v obj | None \<Rightarrow> obj)\<rparr>
                 else None
             | _ \<Rightarrow> None)
      | _ \<Rightarrow> None)"

lemma length_columns: "length (concat (map db_a cs)) = 3 * length cs"
  by (induction cs) (simp_all add: db_a_def)

lemma expand_columns:
  assumes "cs \<noteq> []"
  shows "HELPZ_DB_QUOTE (length cs) (concat (map db_a cs)) = Some (map col_name cs)"
    and "HELPZ_DB_GETTER_CASE (length cs) (concat (map db_a cs)) = Some (map (\<lambda>c. (col_name c, col_get c)) cs)"
    and "HELPZ_DB_SETTER_CASE (length cs) (concat (map db_a cs)) = Some (map (\<lambda>c. (col_name c, col_set c)) cs)"
  using assms
proof (induction cs)
  case (Cons c cs)
  { case 1 show ?case using Cons.IH(1) by (cases cs) (simp_all add: db_a_def) }
  { case 2 show ?case using Cons.IH(2) by (cases cs) (simp_all add: db_a_def) }
  { case 3 show ?case using Cons.IH(3) by (cases cs) (simp_all add: db_a_def) }
qed simp_all

lemma switch_on_columns:
  assumes "distinct (map nm cs)" "set ds \<subseteq> set cs"
  shows "switch_on (map nm cs) pos (map (\<lambda>c. (nm c, f c)) ds) =
    (if pos < length cs \<and> cs ! pos \<in> set ds then Some (f (cs ! pos)) else None)"
  using assms(2)
proof (induction ds)
  case (Cons d ds)
  have "nm (cs ! pos) = nm d \<longleftrightarrow> cs ! pos = d" if "pos < length cs"
    using that assms(1) Cons.prems by (auto simp: distinct_map dest: inj_onD)
  then show ?case using Cons by auto
qed simp

lemma generated_code:
  assumes "cols \<noteq> []" "length cols \<le> 15" "distinct (map col_name cols)" "meta_columns M = cols"
  shows "HELPZ_DB_META (concat (map db_a cols)) =
    Some \<lparr>gen_column_names = table_column_names M, gen_value_getter = value_getter M, gen_value_setter = value_setter M\<rparr>"
proof -
  let ?args = "concat (map db_a cols)"
  have n: "HELPZ_DB_NARG ?args = Some (Tok_Num (length cols))"
    using db_narg [of ?args] assms(1,2) by (simp add: length_columns)
  note sw = switch_on_columns [OF assms(3), of cols]
  have g: "(\<lambda>obj pos. case switch_on (map col_name cols) pos (map (\<lambda>c. (col_name c, col_get c)) cols) of
      Some g \<Rightarrow> g obj | None \<Rightarrow> None) = value_getter M"
    by (intro ext) (simp add: sw value_getter_def col_count_def assms(4))
  have s: "(\<lambda>pos v obj. case switch_on (map col_name cols) pos (map (\<lambda>c. (col_name c, col_set c)) cols) of
      Some f \<Rightarrow> f v obj | None \<Rightarrow> obj) = value_setter M"
    by (intro ext) (simp add: sw value_setter_def col_count_def assms(4))
  show ?thesis
    using n expand_columns [OF assms(1)] assms(1-3) g s
    by (simp add: HELPZ_DB_META_def table_column_names_def assms(4))
qed

text \<open>
  Property C38.  The macro writes the functions of the table: for one to fifteen columns with different names, what
  the preprocessor makes of \<open>HELPZ_DB_META\<close> has the column names, the reading and the writing of values by
  position that the columns say, and reading or writing outside the columns does nothing; with more columns it does
  not compile.
\<close>

theorem db_meta_generates_table:
  assumes "cols \<noteq> []" "distinct (map col_name cols)" "meta_columns M = cols"
  shows "HELPZ_DB_META (concat (map db_a cols)) =
    (if length cols \<le> 15
     then Some \<lparr>gen_column_names = table_column_names M, gen_value_getter = value_getter M, gen_value_setter = value_setter M\<rparr>
     else None)"
proof (cases "length cols \<le> 15")
  case True
  then show ?thesis using generated_code assms by simp
next
  case False
  then obtain c where "concat (map db_a cols) ! 45 = Tok_Name c"
  proof -
    have "concat (map db_a cols) = concat (map db_a (take 15 cols)) @ concat (map db_a (drop 15 cols))"
      by (metis append_take_drop_id concat_append map_append)
    moreover obtain d ds where "drop 15 cols = d # ds" using False by (cases "drop 15 cols") auto
    moreover have "length (concat (map db_a (take 15 cols))) = 45" using False by (simp add: length_columns)
    ultimately show ?thesis using that by (simp add: nth_append db_a_def)
  qed
  then show ?thesis
    using False assms(1) db_narg [of "concat (map db_a cols)"] by (simp add: HELPZ_DB_META_def length_columns)
qed

section \<open>Examples\<close>

definition pair_columns :: "(int \<times> int, int) column list" where
  "pair_columns =
     [\<lparr>col_name = ''id'', col_get = (\<lambda>x. Some (fst x)), col_set = (\<lambda>v x. (case v of Some y \<Rightarrow> y | None \<Rightarrow> 0, snd x))\<rparr>,
      \<lparr>col_name = ''value'', col_get = (\<lambda>x. Some (snd x)), col_set = (\<lambda>v x. (fst x, case v of Some y \<Rightarrow> y | None \<Rightarrow> 0))\<rparr>]"

theorem db_meta_generates_table_witness:
  "\<exists>g. HELPZ_DB_META (concat (map db_a pair_columns)) = Some g \<and> gen_column_names g = [''id'', ''value''] \<and>
     gen_value_getter g (3, 4) 1 = Some 4 \<and> gen_value_setter g 0 (Some 7) (3, 4) = (7, 4)"
  using db_meta_generates_table [of pair_columns "\<lparr>meta_table = ''t'', meta_short_name = [], meta_use_common_prefix = False,
    meta_columns = pair_columns\<rparr>"]
  by (simp add: pair_columns_def table_column_names_def value_getter_def value_setter_def col_count_def)

end
