(* ===== verification/Qt_Service.thy ===== *)
theory Qt_Service
  imports Prelude
begin

text \<open>
  \<open>qtservice/src/qtservice.cpp\<close>, \<open>qtservice.h\<close> and \<open>qtservice_p.h\<close>:
  the service object, its command line and the controller, for both systems. What a system does is a record
  of operations, which the theories \<open>Qt_Service_Unix\<close> and \<open>Qt_Service_Win\<close> fill;
  the laws of that interface are the locale \<open>service_platform\<close>, in which the effect of the
  command line on the installed services is proved once. The event loop of the application is a parameter.
\<close>

section \<open>Data\<close>

datatype startup_type = AutoStartup | ManualStartup

datatype message_type = Message_Success | Message_Error | Message_Warning | Message_Information

type_synonym service_flags = u32

definition Default_Flags :: service_flags where "Default_Flags = 0"
definition CanBeSuspended :: service_flags where "CanBeSuspended = 1"
definition CannotBeStopped :: service_flags where "CannotBeStopped = 2"
definition NeedsStopOnShutdown :: service_flags where "NeedsStopOnShutdown = 4"

unbundle bit_operations_syntax

definition flag_set :: "service_flags \<Rightarrow> service_flags \<Rightarrow> bool" where
  "flag_set flags f \<longleftrightarrow> flags AND f \<noteq> 0"

text \<open>
  A \<open>QString\<close> is a string of characters below 256.  A C string ends at its first zero character.
\<close>

definition c_str :: "string \<Rightarrow> string" where
  "c_str s = takeWhile (\<lambda>c. c \<noteq> CHR 0x00) s"

text \<open>The virtual functions of the service, as the framework calls them.\<close>

datatype service_call =
    Call_start
  | Call_stop
  | Call_pause
  | Call_resume
  | Call_command int
  | Call_commands "string list"
  | Call_quit

text \<open>\<open>QtServiceBase\<close> with its private part; \<open>sysd\<close> is the part of the system, or the null pointer.\<close>

record 's qt_service =
  controller_name :: string
  service_description :: string
  startup_kind :: startup_type
  flags_of_service :: service_flags
  args :: "string list"
  immediately :: bool
  sysd :: "'s option"

text \<open>Functions of Qt that convert texts.\<close>

record qtext =
  from_utf8 :: "string \<Rightarrow> string"
  to_int :: "string \<Rightarrow> int"
  show_number :: "int \<Rightarrow> string"

definition ascii :: "string \<Rightarrow> bool" where
  "ascii s = list_all (\<lambda>c. (of_char c :: nat) < 128) s"

definition int32 :: "int \<Rightarrow> bool" where
  "int32 n \<longleftrightarrow> - (2 ^ 31) \<le> n \<and> n < 2 ^ 31"

locale qtext_documented =
  fixes q :: qtext
  assumes from_utf8_ascii: "ascii s \<Longrightarrow> from_utf8 q s = s"
    and to_int_number: "int32 n \<Longrightarrow> to_int q (show_number q n) = n"
    and number_digits: "set (show_number q n) \<subseteq> set ''-0123456789'' \<and> show_number q n \<noteq> []"

section \<open>The constructor and the attributes\<close>

definition service_name_of :: "string \<Rightarrow> string" where
  "service_name_of nm =
     (let nm = (if length nm > 255 then take 255 nm else nm)
      in if CHR 0x5C \<in> set nm then map (\<lambda>c. if c = CHR 0x5C then CHR 0x00 else c) nm else nm)"

definition service_new :: "string list \<Rightarrow> string \<Rightarrow> 's qt_service" where
  "service_new argv nm =
     \<lparr>controller_name = service_name_of nm, service_description = [], startup_kind = ManualStartup,
      flags_of_service = Default_Flags, args = argv, immediately = False, sysd = None\<rparr>"

definition setServiceDescription :: "string \<Rightarrow> 's qt_service \<Rightarrow> 's qt_service" where
  "setServiceDescription d s = s\<lparr>service_description := d\<rparr>"

definition setStartupType :: "startup_type \<Rightarrow> 's qt_service \<Rightarrow> 's qt_service" where
  "setStartupType t s = s\<lparr>startup_kind := t\<rparr>"

text \<open>The same on both systems; what the part of the system does with new flags is its argument.\<close>

definition setServiceFlags :: "(service_flags \<Rightarrow> 's \<Rightarrow> 's) \<Rightarrow> service_flags \<Rightarrow> 's qt_service \<Rightarrow> 's qt_service" where
  "setServiceFlags sys_set flags s =
     (if flags_of_service s = flags then s
      else s\<lparr>flags_of_service := flags, sysd := map_option (sys_set flags) (sysd s)\<rparr>)"

section \<open>The process and the system\<close>

datatype service_text =
    Could_Not_Be_Installed string
  | Has_Been_Installed string string
  | Already_Installed string
  | Could_Not_Be_Uninstalled string
  | Has_Been_Uninstalled string
  | Not_Installed string
  | Version_Text string string bool bool
  | Could_Not_Be_Executed
  | Could_Not_Be_Stopped
  | Help_Text string
  | Failed_To_Run
  | Could_Not_Start string

text \<open>\<open>posted\<close>: what the event loop will call once it runs.\<close>

record ('s, 'w) process =
  svc :: "'s qt_service"
  outside :: 'w
  posted :: "service_call list"
  printed :: "service_text list"

record ('s, 'w) platform =
  is_unix :: bool
  qtservice_run :: "'w \<Rightarrow> bool"
  isInstalled :: "string \<Rightarrow> 'w \<Rightarrow> bool"
  isRunning :: "string \<Rightarrow> 'w \<Rightarrow> bool"
  uninstall :: "string \<Rightarrow> 'w \<Rightarrow> bool \<times> 'w"
  stop_service :: "string \<Rightarrow> 'w \<Rightarrow> bool \<times> 'w"
  pause_service :: "string \<Rightarrow> 'w \<Rightarrow> bool \<times> 'w"
  resume_service :: "string \<Rightarrow> 'w \<Rightarrow> bool \<times> 'w"
  sendCommand :: "string \<Rightarrow> int \<Rightarrow> 'w \<Rightarrow> bool \<times> 'w"
  sendCommands :: "string \<Rightarrow> string list \<Rightarrow> 'w \<Rightarrow> bool \<times> 'w"
  install :: "'s qt_service \<Rightarrow> string \<Rightarrow> string \<Rightarrow> 'w \<Rightarrow> bool \<times> 'w"
  filePath :: "'s qt_service \<Rightarrow> 'w \<Rightarrow> string"
  private_start :: "('s, 'w) process \<Rightarrow> bool \<times> ('s, 'w) process"
  sysInit :: "('s, 'w) process \<Rightarrow> bool \<times> ('s, 'w) process"
  sysSetPath :: "('s, 'w) process \<Rightarrow> ('s, 'w) process"
  sysCleanup :: "('s, 'w) process \<Rightarrow> ('s, 'w) process"

text \<open>
  The application: whether \<open>createApplication\<close> leaves an instance, and its event loop, which makes the
  posted calls.
\<close>

record ('s, 'w) application =
  createApplication :: "string list \<Rightarrow> ('s, 'w) process \<Rightarrow> bool \<times> ('s, 'w) process"
  executeApplication :: "('s, 'w) process \<Rightarrow> int \<times> ('s, 'w) process"

definition say :: "service_text \<Rightarrow> ('s, 'w) process \<Rightarrow> ('s, 'w) process" where
  "say t s = s\<lparr>printed := printed s @ [t]\<rparr>"

abbreviation name_of :: "('s, 'w) process \<Rightarrow> string" where
  "name_of s \<equiv> controller_name (svc s)"

section \<open>Running\<close>

definition service_run :: "('s, 'w) platform \<Rightarrow> ('s, 'w) application \<Rightarrow> bool \<Rightarrow> string list \<Rightarrow> ('s, 'w) process \<Rightarrow>
    int \<times> ('s, 'w) process" where
  "service_run p a asService argList s =
     (let (ok, s) = (if asService then sysInit p s else (True, s))
      in if \<not> ok then (- 1, s)
         else
           (let (app, s) = createApplication a argList s
            in if \<not> app then (- 1, s)
               else
                 (let s = (if asService then sysSetPath p s else s);
                      s = s\<lparr>posted := posted s @ [Call_start]\<rparr>;
                      (res, s) = executeApplication a s
                  in (res, if asService then sysCleanup p s else s))))"

section \<open>The command line\<close>

text \<open>One definition for each option of \<open>exec\<close>, in the order of the code.\<close>

definition exec_install :: "('s, 'w) platform \<Rightarrow> ('s, 'w) process \<Rightarrow> int \<times> ('s, 'w) process" where
  "exec_install p s =
     (if \<not> isInstalled p (name_of s) (outside s) then
        (let account = (if length (args (svc s)) > 2 then args (svc s) ! 2 else []);
             password = (if length (args (svc s)) > 3 then args (svc s) ! 3 else []);
             (ok, w) = install p (svc s) account password (outside s);
             s = s\<lparr>outside := w\<rparr>
         in if \<not> ok then (- 1, say (Could_Not_Be_Installed (c_str (name_of s))) s)
            else (0, say (Has_Been_Installed (c_str (name_of s)) (c_str (filePath p (svc s) (outside s)))) s))
      else (0, say (Already_Installed (c_str (name_of s))) s))"

definition exec_uninstall :: "('s, 'w) platform \<Rightarrow> ('s, 'w) process \<Rightarrow> int \<times> ('s, 'w) process" where
  "exec_uninstall p s =
     (if isInstalled p (name_of s) (outside s) then
        (let (ok, w) = uninstall p (name_of s) (outside s); s = s\<lparr>outside := w\<rparr>
         in if \<not> ok then (- 1, say (Could_Not_Be_Uninstalled (c_str (name_of s))) s)
            else (0, say (Has_Been_Uninstalled (c_str (name_of s))) s))
      else (0, say (Not_Installed (c_str (name_of s))) s))"

definition exec_version :: "('s, 'w) platform \<Rightarrow> ('s, 'w) process \<Rightarrow> int \<times> ('s, 'w) process" where
  "exec_version p s =
     (0, say (Version_Text (c_str (name_of s)) (c_str (args (svc s) ! 0))
           (isInstalled p (name_of s) (outside s)) (isRunning p (name_of s) (outside s))) s)"

definition exec_exec :: "('s, 'w) platform \<Rightarrow> ('s, 'w) application \<Rightarrow> ('s, 'w) process \<Rightarrow> int \<times> ('s, 'w) process" where
  "exec_exec p a s =
     (let rest = take 1 (args (svc s)) @ drop 2 (args (svc s));
          s = s\<lparr>svc := (svc s)\<lparr>args := rest, immediately := True\<rparr>\<rparr>;
          (ec, s) = service_run p a (is_unix p) rest s
      in (ec, if ec = - 1 then say Could_Not_Be_Executed s else s))"

definition exec_terminate :: "('s, 'w) platform \<Rightarrow> ('s, 'w) process \<Rightarrow> int \<times> ('s, 'w) process" where
  "exec_terminate p s =
     (let (ok, w) = stop_service p (name_of s) (outside s); s = s\<lparr>outside := w\<rparr>
      in (0, if \<not> ok then say Could_Not_Be_Stopped s else s))"

definition exec_pause :: "('s, 'w) platform \<Rightarrow> ('s, 'w) process \<Rightarrow> int \<times> ('s, 'w) process" where
  "exec_pause p s = (0, s\<lparr>outside := snd (pause_service p (name_of s) (outside s))\<rparr>)"

definition exec_resume :: "('s, 'w) platform \<Rightarrow> ('s, 'w) process \<Rightarrow> int \<times> ('s, 'w) process" where
  "exec_resume p s = (0, s\<lparr>outside := snd (resume_service p (name_of s) (outside s))\<rparr>)"

definition exec_command :: "qtext \<Rightarrow> ('s, 'w) platform \<Rightarrow> ('s, 'w) process \<Rightarrow> int \<times> ('s, 'w) process" where
  "exec_command q p s =
     (let code = (if length (args (svc s)) > 2 then to_int q (args (svc s) ! 2) else 0)
      in (0, s\<lparr>outside := snd (sendCommand p (name_of s) code (outside s))\<rparr>))"

definition exec_list :: "('s, 'w) platform \<Rightarrow> ('s, 'w) process \<Rightarrow> int \<times> ('s, 'w) process" where
  "exec_list p s =
     (let s = s\<lparr>svc := (svc s)\<lparr>args := drop 2 (args (svc s))\<rparr>\<rparr>
      in (0, if args (svc s) \<noteq> []
             then s\<lparr>outside := snd (sendCommands p (name_of s) (args (svc s)) (outside s))\<rparr> else s))"

definition exec_help :: "('s, 'w) process \<Rightarrow> int \<times> ('s, 'w) process" where
  "exec_help s = (0, say (Help_Text (c_str (args (svc s) ! 0))) s)"

text \<open>No option: the process that is to be the service runs it, any other one starts it.\<close>

definition exec_start :: "('s, 'w) platform \<Rightarrow> ('s, 'w) application \<Rightarrow> ('s, 'w) process \<Rightarrow> int \<times> ('s, 'w) process" where
  "exec_start p a s =
     (if is_unix p \<and> qtservice_run p (outside s) then
        (let (ec, s) = service_run p a True (args (svc s)) s in (ec, if ec = - 1 then say Failed_To_Run s else s))
      else
        (let (ok, s) = private_start p s
         in if \<not> ok then (- 4, say (Could_Not_Start (c_str (name_of s))) s) else (0, s)))"

definition service_exec :: "qtext \<Rightarrow> ('s, 'w) platform \<Rightarrow> ('s, 'w) application \<Rightarrow> ('s, 'w) process \<Rightarrow> int \<times> ('s, 'w) process" where
  "service_exec q p a s =
     (if length (args (svc s)) > 1 then
        (let o' = args (svc s) ! 1
         in if o' = ''-i'' \<or> o' = ''-install'' then exec_install p s
            else if o' = ''-u'' \<or> o' = ''-uninstall'' then exec_uninstall p s
            else if o' = ''-v'' \<or> o' = ''-version'' then exec_version p s
            else if o' = ''-e'' \<or> o' = ''-exec'' then exec_exec p a s
            else if o' = ''-t'' \<or> o' = ''-terminate'' then exec_terminate p s
            else if o' = ''-p'' \<or> o' = ''-pause'' then exec_pause p s
            else if o' = ''-r'' \<or> o' = ''-resume'' then exec_resume p s
            else if o' = ''-c'' \<or> o' = ''-command'' then exec_command q p s
            else if o' = ''-l'' \<or> o' = ''-list'' then exec_list p s
            else if o' = ''-h'' \<or> o' = ''-help'' then exec_help s
            else exec_start p a s)
      else exec_start p a s)"

text \<open>\<open>QtServiceController::install\<close>: the program of the service is run with the option \<open>-i\<close>; \<open>execute\<close> is its exit code.\<close>

definition controller_install :: "(string \<Rightarrow> string list \<Rightarrow> 'w \<Rightarrow> int \<times> 'w) \<Rightarrow> string \<Rightarrow> string \<Rightarrow> string \<Rightarrow> 'w \<Rightarrow>
    bool \<times> 'w" where
  "controller_install execute path account password w =
     (let (ec, w) = execute path [''-i'', account, password] w in (ec = 0, w))"

section \<open>What the command line does\<close>

lemma say_simps [simp]:
  "svc (say t s) = svc s" "outside (say t s) = outside s" "posted (say t s) = posted s"
  "printed (say t s) = printed s @ [t]"
  by (simp_all add: say_def)

lemma c_str_id: "CHR 0x00 \<notin> set s \<Longrightarrow> c_str s = s"
  by (auto simp: c_str_def takeWhile_eq_all_conv)

lemma c_str_clean: "CHR 0x00 \<notin> set (c_str s)"
  by (auto simp: c_str_def dest: set_takeWhileD)

text \<open>The name fits the service database and has no backslash, whatever was asked for.\<close>

lemma service_name_of_legal: "length (service_name_of nm) \<le> 255 \<and> CHR 0x5C \<notin> set (service_name_of nm)"
  by (auto simp: service_name_of_def Let_def)

lemma service_name_of_keeps: "length nm \<le> 255 \<Longrightarrow> CHR 0x5C \<notin> set nm \<Longrightarrow> service_name_of nm = nm"
  by (simp add: service_name_of_def)

text \<open>
  A backslash becomes a zero character, at which a C string ends: names that differ only behind a backslash are one
  name to a system that takes C strings.
\<close>

lemma service_name_cut_at_backslash:
  assumes "length (a @ [CHR 0x5C] @ b) \<le> 255" "CHR 0x5C \<notin> set a" "CHR 0x00 \<notin> set a"
  shows "c_str (service_name_of (a @ [CHR 0x5C] @ b)) = a"
proof -
  have "map (\<lambda>c. if c = CHR 0x5C then CHR 0x00 else c) a = a"
    using assms(2) by (induction a) auto
  then show ?thesis using assms by (simp add: service_name_of_def c_str_def Let_def takeWhile_append)
qed

text \<open>The object of the service is made once; \<open>exec\<close> changes its arguments only for \<open>-e\<close> and \<open>-l\<close>.\<close>

definition option_of :: "('s, 'w) process \<Rightarrow> string option" where
  "option_of s = (if length (args (svc s)) > 1 then Some (args (svc s) ! 1) else None)"

lemma exec_by_option:
  "service_exec q p a s =
     (case option_of s of
        None \<Rightarrow> exec_start p a s
      | Some o' \<Rightarrow>
          if o' = ''-i'' \<or> o' = ''-install'' then exec_install p s
          else if o' = ''-u'' \<or> o' = ''-uninstall'' then exec_uninstall p s
          else if o' = ''-v'' \<or> o' = ''-version'' then exec_version p s
          else if o' = ''-e'' \<or> o' = ''-exec'' then exec_exec p a s
          else if o' = ''-t'' \<or> o' = ''-terminate'' then exec_terminate p s
          else if o' = ''-p'' \<or> o' = ''-pause'' then exec_pause p s
          else if o' = ''-r'' \<or> o' = ''-resume'' then exec_resume p s
          else if o' = ''-c'' \<or> o' = ''-command'' then exec_command q p s
          else if o' = ''-l'' \<or> o' = ''-list'' then exec_list p s
          else if o' = ''-h'' \<or> o' = ''-help'' then exec_help s
          else exec_start p a s)"
  by (simp add: service_exec_def option_of_def Let_def)

definition runs_service :: "('s, 'w) platform \<Rightarrow> ('s, 'w) process \<Rightarrow> bool" where
  "runs_service p s \<longleftrightarrow>
     (case option_of s of
        None \<Rightarrow> is_unix p \<and> qtservice_run p (outside s)
      | Some o' \<Rightarrow> o' \<in> {''-e'', ''-exec''} \<or>
          o' \<notin> {''-i'', ''-install'', ''-u'', ''-uninstall'', ''-v'', ''-version'', ''-t'', ''-terminate'', ''-p'',
            ''-pause'', ''-r'', ''-resume'', ''-c'', ''-command'', ''-l'', ''-list'', ''-h'', ''-help''} \<and>
          is_unix p \<and> qtservice_run p (outside s))"

text \<open>A process that does not run the service itself ends with 0, with -1 when the registration fails, or with -4.\<close>

lemma option_codes:
  "fst (exec_install p s) \<in> {0, - 1}" "fst (exec_uninstall p s) \<in> {0, - 1}" "fst (exec_version p s) = 0"
  "fst (exec_terminate p s) = 0" "fst (exec_pause p s) = 0" "fst (exec_resume p s) = 0"
  "fst (exec_command q p s) = 0" "fst (exec_list p s) = 0" "fst (exec_help s) = 0"
  by (simp_all add: exec_install_def exec_uninstall_def exec_version_def exec_terminate_def exec_pause_def exec_resume_def
      exec_command_def exec_list_def exec_help_def Let_def split_beta)

lemma start_codes: "\<not> (is_unix p \<and> qtservice_run p (outside s)) \<Longrightarrow> fst (exec_start p a s) \<in> {0, - 4}"
  by (auto simp: exec_start_def split_beta)

lemma exec_codes:
  assumes n: "\<not> runs_service p s"
  shows "fst (service_exec q p a s) \<in> {0, - 1, - 4}"
proof (cases "option_of s")
  case None
  then show ?thesis using n start_codes [of p s a] by (auto simp: exec_by_option runs_service_def)
next
  case (Some o')
  have st: "\<not> (is_unix p \<and> qtservice_run p (outside s)) \<Longrightarrow> fst (exec_start p a s) \<in> {0, - 1, - 4}"
    using start_codes [of p s a] by blast
  have e: "o' \<noteq> ''-e'' \<and> o' \<noteq> ''-exec''" using n Some by (simp add: runs_service_def)
  have i: "fst (exec_install p s) \<in> {0, - 1, - 4}" "fst (exec_uninstall p s) \<in> {0, - 1, - 4}"
    using option_codes(1, 2) [of p s] by blast+
  show ?thesis
  proof (cases "is_unix p \<and> qtservice_run p (outside s)")
    case True
    then have "o' \<in> {''-i'', ''-install'', ''-u'', ''-uninstall'', ''-v'', ''-version'', ''-t'', ''-terminate'', ''-p'',
            ''-pause'', ''-r'', ''-resume'', ''-c'', ''-command'', ''-l'', ''-list'', ''-h'', ''-help''}"
      using n Some e by (simp add: runs_service_def)
    then show ?thesis
      unfolding exec_by_option Some option.case using i e by (elim insertE emptyE) (simp_all add: option_codes(3-))
  next
    case False
    then show ?thesis
      unfolding exec_by_option Some option.case using i e st by (simp add: option_codes(3-))
  qed
qed

section \<open>Laws of a system\<close>

text \<open>
  \<open>good w n\<close>: the system can hold a service of that name, and the process may change its
  database; \<open>alike\<close>: names that the system does not tell apart.
\<close>

locale service_platform =
  fixes p :: "('s, 'w) platform"
    and good :: "'w \<Rightarrow> string \<Rightarrow> bool"
    and alike :: "'w \<Rightarrow> string \<Rightarrow> string \<Rightarrow> bool"
  assumes install_ok: "good w (controller_name s) \<Longrightarrow> \<not> isInstalled p (controller_name s) w \<Longrightarrow>
        fst (install p s acc pw w) \<and> isInstalled p (controller_name s) (snd (install p s acc pw w))"
    and uninstall_ok: "good w n \<Longrightarrow> isInstalled p n w \<Longrightarrow>
        fst (uninstall p n w) \<and> \<not> isInstalled p n (snd (uninstall p n w))"
    and install_good: "good (snd (install p s acc pw w)) n = good w n"
    and uninstall_good: "good (snd (uninstall p n w)) m = good w m"
    and install_alike: "alike (snd (install p s acc pw w)) = alike w"
    and uninstall_alike: "alike (snd (uninstall p n w)) = alike w"
    and install_other: "good w m \<Longrightarrow> good w (controller_name s) \<Longrightarrow> \<not> alike w (controller_name s) m \<Longrightarrow>
        isInstalled p m (snd (install p s acc pw w)) = isInstalled p m w"
    and uninstall_other: "good w m \<Longrightarrow> good w n \<Longrightarrow> \<not> alike w n m \<Longrightarrow>
        isInstalled p m (snd (uninstall p n w)) = isInstalled p m w"

text \<open>A program is run with a command line; only its effect on the system and its exit code remain.\<close>

definition run_line :: "qtext \<Rightarrow> ('s, 'w) platform \<Rightarrow> ('s, 'w) application \<Rightarrow> 's qt_service \<Rightarrow> string list \<Rightarrow> 'w \<Rightarrow>
    int \<times> 'w" where
  "run_line q p a s line w =
     (let (ec, t) = service_exec q p a \<lparr>svc = s\<lparr>args := line\<rparr>, outside = w, posted = [], printed = []\<rparr> in (ec, outside t))"

datatype setup_step = Run_Install string string | Run_Uninstall

definition setup_line :: "string \<Rightarrow> setup_step \<Rightarrow> string list" where
  "setup_line path st =
     (case st of Run_Install acc pw \<Rightarrow> [path, ''-i'', acc, pw] | Run_Uninstall \<Rightarrow> [path, ''-u''])"

fun setup_all :: "qtext \<Rightarrow> ('s, 'w) platform \<Rightarrow> ('s, 'w) application \<Rightarrow> ('s qt_service \<times> string \<times> setup_step) list \<Rightarrow> 'w \<Rightarrow>
    int list \<times> 'w" where
  "setup_all q p a [] w = ([], w)"
| "setup_all q p a ((s, path, st) # rest) w =
     (let (ec, w) = run_line q p a s (setup_line path st) w; (ecs, w) = setup_all q p a rest w in (ec # ecs, w))"

text \<open>The specification: a set of names.\<close>

fun setup_spec :: "('s qt_service \<times> string \<times> setup_step) list \<Rightarrow> string set \<Rightarrow> string set" where
  "setup_spec [] A = A"
| "setup_spec ((s, path, Run_Install acc pw) # rest) A = setup_spec rest (insert (controller_name s) A)"
| "setup_spec ((s, path, Run_Uninstall) # rest) A = setup_spec rest (A - {controller_name s})"

context service_platform
begin

lemma run_line_install:
  assumes g: "good w (controller_name s)"
  shows "fst (run_line q p a s (setup_line path (Run_Install acc pw)) w) = 0 \<and>
    isInstalled p (controller_name s) (snd (run_line q p a s (setup_line path (Run_Install acc pw)) w))"
proof -
  have g': "good w (controller_name (s\<lparr>args := line\<rparr>))" for line using g by simp
  show ?thesis
    using install_ok [OF g'] g
    by (auto simp: run_line_def service_exec_def setup_line_def exec_install_def Let_def split_beta)
qed

lemma run_line_uninstall:
  assumes g: "good w (controller_name s)"
  shows "fst (run_line q p a s (setup_line path Run_Uninstall) w) = 0 \<and>
    \<not> isInstalled p (controller_name s) (snd (run_line q p a s (setup_line path Run_Uninstall) w))"
  using uninstall_ok [OF g]
  by (auto simp: run_line_def service_exec_def setup_line_def exec_uninstall_def Let_def split_beta)

lemma run_line_keeps:
  "good (snd (run_line q p a s (setup_line path st) w)) n = good w n"
  "alike (snd (run_line q p a s (setup_line path st) w)) = alike w"
  by (cases st; simp add: run_line_def service_exec_def setup_line_def exec_install_def exec_uninstall_def Let_def split_beta
      install_good uninstall_good install_alike uninstall_alike)+

lemma run_line_other:
  assumes "good w m" "good w (controller_name s)" "\<not> alike w (controller_name s) m"
  shows "isInstalled p m (snd (run_line q p a s (setup_line path st) w)) = isInstalled p m w"
  using assms install_other [of w m "s\<lparr>args := line\<rparr>" for line] uninstall_other
  by (cases st)
    (simp_all add: run_line_def service_exec_def setup_line_def exec_install_def exec_uninstall_def Let_def split_beta)

lemma setup_refines:
  assumes "\<And>n. n \<in> N \<Longrightarrow> good w n"
    and "\<And>m n. m \<in> N \<Longrightarrow> n \<in> N \<Longrightarrow> alike w m n \<longleftrightarrow> m = n"
    and "\<And>x. x \<in> set steps \<Longrightarrow> controller_name (fst x) \<in> N"
  shows "set (fst (setup_all q p a steps w)) \<subseteq> {0} \<and>
    {n \<in> N. isInstalled p n (snd (setup_all q p a steps w))} = setup_spec steps {n \<in> N. isInstalled p n w}"
  using assms
proof (induction steps arbitrary: w)
  case (Cons x steps)
  obtain s path st where x: "x = (s, path, st)" by (cases x)
  let ?r = "run_line q p a s (setup_line path st) w"
  let ?I = "\<lambda>w. {n \<in> N. isInstalled p n w}"
  have N: "controller_name s \<in> N" using Cons.prems(3) [of x] x by simp
  have IH: "set (fst (setup_all q p a steps (snd ?r))) \<subseteq> {0} \<and>
      ?I (snd (setup_all q p a steps (snd ?r))) = setup_spec steps (?I (snd ?r))"
    using Cons.prems by (intro Cons.IH) (simp_all add: run_line_keeps)
  have other: "isInstalled p n (snd ?r) = isInstalled p n w" if "n \<in> N" "n \<noteq> controller_name s" for n
    using Cons.prems(1) [OF that(1)] Cons.prems(1) [OF N] Cons.prems(2) [OF N that(1)] that(2)
    by (intro run_line_other) auto
  have code: "fst ?r = 0"
    using run_line_install run_line_uninstall Cons.prems(1) [OF N] by (cases st) auto
  have "setup_spec (x # steps) (?I w) = setup_spec steps (?I (snd ?r))"
  proof (cases st)
    case (Run_Install acc pw)
    then have "?I (snd ?r) = insert (controller_name s) (?I w)"
      using run_line_install [OF Cons.prems(1) [OF N], of q a path acc pw] N other by blast
    then show ?thesis using x Run_Install by simp
  next
    case Run_Uninstall
    then have "?I (snd ?r) = ?I w - {controller_name s}"
      using run_line_uninstall [OF Cons.prems(1) [OF N], of q a path] other by blast
    then show ?thesis using x Run_Uninstall by simp
  qed
  then show ?case using IH code x by (simp add: Let_def split_beta)
qed simp

end

section \<open>An instance\<close>

text \<open>Decimal numbers, as Qt writes them; texts are taken byte by byte, which is right for ASCII.\<close>

definition digit_char :: "nat \<Rightarrow> char" where
  "digit_char d = char_of (48 + d)"

fun digits :: "nat \<Rightarrow> string" where
  "digits n = (if n < 10 then [digit_char n] else digits (n div 10) @ [digit_char (n mod 10)])"

declare digits.simps [simp del]

definition read_digits :: "string \<Rightarrow> nat" where
  "read_digits s = foldl (\<lambda>a c. a * 10 + (of_char c - 48)) 0 s"

definition show_int :: "int \<Rightarrow> string" where
  "show_int n = (if n < 0 then ''-'' @ digits (nat (- n)) else digits (nat n))"

definition read_int :: "string \<Rightarrow> int" where
  "read_int s =
     (let n = (if take 1 s = ''-'' then - int (read_digits (drop 1 s)) else int (read_digits s))
      in if int32 n then n else 0)"

definition qtext_sample :: qtext where
  "qtext_sample = \<lparr>from_utf8 = id, to_int = read_int, show_number = show_int\<rparr>"

lemma of_char_digit: "d < 10 \<Longrightarrow> (of_char (digit_char d) :: nat) = 48 + d"
  by (simp add: digit_char_def of_char_of)

lemma digit_in: "d < 10 \<Longrightarrow> digit_char d \<in> set ''0123456789''"
proof -
  have "list_all (\<lambda>d. digit_char d \<in> set ''0123456789'') [0 ..< 10]" by code_simp
  then show "d < 10 \<Longrightarrow> digit_char d \<in> set ''0123456789''" by (simp add: list_all_iff del: set_simps)
qed

lemma read_digits_snoc: "read_digits (s @ [c]) = read_digits s * 10 + (of_char c - 48)"
  by (simp add: read_digits_def)

lemma read_digits_digits: "read_digits (digits n) = n"
proof (induction n rule: digits.induct)
  case (1 n)
  show ?case
  proof (cases "n < 10")
    case True
    then show ?thesis by (simp add: digits.simps [of n] read_digits_def of_char_digit)
  next
    case False
    then show ?thesis using 1 by (simp add: digits.simps [of n] read_digits_snoc of_char_digit)
  qed
qed

lemma digits_set: "set (digits n) \<subseteq> set ''0123456789'' \<and> digits n \<noteq> []"
proof (induction n rule: digits.induct)
  case (1 n)
  show ?case
  proof (cases "n < 10")
    case True
    then show ?thesis using digit_in [of n] by (simp add: digits.simps [of n])
  next
    case False
    then show ?thesis using 1 digit_in [of "n mod 10"] by (simp add: digits.simps [of n])
  qed
qed

lemma digits_no_minus: "take 1 (digits n) \<noteq> ''-''"
  using digits_set [of n] by (cases "digits n") auto

interpretation qtext_sample: qtext_documented qtext_sample
proof
  show "to_int qtext_sample (show_number qtext_sample n) = n" if "int32 n" for n
    using that digits_no_minus [of "nat n"]
    by (auto simp: qtext_sample_def read_int_def show_int_def Let_def read_digits_digits)
  show "set (show_number qtext_sample n) \<subseteq> set ''-0123456789'' \<and> show_number qtext_sample n \<noteq> []" for n
  proof (cases "n < 0")
    case True
    then show ?thesis using digits_set [of "nat (- n)"] by (simp add: qtext_sample_def show_int_def) blast
  next
    case False
    then show ?thesis using digits_set [of "nat n"] by (simp add: qtext_sample_def show_int_def) blast
  qed
qed (simp add: qtext_sample_def)

end
