(* ===== verification/Qt_Service_Unix.thy ===== *)
theory Qt_Service_Unix
  imports Qt_Service Base_Settings Base_Logging "HOL-Library.AList"
begin

text \<open>
  \<open>qtservice/src/qtservice_unix.cpp\<close>, \<open>qtunixsocket.cpp\<close> and
  \<open>qtunixserversocket.cpp\<close>: services that are registered in a settings file and that take
  commands, as lines, from a local socket in \<open>/var/tmp\<close>. The sockets, the environment and the
  file system are parameters; a connection is a number.
\<close>

section \<open>Names and paths\<close>

definition lower_char :: "char \<Rightarrow> char" where
  "lower_char c = (if 65 \<le> (of_char c :: nat) \<and> of_char c \<le> (90 :: nat) then char_of (of_char c + 32 :: nat) else c)"

definition toLower :: "string \<Rightarrow> string" where
  "toLower s = map lower_char s"

definition legal_chars :: "bool \<Rightarrow> string" where
  "legal_chars allowUpper =
     ''abcdefghijklmnopqrstuvwxyz1234567890'' @ (if allowUpper then ''ABCDEFGHIJKLMNOPQRSTUVWXYZ'' else [])"

text \<open>The loop: what is not legal is removed at its position, else the position moves on.\<close>

function encode_loop :: "string \<Rightarrow> string \<Rightarrow> nat \<Rightarrow> string" where
  "encode_loop legal n pos =
     (if pos < length n then
        (if n ! pos \<notin> set legal then encode_loop legal (take pos n @ drop (pos + 1) n) pos
         else encode_loop legal n (pos + 1))
      else n)"
  by pat_completeness auto
termination
  by (relation "measure (\<lambda>(legal, n, pos). length n - pos)") auto

declare encode_loop.simps [simp del]

definition encodeName :: "string \<Rightarrow> bool \<Rightarrow> string" where
  "encodeName nm allowUpper = encode_loop (legal_chars allowUpper) (toLower nm) 0"

text \<open>The user the process runs as; empty when the system does not know it.\<close>

definition login :: "string option \<Rightarrow> string" where
  "login pw_name = (case pw_name of None \<Rightarrow> [] | Some l \<Rightarrow> l)"

definition socketPath :: "string option \<Rightarrow> string \<Rightarrow> string" where
  "socketPath pw_name serviceName = ''/var/tmp/'' @ encodeName serviceName False @ ''.'' @ login pw_name"

text \<open>What the code asks of the file system.\<close>

record file_system =
  current_cd :: "string \<Rightarrow> string"
  env_path :: "string option"
  file_exists :: "string \<Rightarrow> bool"
  dir_absolute :: "string \<Rightarrow> string"
  file_dir_absolute :: "string \<Rightarrow> string"
  file_name_of :: "string \<Rightarrow> string"
  absolute_file :: "string \<Rightarrow> string \<Rightarrow> string"

text \<open>\<open>QString::split\<close>: the parts between the separators, empty ones included.\<close>

fun split_at :: "char \<Rightarrow> string \<Rightarrow> string list" where
  "split_at sep [] = [[]]"
| "split_at sep (c # cs) =
     (if c = sep then [] # split_at sep cs else (c # hd (split_at sep cs)) # tl (split_at sep cs))"

fun search_path :: "file_system \<Rightarrow> string \<Rightarrow> string list \<Rightarrow> string" where
  "search_path fs path [] = []"
| "search_path fs path (d # ds) =
     (if file_exists fs (d @ ''/'' @ path) then dir_absolute fs d else search_path fs path ds)"

text \<open>The text of a \<open>QString\<close> has a zero behind it, which is the first character of an empty one.\<close>

definition absPath :: "file_system \<Rightarrow> string \<Rightarrow> string" where
  "absPath fs path =
     (if (path @ [CHR 0x00]) ! 0 \<noteq> CHR ''/'' then
        (if CHR ''/'' \<in> set path then
           current_cd fs (rev (drop 1 (dropWhile (\<lambda>c. c \<noteq> CHR ''/'') (rev path))))
         else
           (case env_path fs of
              None \<Rightarrow> []
            | Some e \<Rightarrow> search_path fs path (split_at (CHR '':'') e)))
      else file_dir_absolute fs path)"

definition unix_filePath :: "file_system \<Rightarrow> string list \<Rightarrow> string" where
  "unix_filePath fs as =
     (case as of [] \<Rightarrow> [] | a # _ \<Rightarrow> absolute_file fs (absPath fs a) (file_name_of fs a))"

section \<open>The settings file\<close>

text \<open>
  The system-wide settings of \<open>QtSoftware\<close>: values under keys, in the order they were written.  A change is
  kept when \<open>sync\<close> finds no error.
\<close>

datatype variant = VString string | VInt int

type_synonym conf = "(string \<times> variant) list"

datatype settings_status = NoError | AccessError | FormatError

text \<open>An empty group adds nothing to a key.\<close>

definition group_key :: "string list \<Rightarrow> string" where
  "group_key gs = concat (map (\<lambda>g. g @ ''/'') (List.filter (\<lambda>g. g \<noteq> []) gs))"

definition service_key :: "string \<Rightarrow> string \<Rightarrow> string" where
  "service_key nm k = group_key [''services'', nm] @ k"

definition under :: "string \<Rightarrow> string \<Rightarrow> bool" where
  "under pre k \<longleftrightarrow> take (length pre) k = pre"

text \<open>\<open>childGroups\<close>: the first parts of the longer keys below the open group.\<close>

definition childGroups :: "string list \<Rightarrow> conf \<Rightarrow> string list" where
  "childGroups gs c =
     remdups (map (takeWhile (\<lambda>x. x \<noteq> CHR ''/''))
       (List.filter (\<lambda>k. CHR ''/'' \<in> set k)
         (map (\<lambda>kv. drop (length (group_key gs)) (fst kv))
           (List.filter (\<lambda>kv. under (group_key gs) (fst kv)) c))))"

text \<open>\<open>remove\<close>: a key with all below it; with an empty name, all of the open group.\<close>

definition conf_remove :: "string list \<Rightarrow> string \<Rightarrow> conf \<Rightarrow> conf" where
  "conf_remove gs k c =
     (if k = [] then List.filter (\<lambda>kv. \<not> under (group_key gs) (fst kv)) c
      else List.filter (\<lambda>kv. fst kv \<noteq> group_key gs @ k \<and> \<not> under (group_key gs @ k @ ''/'') (fst kv)) c)"

fun variant_string :: "variant option \<Rightarrow> string" where
  "variant_string (Some (VString s)) = s"
| "variant_string _ = []"

fun variant_int :: "variant option \<Rightarrow> int" where
  "variant_int (Some (VInt n)) = n"
| "variant_int _ = 0"

section \<open>The socket\<close>

text \<open>
  The address of a path. A path that fills \<open>sun_path\<close> leaves no zero behind it, and the length
  that is given to the system goes on into the memory behind the address: \<open>beyond\<close> characters
  until the first zero; an address that is too long is refused.
\<close>

definition sun_path_size :: nat where
  "sun_path_size = 108"

definition sun_path :: "nat \<Rightarrow> string \<Rightarrow> string option" where
  "sun_path beyond path =
     (let pathlen = min (length (c_str path)) sun_path_size
      in if pathlen = sun_path_size \<and> beyond > 0 then None else Some (take pathlen (c_str path)))"

text \<open>\<open>QtServiceSysPrivate\<close>, a server socket: the path it listens at, and what it has read of each connection.\<close>

record sys_unix =
  ident :: "string option"
  sys_flags :: service_flags
  listen_path :: string
  cache :: "nat \<rightharpoonup> string"

definition sys_unix_new :: sys_unix where
  "sys_unix_new = \<lparr>ident = None, sys_flags = 0, listen_path = [], cache = Map.empty\<rparr>"

definition crlf :: string where
  "crlf = [CHR 0x0D, CHR 0x0A]"

text \<open>The next line and what is left behind it; an empty line when there is none.\<close>

definition getCommand :: "string \<Rightarrow> string \<times> string" where
  "getCommand buf =
     (case find_from buf crlf 0 of Some pos \<Rightarrow> (take pos buf, drop (pos + 2) buf) | None \<Rightarrow> ([], buf))"

text \<open>What a command makes of the service, and its answer.\<close>

definition handle_command :: "qtext \<Rightarrow> string \<Rightarrow> service_flags \<Rightarrow> string \<Rightarrow> service_call list \<times> bool" where
  "handle_command q app_path flags cmd =
     (if cmd = ''terminate'' then
        (if \<not> flag_set flags CannotBeStopped then ([Call_stop, Call_quit], True) else ([], False))
      else if cmd = ''pause'' then (if flag_set flags CanBeSuspended then ([Call_pause], True) else ([], False))
      else if cmd = ''resume'' then (if flag_set flags CanBeSuspended then ([Call_resume], True) else ([], False))
      else if cmd = ''alive'' then ([], True)
      else if length cmd > 5 \<and> take 5 cmd = ''list:'' then
        ([Call_commands (app_path # split_at (CHR ''|'') (drop 5 cmd))], True)
      else if length cmd > 4 \<and> take 4 cmd = ''num:'' then ([Call_command (to_int q (drop 4 cmd))], True)
      else ([], False))"

definition answer :: "bool \<Rightarrow> string" where
  "answer b = (if b then ''true'' else ''false'')"

lemma find_from_bound: "find_from buf s k = Some i \<Longrightarrow> i + length s \<le> length buf"
  by (auto simp: find_from_def find_Some_iff occurs_at_def)

lemma getCommand_shorter: "getCommand buf = (cmd, rest) \<Longrightarrow> cmd \<noteq> [] \<Longrightarrow> length rest < length buf"
  using find_from_bound [of buf crlf 0]
  by (auto simp: getCommand_def crlf_def split: option.splits)

text \<open>The loop of \<open>slotReady\<close>: the calls, the answers and what is left in the cache.\<close>

function command_loop :: "qtext \<Rightarrow> string \<Rightarrow> service_flags \<Rightarrow> string \<Rightarrow> service_call list \<times> string list \<times> string" where
  "command_loop q app_path flags buf =
     (case getCommand buf of (cmd, rest) \<Rightarrow>
        if cmd = [] then ([], [], rest)
        else
          (let (calls, ok) = handle_command q app_path flags cmd;
               (calls', answers, left) = command_loop q app_path flags rest
           in (calls @ calls', answer ok # answers, left)))"
  by pat_completeness auto
termination
  by (relation "measure (\<lambda>(q, a, f, buf). length buf)") (auto dest: getCommand_shorter [OF sym])

declare command_loop.simps [simp del]

definition cached :: "sys_unix \<Rightarrow> nat \<Rightarrow> string" where
  "cached s n = (case cache s n of None \<Rightarrow> [] | Some b \<Rightarrow> b)"

definition slotReady :: "qtext \<Rightarrow> string \<Rightarrow> nat \<Rightarrow> string \<Rightarrow> sys_unix \<Rightarrow> service_call list \<times> string list \<times> sys_unix" where
  "slotReady q app_path n data s =
     (let (calls, answers, left) = command_loop q app_path (sys_flags s) (cached s n @ from_utf8 q data)
      in (calls, answers, s\<lparr>cache := (cache s)(n \<mapsto> left)\<rparr>))"

text \<open>\<open>slotClosed\<close> deletes the socket and leaves its text in the cache.\<close>

definition slotClosed :: "nat \<Rightarrow> sys_unix \<Rightarrow> sys_unix" where
  "slotClosed n s = s"

section \<open>The world of a process\<close>

text \<open>
  A service that listens: its part of the system, its program and the calls it has made.  A process it
  has been asked to start is a program with arguments and a directory.
\<close>

record peer =
  peer_sys :: sys_unix
  peer_app :: string
  peer_calls :: "service_call list"

record unix_world =
  conf :: conf
  conf_status :: settings_status
  disk :: file_system
  user :: "string option"
  run_env :: bool
  beyond :: nat
  peers :: "string \<rightharpoonup> peer"
  can_bind :: "string \<Rightarrow> bool"
  bound :: "string option"
  can_exec :: "string \<Rightarrow> bool"
  detached :: "(string \<times> string list \<times> string option) list"

text \<open>
  A local stream: how what is written is cut into reads, and what the client reads of the answers that were
  written, after it has waited for the first of them or for the end of the connection.  \<open>socket_at\<close> is where the
  service has the object of the connection: the place of one that is gone can be used again.
\<close>

record transport =
  socket_at :: "peer \<Rightarrow> nat"
  cuts :: "string \<Rightarrow> string list"
  client_reads :: "string list \<Rightarrow> string"

locale transport_documented =
  fixes t :: transport
  assumes cuts_all: "concat (cuts t s) = s"
    and reads_one: "client_reads t [a] = a"
    and reads_none: "client_reads t [] = []"

definition connectTo :: "string \<Rightarrow> unix_world \<Rightarrow> (string \<times> peer) option" where
  "connectTo path w =
     (case sun_path (beyond w) path of
        None \<Rightarrow> None
      | Some addr \<Rightarrow> map_option (\<lambda>pr. (addr, pr)) (peers w addr))"

fun receive_all :: "qtext \<Rightarrow> string \<Rightarrow> nat \<Rightarrow> string list \<Rightarrow> sys_unix \<Rightarrow> service_call list \<times> string list \<times> sys_unix" where
  "receive_all q app_path n [] s = ([], [], s)"
| "receive_all q app_path n (d # ds) s =
     (let (calls, answers, s) = slotReady q app_path n d s;
          (calls', answers', s) = receive_all q app_path n ds s
      in (calls @ calls', answers @ answers', s))"

text \<open>A service that was told to quit leaves its loop and closes its socket.\<close>

definition peer_takes :: "qtext \<Rightarrow> transport \<Rightarrow> string \<Rightarrow> string \<Rightarrow> peer \<Rightarrow> unix_world \<Rightarrow> string list \<times> unix_world" where
  "peer_takes q t addr data pr w =
     (let (calls, answers, s) = receive_all q (peer_app pr) (socket_at t pr) (cuts t data) (peer_sys pr);
          s = slotClosed (socket_at t pr) s;
          pr = pr\<lparr>peer_sys := s, peer_calls := peer_calls pr @ calls\<rparr>
      in (answers, w\<lparr>peers := (peers w)(addr := (if Call_quit \<in> set calls then None else Some pr))\<rparr>))"

definition sendCmd :: "qtext \<Rightarrow> transport \<Rightarrow> string \<Rightarrow> string \<Rightarrow> unix_world \<Rightarrow> bool \<times> unix_world" where
  "sendCmd q t serviceName cmd w =
     (case connectTo (socketPath (user w) serviceName) w of
        None \<Rightarrow> (False, w)
      | Some (addr, pr) \<Rightarrow>
          (let (answers, w) = peer_takes q t addr (c_str (cmd @ crlf)) pr w
           in (from_utf8 q (client_reads t answers) = ''true'', w)))"

section \<open>The controller\<close>

definition unix_serviceDescription :: "string \<Rightarrow> unix_world \<Rightarrow> string" where
  "unix_serviceDescription nm w = variant_string (map_of (conf w) (service_key nm ''description''))"

definition unix_startupType :: "string \<Rightarrow> unix_world \<Rightarrow> int" where
  "unix_startupType nm w = variant_int (map_of (conf w) (service_key nm ''startupType''))"

definition unix_serviceFilePath :: "string \<Rightarrow> unix_world \<Rightarrow> string" where
  "unix_serviceFilePath nm w = variant_string (map_of (conf w) (service_key nm ''path''))"

text \<open>\<open>sync\<close> writes the changes, unless it fails.\<close>

definition conf_sync :: "conf \<Rightarrow> unix_world \<Rightarrow> bool \<times> unix_world" where
  "conf_sync c w = (if conf_status w = NoError then (True, w\<lparr>conf := c\<rparr>) else (False, w))"

definition unix_uninstall :: "string \<Rightarrow> unix_world \<Rightarrow> bool \<times> unix_world" where
  "unix_uninstall nm w = conf_sync (conf_remove [''services''] nm (conf w)) w"

definition unix_isInstalled :: "string \<Rightarrow> unix_world \<Rightarrow> bool" where
  "unix_isInstalled nm w = list_ex (\<lambda>g. g = nm) (childGroups [''services''] (conf w))"

definition unix_isRunning :: "string \<Rightarrow> unix_world \<Rightarrow> bool" where
  "unix_isRunning nm w \<longleftrightarrow> connectTo (socketPath (user w) nm) w \<noteq> None"

definition startDetached :: "string \<Rightarrow> string list \<Rightarrow> string option \<Rightarrow> unix_world \<Rightarrow> bool \<times> unix_world" where
  "startDetached prog as dir w =
     (if can_exec w prog then (True, w\<lparr>detached := detached w @ [(prog, as, dir)]\<rparr>) else (False, w))"

definition unix_start :: "string \<Rightarrow> string list \<Rightarrow> unix_world \<Rightarrow> bool \<times> unix_world" where
  "unix_start nm arguments w =
     (if \<not> unix_isInstalled nm w then (False, w)
      else if unix_isRunning nm w then (False, w)
      else startDetached (unix_serviceFilePath nm w) arguments None w)"

definition unix_stop :: "qtext \<Rightarrow> transport \<Rightarrow> string \<Rightarrow> unix_world \<Rightarrow> bool \<times> unix_world" where
  "unix_stop q t nm w = sendCmd q t nm ''terminate'' w"

definition unix_pause :: "qtext \<Rightarrow> transport \<Rightarrow> string \<Rightarrow> unix_world \<Rightarrow> bool \<times> unix_world" where
  "unix_pause q t nm w = sendCmd q t nm ''pause'' w"

definition unix_resume :: "qtext \<Rightarrow> transport \<Rightarrow> string \<Rightarrow> unix_world \<Rightarrow> bool \<times> unix_world" where
  "unix_resume q t nm w = sendCmd q t nm ''resume'' w"

definition unix_sendCommand :: "qtext \<Rightarrow> transport \<Rightarrow> string \<Rightarrow> int \<Rightarrow> unix_world \<Rightarrow> bool \<times> unix_world" where
  "unix_sendCommand q t nm code w = sendCmd q t nm (''num:'' @ show_number q code) w"

text \<open>\<open>QStringList::join\<close>.\<close>

fun join_with :: "char \<Rightarrow> string list \<Rightarrow> string" where
  "join_with sep [] = []"
| "join_with sep [s] = s"
| "join_with sep (s # ss) = s @ [sep] @ join_with sep ss"

definition unix_sendCommands :: "qtext \<Rightarrow> transport \<Rightarrow> string \<Rightarrow> string list \<Rightarrow> unix_world \<Rightarrow> bool \<times> unix_world" where
  "unix_sendCommands q t nm cmdList w = sendCmd q t nm (''list:'' @ join_with (CHR ''|'') cmdList) w"

section \<open>The service\<close>

definition unix_sysInit :: "(sys_unix, unix_world) process \<Rightarrow> bool \<times> (sys_unix, unix_world) process" where
  "unix_sysInit s =
     (True, s\<lparr>svc := (svc s)\<lparr>sysd := Some (sys_unix_new\<lparr>sys_flags := flags_of_service (svc s)\<rparr>)\<rparr>\<rparr>)"

text \<open>\<open>setPath\<close> removes the file that is at the path, whoever listens there, and binds its own socket.\<close>

definition setPath :: "string \<Rightarrow> sys_unix \<Rightarrow> unix_world \<Rightarrow> sys_unix \<times> unix_world" where
  "setPath path s w =
     (let s = s\<lparr>listen_path := []\<rparr>; w = w\<lparr>peers := (peers w)(c_str path := None)\<rparr>
      in case sun_path (beyond w) path of
           None \<Rightarrow> (s, w)
         | Some addr \<Rightarrow>
             if can_bind w addr \<and> peers w addr = None then (s\<lparr>listen_path := path\<rparr>, w\<lparr>bound := Some addr\<rparr>) else (s, w))"

definition unix_sysSetPath :: "(sys_unix, unix_world) process \<Rightarrow> (sys_unix, unix_world) process" where
  "unix_sysSetPath s =
     (case sysd (svc s) of
        None \<Rightarrow> s
      | Some sys \<Rightarrow>
          (let (sys, w) = setPath (socketPath (user (outside s)) (name_of s)) sys (outside s)
           in s\<lparr>svc := (svc s)\<lparr>sysd := Some sys\<rparr>, outside := w\<rparr>))"

definition server_close :: "sys_unix \<Rightarrow> unix_world \<Rightarrow> sys_unix \<times> unix_world" where
  "server_close s w =
     (if listen_path s \<noteq> [] then
        (s\<lparr>listen_path := []\<rparr>, w\<lparr>bound := None, peers := (peers w)(c_str (listen_path s) := None)\<rparr>)
      else (s, w\<lparr>bound := None\<rparr>))"

definition unix_sysCleanup :: "(sys_unix, unix_world) process \<Rightarrow> (sys_unix, unix_world) process" where
  "unix_sysCleanup s =
     (case sysd (svc s) of
        None \<Rightarrow> s
      | Some sys \<Rightarrow>
          (let (_, w) = server_close sys (outside s) in s\<lparr>svc := (svc s)\<lparr>sysd := None\<rparr>, outside := w\<rparr>))"

definition unix_private_start :: "qtext \<Rightarrow> transport \<Rightarrow> (sys_unix, unix_world) process \<Rightarrow>
    bool \<times> (sys_unix, unix_world) process" where
  "unix_private_start q t s =
     (let (alive, w) = sendCmd q t (name_of s) ''alive'' (outside s)
      in if alive then (False, s\<lparr>outside := w\<rparr>)
         else
           (let (ok, w) = startDetached (unix_filePath (disk w) (args (svc s))) (drop 1 (args (svc s))) (Some ''/'')
                  (w\<lparr>run_env := True\<rparr>)
            in (ok, s\<lparr>outside := w\<rparr>)))"

definition startup_int :: "startup_type \<Rightarrow> int" where
  "startup_int s = (case s of AutoStartup \<Rightarrow> 0 | ManualStartup \<Rightarrow> 1)"

definition unix_install :: "sys_unix qt_service \<Rightarrow> string \<Rightarrow> string \<Rightarrow> unix_world \<Rightarrow> bool \<times> unix_world" where
  "unix_install s account password w =
     (let key = service_key (controller_name s);
          c = AList.update (key ''path'') (VString (unix_filePath (disk w) (args s))) (conf w);
          c = AList.update (key ''description'') (VString (service_description s)) c;
          c = AList.update (key ''automaticStartup'') (VInt (startup_int (startup_kind s))) c
      in conf_sync c w)"

text \<open>What is sent to the system log: the identity and, for each line, its level.\<close>

definition unix_logMessage :: "string \<Rightarrow> message_type \<Rightarrow> sys_unix qt_service \<Rightarrow>
    (string \<times> (syslog_level \<times> string) list) option \<times> sys_unix qt_service" where
  "unix_logMessage message type s =
     (case sysd s of
        None \<Rightarrow> (None, s)
      | Some sys \<Rightarrow>
          (let st = (case type of Message_Error \<Rightarrow> LOG_ERR | Message_Warning \<Rightarrow> LOG_WARNING | _ \<Rightarrow> LOG_INFO);
               id = (case ident sys of None \<Rightarrow> encodeName (controller_name s) True | Some i \<Rightarrow> i)
           in (Some (id, map (\<lambda>line. (st, c_str line)) (split_at (CHR 0x0A) message)),
               s\<lparr>sysd := Some (sys\<lparr>ident := Some id\<rparr>)\<rparr>)))"

definition unix_setServiceFlags :: "service_flags \<Rightarrow> sys_unix qt_service \<Rightarrow> sys_unix qt_service" where
  "unix_setServiceFlags = setServiceFlags (\<lambda>flags sys. sys\<lparr>sys_flags := flags\<rparr>)"

definition unix_platform :: "qtext \<Rightarrow> transport \<Rightarrow> (sys_unix, unix_world) platform" where
  "unix_platform q t =
     \<lparr>is_unix = True, qtservice_run = run_env, isInstalled = unix_isInstalled, isRunning = unix_isRunning,
      uninstall = unix_uninstall, stop_service = unix_stop q t, pause_service = unix_pause q t,
      resume_service = unix_resume q t, sendCommand = unix_sendCommand q t, sendCommands = unix_sendCommands q t,
      install = unix_install, filePath = (\<lambda>s w. unix_filePath (disk w) (args s)), private_start = unix_private_start q t,
      sysInit = unix_sysInit, sysSetPath = unix_sysSetPath, sysCleanup = unix_sysCleanup\<rparr>"

section \<open>Names\<close>

lemma encode_loop_filter: "encode_loop legal n pos = take pos n @ List.filter (\<lambda>c. c \<in> set legal) (drop pos n)"
proof (induction legal n pos rule: encode_loop.induct)
  case (1 legal n pos)
  show ?case
  proof (cases "pos < length n")
    case True
    then have d: "drop pos n = n ! pos # drop (pos + 1) n" "take (pos + 1) n = take pos n @ [n ! pos]"
      by (simp_all add: Cons_nth_drop_Suc take_Suc_conv_app_nth)
    show ?thesis
      using 1 True d by (cases "n ! pos \<in> set legal") (simp_all add: encode_loop.simps [of legal n pos] min_def)
  qed (simp add: encode_loop.simps)
qed

text \<open>The loop keeps the legal characters; capital letters are gone before it decides on them.\<close>

lemma lower_not_upper: "lower_char c \<notin> set ''ABCDEFGHIJKLMNOPQRSTUVWXYZ''"
proof
  assume "lower_char c \<in> set ''ABCDEFGHIJKLMNOPQRSTUVWXYZ''"
  then have "65 \<le> (of_char (lower_char c) :: nat) \<and> of_char (lower_char c) \<le> (90 :: nat)"
    by (simp only: set_simps insert_iff empty_iff) (elim disjE; simp)
  then show False by (auto simp: lower_char_def split: if_splits)
qed

lemma encodeName_filter: "encodeName nm u = List.filter (\<lambda>c. c \<in> set (legal_chars False)) (toLower nm)"
proof -
  have "c \<in> set (legal_chars u) \<longleftrightarrow> c \<in> set (legal_chars False)" if "c \<in> set (toLower nm)" for c
    using that lower_not_upper by (cases u) (auto simp: toLower_def legal_chars_def)
  then show ?thesis by (simp add: encodeName_def encode_loop_filter cong: filter_cong)
qed

text \<open>The name of a socket is stable, and different services can share it.\<close>

lemma encodeName_again: "encodeName (encodeName nm u) v = encodeName nm u"
proof -
  have l: "lower_char c = c" if "c \<in> set (encodeName nm u)" for c
    using that unfolding encodeName_filter by (auto simp: toLower_def lower_char_def split: if_splits)
  then have "toLower (encodeName nm u) = encodeName nm u"
    by (metis map_idI toLower_def)
  then show ?thesis
    by (simp add: encodeName_filter filter_id_conv)
qed

lemma sockets_shared: "socketPath u ''My Service'' = socketPath u ''my-service''"
proof -
  have "toLower ''My Service'' = ''my service''" "toLower ''my-service'' = ''my-service''" by code_simp+
  then show ?thesis by (simp add: socketPath_def encodeName_filter legal_chars_def)
qed

section \<open>Lines of a stream\<close>

text \<open>The reference: all complete lines of a text, and what is left.\<close>

fun line_of :: "string \<Rightarrow> (string \<times> string) option" where
  "line_of (c # d # cs) =
     (if c = CHR 0x0D \<and> d = CHR 0x0A then Some ([], cs) else map_option (apfst (Cons c)) (line_of (d # cs)))"
| "line_of _ = None"

lemma find_from_step:
  "find_from (c # cs) s 0 = (if occurs_at (c # cs) s 0 then Some 0 else map_option Suc (find_from cs s 0))"
proof -
  have u: "[0 ..< Suc (Suc (length cs))] = 0 # map Suc [0 ..< Suc (length cs)]"
    by (metis map_Suc_upt upt_rec zero_less_Suc)
  have "occurs_at (c # cs) s \<circ> Suc = occurs_at cs s" by (auto simp: occurs_at_def)
  then have "List.find (occurs_at (c # cs) s) (map Suc xs) = map_option Suc (List.find (occurs_at cs s) xs)" for xs
    by (induction xs) (auto simp: fun_eq_iff)
  then show ?thesis by (simp only: find_from_def list.size u find.simps add_0_right add_Suc_right split: if_split)
qed

lemma line_of_text: "line_of buf = Some (l, rest) \<Longrightarrow> buf = l @ crlf @ rest"
  by (induction buf arbitrary: l rule: line_of.induct) (auto simp: crlf_def split: if_splits)

lemma find_crlf: "find_from buf crlf 0 = map_option (\<lambda>lr. length (fst lr)) (line_of buf)"
proof (induction buf rule: line_of.induct)
  case (1 c d cs)
  have o: "occurs_at (c # d # cs) crlf 0 \<longleftrightarrow> c = CHR 0x0D \<and> d = CHR 0x0A"
    by (auto simp: occurs_at_def crlf_def)
  show ?case
  proof (cases "c = CHR 0x0D \<and> d = CHR 0x0A")
    case False
    then show ?thesis
      using 1 o by (simp add: find_from_step [of c] option.map_comp comp_def)
  next
    case True
    then show ?thesis unfolding find_from_step [of c] o by simp
  qed
qed (simp_all add: find_from_def occurs_at_def crlf_def)

lemma getCommand_line_of: "getCommand buf = (case line_of buf of None \<Rightarrow> ([], buf) | Some r \<Rightarrow> r)"
proof (cases "line_of buf")
  case (Some lr)
  obtain l rest where lr: "lr = (l, rest)" by (cases lr)
  have "buf = l @ crlf @ rest" using Some lr line_of_text by simp
  moreover have "find_from buf crlf 0 = Some (length l)" using Some lr by (simp add: find_crlf)
  ultimately show ?thesis using Some lr by (simp add: getCommand_def crlf_def)
qed (simp add: getCommand_def find_crlf)

lemma line_of_shorter: "line_of buf = Some (l, rest) \<Longrightarrow> length rest < length buf"
  by (induction buf arbitrary: l rule: line_of.induct) (auto split: if_splits)

lemma line_of_append: "line_of s = Some (l, rest) \<Longrightarrow> line_of (s @ t) = Some (l, rest @ t)"
  by (induction s arbitrary: l rule: line_of.induct) (auto split: if_splits)

function lines_of :: "string \<Rightarrow> string list \<times> string" where
  "lines_of buf = (case line_of buf of None \<Rightarrow> ([], buf) | Some (l, rest) \<Rightarrow> apfst (Cons l) (lines_of rest))"
  by pat_completeness auto
termination
  by (relation "measure length") (auto dest: line_of_shorter)

declare lines_of.simps [simp del]

lemma lines_of_append:
  "lines_of (s @ t) = (let (a, rest) = lines_of s; (b, rest') = lines_of (rest @ t) in (a @ b, rest'))"
proof (induction s rule: lines_of.induct)
  case (1 s)
  show ?case
  proof (cases "line_of s")
    case (Some lr)
    obtain l rest where lr: "lr = (l, rest)" by (cases lr)
    show ?thesis
      using 1 [OF Some lr [symmetric]] Some lr line_of_append [of s l rest t]
      by (simp add: lines_of.simps [of s] lines_of.simps [of "s @ t"] Let_def split_beta apfst_def map_prod_def)
  qed (simp add: lines_of.simps [of s])
qed

lemma lines_of_rest: "line_of (snd (lines_of s)) = None"
proof (induction s rule: lines_of.induct)
  case (1 s)
  show ?case
  proof (cases "line_of s")
    case (Some lr)
    then show ?thesis using 1 [OF Some prod.collapse] by (subst lines_of.simps) (simp add: split_beta)
  qed (simp add: lines_of.simps [of s])
qed

text \<open>The loop handles the lines in their order, when none of them is empty.\<close>

lemma command_loop_lines:
  assumes "[] \<notin> set (fst (lines_of buf))"
  shows "command_loop q app_path flags buf =
    (concat (map (\<lambda>l. fst (handle_command q app_path flags l)) (fst (lines_of buf))),
     map (\<lambda>l. answer (snd (handle_command q app_path flags l))) (fst (lines_of buf)), snd (lines_of buf))"
  using assms
proof (induction buf rule: lines_of.induct)
  case (1 buf)
  show ?case
  proof (cases "line_of buf")
    case None
    then show ?thesis
      by (simp add: command_loop.simps [of _ _ _ buf] getCommand_line_of lines_of.simps [of buf])
  next
    case (Some lr)
    obtain l rest where lr: "lr = (l, rest)" by (cases lr)
    have "l \<noteq> []" "[] \<notin> set (fst (lines_of rest))"
      using "1.prems" Some lr by (auto simp: lines_of.simps [of buf])
    then show ?thesis
      using "1.IH" [OF Some lr [symmetric]] Some lr
      by (simp add: command_loop.simps [of _ _ _ buf] getCommand_line_of lines_of.simps [of buf] Let_def split_beta)
  qed
qed

text \<open>An empty line ends the loop: the lines behind it wait in the cache until more is read.\<close>

lemma empty_line_stalls:
  "command_loop q app_path flags (crlf @ rest) = ([], [], rest)"
  by (simp add: command_loop.simps getCommand_line_of crlf_def)

section \<open>The registered services\<close>

lemma under_iff: "under a k \<longleftrightarrow> (\<exists>r. k = a @ r)"
proof
  assume "under a k"
  then have "k = a @ drop (length a) k" by (metis append_take_drop_id under_def)
  then show "\<exists>r. k = a @ r" ..
qed (auto simp: under_def)

lemma under_append: "under (a @ b) k \<longleftrightarrow> under a k \<and> under b (drop (length a) k)"
  by (auto simp: under_iff)

definition plain_name :: "string \<Rightarrow> bool" where
  "plain_name nm \<longleftrightarrow> nm \<noteq> [] \<and> CHR ''/'' \<notin> set nm"

definition services_prefix :: string where
  "services_prefix = group_key [''services'']"

lemmas group_key_services [simp] = services_prefix_def [symmetric]

lemma service_key_plain: "plain_name nm \<Longrightarrow> service_key nm k = services_prefix @ nm @ ''/'' @ k"
  by (simp add: service_key_def services_prefix_def group_key_def plain_name_def del: group_key_services)

lemma first_segment:
  assumes "plain_name nm"
  shows "CHR ''/'' \<in> set k \<and> takeWhile (\<lambda>x. x \<noteq> CHR ''/'') k = nm \<longleftrightarrow> under (nm @ ''/'') k"
proof
  assume k: "CHR ''/'' \<in> set k \<and> takeWhile (\<lambda>x. x \<noteq> CHR ''/'') k = nm"
  then have "dropWhile (\<lambda>x. x \<noteq> CHR ''/'') k \<noteq> []" by (auto simp: dropWhile_eq_Nil_conv)
  then obtain r where "dropWhile (\<lambda>x. x \<noteq> CHR ''/'') k = ''/'' @ r"
    using hd_dropWhile [of "\<lambda>x. x \<noteq> CHR ''/''" k] by (cases "dropWhile (\<lambda>x. x \<noteq> CHR ''/'') k") auto
  then have "k = (nm @ ''/'') @ r"
    using k takeWhile_dropWhile_id [of "\<lambda>x. x \<noteq> CHR ''/''" k] by simp
  then show "under (nm @ ''/'') k" by (metis under_iff)
next
  assume "under (nm @ ''/'') k"
  then obtain r where "k = nm @ CHR ''/'' # r" by (auto simp: under_iff)
  then show "CHR ''/'' \<in> set k \<and> takeWhile (\<lambda>x. x \<noteq> CHR ''/'') k = nm"
    using assms by (auto simp: plain_name_def takeWhile_tail takeWhile_append2)
qed

lemma isInstalled_iff:
  assumes "plain_name nm"
  shows "unix_isInstalled nm w \<longleftrightarrow> (\<exists>k \<in> fst ` set (conf w). under (services_prefix @ nm @ ''/'') k)"
proof -
  have "unix_isInstalled nm w \<longleftrightarrow> (\<exists>k \<in> fst ` set (conf w). under services_prefix k \<and>
      CHR ''/'' \<in> set (drop (length services_prefix) k) \<and> takeWhile (\<lambda>x. x \<noteq> CHR ''/'') (drop (length services_prefix) k) = nm)"
    unfolding unix_isInstalled_def childGroups_def list_ex_iff group_key_services by auto
  then show ?thesis
    using first_segment [OF assms] under_append [of "services_prefix" "nm @ ''/''"] by simp
qed

definition unix_good :: "unix_world \<Rightarrow> string \<Rightarrow> bool" where
  "unix_good w nm \<longleftrightarrow> conf_status w = NoError \<and> plain_name nm"

lemma installed_keys:
  assumes "plain_name (controller_name s)" "conf_status w = NoError"
  shows "fst (unix_install s acc pw w)"
    "fst ` set (conf (snd (unix_install s acc pw w))) =
       fst ` set (conf w) \<union> (\<lambda>k. services_prefix @ controller_name s @ ''/'' @ k) `
         {''path'', ''description'', ''automaticStartup''}"
  using assms by (auto simp: unix_install_def conf_sync_def Let_def dom_update service_key_plain)

lemma uninstalled_keys:
  assumes "plain_name nm" "conf_status w = NoError"
  shows "fst (unix_uninstall nm w)"
    "fst ` set (conf (snd (unix_uninstall nm w))) =
       {k \<in> fst ` set (conf w). k \<noteq> services_prefix @ nm \<and> \<not> under (services_prefix @ nm @ ''/'') k}"
proof -
  have n: "nm \<noteq> []" using assms(1) by (simp add: plain_name_def)
  show "fst (unix_uninstall nm w)" using assms(2) by (simp add: unix_uninstall_def conf_sync_def)
  show "fst ` set (conf (snd (unix_uninstall nm w))) =
       {k \<in> fst ` set (conf w). k \<noteq> services_prefix @ nm \<and> \<not> under (services_prefix @ nm @ ''/'') k}"
    unfolding unix_uninstall_def conf_sync_def conf_remove_def group_key_services using assms(2) n by auto
qed

lemma plain_names_apart:
  assumes "plain_name m" "plain_name n" "under (services_prefix @ m @ ''/'') k" "under (services_prefix @ n @ ''/'') k"
  shows "m = n"
proof -
  have "under (m @ ''/'') (drop (length services_prefix) k)" "under (n @ ''/'') (drop (length services_prefix) k)"
    using assms(3,4) under_append [of "services_prefix"] by simp_all
  then show ?thesis using first_segment assms(1,2) by metis
qed

lemma conf_status_kept [simp]:
  "conf_status (snd (unix_install s acc pw w)) = conf_status w"
  "conf_status (snd (unix_uninstall nm w)) = conf_status w"
  by (simp_all add: unix_install_def unix_uninstall_def conf_sync_def Let_def)

interpretation unix_services: service_platform "unix_platform q t" unix_good "\<lambda>_. (=)" for q t
proof unfold_locales
  fix w :: unix_world and s :: "sys_unix qt_service" and acc pw :: string
  assume g: "unix_good w (controller_name s)"
  let ?k = "services_prefix @ controller_name s @ ''/'' @ ''path''"
  have "under (services_prefix @ controller_name s @ ''/'') ?k" by (auto simp: under_iff)
  then show "fst (install (unix_platform q t) s acc pw w) \<and>
      isInstalled (unix_platform q t) (controller_name s) (snd (install (unix_platform q t) s acc pw w))"
    using g installed_keys [of s w acc pw] by (auto simp: unix_good_def unix_platform_def isInstalled_iff)
next
  fix w :: unix_world and n :: string
  assume "unix_good w n"
  then show "fst (uninstall (unix_platform q t) n w) \<and>
      \<not> isInstalled (unix_platform q t) n (snd (uninstall (unix_platform q t) n w))"
    using uninstalled_keys [of n w] by (auto simp: unix_good_def unix_platform_def isInstalled_iff)
next
  fix w :: unix_world and s :: "sys_unix qt_service" and m acc pw :: string
  assume g: "unix_good w m" "unix_good w (controller_name s)" "controller_name s \<noteq> m"
  have "\<not> under (services_prefix @ m @ ''/'') (services_prefix @ controller_name s @ ''/'' @ k)" for k
    using plain_names_apart [of m "controller_name s" "services_prefix @ controller_name s @ ''/'' @ k"] g
    by (auto simp: unix_good_def under_iff)
  then show "isInstalled (unix_platform q t) m (snd (install (unix_platform q t) s acc pw w)) =
      isInstalled (unix_platform q t) m w"
    using g installed_keys [of s w acc pw] by (auto simp: unix_good_def unix_platform_def isInstalled_iff)
next
  fix w :: unix_world and m n :: string
  assume g: "unix_good w m" "unix_good w n" "n \<noteq> m"
  have "k \<noteq> services_prefix @ n \<and> \<not> under (services_prefix @ n @ ''/'') k"
    if "under (services_prefix @ m @ ''/'') k" for k
  proof -
    have "CHR ''/'' \<in> set (drop (length services_prefix) k)" using that by (auto simp: under_iff)
    then show ?thesis
      using plain_names_apart [OF _ _ that] g by (auto simp: unix_good_def plain_name_def)
  qed
  then show "isInstalled (unix_platform q t) m (snd (uninstall (unix_platform q t) n w)) =
      isInstalled (unix_platform q t) m w"
    using g uninstalled_keys [of n w] by (auto simp: unix_good_def unix_platform_def isInstalled_iff)
qed (simp_all add: unix_platform_def unix_good_def)

text \<open>
  Property C26.  Any sequence of \<open>-i\<close> and \<open>-u\<close> command lines of services with plain
  names, on a settings file that can be written, keeps the set of installed services as the specification
  does: each run ends with code 0, installs or removes its own service and no other, and may be repeated.
\<close>

theorem unix_setup_refines_set:
  assumes "conf_status w = NoError" "\<And>x. x \<in> set steps \<Longrightarrow> plain_name (controller_name (fst x))"
  shows "set (fst (setup_all q (unix_platform q t) a steps w)) \<subseteq> {0} \<and>
    {n. plain_name n \<and> unix_isInstalled n (snd (setup_all q (unix_platform q t) a steps w))} =
      setup_spec steps {n. plain_name n \<and> unix_isInstalled n w}"
  using unix_services.setup_refines [of "{n. plain_name n}" w steps q q t a] assms
  by (auto simp: unix_good_def unix_platform_def)

text \<open>The startup type is written under another key than it is read from.\<close>

lemma startup_type_not_read_back:
  assumes "conf_status w = NoError" "plain_name (controller_name s)"
  shows "unix_startupType (controller_name s) (snd (unix_install s acc pw w)) = unix_startupType (controller_name s) w"
  using assms
  by (simp add: unix_startupType_def unix_install_def conf_sync_def Let_def update_conv' service_key_plain)

lemma description_read_back:
  assumes "conf_status w = NoError" "plain_name (controller_name s)"
  shows "unix_serviceDescription (controller_name s) (snd (unix_install s acc pw w)) = service_description s \<and>
    unix_serviceFilePath (controller_name s) (snd (unix_install s acc pw w)) = unix_filePath (disk w) (args s)"
  using assms
  by (simp add: unix_serviceDescription_def unix_serviceFilePath_def unix_install_def conf_sync_def Let_def
      update_conv' service_key_plain)

text \<open>A name with a slash is written below a group of its first part, and is never found again.\<close>

lemma slash_name_not_installed: "CHR ''/'' \<in> set nm \<Longrightarrow> \<not> unix_isInstalled nm w"
  by (auto simp: unix_isInstalled_def childGroups_def list_ex_iff dest: set_takeWhileD)

text \<open>Without a name, uninstalling removes all services.\<close>

lemma uninstall_without_name:
  assumes "conf_status w = NoError" "plain_name m"
  shows "\<not> unix_isInstalled m (snd (unix_uninstall [] w))"
  using assms(1) under_append [of "services_prefix" "m @ ''/''"]
  by (auto simp: isInstalled_iff [OF assms(2)] unix_uninstall_def conf_sync_def conf_remove_def)

section \<open>Examples\<close>

text \<open>A stream that is cut after three characters, and a system where the service \<open>svc\<close> runs.\<close>

definition transport_sample :: transport where
  "transport_sample = \<lparr>socket_at = (\<lambda>_. 0), cuts = (\<lambda>s. [take 3 s, drop 3 s]), client_reads = concat\<rparr>"

interpretation transport_sample: transport_documented transport_sample
  by unfold_locales (simp_all add: transport_sample_def)

definition fs_sample :: file_system where
  "fs_sample =
     \<lparr>current_cd = (\<lambda>d. ''/home/'' @ d), env_path = Some ''/bin'', file_exists = (\<lambda>_. True), dir_absolute = id,
      file_dir_absolute = (\<lambda>f. rev (drop 1 (dropWhile (\<lambda>c. c \<noteq> CHR ''/'') (rev f)))),
      file_name_of = (\<lambda>f. rev (takeWhile (\<lambda>c. c \<noteq> CHR ''/'') (rev f))), absolute_file = (\<lambda>d f. d @ ''/'' @ f)\<rparr>"

definition peer_sample :: peer where
  "peer_sample = \<lparr>peer_sys = sys_unix_new, peer_app = ''/bin/svc'', peer_calls = [Call_start]\<rparr>"

definition world_sample :: unix_world where
  "world_sample =
     \<lparr>conf = [], conf_status = NoError, disk = fs_sample, user = Some ''u'', run_env = False, beyond = 0,
      peers = [''/var/tmp/svc.u'' \<mapsto> peer_sample], can_bind = (\<lambda>_. True), bound = None, can_exec = (\<lambda>_. True),
      detached = []\<rparr>"

lemma world_sample_connects:
  "connectTo (socketPath (user world_sample) ''svc'') world_sample = Some (''/var/tmp/svc.u'', peer_sample)"
proof -
  have "socketPath (Some ''u'') ''svc'' = ''/var/tmp/svc.u''" by code_simp
  then show ?thesis by (simp add: world_sample_def connectTo_def sun_path_def sun_path_size_def c_str_def)
qed

theorem unix_setup_refines_set_witness:
  "{n. plain_name n \<and> unix_isInstalled n (snd (setup_all qtext_sample (unix_platform qtext_sample transport_sample)
       undefined [(service_new [] ''a'', ''/bin/a'', Run_Install [] []), (service_new [] ''b'', ''/bin/b'', Run_Install [] []),
         (service_new [] ''a'', ''/bin/a'', Run_Uninstall)] world_sample))} = {''b''}"
proof -
  have n: "controller_name (service_new [] ''a'') = ''a''" "controller_name (service_new [] ''b'') = ''b''"
    by (simp_all add: service_new_def service_name_of_def)
  have p: "plain_name ''a''" "plain_name ''b''" by (simp_all add: plain_name_def)
  have e: "{n. plain_name n \<and> unix_isInstalled n world_sample} = {}"
    by (simp add: world_sample_def unix_isInstalled_def childGroups_def)
  let ?steps = "[(service_new [] ''a'', ''/bin/a'', Run_Install [] []), (service_new [] ''b'', ''/bin/b'', Run_Install [] []),
         (service_new [] ''a'', ''/bin/a'', Run_Uninstall)]"
  have s: "conf_status world_sample = NoError" by (simp add: world_sample_def)
  have st: "x \<in> set ?steps \<Longrightarrow> plain_name (controller_name (fst x))" for x
    using p by (auto simp: n)
  have "setup_spec ?steps {} = {''b''}" by (auto simp: n)
  then show ?thesis
    using unix_setup_refines_set [OF s st, of ?steps qtext_sample transport_sample undefined] unfolding e by simp
qed

end
