(* ===== verification/Qt_Service_Commands.thy ===== *)
theory Qt_Service_Commands
  imports Qt_Service_Unix Service_Base
begin

text \<open>
  From the command line of a controller to the worker of a service on Unix: what \<open>sendCmd\<close>
  writes is read by the service in any pieces, handled line by line, and reaches the object of
  \<open>Service/service.h\<close> through the virtual functions that \<open>Base_Template\<close>
  overrides.
\<close>

section \<open>Base_Template\<close>

text \<open>The constructor: without a name the service has that of the application.\<close>

definition template_new :: "bool \<Rightarrow> string \<Rightarrow> string list \<Rightarrow> string \<Rightarrow> 's qt_service" where
  "template_new windows application_name argv nm =
     (let s = service_new argv (if nm = [] then application_name else nm)
      in if windows then setStartupType AutoStartup s else s)"

text \<open>What the service needs to make its object: see \<open>base_start\<close>.\<close>

record service_env =
  log_thread_ends :: bool
  log_object :: logging
  signals_kept :: bool
  worker_methods :: "string list"

text \<open>
  The virtual functions. \<open>start\<close>, \<open>stop\<close> and \<open>processCommands\<close> are
  those of \<open>Base\<close>, the others do nothing; \<open>quit\<close> is for the event loop.
  \<open>None\<close>: a call through the null pointer.
\<close>

fun template_call :: "service_env \<Rightarrow> bool \<Rightarrow> service_call \<Rightarrow> service_base \<Rightarrow> service_base option" where
  "template_call e imm Call_start b =
     Some (base_start (log_thread_ends e) (log_object e) imm (signals_kept e) (worker_methods e) b)"
| "template_call e imm Call_stop b = Some (base_stop (log_thread_ends e) b)"
| "template_call e imm Call_pause b = Some b"
| "template_call e imm Call_resume b = Some b"
| "template_call e imm (Call_command code) b = Some b"
| "template_call e imm (Call_commands cmds) b = base_process_commands cmds b"
| "template_call e imm Call_quit b = Some b"

fun template_calls :: "service_env \<Rightarrow> bool \<Rightarrow> service_call list \<Rightarrow> service_base \<Rightarrow> service_base option" where
  "template_calls e imm [] b = Some b"
| "template_calls e imm (c # cs) b = Option.bind (template_call e imm c b) (template_calls e imm cs)"

lemma template_calls_append:
  "template_calls e imm (cs @ ds) b = Option.bind (template_calls e imm cs b) (template_calls e imm ds)"
proof (induction cs arbitrary: b)
  case (Cons c cs)
  then show ?case by (cases "template_call e imm c b") simp_all
qed simp

section \<open>Reading\<close>

lemma ascii_append [simp]: "ascii (a @ b) \<longleftrightarrow> ascii a \<and> ascii b"
  by (simp add: ascii_def)

lemma lines_of_complete: "line_of s = None \<Longrightarrow> lines_of s = ([], s)"
  by (simp add: lines_of.simps)

text \<open>
  The text of a stream: every read is decoded by itself. An ASCII stream is its own text; a character of
  several bytes that a read cuts in two is not decoded as that character.
\<close>

definition decoded :: "qtext \<Rightarrow> string list \<Rightarrow> string" where
  "decoded q ds = concat (map (from_utf8 q) ds)"

lemma decoded_ascii:
  assumes "qtext_documented q" "ascii (concat ds)"
  shows "decoded q ds = concat ds"
  using assms(2)
  by (induction ds) (simp_all add: decoded_def qtext_documented.from_utf8_ascii [OF assms(1)])

lemma receive_decoded_lines:
  assumes "[] \<notin> set (fst (lines_of (cached s n @ decoded q ds)))" "ds \<noteq> []"
  shows "receive_all q app_path n ds s =
    (concat (map (\<lambda>l. fst (handle_command q app_path (sys_flags s) l)) (fst (lines_of (cached s n @ decoded q ds)))),
     map (\<lambda>l. answer (snd (handle_command q app_path (sys_flags s) l))) (fst (lines_of (cached s n @ decoded q ds))),
     s\<lparr>cache := (cache s)(n \<mapsto> snd (lines_of (cached s n @ decoded q ds)))\<rparr>)"
  using assms
proof (induction ds arbitrary: s)
  case (Cons d ds)
  let ?buf = "cached s n @ from_utf8 q d"
  obtain a rest where l: "lines_of ?buf = (a, rest)" by (cases "lines_of ?buf")
  let ?s = "s\<lparr>cache := (cache s)(n \<mapsto> rest)\<rparr>"
  have all: "lines_of (cached s n @ decoded q (d # ds)) =
      (a @ fst (lines_of (rest @ decoded q ds)), snd (lines_of (rest @ decoded q ds)))"
    using l lines_of_append [of ?buf "decoded q ds"] by (simp add: decoded_def Let_def split_beta)
  have "[] \<notin> set a" using Cons.prems(1) by (simp only: all fst_conv set_append Un_iff) blast
  then have sl: "slotReady q app_path n d s =
      (concat (map (\<lambda>l. fst (handle_command q app_path (sys_flags s) l)) a),
       map (\<lambda>l. answer (snd (handle_command q app_path (sys_flags s) l))) a, ?s)"
    using command_loop_lines [of ?buf q app_path "sys_flags s"] l by (simp add: slotReady_def)
  show ?case
  proof (cases "ds = []")
    case True
    have "lines_of rest = ([], rest)" using lines_of_rest [of ?buf] l by (intro lines_of_complete) simp
    then show ?thesis using sl all True by (simp add: fun_upd_def decoded_def)
  next
    case False
    have c: "cached ?s n = rest" by (simp add: cached_def)
    have "[] \<notin> set (fst (lines_of (cached ?s n @ decoded q ds)))"
      using Cons.prems(1) by (simp only: all c fst_conv set_append Un_iff) blast
    then show ?thesis using Cons.IH [of ?s] False c sl all by (simp add: fun_upd_def cong: if_cong)
  qed
qed simp

lemma receive_all_lines:
  assumes q: "qtext_documented q"
    and "ascii (concat ds)" "[] \<notin> set (fst (lines_of (cached s n @ concat ds)))" "ds \<noteq> []"
  shows "receive_all q app_path n ds s =
    (concat (map (\<lambda>l. fst (handle_command q app_path (sys_flags s) l)) (fst (lines_of (cached s n @ concat ds)))),
     map (\<lambda>l. answer (snd (handle_command q app_path (sys_flags s) l))) (fst (lines_of (cached s n @ concat ds))),
     s\<lparr>cache := (cache s)(n \<mapsto> snd (lines_of (cached s n @ concat ds)))\<rparr>)"
  using receive_decoded_lines [of s n q ds app_path] assms(3,4) by (simp add: decoded_ascii [OF q assms(2)])


lemma line_of_first: "CHR 0x0D \<notin> set cmd \<Longrightarrow> line_of (cmd @ crlf @ r) = Some (cmd, r)"
proof (induction cmd)
  case (Cons c cmd)
  then have "line_of (cmd @ crlf @ r) = Some (cmd, r)" by simp
  moreover obtain d ds where "cmd @ crlf @ r = d # ds" by (cases "cmd @ crlf @ r") (auto simp: crlf_def)
  ultimately show ?case using Cons.prems by auto
qed (simp add: crlf_def)

lemma lines_of_one: "CHR 0x0D \<notin> set cmd \<Longrightarrow> lines_of (cmd @ crlf) = ([cmd], [])"
  using line_of_first [of cmd "[]"] by (simp add: lines_of.simps [of "cmd @ crlf"] lines_of.simps [of "[]"])

section \<open>Sending\<close>

text \<open>A command that can be sent: one line of ASCII text.\<close>

definition sendable :: "string \<Rightarrow> bool" where
  "sendable cmd \<longleftrightarrow> ascii cmd \<and> CHR 0x00 \<notin> set cmd \<and> CHR 0x0D \<notin> set cmd"

text \<open>The cache of a service holds no unfinished line.\<close>

definition tidy :: "sys_unix \<Rightarrow> bool" where
  "tidy s \<longleftrightarrow> (\<forall>n. cached s n = [])"

definition told :: "transport \<Rightarrow> peer \<Rightarrow> service_call list \<Rightarrow> peer" where
  "told t pr calls =
     pr\<lparr>peer_sys := (peer_sys pr)\<lparr>cache := (cache (peer_sys pr))(socket_at t pr \<mapsto> [])\<rparr>, peer_calls := peer_calls pr @ calls\<rparr>"

lemma told_clean: "tidy (peer_sys pr) \<Longrightarrow> tidy (peer_sys (told t pr calls))"
  by (simp add: tidy_def told_def cached_def)

lemma sendCmd_line:
  assumes q: "qtext_documented q" and t: "transport_documented t"
    and c: "connectTo (socketPath (user w) nm) w = Some (addr, pr)" and cl: "tidy (peer_sys pr)"
    and s: "sendable cmd" "cmd \<noteq> []"
    and h: "handle_command q (peer_app pr) (sys_flags (peer_sys pr)) cmd = (calls, ok)"
  shows "sendCmd q t nm cmd w =
    (ok, w\<lparr>peers := (peers w)(addr := if Call_quit \<in> set calls then None else Some (told t pr calls))\<rparr>)"
proof -
  let ?ds = "cuts t (cmd @ crlf)"
  have cs: "c_str (cmd @ crlf) = cmd @ crlf" using s by (intro c_str_id) (simp add: sendable_def crlf_def)
  have cat: "concat ?ds = cmd @ crlf" using t by (rule transport_documented.cuts_all)
  have l: "lines_of (cached (peer_sys pr) n @ concat ?ds) = ([cmd], [])" for n
    using cl s cat lines_of_one [of cmd] by (simp add: tidy_def sendable_def)
  have "?ds \<noteq> []" using cat by (auto simp: crlf_def)
  moreover have "ascii (concat ?ds)" using s cat by (simp add: sendable_def ascii_def crlf_def)
  ultimately have rc: "receive_all q (peer_app pr) (socket_at t pr) ?ds (peer_sys pr) =
      (calls, [answer ok], (peer_sys pr)\<lparr>cache := (cache (peer_sys pr))(socket_at t pr \<mapsto> [])\<rparr>)"
    using receive_all_lines [OF q, of ?ds "peer_sys pr" "socket_at t pr" "peer_app pr"] l s h by simp
  have "from_utf8 q (client_reads t [answer ok]) = answer ok"
    using transport_documented.reads_one [OF t] qtext_documented.from_utf8_ascii [OF q, of "answer ok"]
    by (simp add: answer_def ascii_def)
  then have "from_utf8 q (client_reads t [answer ok]) = ''true'' \<longleftrightarrow> ok" by (simp add: answer_def)
  then show ?thesis
    using c cs rc by (simp add: sendCmd_def peer_takes_def Let_def slotClosed_def told_def)
qed

lemmas sendCmd_handled = sendCmd_line [OF _ _ _ _ _ _ prod.collapse [symmetric]]

text \<open>Joining and splitting.\<close>

lemma split_at_part: "sep \<notin> set s \<Longrightarrow> split_at sep s = [s]"
  by (induction s) auto

lemma split_at_sep: "sep \<notin> set s \<Longrightarrow> split_at sep (s @ sep # r) = s # split_at sep r"
  by (induction s) auto

lemma split_join: "ss \<noteq> [] \<Longrightarrow> \<forall>s \<in> set ss. sep \<notin> set s \<Longrightarrow> split_at sep (join_with sep ss) = ss"
  by (induction sep ss rule: join_with.induct) (simp_all add: split_at_part split_at_sep)

lemma set_join_with: "set (join_with sep ss) \<subseteq> insert sep (\<Union> (set ` set ss))"
  by (induction sep ss rule: join_with.induct) auto

lemma join_with_Nil: "join_with sep ss = [] \<longleftrightarrow> ss = [] \<or> ss = [[]]"
  by (induction sep ss rule: join_with.induct) auto

lemma list_sendable:
  assumes "\<forall>c \<in> set cmds. sendable c"
  shows "sendable (''list:'' @ join_with (CHR ''|'') cmds)"
proof -
  have "ascii s \<longleftrightarrow> (\<forall>c \<in> set s. (of_char c :: nat) < 128)" for s by (simp add: ascii_def list_all_iff)
  then show ?thesis
    using assms set_join_with [of "CHR ''|''" cmds] by (fastforce simp: sendable_def)
qed

lemma handle_list:
  assumes "cmds \<noteq> []" "cmds \<noteq> [[]]" "\<forall>c \<in> set cmds. CHR ''|'' \<notin> set c"
  shows "handle_command q app_path flags (''list:'' @ join_with (CHR ''|'') cmds) =
    ([Call_commands (app_path # cmds)], True)"
  using assms join_with_Nil [of "CHR ''|''" cmds] split_join [of cmds "CHR ''|''"]
  by (simp add: handle_command_def)

lemma unix_sendCommands_arrive:
  assumes "qtext_documented q" "transport_documented t"
    and "connectTo (socketPath (user w) nm) w = Some (addr, pr)" "tidy (peer_sys pr)"
    and "cmds \<noteq> []" "cmds \<noteq> [[]]" "\<forall>c \<in> set cmds. sendable c \<and> CHR ''|'' \<notin> set c"
  shows "unix_sendCommands q t nm cmds w =
    (True, w\<lparr>peers := (peers w)(addr \<mapsto> told t pr [Call_commands (peer_app pr # cmds)])\<rparr>)"
  unfolding unix_sendCommands_def
  using sendCmd_line [OF assms(1-4) list_sendable [of cmds], of "[Call_commands (peer_app pr # cmds)]" True] assms
    handle_list [of cmds q "peer_app pr" "sys_flags (peer_sys pr)"] by simp

text \<open>
  Property C23.  A program run with \<open>-l\<close> and commands, when its service runs and no connection
  to it has left unfinished text behind, delivers them: the service makes one call with its own program and
  these commands, the call hands them to the worker of the running object, nothing else in the system
  changes, no unfinished text stays with the service, and the exit code is 0. The commands must be ASCII,
  without a bar, a carriage return or a zero, and not just one empty command.
\<close>

theorem listed_commands_reach_worker:
  assumes "qtext_documented q" "transport_documented t"
    and c: "connectTo (socketPath (user w) (controller_name s)) w = Some (addr, pr)" and cl: "tidy (peer_sys pr)"
    and "cmds \<noteq> []" "cmds \<noteq> [[]]" "\<forall>c \<in> set cmds. sendable c \<and> CHR ''|'' \<notin> set c"
    and b: "template_calls e imm (peer_calls pr) base_new = Some b" "srv_object b = Some obj"
  shows "\<exists>pr'. run_line q (unix_platform q t) a s (path # ''-l'' # cmds) w = (0, w\<lparr>peers := (peers w)(addr \<mapsto> pr')\<rparr>) \<and>
    tidy (peer_sys pr') \<and>
    template_calls e imm (peer_calls pr') base_new =
      Some (b\<lparr>srv_object := Some (perform [Commands (worker obj) (peer_app pr # cmds)] obj)\<rparr>)"
proof (intro exI conjI)
  let ?pr = "told t pr [Call_commands (peer_app pr # cmds)]"
  show "run_line q (unix_platform q t) a s (path # ''-l'' # cmds) w = (0, w\<lparr>peers := (peers w)(addr \<mapsto> ?pr)\<rparr>)"
    using unix_sendCommands_arrive [OF assms(1,2) c cl assms(5-7)] assms(5)
    by (simp add: run_line_def service_exec_def exec_list_def unix_platform_def Let_def)
  show "tidy (peer_sys ?pr)" using cl by (rule told_clean)
  show "template_calls e imm (peer_calls ?pr) base_new =
      Some (b\<lparr>srv_object := Some (perform [Commands (worker obj) (peer_app pr # cmds)] obj)\<rparr>)"
    using b by (simp add: told_def template_calls_append base_process_commands_def object_process_commands_def)
qed

text \<open>A number sent with \<open>-c\<close> arrives as that number.\<close>

lemma unix_sendCommand_arrives:
  assumes q: "qtext_documented q" and t: "transport_documented t"
    and c: "connectTo (socketPath (user w) nm) w = Some (addr, pr)" "tidy (peer_sys pr)" and n: "int32 code"
  shows "unix_sendCommand q t nm code w = (True, w\<lparr>peers := (peers w)(addr \<mapsto> told t pr [Call_command code])\<rparr>)"
proof -
  have d: "set (show_number q code) \<subseteq> set ''-0123456789''" "show_number q code \<noteq> []"
    using qtext_documented.number_digits [OF q] by blast+
  have a: "\<forall>x \<in> set ''-0123456789''. (of_char x :: nat) < 128 \<and> x \<noteq> CHR 0x00 \<and> x \<noteq> CHR 0x0D" by simp
  have "\<forall>x \<in> set (show_number q code). (of_char x :: nat) < 128 \<and> x \<noteq> CHR 0x00 \<and> x \<noteq> CHR 0x0D"
    using a d(1) by blast
  then have "sendable (''num:'' @ show_number q code)" by (auto simp: sendable_def ascii_def list_all_iff)
  moreover have "handle_command q (peer_app pr) (sys_flags (peer_sys pr)) (''num:'' @ show_number q code) = ([Call_command code], True)"
    using d qtext_documented.to_int_number [OF q n] by (simp add: handle_command_def)
  ultimately show ?thesis
    unfolding unix_sendCommand_def using sendCmd_line [OF q t c, of "''num:'' @ show_number q code"] by simp
qed

lemma handle_terminate:
  "handle_command q app_path flags ''terminate'' =
    (if flag_set flags CannotBeStopped then ([], False) else ([Call_stop, Call_quit], True))"
  by (simp add: handle_command_def)

lemma handle_suspend:
  "handle_command q app_path flags ''pause'' = (if flag_set flags CanBeSuspended then ([Call_pause], True) else ([], False))"
  "handle_command q app_path flags ''resume'' = (if flag_set flags CanBeSuspended then ([Call_resume], True) else ([], False))"
  "handle_command q app_path flags ''alive'' = ([], True)"
  by (simp_all add: handle_command_def)

lemma literals_sendable: "sendable ''terminate''" "sendable ''pause''" "sendable ''resume''" "sendable ''alive''"
  by (simp_all add: sendable_def ascii_def)

text \<open>The commands without arguments: they do what the flags of the service allow, and say so.\<close>

lemma unix_controls_obey_flags:
  assumes "qtext_documented q" "transport_documented t"
    and "connectTo (socketPath (user w) nm) w = Some (addr, pr)" "tidy (peer_sys pr)"
  shows "unix_stop q t nm w =
      (if flag_set (sys_flags (peer_sys pr)) CannotBeStopped then (False, w\<lparr>peers := (peers w)(addr \<mapsto> told t pr [])\<rparr>)
       else (True, w\<lparr>peers := (peers w)(addr := None)\<rparr>))"
    "unix_pause q t nm w =
      (if flag_set (sys_flags (peer_sys pr)) CanBeSuspended then (True, w\<lparr>peers := (peers w)(addr \<mapsto> told t pr [Call_pause])\<rparr>)
       else (False, w\<lparr>peers := (peers w)(addr \<mapsto> told t pr [])\<rparr>))"
    "unix_resume q t nm w =
      (if flag_set (sys_flags (peer_sys pr)) CanBeSuspended then (True, w\<lparr>peers := (peers w)(addr \<mapsto> told t pr [Call_resume])\<rparr>)
       else (False, w\<lparr>peers := (peers w)(addr \<mapsto> told t pr [])\<rparr>))"
  using sendCmd_handled [OF assms literals_sendable(1)] sendCmd_handled [OF assms literals_sendable(2)]
    sendCmd_handled [OF assms literals_sendable(3)]
  by (simp_all add: unix_stop_def unix_pause_def unix_resume_def handle_terminate handle_suspend)

text \<open>The sequences a controller can send.\<close>

datatype control = Control_Stop | Control_Pause | Control_Resume | Control_Code int | Control_List "string list"

fun control_send :: "qtext \<Rightarrow> transport \<Rightarrow> string \<Rightarrow> control \<Rightarrow> unix_world \<Rightarrow> bool \<times> unix_world" where
  "control_send q t nm Control_Stop w = unix_stop q t nm w"
| "control_send q t nm Control_Pause w = unix_pause q t nm w"
| "control_send q t nm Control_Resume w = unix_resume q t nm w"
| "control_send q t nm (Control_Code n) w = unix_sendCommand q t nm n w"
| "control_send q t nm (Control_List cs) w = unix_sendCommands q t nm cs w"

fun control_ok :: "control \<Rightarrow> bool" where
  "control_ok (Control_Code n) = int32 n"
| "control_ok (Control_List cs) = (cs \<noteq> [] \<and> cs \<noteq> [[]] \<and> (\<forall>c \<in> set cs. sendable c \<and> CHR ''|'' \<notin> set c))"
| "control_ok _ = True"

text \<open>What a service with some flags does and answers.\<close>

fun control_spec :: "string \<Rightarrow> service_flags \<Rightarrow> control \<Rightarrow> service_call list \<times> bool" where
  "control_spec app_path f Control_Stop = (if flag_set f CannotBeStopped then ([], False) else ([Call_stop, Call_quit], True))"
| "control_spec app_path f Control_Pause = (if flag_set f CanBeSuspended then ([Call_pause], True) else ([], False))"
| "control_spec app_path f Control_Resume = (if flag_set f CanBeSuspended then ([Call_resume], True) else ([], False))"
| "control_spec app_path f (Control_Code n) = ([Call_command n], True)"
| "control_spec app_path f (Control_List cs) = ([Call_commands (app_path # cs)], True)"

lemma control_send_spec:
  assumes "qtext_documented q" "transport_documented t"
    and "connectTo (socketPath (user w) nm) w = Some (addr, pr)" "tidy (peer_sys pr)" "control_ok c"
    and "control_spec (peer_app pr) (sys_flags (peer_sys pr)) c = (calls, ok)"
  shows "control_send q t nm c w =
    (ok, w\<lparr>peers := (peers w)(addr := if Call_quit \<in> set calls then None else Some (told t pr calls))\<rparr>)"
  using assms(5,6) unix_controls_obey_flags [OF assms(1-4)] unix_sendCommand_arrives [OF assms(1-4)]
    unix_sendCommands_arrive [OF assms(1-4)]
  by (cases c) (auto split: if_splits)

fun control_all :: "qtext \<Rightarrow> transport \<Rightarrow> string \<Rightarrow> control list \<Rightarrow> unix_world \<Rightarrow> bool list \<times> unix_world" where
  "control_all q t nm [] w = ([], w)"
| "control_all q t nm (c # cs) w =
     (let (ok, w) = control_send q t nm c w; (oks, w) = control_all q t nm cs w in (ok # oks, w))"

lemma connectTo_told:
  assumes "connectTo path w = Some (addr, pr)"
  shows "connectTo path (w\<lparr>peers := (peers w)(addr \<mapsto> pr')\<rparr>) = Some (addr, pr')"
  using assms by (auto simp: connectTo_def split: option.splits)

text \<open>
  Property C24.  A controller's requests to a running service, one after the other, are all taken: for
  any sequence of well-formed requests that does not stop it, each is answered as the flags of the service say, the service
  makes exactly the calls they ask for in their order, and afterwards no unfinished text is left with it.
\<close>

theorem controls_taken_in_order:
  assumes "qtext_documented q" "transport_documented t"
    and "connectTo (socketPath (user w) nm) w = Some (addr, pr)" "tidy (peer_sys pr)"
    and "\<forall>c \<in> set cs. control_ok c \<and> (c = Control_Stop \<longrightarrow> flag_set (sys_flags (peer_sys pr)) CannotBeStopped)"
  shows "fst (control_all q t nm cs w) = map (\<lambda>c. snd (control_spec (peer_app pr) (sys_flags (peer_sys pr)) c)) cs \<and>
    (\<exists>pr'. connectTo (socketPath (user w) nm) (snd (control_all q t nm cs w)) = Some (addr, pr') \<and>
       tidy (peer_sys pr') \<and>
       peer_calls pr' = peer_calls pr @ concat (map (\<lambda>c. fst (control_spec (peer_app pr) (sys_flags (peer_sys pr)) c)) cs))"
  using assms(3-)
proof (induction cs arbitrary: w pr)
  case (Cons c cs)
  obtain calls ok where sp: "control_spec (peer_app pr) (sys_flags (peer_sys pr)) c = (calls, ok)"
    by (cases "control_spec (peer_app pr) (sys_flags (peer_sys pr)) c")
  then have nq: "Call_quit \<notin> set calls"
    using Cons.prems(3) by (cases c) (auto split: if_splits)
  let ?pr = "told t pr calls" and ?w = "w\<lparr>peers := (peers w)(addr \<mapsto> told t pr calls)\<rparr>"
  have send: "control_send q t nm c w = (ok, ?w)"
    using control_send_spec [OF assms(1,2) Cons.prems(1,2) _ sp] Cons.prems(3) nq by simp
  have same: "peer_app ?pr = peer_app pr" "sys_flags (peer_sys ?pr) = sys_flags (peer_sys pr)"
    "peer_calls ?pr = peer_calls pr @ calls" by (simp_all add: told_def)
  have "connectTo (socketPath (user ?w) nm) ?w = Some (addr, ?pr)"
    using connectTo_told [OF Cons.prems(1)] by simp
  from Cons.IH [OF this told_clean [OF Cons.prems(2)]] Cons.prems(3) send same sp
  show ?case by (simp add: split_beta)
qed simp

section \<open>Start and stop\<close>

text \<open>A service that answers is not started a second time.\<close>

lemma running_service_not_started:
  assumes "qtext_documented q" "transport_documented t"
    and "connectTo (socketPath (user w) (controller_name s)) w = Some (addr, pr)" "tidy (peer_sys pr)" "\<not> run_env w"
  shows "fst (run_line q (unix_platform q t) a s [path] w) = - 4 \<and>
    detached (snd (run_line q (unix_platform q t) a s [path] w)) = detached w"
  using sendCmd_handled [OF assms(1-4) literals_sendable(4)] assms(5)
  by (simp add: run_line_def service_exec_def exec_start_def unix_platform_def unix_private_start_def handle_suspend)

lemma absent_service_started:
  assumes "connectTo (socketPath (user w) (controller_name s)) w = None" "\<not> run_env w"
    and "can_exec w (unix_filePath (disk w) [path])"
  shows "fst (run_line q (unix_platform q t) a s [path] w) = 0 \<and>
    detached (snd (run_line q (unix_platform q t) a s [path] w)) =
      detached w @ [(unix_filePath (disk w) [path], [], Some ''/'')] \<and>
    run_env (snd (run_line q (unix_platform q t) a s [path] w))"
  using assms
  by (simp add: run_line_def service_exec_def exec_start_def unix_platform_def unix_private_start_def sendCmd_def startDetached_def)

text \<open>A process that sets its path up takes the socket of a service that listens there.\<close>

lemma set_path_takes_socket:
  assumes "sysd (svc s) = Some sys" "length (c_str (socketPath (user (outside s)) (name_of s))) < sun_path_size"
  shows "connectTo (socketPath (user (outside s)) (name_of s)) (outside (unix_sysSetPath s)) = None"
  using assms
  by (auto simp: unix_sysSetPath_def setPath_def connectTo_def sun_path_def Let_def split_beta split: option.splits)

text \<open>A command list behind a request to stop, in one connection, is a call through the null pointer.\<close>

lemma commands_behind_terminate:
  assumes "\<not> flag_set flags CannotBeStopped"
  shows "template_calls e imm
    (fst (command_loop q app_path flags (''terminate'' @ crlf @ ''list:x'' @ crlf))) b = None"
proof -
  have l: "line_of (''terminate'' @ crlf @ ''list:x'' @ crlf) = Some (''terminate'', ''list:x'' @ crlf)"
    by (rule line_of_first) simp
  have "lines_of (''terminate'' @ crlf @ ''list:x'' @ crlf) = ([''terminate'', ''list:x''], [])"
    using l lines_of_one [of "''list:x''"] by (subst lines_of.simps) simp
  then have "fst (command_loop q app_path flags (''terminate'' @ crlf @ ''list:x'' @ crlf)) =
      [Call_stop, Call_quit, Call_commands [app_path, ''x'']]"
    using assms command_loop_lines [of "''terminate'' @ crlf @ ''list:x'' @ crlf" q app_path flags]
    by (simp add: handle_command_def)
  then show ?thesis by (simp add: commands_when_stopped_undefined)
qed

text \<open>What a client left unfinished is put in front of the next command, if its socket has the same place.\<close>

lemma unfinished_text_spoils_next:
  assumes "qtext_documented q"
  shows "slotReady q app_path n (''pause'' @ crlf) (sys_unix_new\<lparr>sys_flags := CanBeSuspended, cache := [n \<mapsto> ''x'']\<rparr>) =
    ([], [''false''], sys_unix_new\<lparr>sys_flags := CanBeSuspended, cache := [n \<mapsto> []]\<rparr>)"
proof -
  have "from_utf8 q (''pause'' @ crlf) = ''pause'' @ crlf"
    using qtext_documented.from_utf8_ascii [OF assms, of "''pause'' @ crlf"] by (simp add: ascii_def crlf_def)
  moreover have "lines_of (''xpause'' @ crlf) = ([''xpause''], [])" by (rule lines_of_one) simp
  ultimately show ?thesis
    using command_loop_lines [of "''xpause'' @ crlf" q app_path CanBeSuspended]
    by (simp add: slotReady_def cached_def handle_command_def answer_def)
qed

text \<open>A bar inside a command splits it.\<close>

lemma bar_splits_command:
  "handle_command q app_path flags (''list:'' @ join_with (CHR ''|'') [''a|b'']) = ([Call_commands [app_path, ''a'', ''b'']], True)"
  by (simp add: handle_command_def)

section \<open>Examples\<close>

lemma peer_sample_clean: "tidy (peer_sys peer_sample)"
  by (simp add: tidy_def peer_sample_def sys_unix_new_def cached_def)


definition service_env_sample :: service_env where
  "service_env_sample =
     \<lparr>log_thread_ends = True, log_object = logging_new False False, signals_kept = False, worker_methods = []\<rparr>"

theorem listed_commands_reach_worker_witness:
  "\<exists>pr'. run_line qtext_sample (unix_platform qtext_sample transport_sample) undefined (service_new [] ''svc'')
       [''/bin/svc'', ''-l'', ''stat'', ''7''] world_sample = (0, world_sample\<lparr>peers := (peers world_sample)(''/var/tmp/svc.u'' \<mapsto> pr')\<rparr>)"
proof -
  have nm: "controller_name (service_new [] ''svc'' :: sys_unix qt_service) = ''svc''" by (simp add: service_new_def service_name_of_def)
  have c: "connectTo (socketPath (user world_sample) (controller_name (service_new [] ''svc'' :: sys_unix qt_service))) world_sample =
      Some (''/var/tmp/svc.u'', peer_sample)"
    using world_sample_connects nm by simp
  obtain b obj where b: "template_calls service_env_sample False (peer_calls peer_sample) base_new = Some b"
    "srv_object b = Some obj"
    by (simp add: peer_sample_def base_start_def Let_def)
  have s: "\<forall>c \<in> set [''stat'', ''7'']. sendable c \<and> CHR ''|'' \<notin> set c" by (simp add: sendable_def ascii_def)
  show ?thesis
    using listed_commands_reach_worker [OF qtext_sample.qtext_documented_axioms
        transport_sample.transport_documented_axioms c peer_sample_clean _ _ s b, of undefined "''/bin/svc''"] by auto
qed

theorem controls_taken_in_order_witness:
  "fst (control_all qtext_sample transport_sample ''svc'' [Control_Code 5, Control_Pause, Control_List [''a'', ''b'']]
      world_sample) = [True, False, True]"
proof -
  have "flag_set (sys_flags (peer_sys peer_sample)) CanBeSuspended = False"
    by (simp add: flag_set_def peer_sample_def sys_unix_new_def)
  then show ?thesis
    using controls_taken_in_order [OF qtext_sample.qtext_documented_axioms
        transport_sample.transport_documented_axioms world_sample_connects peer_sample_clean,
        of "[Control_Code 5, Control_Pause, Control_List [''a'', ''b'']]"]
    by (simp add: int32_def sendable_def ascii_def)
qed

end
