(* ===== verification/Qt_Service_Win.thy ===== *)
theory Qt_Service_Win
  imports Qt_Service
begin

text \<open>
  \<open>qtservice/src/qtservice_win.cpp\<close>: services of the Windows service control manager. The
  manager is a database of services with the rights the process has; how it passes a control on, starts a
  service and lets time go by are its own functions, fields of the world.
\<close>

section \<open>The service control manager\<close>

datatype win_state =
    SERVICE_STOPPED | SERVICE_START_PENDING | SERVICE_STOP_PENDING | SERVICE_RUNNING
  | SERVICE_CONTINUE_PENDING | SERVICE_PAUSE_PENDING | SERVICE_PAUSED

datatype manager_access = SC_MANAGER_NONE | SC_MANAGER_CONNECT | SC_MANAGER_ALL_ACCESS

datatype service_access =
    SERVICE_QUERY_CONFIG | SERVICE_QUERY_STATUS | DELETE_ACCESS | SERVICE_START | SERVICE_STOP
  | SERVICE_PAUSE_CONTINUE | SERVICE_USER_DEFINED_CONTROL

datatype start_kind = SERVICE_AUTO_START | SERVICE_DEMAND_START

record win_service =
  service_state :: win_state
  bin_path :: string
  start_type :: start_kind
  service_type :: u32
  svc_account :: "string option"
  account_password :: "string option"
  description :: "string option"
  controls_got :: "nat list"

text \<open>What became of the dispatcher thread: see \<open>win_private_start\<close>.\<close>

datatype dispatcher_end = Dispatch_Timeout | From_Console | Dispatch_Failed | As_Service "string list"

record win_world =
  scm_lib :: bool
  scm_open :: "manager_access \<Rightarrow> bool"
  svc_open :: "service_access \<Rightarrow> bool"
  fold_name :: "string \<Rightarrow> string"
  services :: "string \<rightharpoonup> win_service"
  creatable :: "string \<Rightarrow> bool"
  control_fn :: "nat \<Rightarrow> win_service \<Rightarrow> (win_state \<times> win_service) option"
  query_fn :: "win_service \<Rightarrow> win_state option"
  later_fn :: "win_service \<Rightarrow> win_service"
  start_fn :: "string list \<Rightarrow> win_service \<Rightarrow> win_service option"
  module_path :: string
  dispatched :: dispatcher_end
  last_error :: string
  event_log :: "(string \<times> nat \<times> string \<times> bytes option) list"

text \<open>A name is a wide C string, and the manager does not tell upper and lower case apart.\<close>

definition scm_key :: "win_world \<Rightarrow> string \<Rightarrow> string" where
  "scm_key w nm = fold_name w (c_str nm)"

text \<open>
  \<open>winServiceInit\<close>, \<open>OpenSCManager\<close> and \<open>OpenService\<close>, as every
  function of the controller calls them: the service when all three succeed.
\<close>

definition open_service :: "win_world \<Rightarrow> manager_access \<Rightarrow> service_access list \<Rightarrow> string \<Rightarrow> win_service option" where
  "open_service w ma acc nm =
     (if scm_lib w \<and> scm_open w ma \<and> list_all (svc_open w) acc then services w (scm_key w nm) else None)"

definition put_service :: "string \<Rightarrow> win_service option \<Rightarrow> win_world \<Rightarrow> win_world" where
  "put_service nm s w = w\<lparr>services := (services w)(scm_key w nm := s)\<rparr>"

section \<open>The controller\<close>

definition win_isInstalled :: "string \<Rightarrow> win_world \<Rightarrow> bool" where
  "win_isInstalled nm w \<longleftrightarrow> open_service w SC_MANAGER_NONE [SERVICE_QUERY_CONFIG] nm \<noteq> None"

definition win_isRunning :: "string \<Rightarrow> win_world \<Rightarrow> bool" where
  "win_isRunning nm w =
     (case open_service w SC_MANAGER_NONE [SERVICE_QUERY_STATUS] nm of
        None \<Rightarrow> False
      | Some s \<Rightarrow> (case query_fn w s of None \<Rightarrow> False | Some st \<Rightarrow> st \<noteq> SERVICE_STOPPED))"

definition win_serviceFilePath :: "string \<Rightarrow> win_world \<Rightarrow> string" where
  "win_serviceFilePath nm w =
     (case open_service w SC_MANAGER_NONE [SERVICE_QUERY_CONFIG] nm of None \<Rightarrow> [] | Some s \<Rightarrow> bin_path s)"

definition win_serviceDescription :: "string \<Rightarrow> win_world \<Rightarrow> string" where
  "win_serviceDescription nm w =
     (case open_service w SC_MANAGER_NONE [SERVICE_QUERY_CONFIG] nm of
        None \<Rightarrow> []
      | Some s \<Rightarrow> (case description s of None \<Rightarrow> [] | Some d \<Rightarrow> d))"

definition win_startupType :: "string \<Rightarrow> win_world \<Rightarrow> startup_type" where
  "win_startupType nm w =
     (case open_service w SC_MANAGER_NONE [SERVICE_QUERY_CONFIG] nm of
        None \<Rightarrow> ManualStartup
      | Some s \<Rightarrow> if start_type s = SERVICE_DEMAND_START then ManualStartup else AutoStartup)"

text \<open>\<open>DeleteService\<close> removes a service that is stopped, other processes holding no handle of it; one that runs stays until it stops.\<close>

definition win_uninstall :: "string \<Rightarrow> win_world \<Rightarrow> bool \<times> win_world" where
  "win_uninstall nm w =
     (case open_service w SC_MANAGER_ALL_ACCESS [DELETE_ACCESS] nm of
        None \<Rightarrow> (False, w)
      | Some s \<Rightarrow> (True, if service_state s = SERVICE_STOPPED then put_service nm None w else w))"

definition win_start :: "string \<Rightarrow> string list \<Rightarrow> win_world \<Rightarrow> bool \<times> win_world" where
  "win_start nm as w =
     (case open_service w SC_MANAGER_CONNECT [SERVICE_START] nm of
        None \<Rightarrow> (False, w)
      | Some s \<Rightarrow> (case start_fn w as s of None \<Rightarrow> (False, w) | Some s \<Rightarrow> (True, put_service nm (Some s) w)))"

text \<open>The loop of \<open>stop\<close>, at most \<open>n\<close> more times: sleep, ask for the status.\<close>

fun stop_poll :: "win_world \<Rightarrow> nat \<Rightarrow> win_state \<Rightarrow> win_service \<Rightarrow> bool \<times> win_service" where
  "stop_poll w 0 st s = (st = SERVICE_STOPPED, s)"
| "stop_poll w (Suc n) st s =
     (if st = SERVICE_STOPPED then (True, s)
      else
        (let s = later_fn w s
         in case query_fn w s of None \<Rightarrow> (False, s) | Some st \<Rightarrow> stop_poll w n st s))"

definition SERVICE_CONTROL_STOP :: nat where "SERVICE_CONTROL_STOP = 1"
definition SERVICE_CONTROL_PAUSE :: nat where "SERVICE_CONTROL_PAUSE = 2"
definition SERVICE_CONTROL_CONTINUE :: nat where "SERVICE_CONTROL_CONTINUE = 3"
definition SERVICE_CONTROL_INTERROGATE :: nat where "SERVICE_CONTROL_INTERROGATE = 4"
definition SERVICE_CONTROL_SHUTDOWN :: nat where "SERVICE_CONTROL_SHUTDOWN = 5"
definition QTSERVICE_STARTUP :: nat where "QTSERVICE_STARTUP = 256"

lemmas control_codes = SERVICE_CONTROL_STOP_def SERVICE_CONTROL_PAUSE_def SERVICE_CONTROL_CONTINUE_def
  SERVICE_CONTROL_INTERROGATE_def SERVICE_CONTROL_SHUTDOWN_def QTSERVICE_STARTUP_def

definition win_stop :: "string \<Rightarrow> win_world \<Rightarrow> bool \<times> win_world" where
  "win_stop nm w =
     (case open_service w SC_MANAGER_CONNECT [SERVICE_STOP, SERVICE_QUERY_STATUS] nm of
        None \<Rightarrow> (False, w)
      | Some s \<Rightarrow>
          (case control_fn w SERVICE_CONTROL_STOP s of
             None \<Rightarrow> (False, w)
           | Some (st, s) \<Rightarrow> (let (stopped, s) = stop_poll w 10 st s in (stopped, put_service nm (Some s) w))))"

text \<open>\<open>ControlService\<close> with one control, as the rest of the controller uses it.\<close>

definition send_control :: "service_access \<Rightarrow> nat \<Rightarrow> string \<Rightarrow> win_world \<Rightarrow> bool \<times> win_world" where
  "send_control acc code nm w =
     (case open_service w SC_MANAGER_CONNECT [acc] nm of
        None \<Rightarrow> (False, w)
      | Some s \<Rightarrow>
          (case control_fn w code s of
             None \<Rightarrow> (False, w)
           | Some (st, s) \<Rightarrow> (True, put_service nm (Some s) w)))"

definition win_pause :: "string \<Rightarrow> win_world \<Rightarrow> bool \<times> win_world" where
  "win_pause = send_control SERVICE_PAUSE_CONTINUE SERVICE_CONTROL_PAUSE"

definition win_resume :: "string \<Rightarrow> win_world \<Rightarrow> bool \<times> win_world" where
  "win_resume = send_control SERVICE_PAUSE_CONTINUE SERVICE_CONTROL_CONTINUE"

definition win_sendCommand :: "string \<Rightarrow> int \<Rightarrow> win_world \<Rightarrow> bool \<times> win_world" where
  "win_sendCommand nm code w =
     (if code < 0 \<or> code > 127 \<or> \<not> win_isRunning nm w then (False, w)
      else send_control SERVICE_USER_DEFINED_CONTROL (128 + nat code) nm w)"

definition win_sendCommands :: "string \<Rightarrow> string list \<Rightarrow> win_world \<Rightarrow> bool \<times> win_world" where
  "win_sendCommands nm cmdList w =
     (if length cmdList = 0 \<or> \<not> win_isRunning nm w then (False, w)
      else send_control SERVICE_USER_DEFINED_CONTROL 129 nm w)"

section \<open>Installing\<close>

definition SERVICE_WIN32_OWN_PROCESS :: u32 where "SERVICE_WIN32_OWN_PROCESS = 0x10"
definition SERVICE_INTERACTIVE_PROCESS :: u32 where "SERVICE_INTERACTIVE_PROCESS = 0x100"

text \<open>The account the service gets: none for the local system, else one with a domain.\<close>

definition install_account :: "string \<Rightarrow> string option" where
  "install_account account =
     (let acc = account
      in if acc \<noteq> [] then
           (let acc = (if CHR 0x5C \<notin> set acc then ''.'' @ [CHR 0x5C] @ acc else acc)
            in if drop (length acc - 12) acc \<noteq> CHR 0x5C # ''LocalSystem'' then Some acc else None)
         else None)"

text \<open>
  \<open>GetModuleFileNameW\<close> is told the size of the buffer in bytes, twice the number of its characters: a path
  of \<open>_MAX_PATH\<close> characters or more is written past its end.
\<close>

definition MAX_PATH :: nat where "MAX_PATH = 260"

definition win_filePath :: "'s qt_service \<Rightarrow> win_world \<Rightarrow> string" where
  "win_filePath s w = take (2 * MAX_PATH - 1) (module_path w)"

definition win_install :: "'s qt_service \<Rightarrow> string \<Rightarrow> string \<Rightarrow> win_world \<Rightarrow> bool \<times> win_world" where
  "win_install s acc password w =
     (if scm_lib w \<and> scm_open w SC_MANAGER_ALL_ACCESS then
        (let act = install_account acc;
             pwd = (if password \<noteq> [] \<and> act \<noteq> None then Some (c_str password) else None);
             nm = controller_name s
         in if services w (scm_key w nm) = None \<and> creatable w (c_str nm) then
              (True, put_service nm (Some
                 \<lparr>service_state = SERVICE_STOPPED, bin_path = win_filePath s w,
                  start_type = (if startup_kind s = AutoStartup then SERVICE_AUTO_START else SERVICE_DEMAND_START),
                  service_type = (if act = None then SERVICE_WIN32_OWN_PROCESS OR SERVICE_INTERACTIVE_PROCESS
                    else SERVICE_WIN32_OWN_PROCESS),
                  svc_account = map_option c_str act, account_password = pwd,
                  description = (if service_description s \<noteq> [] then Some (c_str (service_description s)) else None),
                  controls_got = []\<rparr>) w)
            else (False, w))
      else (False, w))"

section \<open>The service\<close>

record sys_win =
  current_state :: win_state
  controls_accepted :: u32
  exit_status :: int

text \<open>The controls a service with some flags accepts.\<close>

definition SERVICE_ACCEPT_STOP :: u32 where "SERVICE_ACCEPT_STOP = 1"
definition SERVICE_ACCEPT_PAUSE_CONTINUE :: u32 where "SERVICE_ACCEPT_PAUSE_CONTINUE = 2"
definition SERVICE_ACCEPT_SHUTDOWN :: u32 where "SERVICE_ACCEPT_SHUTDOWN = 4"

definition win_serviceFlags :: "service_flags \<Rightarrow> u32" where
  "win_serviceFlags flags =
     (let control = 0;
          control = (if flag_set flags CanBeSuspended then control OR SERVICE_ACCEPT_PAUSE_CONTINUE else control);
          control = (if \<not> flag_set flags CannotBeStopped then control OR SERVICE_ACCEPT_STOP else control)
      in if flag_set flags NeedsStopOnShutdown then control OR SERVICE_ACCEPT_SHUTDOWN else control)"

text \<open>\<open>available\<close>: the library of the manager has been found.\<close>

definition sys_set_flags :: "bool \<Rightarrow> service_flags \<Rightarrow> sys_win \<Rightarrow> sys_win" where
  "sys_set_flags available flags s = (if \<not> available then s else s\<lparr>controls_accepted := win_serviceFlags flags\<rparr>)"

definition win_setServiceFlags :: "bool \<Rightarrow> service_flags \<Rightarrow> sys_win qt_service \<Rightarrow> sys_win qt_service" where
  "win_setServiceFlags available = setServiceFlags (sys_set_flags available)"

definition win_setStatus :: "bool \<Rightarrow> win_state \<Rightarrow> sys_win \<Rightarrow> sys_win" where
  "win_setStatus available st s = (if \<not> available then s else s\<lparr>current_state := st\<rparr>)"

definition win_sysInit :: "(sys_win, win_world) process \<Rightarrow> bool \<times> (sys_win, win_world) process" where
  "win_sysInit s =
     (True, s\<lparr>svc := (svc s)\<lparr>sysd := Some \<lparr>current_state = SERVICE_STOPPED,
        controls_accepted = win_serviceFlags (flags_of_service (svc s)), exit_status = 0\<rparr>\<rparr>\<rparr>)"

definition win_sysCleanup :: "(sys_win, win_world) process \<Rightarrow> (sys_win, win_world) process" where
  "win_sysCleanup s = s\<lparr>svc := (svc s)\<lparr>sysd := None\<rparr>\<rparr>"

definition EVENTLOG_SUCCESS :: nat where "EVENTLOG_SUCCESS = 0"
definition EVENTLOG_ERROR_TYPE :: nat where "EVENTLOG_ERROR_TYPE = 1"
definition EVENTLOG_WARNING_TYPE :: nat where "EVENTLOG_WARNING_TYPE = 2"
definition EVENTLOG_INFORMATION_TYPE :: nat where "EVENTLOG_INFORMATION_TYPE = 4"

definition win_logMessage :: "string \<Rightarrow> message_type \<Rightarrow> bytes \<Rightarrow> sys_win qt_service \<Rightarrow> win_world \<Rightarrow> win_world" where
  "win_logMessage message type data s w =
     (if \<not> scm_lib w then w
      else
        (let wType = (case type of Message_Error \<Rightarrow> EVENTLOG_ERROR_TYPE | Message_Warning \<Rightarrow> EVENTLOG_WARNING_TYPE
               | Message_Information \<Rightarrow> EVENTLOG_INFORMATION_TYPE | Message_Success \<Rightarrow> EVENTLOG_SUCCESS)
         in w\<lparr>event_log := event_log w @
              [(c_str (controller_name s), wType, c_str message, if data = [] then None else Some data)]\<rparr>))"

text \<open>
  \<open>start\<close> of the private part. The dispatcher thread calls \<open>serviceMain\<close> with the
  arguments of the service, or fails: because the program was started from a console, which asks the manager
  to start the service instead, or else.
\<close>

definition win_private_start :: "(sys_win, win_world) application \<Rightarrow> (sys_win, win_world) process \<Rightarrow>
    bool \<times> (sys_win, win_world) process" where
  "win_private_start a s =
     (let (_, s) = win_sysInit s
      in if \<not> scm_lib (outside s) then (False, s)
         else
           (case dispatched (outside s) of
              Dispatch_Timeout \<Rightarrow> (False, s)
            | From_Console \<Rightarrow>
                (let (ok, w) = win_start (name_of s) (drop 1 (args (svc s))) (outside s) in (ok, s\<lparr>outside := w\<rparr>))
            | Dispatch_Failed \<Rightarrow>
                (False, s\<lparr>outside := win_logMessage (''The Service failed to start ['' @ last_error (outside s) @ '']'') Message_Error [] (svc s) (outside s)\<rparr>)
            | As_Service serviceArgs \<Rightarrow>
                (let (app, s) = createApplication a serviceArgs s
                 in if \<not> app then (False, s)
                    else
                      (let (ec, s) = executeApplication a s;
                           s = s\<lparr>svc := (svc s)\<lparr>sysd := map_option
                             (\<lambda>y. win_setStatus (scm_lib (outside s)) SERVICE_STOPPED (y\<lparr>exit_status := ec\<rparr>)) (sysd (svc s))\<rparr>\<rparr>
                       in (True, win_sysCleanup s)))))"

definition win_platform :: "(sys_win, win_world) application \<Rightarrow> (sys_win, win_world) platform" where
  "win_platform a =
     \<lparr>is_unix = False, qtservice_run = (\<lambda>_. False), isInstalled = win_isInstalled, isRunning = win_isRunning,
      uninstall = win_uninstall, stop_service = win_stop, pause_service = win_pause, resume_service = win_resume,
      sendCommand = win_sendCommand, sendCommands = win_sendCommands, install = win_install, filePath = win_filePath,
      private_start = win_private_start a, sysInit = win_sysInit, sysSetPath = (\<lambda>s. s), sysCleanup = win_sysCleanup\<rparr>"

text \<open>The end of a user's session does not end the application.\<close>

definition WM_ENDSESSION :: nat where "WM_ENDSESSION = 0x16"
definition ENDSESSION_LOGOFF :: u32 where "ENDSESSION_LOGOFF = 0x80000000"

definition nativeEventFilter :: "nat \<Rightarrow> u32 \<Rightarrow> bool" where
  "nativeEventFilter message lParam \<longleftrightarrow> message = WM_ENDSESSION \<and> lParam AND ENDSESSION_LOGOFF \<noteq> 0"

section \<open>The installed services\<close>

definition win_good :: "win_world \<Rightarrow> string \<Rightarrow> bool" where
  "win_good w nm \<longleftrightarrow> scm_lib w \<and> scm_open w SC_MANAGER_NONE \<and> scm_open w SC_MANAGER_ALL_ACCESS \<and>
     svc_open w SERVICE_QUERY_CONFIG \<and> svc_open w DELETE_ACCESS \<and> creatable w (c_str nm) \<and>
     (case services w (scm_key w nm) of None \<Rightarrow> True | Some s \<Rightarrow> service_state s = SERVICE_STOPPED)"

definition win_alike :: "win_world \<Rightarrow> string \<Rightarrow> string \<Rightarrow> bool" where
  "win_alike w m n \<longleftrightarrow> scm_key w m = scm_key w n"

lemma put_service_simps [simp]:
  "services (put_service nm s w) = (services w)(scm_key w nm := s)"
  "scm_lib (put_service nm s w) = scm_lib w" "scm_open (put_service nm s w) = scm_open w"
  "svc_open (put_service nm s w) = svc_open w" "creatable (put_service nm s w) = creatable w"
  "fold_name (put_service nm s w) = fold_name w" "query_fn (put_service nm s w) = query_fn w"
  "module_path (put_service nm s w) = module_path w"
  by (simp_all add: put_service_def)

lemma scm_key_put [simp]: "scm_key (put_service nm s w) = scm_key w"
  by (simp add: scm_key_def fun_eq_iff)

lemma win_isInstalled_good: "win_good w nm \<Longrightarrow> win_isInstalled nm w \<longleftrightarrow> services w (scm_key w nm) \<noteq> None"
  by (simp add: win_isInstalled_def open_service_def win_good_def)

interpretation win_services: service_platform "win_platform a" win_good win_alike for a
proof unfold_locales
  fix w :: win_world and s :: "sys_win qt_service" and acc pw
  assume "win_good w (controller_name s)" "\<not> isInstalled (win_platform a) (controller_name s) w"
  then show "fst (install (win_platform a) s acc pw w) \<and>
      isInstalled (win_platform a) (controller_name s) (snd (install (win_platform a) s acc pw w))"
    by (simp add: win_platform_def win_install_def win_good_def win_isInstalled_def open_service_def Let_def)
next
  fix w n
  assume "win_good w n" "isInstalled (win_platform a) n w"
  then show "fst (uninstall (win_platform a) n w) \<and>
      \<not> isInstalled (win_platform a) n (snd (uninstall (win_platform a) n w))"
    by (auto simp: win_platform_def win_uninstall_def win_good_def win_isInstalled_def open_service_def)
next
  fix w :: win_world and s :: "sys_win qt_service" and acc pw n
  show "win_good (snd (install (win_platform a) s acc pw w)) n = win_good w n"
    by (simp add: win_platform_def win_install_def win_good_def Let_def)
next
  fix n w m
  show "win_good (snd (uninstall (win_platform a) n w)) m = win_good w m"
    by (auto simp: win_platform_def win_uninstall_def win_good_def open_service_def split: option.splits)
next
  fix w :: win_world and s :: "sys_win qt_service" and acc pw
  show "win_alike (snd (install (win_platform a) s acc pw w)) = win_alike w"
    by (simp add: win_platform_def win_install_def win_alike_def fun_eq_iff Let_def)
next
  fix n w
  show "win_alike (snd (uninstall (win_platform a) n w)) = win_alike w"
    by (auto simp: win_platform_def win_uninstall_def win_alike_def fun_eq_iff split: option.splits)
next
  fix w :: win_world and s :: "sys_win qt_service" and acc pw m
  assume "\<not> win_alike w (controller_name s) m"
  then show "isInstalled (win_platform a) m (snd (install (win_platform a) s acc pw w)) =
      isInstalled (win_platform a) m w"
    by (auto simp: win_platform_def win_install_def win_isInstalled_def open_service_def win_alike_def Let_def)
next
  fix w m n
  assume "\<not> win_alike w n m"
  then show "isInstalled (win_platform a) m (snd (uninstall (win_platform a) n w)) = isInstalled (win_platform a) m w"
    by (auto simp: win_platform_def win_uninstall_def win_isInstalled_def open_service_def win_alike_def
        split: option.splits)
qed

text \<open>
  Property C27.  The same on Windows: with the rights it needs, any sequence of \<open>-i\<close> and
  \<open>-u\<close> command lines of services that are stopped, whose names the manager tells apart, keeps
  the installed services among them as the specification does.
\<close>

theorem win_setup_refines_set:
  assumes "\<And>n. n \<in> N \<Longrightarrow> win_good w n" "inj_on (scm_key w) N"
    and "\<And>x. x \<in> set steps \<Longrightarrow> controller_name (fst x) \<in> N"
  shows "set (fst (setup_all q (win_platform a) b steps w)) \<subseteq> {0} \<and>
    {n \<in> N. win_isInstalled n (snd (setup_all q (win_platform a) b steps w))} =
      setup_spec steps {n \<in> N. win_isInstalled n w}"
  using win_services.setup_refines [of N w steps q a b] assms
  by (simp add: win_alike_def inj_on_eq_iff win_platform_def)

text \<open>What was asked for is installed: the startup type, the description and the program.\<close>

lemma win_install_read_back:
  assumes "win_good w (controller_name s)" "\<not> win_isInstalled (controller_name s) w"
  shows "win_startupType (controller_name s) (snd (win_install s acc pw w)) = startup_kind s \<and>
    win_serviceDescription (controller_name s) (snd (win_install s acc pw w)) = c_str (service_description s) \<and>
    win_serviceFilePath (controller_name s) (snd (win_install s acc pw w)) = win_filePath s w"
proof -
  have "services w (scm_key w (controller_name s)) = None" using assms by (simp add: win_isInstalled_good)
  then show ?thesis
    using assms(1)
    by (cases "startup_kind s")
      (simp_all add: win_good_def win_install_def win_startupType_def win_serviceDescription_def win_serviceFilePath_def
        open_service_def Let_def c_str_def)
qed

text \<open>An account is never without a domain, and the local system is no account.\<close>

lemma install_account_domain: "install_account acc = Some a \<Longrightarrow> CHR 0x5C \<in> set a"
  by (auto simp: install_account_def Let_def split: if_splits)

lemma install_account_local_system:
  "install_account [] = None" "install_account ''LocalSystem'' = None"
  "install_account (CHR 0x5C # ''LocalSystem'') = None"
  by (simp_all add: install_account_def Let_def)

section \<open>Controls\<close>

text \<open>\<open>stop\<close> says that the service stopped only when the last status it saw was that.\<close>

lemma stop_poll_stopped:
  "stop_poll w n st s = (True, s') \<Longrightarrow> st = SERVICE_STOPPED \<and> s' = s \<or> query_fn w s' = Some SERVICE_STOPPED"
  by (induction w n st s rule: stop_poll.induct) (auto simp: Let_def split: if_splits option.splits)

text \<open>A service that stops within the ten waits is seen to have stopped.\<close>

lemma stop_poll_waits:
  assumes "k \<le> n" "\<And>j. query_fn w ((later_fn w ^^ j) s) \<noteq> None"
    "query_fn w ((later_fn w ^^ k) s) = Some SERVICE_STOPPED" "query_fn w s = Some st"
  shows "fst (stop_poll w n st s)"
  using assms
proof (induction n arbitrary: k st s)
  case (Suc n)
  show ?case
  proof (cases "st = SERVICE_STOPPED")
    case False
    then obtain k' where k: "k = Suc k'" using Suc.prems(3,4) by (cases k) auto
    obtain st' where st': "query_fn w (later_fn w s) = Some st'" using Suc.prems(2) [of 1] by auto
    have "query_fn w ((later_fn w ^^ j) (later_fn w s)) \<noteq> None" for j
      using Suc.prems(2) [of "Suc j"] by (simp add: funpow_swap1)
    moreover have "query_fn w ((later_fn w ^^ k') (later_fn w s)) = Some SERVICE_STOPPED"
      using Suc.prems(3) k by (simp add: funpow_swap1)
    ultimately have "fst (stop_poll w n st' (later_fn w s))"
      using Suc.IH [of k' "later_fn w s" st'] Suc.prems(1) k st' by simp
    then show ?thesis using False st' by simp
  qed simp
qed simp

text \<open>A command list is not sent: the service gets the control of the command 1, whatever the list.\<close>

lemma win_sendCommands_is_command_1:
  assumes "cmds \<noteq> []"
  shows "win_sendCommands nm cmds w = win_sendCommand nm 1 w"
  using assms by (simp add: win_sendCommands_def win_sendCommand_def)

lemma win_sendCommand_range: "\<not> (0 \<le> code \<and> code \<le> 127) \<Longrightarrow> win_sendCommand nm code w = (False, w)"
  by (auto simp: win_sendCommand_def)

lemma accepted_controls:
  "win_serviceFlags flags AND SERVICE_ACCEPT_STOP \<noteq> 0 \<longleftrightarrow> \<not> flag_set flags CannotBeStopped"
  "win_serviceFlags flags AND SERVICE_ACCEPT_PAUSE_CONTINUE \<noteq> 0 \<longleftrightarrow> flag_set flags CanBeSuspended"
  "win_serviceFlags flags AND SERVICE_ACCEPT_SHUTDOWN \<noteq> 0 \<longleftrightarrow> flag_set flags NeedsStopOnShutdown"
  by (simp_all add: win_serviceFlags_def SERVICE_ACCEPT_STOP_def SERVICE_ACCEPT_PAUSE_CONTINUE_def
      SERVICE_ACCEPT_SHUTDOWN_def Let_def)

section \<open>Examples\<close>

definition win_sample :: win_world where
  "win_sample =
     \<lparr>scm_lib = True, scm_open = (\<lambda>_. True), svc_open = (\<lambda>_. True), fold_name = id, services = Map.empty,
      creatable = (\<lambda>_. True), control_fn = (\<lambda>c s. Some (SERVICE_STOPPED, s)), query_fn = (\<lambda>s. Some (service_state s)),
      later_fn = id, start_fn = (\<lambda>as s. Some (s\<lparr>service_state := SERVICE_RUNNING\<rparr>)), module_path = ''C:svc.exe'',
      dispatched = From_Console, last_error = [], event_log = []\<rparr>"

theorem win_setup_refines_set_witness:
  "{n \<in> {''a'', ''b''}. win_isInstalled n (snd (setup_all qtext_sample (win_platform undefined) undefined
     [(service_new [] ''a'', [], Run_Install [] []), (service_new [] ''b'', [], Run_Install ''u'' ''p''),
      (service_new [] ''a'', [], Run_Uninstall)] win_sample))} = {''b''}"
proof -
  let ?steps = "[(service_new [] ''a'', [], Run_Install [] []), (service_new [] ''b'', [], Run_Install ''u'' ''p''),
      (service_new [] ''a'', [], Run_Uninstall)]"
  have n: "controller_name (service_new [] ''a'') = ''a''" "controller_name (service_new [] ''b'') = ''b''"
    by (simp_all add: service_new_def service_name_of_def)
  have g: "n \<in> {''a'', ''b''} \<Longrightarrow> win_good win_sample n" for n
    by (auto simp: win_good_def win_sample_def scm_key_def c_str_def)
  have i: "inj_on (scm_key win_sample) {''a'', ''b''}"
    by (simp add: scm_key_def win_sample_def c_str_def)
  have st: "x \<in> set ?steps \<Longrightarrow> controller_name (fst x) \<in> {''a'', ''b''}" for x by (auto simp: n)
  have e: "{n \<in> {''a'', ''b''}. win_isInstalled n win_sample} = {}"
    by (auto simp: win_isInstalled_def open_service_def win_sample_def)
  have "setup_spec ?steps {} = {''b''}" by (auto simp: n)
  then show ?thesis
    using win_setup_refines_set [OF g i st, of ?steps qtext_sample undefined undefined] unfolding e by simp
qed

end
