(* ===== verification/Qt_Service_Threads.thy ===== *)
theory Qt_Service_Threads
  imports Qt_Service_Win
begin

text \<open>
  The threads of a Windows service (\<open>qtservice_win.cpp\<close>): the main thread with the event loop,
  the thread that runs \<open>serviceMain\<close>, and the threads in which the system calls
  \<open>handler\<close>. They share a mutex, a condition, two semaphores and the queue of posted events.
  One step of a thread lies between two of its operations on these.
\<close>

section \<open>Handler and event\<close>

text \<open>The calls of \<open>handleCustomEvent\<close>.\<close>

definition event_calls :: "nat \<Rightarrow> service_call list" where
  "event_calls code =
     (if code = QTSERVICE_STARTUP then [Call_start]
      else if code = SERVICE_CONTROL_STOP then [Call_stop, Call_quit]
      else if code = SERVICE_CONTROL_PAUSE then [Call_pause]
      else if code = SERVICE_CONTROL_CONTINUE then [Call_resume]
      else if 128 \<le> code \<and> code \<le> 255 then [Call_command (int code - 128)]
      else [])"

text \<open>
  The branches of \<open>handler\<close>: the status that is set first, the event that is posted and waited
  for, and the status that is set after it.
\<close>

definition pending_status :: "nat \<Rightarrow> win_state option" where
  "pending_status code =
     (if code = QTSERVICE_STARTUP then Some SERVICE_START_PENDING
      else if code = SERVICE_CONTROL_STOP then Some SERVICE_STOP_PENDING
      else if code = SERVICE_CONTROL_PAUSE then Some SERVICE_PAUSE_PENDING
      else if code = SERVICE_CONTROL_CONTINUE then Some SERVICE_CONTINUE_PENDING
      else None)"

definition event_of :: "nat \<Rightarrow> nat option" where
  "event_of code =
     (if code = QTSERVICE_STARTUP \<or> code = SERVICE_CONTROL_STOP \<or> code = SERVICE_CONTROL_PAUSE \<or>
         code = SERVICE_CONTROL_CONTINUE then Some code
      else if code = SERVICE_CONTROL_INTERROGATE then None
      else if code = SERVICE_CONTROL_SHUTDOWN then Some SERVICE_CONTROL_STOP
      else if 128 \<le> code \<and> code \<le> 255 then Some code
      else None)"

definition final_status :: "nat \<Rightarrow> win_state option" where
  "final_status code =
     (if code = QTSERVICE_STARTUP then Some SERVICE_RUNNING
      else if code = SERVICE_CONTROL_PAUSE then Some SERVICE_PAUSED
      else if code = SERVICE_CONTROL_CONTINUE then Some SERVICE_RUNNING
      else None)"

section \<open>States\<close>

text \<open>
  A thread that runs \<open>handler\<close> with a code: before the lock, with the lock, with the event
  posted, waiting, woken, and before the last report. Thread 0 runs \<open>serviceMain\<close> first.
\<close>

datatype handler_phase =
    H_Idle
  | SM_Begin
  | SM_Wait
  | H_Enter nat
  | H_Locked nat
  | H_Posted nat
  | H_Waiting nat
  | H_Woken nat
  | H_Report

datatype main_phase = M_Wait | M_Loop | M_Handled | M_Locked | M_Exit | M_Done

datatype agent = Main_Thread | Handler_Thread nat

datatype win_effect =
    Status win_state
  | Handled nat
  | Calls "service_call list"
  | Passed nat

record win_run =
  run_status :: win_state
  mutex :: "agent option"
  event_queue :: "nat list"
  main_at :: main_phase
  handlers :: "nat \<Rightarrow> handler_phase"
  start_sem :: nat
  start_sem2 :: nat
  has_handler :: bool
  quitting :: bool
  null_post :: bool
  run_effects :: "win_effect list"

definition win_run_new :: win_run where
  "win_run_new =
     \<lparr>run_status = SERVICE_STOPPED, mutex = None, event_queue = [], main_at = M_Wait,
      handlers = (\<lambda>i. if i = 0 then SM_Begin else H_Idle), start_sem = 0, start_sem2 = 0, has_handler = False,
      quitting = False, null_post = False, run_effects = []\<rparr>"

text \<open>\<open>setStatus\<close>, when there is a status to set.\<close>

definition set_status :: "win_state option \<Rightarrow> win_run \<Rightarrow> win_run" where
  "set_status st s =
     (case st of None \<Rightarrow> s | Some st \<Rightarrow> s\<lparr>run_status := st, run_effects := run_effects s @ [Status st]\<rparr>)"

definition at_phase :: "nat \<Rightarrow> handler_phase \<Rightarrow> win_run \<Rightarrow> win_run" where
  "at_phase i ph s = s\<lparr>handlers := (handlers s)(i := ph)\<rparr>"

text \<open>
  \<open>serial\<close>: the system calls the handler only when no other call of it is under way. The main
  thread handles no event after \<open>quit\<close>.
\<close>

inductive win_step :: "bool \<Rightarrow> win_run \<Rightarrow> win_run \<Rightarrow> bool" for serial :: bool where
  service_main: "handlers s 0 = SM_Begin \<Longrightarrow>
    win_step serial s (at_phase 0 SM_Wait (s\<lparr>start_sem := start_sem s + 1\<rparr>))"
| service_main_registers: "handlers s 0 = SM_Wait \<Longrightarrow> start_sem2 s > 0 \<Longrightarrow>
    win_step serial s (at_phase 0 (H_Enter QTSERVICE_STARTUP) (s\<lparr>start_sem2 := start_sem2 s - 1\<rparr>))"
| control: "handlers s i = H_Idle \<Longrightarrow> handlers s 0 \<noteq> SM_Begin \<Longrightarrow> handlers s 0 \<noteq> SM_Wait \<Longrightarrow>
    (serial \<Longrightarrow> \<forall>j. handlers s j = H_Idle) \<Longrightarrow> code \<noteq> QTSERVICE_STARTUP \<Longrightarrow>
    win_step serial s (at_phase i (H_Enter code) s)"
| handler_locks: "handlers s i = H_Enter code \<Longrightarrow> mutex s = None \<Longrightarrow> event_of code = Some e \<Longrightarrow>
    win_step serial s (at_phase i (H_Locked code) (set_status (pending_status code) (s\<lparr>mutex := Some (Handler_Thread i)\<rparr>)))"
| handler_ignores: "handlers s i = H_Enter code \<Longrightarrow> mutex s = None \<Longrightarrow> event_of code = None \<Longrightarrow>
    win_step serial s (at_phase i H_Report s)"
| handler_posts: "handlers s i = H_Locked code \<Longrightarrow> event_of code = Some e \<Longrightarrow>
    win_step serial s (at_phase i (H_Posted code)
      (s\<lparr>event_queue := event_queue s @ [e], null_post := null_post s \<or> \<not> has_handler s\<rparr>))"
| handler_waits: "handlers s i = H_Posted code \<Longrightarrow>
    win_step serial s (at_phase i (H_Waiting code) (s\<lparr>mutex := None\<rparr>))"
| handler_woken: "handlers s i = H_Woken code \<Longrightarrow> mutex s = None \<Longrightarrow>
    win_step serial s (at_phase i H_Report
      (set_status (final_status code) (s\<lparr>run_effects := run_effects s @ [Passed code]\<rparr>)))"
| handler_reports: "handlers s i = H_Report \<Longrightarrow>
    win_step serial s (at_phase i H_Idle
      (if run_status s \<noteq> SERVICE_STOPPED then s\<lparr>run_effects := run_effects s @ [Status (run_status s)]\<rparr> else s))"
| main_creates: "main_at s = M_Wait \<Longrightarrow> start_sem s > 0 \<Longrightarrow>
    win_step serial s (s\<lparr>main_at := M_Loop, start_sem := start_sem s - 1, has_handler := True, start_sem2 := start_sem2 s + 1\<rparr>)"
| main_handles: "main_at s = M_Loop \<Longrightarrow> \<not> quitting s \<Longrightarrow> event_queue s = e # es \<Longrightarrow>
    win_step serial s (s\<lparr>main_at := M_Handled, event_queue := es, run_effects := run_effects s @ [Calls (event_calls e), Handled e],
      quitting := (Call_quit \<in> set (event_calls e))\<rparr>)"
| main_locks: "main_at s = M_Handled \<Longrightarrow> mutex s = None \<Longrightarrow>
    win_step serial s (s\<lparr>main_at := M_Locked, mutex := Some Main_Thread\<rparr>)"
| main_wakes: "main_at s = M_Locked \<Longrightarrow>
    win_step serial s (s\<lparr>main_at := M_Loop, mutex := None,
      handlers := (\<lambda>i. case handlers s i of H_Waiting code \<Rightarrow> H_Woken code | ph \<Rightarrow> ph)\<rparr>)"
| main_exits: "main_at s = M_Loop \<Longrightarrow> quitting s \<Longrightarrow>
    win_step serial s (set_status (Some SERVICE_STOPPED) (s\<lparr>main_at := M_Exit\<rparr>))"
| main_cleans: "main_at s = M_Exit \<Longrightarrow> win_step serial s (s\<lparr>main_at := M_Done, has_handler := False\<rparr>)"

inductive win_reachable :: "bool \<Rightarrow> win_run \<Rightarrow> bool" for serial :: bool where
  win_start_state: "win_reachable serial win_run_new"
| win_one_step: "win_reachable serial s \<Longrightarrow> win_step serial s t \<Longrightarrow> win_reachable serial t"

inductive_cases win_stepE: "win_step serial s t"

section \<open>No wake-up is lost\<close>

lemma set_status_simps [simp]:
  "mutex (set_status st s) = mutex s" "event_queue (set_status st s) = event_queue s" "main_at (set_status st s) = main_at s"
  "handlers (set_status st s) = handlers s" "has_handler (set_status st s) = has_handler s"
  "null_post (set_status st s) = null_post s" "start_sem2 (set_status st s) = start_sem2 s"
  "start_sem (set_status st s) = start_sem s" "quitting (set_status st s) = quitting s"
  by (simp_all add: set_status_def split: option.split)

lemma at_phase_simps [simp]:
  "mutex (at_phase i ph s) = mutex s" "event_queue (at_phase i ph s) = event_queue s" "main_at (at_phase i ph s) = main_at s"
  "handlers (at_phase i ph s) = (handlers s)(i := ph)" "has_handler (at_phase i ph s) = has_handler s"
  "null_post (at_phase i ph s) = null_post s" "start_sem2 (at_phase i ph s) = start_sem2 s"
  "start_sem (at_phase i ph s) = start_sem s" "quitting (at_phase i ph s) = quitting s"
  "run_effects (at_phase i ph s) = run_effects s"
  by (simp_all add: at_phase_def)

definition holds_lock :: "handler_phase \<Rightarrow> bool" where
  "holds_lock ph = (case ph of H_Locked c \<Rightarrow> True | H_Posted c \<Rightarrow> True | _ \<Rightarrow> False)"

definition awaits :: "handler_phase \<Rightarrow> bool" where
  "awaits ph = (case ph of H_Posted c \<Rightarrow> True | H_Waiting c \<Rightarrow> True | _ \<Rightarrow> False)"

lemma holds_lock_simps [simp]:
  "\<not> holds_lock H_Idle" "\<not> holds_lock SM_Begin" "\<not> holds_lock SM_Wait" "\<not> holds_lock (H_Enter c)" "holds_lock (H_Locked c)"
  "holds_lock (H_Posted c)" "\<not> holds_lock (H_Waiting c)" "\<not> holds_lock (H_Woken c)" "\<not> holds_lock H_Report"
  by (simp_all add: holds_lock_def)

lemma awaits_simps [simp]:
  "\<not> awaits H_Idle" "\<not> awaits SM_Begin" "\<not> awaits SM_Wait" "\<not> awaits (H_Enter c)" "\<not> awaits (H_Locked c)"
  "awaits (H_Posted c)" "awaits (H_Waiting c)" "\<not> awaits (H_Woken c)" "\<not> awaits H_Report"
  by (simp_all add: awaits_def)

text \<open>The mutex is held by the thread that says so.\<close>

definition lock_inv :: "win_run \<Rightarrow> bool" where
  "lock_inv s \<longleftrightarrow>
     (\<forall>i. holds_lock (handlers s i) \<longleftrightarrow> mutex s = Some (Handler_Thread i)) \<and>
     (main_at s = M_Locked \<longleftrightarrow> mutex s = Some Main_Thread) \<and>
     (\<forall>i c. handlers s i = H_Locked c \<longrightarrow> event_of c \<noteq> None)"

lemma woken_phase [simp]:
  "holds_lock (case ph of H_Waiting code \<Rightarrow> H_Woken code | ph \<Rightarrow> ph) = holds_lock ph"
  "awaits (case ph of H_Waiting code \<Rightarrow> H_Woken code | ph \<Rightarrow> ph) \<longleftrightarrow> awaits ph \<and> holds_lock ph"
  "(case ph of H_Waiting code \<Rightarrow> H_Woken code | ph \<Rightarrow> ph) = H_Locked c \<longleftrightarrow> ph = H_Locked c"
  by (cases ph; simp)+

lemma lock_inv_owner: "lock_inv s \<Longrightarrow> handlers s i = ph \<Longrightarrow> mutex s = Some (Handler_Thread i) \<longleftrightarrow> holds_lock ph"
  by (metis lock_inv_def)

lemma lock_inv_step:
  assumes "win_step serial s t" and inv: "lock_inv s"
  shows "lock_inv t"
  using assms(1)
proof cases
  case (handler_waits i code)
  then have "mutex s = Some (Handler_Thread i)" using lock_inv_owner [OF inv] by simp
  then show ?thesis using inv handler_waits by (auto simp: lock_inv_def)
next
  case (handler_posts i code e)
  then have "mutex s = Some (Handler_Thread i)" using lock_inv_owner [OF inv] by simp
  then show ?thesis using inv handler_posts by (auto simp: lock_inv_def)
next
  case (control i code)
  then have "mutex s \<noteq> Some (Handler_Thread i)" using lock_inv_owner [OF inv, of i] by simp
  then show ?thesis using inv control by (auto simp: lock_inv_def)
next
  case (handler_reports i)
  then have "mutex s \<noteq> Some (Handler_Thread i)" using lock_inv_owner [OF inv, of i] by simp
  then show ?thesis using inv handler_reports by (auto simp: lock_inv_def)
next
  case service_main
  then have "mutex s \<noteq> Some (Handler_Thread 0)" using lock_inv_owner [OF inv, of 0] by simp
  then show ?thesis using inv service_main by (auto simp: lock_inv_def)
next
  case service_main_registers
  then have "mutex s \<noteq> Some (Handler_Thread 0)" using lock_inv_owner [OF inv, of 0] by simp
  then show ?thesis using inv service_main_registers by (auto simp: lock_inv_def)
qed (use inv in \<open>auto simp: lock_inv_def\<close>)

definition wake_inv :: "win_run \<Rightarrow> bool" where
  "wake_inv s \<longleftrightarrow> (\<forall>i. awaits (handlers s i) \<longrightarrow> event_queue s \<noteq> [] \<or> main_at s = M_Handled \<or> main_at s = M_Locked)"

lemma wake_inv_step: "win_step serial s t \<Longrightarrow> lock_inv s \<Longrightarrow> wake_inv s \<Longrightarrow> wake_inv t"
  by (erule win_stepE)
    (auto simp: lock_inv_def wake_inv_def split: if_splits, (metis awaits_simps(6))+)

lemma win_reachable_wake: "win_reachable serial s \<Longrightarrow> lock_inv s \<and> wake_inv s"
proof (induction rule: win_reachable.induct)
  case win_start_state
  show ?case by (simp add: win_run_new_def lock_inv_def wake_inv_def)
qed (blast intro: lock_inv_step wake_inv_step)

text \<open>A waiting thread can be woken within some number of steps.\<close>

definition woken_within :: "bool \<Rightarrow> nat \<Rightarrow> nat \<Rightarrow> nat \<Rightarrow> win_run \<Rightarrow> bool" where
  "woken_within serial i code n s \<longleftrightarrow>
     (\<exists>m \<le> n. \<exists>t. (win_step serial ^^ m) s t \<and> handlers t i = H_Woken code)"

lemma woken_within_step:
  assumes "win_step serial s t" "woken_within serial i code n t"
  shows "woken_within serial i code (Suc n) s"
proof -
  obtain m u where "m \<le> n" "(win_step serial ^^ m) t u" "handlers u i = H_Woken code"
    using assms(2) by (auto simp: woken_within_def)
  moreover from this have "(win_step serial ^^ Suc m) s u" using assms(1) by (blast intro: relpowp_Suc_I2)
  ultimately show ?thesis unfolding woken_within_def by (metis Suc_le_mono)
qed

lemma woken_within_more: "woken_within serial i code m s \<Longrightarrow> m \<le> n \<Longrightarrow> woken_within serial i code n s"
  by (auto simp: woken_within_def intro: order_trans)

lemma woken_from_locked:
  assumes "main_at s = M_Locked" "handlers s i = H_Waiting code"
  shows "woken_within serial i code 1 s"
  using woken_within_step [OF main_wakes [OF assms(1), of serial], of i code 0] assms(2)
  by (simp add: woken_within_def)

lemma woken_from_free:
  assumes "main_at s = M_Handled" "mutex s = None" "handlers s i = H_Waiting code"
  shows "woken_within serial i code 2 s"
  using woken_within_step [OF main_locks [OF assms(1,2), of serial], of i code 1] woken_from_locked assms(3)
  by (simp add: numeral_2_eq_2)

lemma woken_from_handled:
  assumes "lock_inv s" "main_at s = M_Handled" "handlers s i = H_Waiting code"
  shows "woken_within serial i code 4 s"
proof (cases "mutex s")
  case None
  show ?thesis using woken_from_free [OF assms(2) None assms(3)] by (rule woken_within_more) simp
next
  case (Some a)
  then obtain j where j: "mutex s = Some (Handler_Thread j)"
    using assms(1,2) by (cases a) (auto simp: lock_inv_def)
  then have h: "holds_lock (handlers s j)" and ij: "i \<noteq> j"
    using assms(3) lock_inv_owner [OF assms(1), of j] by auto
  have posted: "woken_within serial i code 3 u"
    if "handlers u j = H_Posted c" "main_at u = M_Handled" "handlers u i = H_Waiting code" for u c
    using woken_within_step [OF handler_waits [OF that(1), of serial], of i code 2]
      woken_from_free [of "at_phase j (H_Waiting c) (u\<lparr>mutex := None\<rparr>)" i code serial] that(2,3) ij
    by (simp add: numeral_3_eq_3 numeral_2_eq_2)
  show ?thesis
  proof (cases "handlers s j")
    case (H_Locked c)
    then obtain e where "event_of c = Some e" using assms(1) unfolding lock_inv_def by blast
    from woken_within_step [OF handler_posts [OF H_Locked this, of serial], of i code 3] posted [of _ c] assms(2,3) ij
    show ?thesis by (simp add: eval_nat_numeral)
  next
    case (H_Posted c)
    show ?thesis by (rule woken_within_more [OF posted [OF H_Posted assms(2,3)]]) simp
  qed (use h in simp_all)
qed

text \<open>
  Property C29.  No wake-up of a Windows service's handler is lost, however many handlers the system runs at
  once: while one waits, an event is still queued or the main thread has handled one and is about to wake
  all that wait; and as long as the event loop runs and was not told to quit, at most five steps, of the
  main thread and of a thread that holds the mutex, lead to the wake-up.
\<close>

theorem win_wakeup_not_lost:
  assumes "win_reachable serial s" "handlers s i = H_Waiting code"
  shows "(event_queue s \<noteq> [] \<or> main_at s = M_Handled \<or> main_at s = M_Locked) \<and>
    (main_at s \<in> {M_Loop, M_Handled, M_Locked} \<and> \<not> quitting s \<longrightarrow>
      (\<exists>n \<le> 5. \<exists>t. (win_step serial ^^ n) s t \<and> handlers t i = H_Woken code))"
proof -
  have inv: "lock_inv s" "wake_inv s" using win_reachable_wake [OF assms(1)] by simp_all
  have ev: "event_queue s \<noteq> [] \<or> main_at s = M_Handled \<or> main_at s = M_Locked"
    using inv(2) assms(2) unfolding wake_inv_def by (metis awaits_simps(7))
  have "woken_within serial i code 5 s" if m: "main_at s \<in> {M_Loop, M_Handled, M_Locked}" and q: "\<not> quitting s"
  proof -
    consider "main_at s = M_Loop" | "main_at s = M_Handled" | "main_at s = M_Locked" using m by blast
    then show ?thesis
    proof cases
      case 1
      then obtain e es where e: "event_queue s = e # es" using ev by (cases "event_queue s") auto
      let ?t = "s\<lparr>main_at := M_Handled, event_queue := es, run_effects := run_effects s @ [Calls (event_calls e), Handled e],
        quitting := (Call_quit \<in> set (event_calls e))\<rparr>"
      have st: "win_step serial s ?t" by (rule main_handles [OF 1 q e])
      from woken_within_step [OF st, of i code 4] woken_from_handled [OF lock_inv_step [OF st inv(1)], of i code serial] assms(2)
      show ?thesis by (simp add: eval_nat_numeral)
    next
      case 2
      show ?thesis using woken_from_handled [OF inv(1) 2 assms(2)] by (rule woken_within_more) simp
    next
      case 3
      show ?thesis using woken_from_locked [OF 3 assms(2)] by (rule woken_within_more) simp
    qed
  qed
  then show ?thesis using ev by (simp add: woken_within_def)
qed

section \<open>The object that takes the events\<close>

definition live_inv :: "win_run \<Rightarrow> bool" where
  "live_inv s \<longleftrightarrow>
     (null_post s \<longrightarrow> main_at s = M_Done) \<and>
     (main_at s = M_Done \<or> has_handler s \<or>
      start_sem2 s = 0 \<and> (handlers s 0 = SM_Begin \<or> handlers s 0 = SM_Wait) \<and> (\<forall>i. i \<noteq> 0 \<longrightarrow> handlers s i = H_Idle))"

lemma live_inv_step:
  assumes "win_step serial s t" and inv: "live_inv s"
  shows "live_inv t"
  using assms(1)
proof cases
  case (handler_posts i code e)
  then have "handlers s i \<noteq> H_Idle" "handlers s i \<noteq> SM_Begin" "handlers s i \<noteq> SM_Wait" by simp_all
  then have "main_at s = M_Done \<or> has_handler s" using inv unfolding live_inv_def by metis
  then show ?thesis using inv handler_posts by (auto simp: live_inv_def)
next
  case (handler_locks i code e)
  then have "handlers s i \<noteq> H_Idle" "handlers s i \<noteq> SM_Begin" "handlers s i \<noteq> SM_Wait" by simp_all
  then have "main_at s = M_Done \<or> has_handler s" using inv unfolding live_inv_def by metis
  then show ?thesis using inv handler_locks by (auto simp: live_inv_def)
next
  case (main_wakes)
  then show ?thesis using inv by (auto simp: live_inv_def)
qed (use inv in \<open>auto simp: live_inv_def split: if_splits\<close>)

text \<open>
  The semaphores keep the start in order: no event is posted before the object that takes it has been made, nor after
  it, until the main thread has left its loop and deleted it.
\<close>

lemma win_no_null_post: "win_reachable serial s \<Longrightarrow> null_post s \<Longrightarrow> main_at s = M_Done"
proof -
  have "win_reachable serial s \<Longrightarrow> live_inv s" for s
  proof (induction rule: win_reachable.induct)
    case win_start_state
    show ?case by (simp add: win_run_new_def live_inv_def)
  qed (blast intro: live_inv_step)
  then show "win_reachable serial s \<Longrightarrow> null_post s \<Longrightarrow> main_at s = M_Done" by (auto simp: live_inv_def)
qed

section \<open>One control at a time\<close>

text \<open>Reads the effects: an event that was handled is passed by its handler before the next one is handled.\<close>

fun settle_one :: "nat option \<Rightarrow> win_effect \<Rightarrow> nat option option" where
  "settle_one None (Handled e) = Some (Some e)"
| "settle_one (Some e) (Passed c) = (if event_of c = Some e then Some None else None)"
| "settle_one (Some d) (Handled e) = None"
| "settle_one None (Passed c) = None"
| "settle_one h x = Some h"

fun settle_all :: "nat option \<Rightarrow> win_effect list \<Rightarrow> nat option option" where
  "settle_all h [] = Some h"
| "settle_all h (x # xs) = Option.bind (settle_one h x) (\<lambda>h. settle_all h xs)"

lemma settle_all_append: "settle_all h (xs @ ys) = Option.bind (settle_all h xs) (\<lambda>h. settle_all h ys)"
proof (induction xs arbitrary: h)
  case (Cons x xs)
  then show ?case by (cases "settle_one h x") simp_all
qed simp

lemma settle_set_status: "settle_all h (run_effects (set_status st s)) = settle_all h (run_effects s)"
  by (auto simp: set_status_def settle_all_append split: option.split bind_splits)

fun serial_at :: "handler_phase \<Rightarrow> win_run \<Rightarrow> nat option \<Rightarrow> bool" where
  "serial_at (H_Posted c) s h =
     (\<exists>e. event_of c = Some e \<and>
       (event_queue s = [e] \<and> h = None \<and> main_at s \<noteq> M_Handled \<and> main_at s \<noteq> M_Locked \<or>
        event_queue s = [] \<and> h = Some e \<and> (main_at s = M_Handled \<or> main_at s = M_Locked)))"
| "serial_at (H_Waiting c) s h =
     (\<exists>e. event_of c = Some e \<and>
       (event_queue s = [e] \<and> h = None \<and> main_at s \<noteq> M_Handled \<and> main_at s \<noteq> M_Locked \<or>
        event_queue s = [] \<and> h = Some e \<and> (main_at s = M_Handled \<or> main_at s = M_Locked)))"
| "serial_at (H_Woken c) s h =
     (\<exists>e. event_of c = Some e \<and> event_queue s = [] \<and> h = Some e \<and> main_at s \<noteq> M_Handled \<and> main_at s \<noteq> M_Locked)"
| "serial_at ph s h = (event_queue s = [] \<and> h = None \<and> main_at s \<noteq> M_Handled \<and> main_at s \<noteq> M_Locked)"

definition serial_inv :: "win_run \<Rightarrow> bool" where
  "serial_inv s \<longleftrightarrow>
     (\<exists>i h. (\<forall>j. j \<noteq> i \<longrightarrow> handlers s j = H_Idle) \<and> settle_all None (run_effects s) = Some h \<and> serial_at (handlers s i) s h)"

lemma serial_invI:
  "(\<And>j. j \<noteq> i \<Longrightarrow> handlers s j = H_Idle) \<Longrightarrow> settle_all None (run_effects s) = Some h \<Longrightarrow> serial_at (handlers s i) s h \<Longrightarrow>
   serial_inv s"
  by (auto simp: serial_inv_def)

lemma serial_inv_step:
  assumes "win_step True s t" and l: "lock_inv s" and inv: "serial_inv s"
  shows "serial_inv t"
proof -
  obtain i h where o: "\<And>j. j \<noteq> i \<Longrightarrow> handlers s j = H_Idle" and h: "settle_all None (run_effects s) = Some h"
    and at: "serial_at (handlers s i) s h"
    using inv by (auto simp: serial_inv_def)
  from assms(1) show ?thesis
  proof cases
    case service_main
    then have "i = 0" using o [of 0] by (cases "i = 0") auto
    then show ?thesis using service_main o h at by (intro serial_invI [of 0 _ h]) auto
  next
    case service_main_registers
    then have "i = 0" using o [of 0] by (cases "i = 0") auto
    then show ?thesis using service_main_registers o h at by (intro serial_invI [of 0 _ h]) auto
  next
    case (control k code)
    then have "\<And>j. handlers s j = H_Idle" by simp
    then show ?thesis using control h at by (intro serial_invI [of k _ h]) auto
  next
    case (handler_locks k code e)
    then have "i = k" using o [of k] by (cases "i = k") auto
    then show ?thesis
      using handler_locks o h at by (intro serial_invI [of k _ h]) (auto simp: settle_set_status)
  next
    case (handler_ignores k code)
    then have "i = k" using o [of k] by (cases "i = k") auto
    then show ?thesis using handler_ignores o h at by (intro serial_invI [of k _ h]) auto
  next
    case (handler_posts k code e)
    then have "i = k" using o [of k] by (cases "i = k") auto
    then show ?thesis using handler_posts o h at by (intro serial_invI [of k _ h]) auto
  next
    case (handler_waits k code)
    then have "i = k" using o [of k] by (cases "i = k") auto
    then show ?thesis using handler_waits o h at by (intro serial_invI [of k _ h]) auto
  next
    case (handler_woken k code)
    then have "i = k" using o [of k] by (cases "i = k") auto
    then show ?thesis
      using handler_woken o h at
      by (intro serial_invI [of k _ None]) (auto simp: settle_set_status settle_all_append)
  next
    case (handler_reports k)
    then have "i = k" using o [of k] by (cases "i = k") auto
    then show ?thesis
      using handler_reports o h at by (intro serial_invI [of k _ h]) (auto simp: settle_all_append)
  next
    case main_creates
    then show ?thesis using o h at by (intro serial_invI [of i _ h]) (cases "handlers s i"; auto)+
  next
    case (main_handles e es)
    then show ?thesis
      using o h at by (intro serial_invI [of i _ "Some e"]) (cases "handlers s i"; auto simp: settle_all_append)+
  next
    case main_locks
    then show ?thesis using o h at by (intro serial_invI [of i _ h]) (cases "handlers s i"; auto)+
  next
    case main_wakes
    then have "\<not> holds_lock (handlers s i)" using l lock_inv_owner [OF l, of i] by (auto simp: lock_inv_def)
    then show ?thesis
      using main_wakes o h at by (intro serial_invI [of i _ h]) (cases "handlers s i"; auto)+
  next
    case main_exits
    then show ?thesis
      using o h at by (intro serial_invI [of i _ h]) (cases "handlers s i"; auto simp: settle_set_status)+
  next
    case main_cleans
    then show ?thesis using o h at by (intro serial_invI [of i _ h]) (cases "handlers s i"; auto)+
  qed
qed

lemma settle_last:
  "settle_all None xs = Some (Some e) \<Longrightarrow>
   \<exists>us vs. xs = us @ Handled e # vs \<and> (\<forall>x \<in> set vs. (\<forall>d. x \<noteq> Handled d) \<and> (\<forall>c. x \<noteq> Passed c))"
proof (induction xs rule: rev_induct)
  case (snoc x xs)
  then obtain h where h: "settle_all None xs = Some h" "settle_one h x = Some (Some e)"
    by (auto simp: settle_all_append split: bind_splits)
  show ?case
  proof (cases x)
    case (Handled d)
    then have "xs @ [x] = xs @ Handled e # []" using h(2) by (cases h) auto
    then show ?thesis by fastforce
  next
    case (Passed c)
    then show ?thesis using h(2) by (cases h) (auto split: if_splits)
  qed (use h snoc.IH in \<open>fastforce+\<close>)
qed simp

text \<open>
  Property C30.  When the system calls the handler of a Windows service one control at a time, each call passes its wait only
  after the main thread has handled its own event: between that event and the report no other event is handled and no other
  call passes.  So the status that follows a wait describes what the service has done.
\<close>

theorem win_control_passes_after_its_event:
  assumes "win_reachable True s" "run_effects s = xs @ Passed c # ys"
  shows "\<exists>us e vs. event_of c = Some e \<and> xs = us @ Handled e # vs \<and>
    (\<forall>x \<in> set vs. (\<forall>d. x \<noteq> Handled d) \<and> (\<forall>d. x \<noteq> Passed d))"
proof -
  have "serial_inv s"
    using assms(1)
  proof (induction rule: win_reachable.induct)
    case win_start_state
    show ?case by (rule serial_invI [of 0 _ None]) (simp_all add: win_run_new_def)
  next
    case (win_one_step s t)
    then show ?case using win_reachable_wake serial_inv_step by blast
  qed
  then have "settle_all None (run_effects s) \<noteq> None" by (auto simp: serial_inv_def)
  then obtain h where h: "settle_all None xs = Some h" "settle_one h (Passed c) \<noteq> None"
    using assms(2) by (auto simp: settle_all_append split: bind_splits)
  then obtain e where "h = Some e" "event_of c = Some e" by (cases h) (auto split: if_splits)
  then show ?thesis using settle_last [of xs e] h(1) by blast
qed

section \<open>Examples\<close>

text \<open>The start of a service: its first handler waits for the event it has posted, and passes.\<close>

lemma startup_waits:
  "\<exists>s. win_reachable b s \<and> handlers s = (\<lambda>i. H_Idle)(0 := H_Waiting QTSERVICE_STARTUP) \<and> main_at s = M_Loop \<and>
     event_queue s = [QTSERVICE_STARTUP] \<and> mutex s = None \<and> \<not> quitting s \<and> run_effects s = [Status SERVICE_START_PENDING]"
proof -
  let ?s1 = "at_phase 0 SM_Wait (win_run_new\<lparr>start_sem := start_sem win_run_new + 1\<rparr>)"
  have 1: "win_reachable b ?s1"
    by (rule win_one_step [OF win_start_state service_main]) (simp add: win_run_new_def)
  let ?s2 = "?s1\<lparr>main_at := M_Loop, start_sem := start_sem ?s1 - 1, has_handler := True, start_sem2 := start_sem2 ?s1 + 1\<rparr>"
  have 2: "win_reachable b ?s2"
    by (rule win_one_step [OF 1 main_creates]) (simp_all add: win_run_new_def at_phase_def)
  let ?s3 = "at_phase 0 (H_Enter QTSERVICE_STARTUP) (?s2\<lparr>start_sem2 := start_sem2 ?s2 - 1\<rparr>)"
  have 3: "win_reachable b ?s3"
    by (rule win_one_step [OF 2 service_main_registers]) (simp_all add: win_run_new_def at_phase_def)
  let ?s4 = "at_phase 0 (H_Locked QTSERVICE_STARTUP)
    (set_status (pending_status QTSERVICE_STARTUP) (?s3\<lparr>mutex := Some (Handler_Thread 0)\<rparr>))"
  have 4: "win_reachable b ?s4"
    by (rule win_one_step [OF 3 handler_locks [where e = QTSERVICE_STARTUP]])
      (simp_all add: win_run_new_def at_phase_def event_of_def)
  let ?s5 = "at_phase 0 (H_Posted QTSERVICE_STARTUP)
    (?s4\<lparr>event_queue := event_queue ?s4 @ [QTSERVICE_STARTUP], null_post := null_post ?s4 \<or> \<not> has_handler ?s4\<rparr>)"
  have 5: "win_reachable b ?s5"
    by (rule win_one_step [OF 4 handler_posts]) (simp_all add: event_of_def)
  let ?s6 = "at_phase 0 (H_Waiting QTSERVICE_STARTUP) (?s5\<lparr>mutex := None\<rparr>)"
  have 6: "win_reachable b ?s6" by (rule win_one_step [OF 5 handler_waits]) simp
  show ?thesis
    by (rule exI [of _ ?s6]) (use 6 in \<open>simp add: win_run_new_def pending_status_def set_status_def fun_eq_iff\<close>)
qed

theorem win_wakeup_not_lost_witness:
  "\<exists>s. win_reachable False s \<and> handlers s 0 = H_Waiting QTSERVICE_STARTUP \<and>
     (\<exists>n \<le> 5. \<exists>t. (win_step False ^^ n) s t \<and> handlers t 0 = H_Woken QTSERVICE_STARTUP)"
proof -
  obtain s where s: "win_reachable False s" "handlers s = (\<lambda>i. H_Idle)(0 := H_Waiting QTSERVICE_STARTUP)" "main_at s = M_Loop"
    "\<not> quitting s"
    using startup_waits [of False] by blast
  then have "handlers s 0 = H_Waiting QTSERVICE_STARTUP" by simp
  with win_wakeup_not_lost [OF s(1) this] s show ?thesis by blast
qed

theorem win_control_passes_after_its_event_witness:
  "\<exists>s us e vs. win_reachable True s \<and> Passed QTSERVICE_STARTUP \<in> set (run_effects s) \<and>
     event_of QTSERVICE_STARTUP = Some e \<and> (\<exists>ys. run_effects s = us @ Handled e # vs @ Passed QTSERVICE_STARTUP # ys)"
proof -
  obtain s where s: "win_reachable True s" "handlers s = (\<lambda>i. H_Idle)(0 := H_Waiting QTSERVICE_STARTUP)" "main_at s = M_Loop"
    "event_queue s = [QTSERVICE_STARTUP]" "mutex s = None" "\<not> quitting s"
    using startup_waits [of True] by blast
  let ?s1 = "s\<lparr>main_at := M_Handled, event_queue := [],
    run_effects := run_effects s @ [Calls (event_calls QTSERVICE_STARTUP), Handled QTSERVICE_STARTUP],
    quitting := (Call_quit \<in> set (event_calls QTSERVICE_STARTUP))\<rparr>"
  have 1: "win_reachable True ?s1" by (rule win_one_step [OF s(1) main_handles [OF s(3,6,4)]])
  let ?s2 = "?s1\<lparr>main_at := M_Locked, mutex := Some Main_Thread\<rparr>"
  have 2: "win_reachable True ?s2" by (rule win_one_step [OF 1 main_locks]) (simp_all add: s)
  let ?s3 = "?s2\<lparr>main_at := M_Loop, mutex := None,
      handlers := (\<lambda>i. case handlers ?s2 i of H_Waiting code \<Rightarrow> H_Woken code | ph \<Rightarrow> ph)\<rparr>"
  have 3: "win_reachable True ?s3" by (rule win_one_step [OF 2 main_wakes]) simp
  let ?s4 = "at_phase 0 H_Report
      (set_status (final_status QTSERVICE_STARTUP) (?s3\<lparr>run_effects := run_effects ?s3 @ [Passed QTSERVICE_STARTUP]\<rparr>))"
  have 4: "win_reachable True ?s4" by (rule win_one_step [OF 3 handler_woken]) (simp_all add: s)
  have "run_effects ?s4 = (run_effects s @ [Calls (event_calls QTSERVICE_STARTUP), Handled QTSERVICE_STARTUP]) @
      Passed QTSERVICE_STARTUP # [Status SERVICE_RUNNING]"
    by (simp add: final_status_def set_status_def)
  then obtain xs ys where e: "run_effects ?s4 = xs @ Passed QTSERVICE_STARTUP # ys" by blast
  from win_control_passes_after_its_event [OF 4 e] obtain us e vs
    where p: "event_of QTSERVICE_STARTUP = Some e" "xs = us @ Handled e # vs" by blast
  show ?thesis
    using 4 e p by (intro exI [of _ ?s4] exI [of _ us] exI [of _ e] exI [of _ vs] conjI exI [of _ ys]) simp_all
qed

end
