(* ===== verification/Spec2Isabelle.thy ===== *)
theory Spec2Isabelle
  imports Protocol_Answers Fragment_Announce Timer_Protocol Dtls_Server Dtls_Client Dtls_Setup Session_Threads Db_Thread Db_Builder Db_Delete Db_Connection
    Base_Settings Base_File Base_Console Base_Thread Service_Base Widgets Net_Wait Openssl_Context Meta_Programs Qt_Service_Commands Qt_Service_Threads
begin

text \<open>
  Verification of the library Helpz: a message protocol over datagrams, its transport over DTLS, a
  database layer on Qt, and the utilities they and their programs use.  The theories follow the
  directories of the sources.

  \<^bold>\<open>The program.\<close>  An application gives messages to a \<open>Net::Protocol\<close> (\<open>Network/\<close>), which numbers them,
  cuts large ones into fragments, compresses, adds a checksum, keeps what expects an answer in a
  waiting list and resends it.  The packets go to a \<open>Protocol_Writer\<close>, which is a \<open>DTLS::Node\<close>
  (\<open>DTLS/\<close>): it encrypts them with a channel of the library Botan and sends datagrams through a
  \<open>Socket\<close>.  A server keeps a table of nodes by end point and threads that pass received records to the
  protocols; a client has one node, a deadline that watches the connection, and a thread that connects
  again.  A \<open>Protocol_Timer\<close> calls back at the time points of the waiting list.  The \<open>Database/\<close> layer
  builds SQL statements from tables that a macro of \<open>DBMeta/\<close> describes, executes them with retries,
  builds objects from rows, deletes rows with their dependants, and runs queued work in threads; TLS
  sessions can be kept in such a database.  \<open>Base/\<close> has settings, files, log output and a thread that owns an
  object; \<open>Service/\<close> runs a worker object as a system service with a log thread, on top of \<open>qtservice/\<close>, a changed copy of a
  Qt Solution that gives a program the command line of a service and a way to control it, on Unix through a local
  socket and on Windows through the service control manager.

  \<^bold>\<open>The theories.\<close>
  \<^item> \<open>Prelude\<close>: machine integers, byte strings, time, generic facts.
  \<^item> \<open>Std_Map\<close>: \<open>std::map\<close> as a sorted association list, with the interface \<open>ordered_map\<close>.
  \<^item> \<open>Qt_Lib\<close>: what the protocol uses of Qt (devices, data streams, checksum, compression), with the
    documented behaviour as the locale \<open>qt_documented\<close>; \<open>Base/apply_parse.h\<close>.
  \<^item> \<open>Fragmented_Message\<close>, \<open>Message_Item\<close>, \<open>Net_Protocol\<close>: the classes of \<open>Network/\<close>, every handler as a function
    on a record of the fields.  \<open>Protocol_Stream\<close>, \<open>Protocol_Numbers\<close>, \<open>Protocol_Waiting\<close> and
    \<open>Protocol_Exchange\<close> hold their theory: cutting the stream, message numbers and the lost list, the
    waiting list and reachable states, and both ends together.  \<open>Fragment_Parts\<close>,
    \<open>Fragment_Transfer\<close>, \<open>Fragment_Losses\<close> and \<open>Fragment_Queries\<close>: a fragmented message from the announcement to its delivery,
    over a line that loses nothing, over one that loses parts, and over one that loses parts and queries.
    \<open>Protocol_Resend\<close>: lost messages of one packet and their repetitions.  \<open>Fragment_Announce\<close>: the loss of the announcement
    of a fragmented message.  \<open>Protocol_Answers\<close>: a
    question and its answer between two ends.
  \<^item> \<open>Protocol_Timer\<close>: the timer thread as a transition relation.  \<open>Timer_Protocol\<close>: the protocol of a client
    together with that thread and with the calls it posts to the I/O thread.  \<open>Net_Wait\<close>: \<open>waithelper.cpp\<close> and \<open>udpclient.cpp\<close>.
  \<^item> \<open>Worker_Pool\<close>: the contract \<open>task_pool\<close> of threads that share a queue, with what follows from it in
    every interleaving, and the abstract server it refines.  \<open>Db_Thread\<close> (\<open>Database/db_thread.cpp\<close>) and the record threads in \<open>Dtls_Server\<close>
    are instances.
  \<^item> \<open>Dtls_Node\<close>, \<open>Dtls_Server\<close>, \<open>Dtls_Client\<close>, \<open>Dtls_Setup\<close>, \<open>Dtls_Session\<close>, \<open>Session_Threads\<close>: the
    classes of \<open>DTLS/\<close>.  \<open>Openssl_Dtls\<close> and \<open>Openssl_Context\<close>: the older implementation in \<open>DTLS/OpenSSL/\<close>,
    which is not built, its conversations and the objects it makes and gives back.
  \<^item> \<open>Db_Query\<close>, \<open>Db_Connection\<close>, \<open>Db_Builder\<close>, \<open>Db_Delete\<close>: the statements, connections, objects and deletions of
    \<open>Database/\<close> and \<open>DBMeta/\<close>.  \<open>Meta_Programs\<close>: what the preprocessor and the compiler compute, the macros of \<open>db_meta.h\<close> and the
    index sequences of \<open>fake_integer_sequence.h\<close>.
  \<^item> \<open>Base_Stream\<close>, \<open>Base_Settings\<close>, \<open>Base_File\<close>, \<open>Base_Thread\<close>, \<open>Base_Logging\<close>, \<open>Base_Console\<close>: the parts of \<open>Base/\<close>; \<open>Service_Base\<close>:
    \<open>Service/\<close>; \<open>Widgets\<close>: \<open>Widgets/\<close> and \<open>DBWidgets/\<close>.
  \<^item> \<open>Qt_Service\<close>: the service object and its command line (\<open>qtservice.cpp\<close>), over a record of the system's operations with the
    interface \<open>service_platform\<close>; \<open>Qt_Service_Unix\<close> and \<open>Qt_Service_Win\<close> fill the record and are instances of it.
    \<open>Qt_Service_Commands\<close>: from a controller to the worker of \<open>Service_Base\<close>; \<open>Qt_Service_Threads\<close>: the handler and the main thread of a
    Windows service as a transition relation.

  \<^bold>\<open>How code becomes definitions.\<close>  A class is a record of its fields, with the name of the field where
  it is free; a method is a function from the record to the record, with its result and what it does
  to the outside as a list of effects (\<open>effects\<close> of the protocol, \<open>node_effect\<close>).  The reading of a clock
  is an argument.  Exceptions are values.  Undefined behaviour that the sources can reach is a result of
  its own (\<open>undefined_behaviour\<close> in \<open>Net_Protocol\<close>, \<open>None\<close> in \<open>Dtls_Setup\<close>, \<open>Undefined\<close> in \<open>Base_Thread\<close>).
  Threads are cut at the places where their mutex is free, and properties of threads hold for every interleaving of the pieces.
  Numbers have their width where it matters: message numbers are bytes, positions 32-bit words, the
  start of a session a 32-bit int.

  \<^bold>\<open>Parameters.\<close>  Code outside the repository is an argument: Qt's compression and encodings (\<open>qt\<close>), the
  TLS channel (\<open>channel\<close>), the application's handlers (\<open>env\<close>, \<open>app\<close>), the database driver (\<open>driver\<close>) and
  the server behind it (\<open>server_ops\<close>), the operating system's files (\<open>posix\<close>,
  \<open>file_system\<close>), sockets (\<open>transport\<close>), conversions of texts (\<open>qtext\<close>), the service control manager (fields of \<open>win_world\<close>),
  certificates (\<open>x509\<close>), key derivation and encryption of sessions (\<open>session_lib\<close>).  Where a property
  needs their documented behaviour it is a hypothesis, and an example shows that it can hold.

  \<^bold>\<open>What is shown.\<close>
  \<^item> Fragments: the missing ranges are kept exactly, a complete message is the sender's, the next part
    is missing and within bounds.
  \<^item> Stream: a sequence of packets is received the same however it is cut into datagrams; a damaged
    tail is dropped alone when nothing was left over before.
  \<^item> Numbers: gaps enter the lost list, a repeated message is handled at most once until its number is entered as lost
    again; a late packet across the wrap-around enters numbers that were not lost.
  \<^item> Waiting list: due messages are resent or time out, answers run their callback once; all tables keep
    their invariant in every reachable state.
  \<^item> Delivery: messages arrive in order and unchanged, from protocol to protocol and, in this theory,
    through two DTLS nodes; the answer to a message runs the callback that waits for it.
  \<^item> Fragmented transfer: over a line that loses nothing a large message is delivered once and whole, within
    a number of rounds that its size and the size of its fragments give, under every number but 255, whose parts are taken for packets
    far ahead; when parts are lost, or the queries for
    them, the receiver's timer asks again and, before the sender's own repetition is due, the message still arrives; when the announcement is lost and a later message shows
    the gap, the sender's timer announces it again and the transfer succeeds.
  \<^item> Repetition: a lost message that a later one has shown to be missing is recovered by the sender's timer, once; one that
    is the last is not, because the receiver drops its repetitions.
  \<^item> Timer and threads: nothing is lost or done twice in any interleaving; the timer is never stuck; with the
    protocol of a client and a clock that does not go back, no message that waits under a registered time point is forgotten; the
    database threads refine a server with one queue, and the destructors that join threads return.
  \<^item> Nodes and server: only the attached protocol is called, and after it was told of the close only that once more; the client table is consistent in every
    reachable state; copies and frozen clients are removed, live ones are not.
  \<^item> Client: a silent peer is pinged, then dropped, and a datagram in between takes the ping back; one connection at a time.
  \<^item> Tables: the macros write the functions that the columns of a table say, for up to fifteen columns.
  \<^item> Database: statements bind exactly their values, objects survive the round trip through typed columns, deletions over two
    levels remove or set to null exactly the dependants, and keep the row when a statement fails; a statement leaves its connection open exactly when it succeeded
    and touches no other; sessions are bounded as far as the database takes the statements, found again in the thread of the manager and protected by the passphrase, and calls
    from other threads run once, in order, and return, but for loads, which never do.
  \<^item> Base and service: what is written to a settings text, a settings store or a file is read back; the
    outcome of a thread's start reaches its callers; one waiter for a command and one worker for a service;
    the lines typed at a terminal are given out in order; a table shows the state of its selection machine after any keys.
  \<^item> Services: installing and removing services refines a set of names on both systems; commands are read the same however
    their stream is cut, as long as the reads decode to the same text, and those of a command line reach the worker; a controller's requests are taken in order
    and answered as the flags of the service say; on Windows no wake-up of a handler is lost, and a control passes only
    after its event.
  Several theories end with a section on what goes wrong: states in which the code misbehaves, each with
  a proof.

  \<^bold>\<open>Loops.\<close>  All recursions terminate, by structure or by a measure; there is no fuel.  Threads that run
  for ever are step relations.  The rounds of \<open>line_rounds\<close> are a list, and the theorem on the transfer
  says how long it has to be; when the events of \<open>wait_exec\<close> end, the wait goes on (\<open>None\<close>).

  \<^bold>\<open>Not modelled.\<close>  What the parts write to the log; thread priorities; file permissions; the looks of the
  widgets and the texts they show; the notifications of condition variables outside \<open>Qt_Service_Threads\<close>, where a wait may return
  whenever its condition holds; generated version numbers; tests and trial programs; the
  debug log of \<open>qtservice/\<close>, which no build turns on.
\<close>

section \<open>Messages over an encrypted connection\<close>

text \<open>
  A sender's node encrypts the packets of its protocol, a client's node decrypts what arrives and
  hands it to its protocol.  The datagrams of a node's effects, and the arrival of datagrams in order:
\<close>

definition datagrams :: "node_effect list \<Rightarrow> bytes list" where
  "datagrams fs = concat (map (\<lambda>f. case f of Send_Datagram ep w \<Rightarrow> [w] | _ \<Rightarrow> []) fs)"

definition chunks_for :: "nat \<Rightarrow> node_effect list \<Rightarrow> bytes list" where
  "chunks_for q fs =
     concat (map (\<lambda>f. case f of Process_Bytes p data \<Rightarrow> if p = q then [data] else [] | _ \<Rightarrow> []) fs)"

text \<open>
  A channel in one state carries datagrams to a channel in another: each of them is a record of the
  plain text.  Two channels are in step if whatever the first one sends is carried to the second, in
  as many records as it takes, and leaves them in step.
\<close>

inductive carries :: "'c channel \<Rightarrow> bytes list \<Rightarrow> 'c \<Rightarrow> bytes list \<Rightarrow> 'c \<Rightarrow> bool" for C where
  carries_none: "carries C [] b [] b"
| carries_one: "ch_is_active C b \<Longrightarrow> ch_received_data C w b = ([Record_Received r], b1, False) \<Longrightarrow>
    carries C ws b1 rs b2 \<Longrightarrow> carries C (w # ws) b (r # rs) b2"

definition line_ok :: "'c channel \<Rightarrow> ('c \<Rightarrow> 'c \<Rightarrow> bool) \<Rightarrow> bool" where
  "line_ok C in_step \<longleftrightarrow>
     (\<forall>a b data. in_step a b \<longrightarrow>
        ch_is_active C a \<and>
        (\<exists>rs b'. carries C (fst (ch_send C data a)) b rs b' \<and> concat rs = data \<and>
           in_step (snd (ch_send C data a)) b'))"

lemma carries_append:
  "carries C ws b rs b1 \<Longrightarrow> carries C vs b1 qs b2 \<Longrightarrow> carries C (ws @ vs) b (rs @ qs) b2"
  by (induction rule: carries.induct) (simp_all add: carries.carries_one)

lemma datagrams_append [simp]: "datagrams (fs @ gs) = datagrams fs @ datagrams gs"
  by (simp add: datagrams_def)

lemma datagrams_emit [simp]: "datagrams (emit_data n out) = out"
  by (induction out) (simp_all add: emit_data_def datagrams_def)

lemma sent_is_carried:
  assumes "line_ok C in_step"
  shows "n_dtls n = Some a \<Longrightarrow> in_step a b \<Longrightarrow>
    \<exists>rs b'. carries C (datagrams (snd (node_run R A C (map Write_Bytes packets) n))) b rs b' \<and>
      concat rs = concat packets"
proof (induction packets arbitrary: n a b)
  case Nil
  have "carries C [] b [] b" by (rule carries_none)
  then show ?case by (intro exI [of _ "[]"] exI [of _ b]) (simp add: datagrams_def)
next
  case (Cons d packets)
  obtain out a1 where s: "ch_send C d a = (out, a1)" by fastforce
  obtain rs b1 where 1: "carries C out b rs b1" "concat rs = d" "in_step a1 b1"
    using assms Cons.prems(2) s unfolding line_ok_def by (metis fst_conv snd_conv)
  have w: "write_bytes C d n = (n\<lparr>n_dtls := Some a1\<rparr>, emit_data n out)"
    using assms Cons.prems s by (simp add: write_bytes_def line_ok_def)
  obtain qs b2 where
    2: "carries C (datagrams (snd (node_run R A C (map Write_Bytes packets) (n\<lparr>n_dtls := Some a1\<rparr>)))) b1 qs b2"
    "concat qs = concat packets"
    using Cons.IH [of "n\<lparr>n_dtls := Some a1\<rparr>" a1 b1] 1(3) by auto
  have "carries C (datagrams (snd (node_run R A C (map Write_Bytes (d # packets)) n))) b (rs @ qs) b2"
    using carries_append [OF 1(1) 2(1)] by (simp add: w split_beta)
  then show ?case using 1(2) 2(2) by (intro exI [of _ "rs @ qs"] exI [of _ b2]) simp
qed

lemma carried_is_received:
  "carries C ws b rs b' \<Longrightarrow> n_dtls n = Some b \<Longrightarrow> n_protocol n = Some q \<Longrightarrow>
   snd (node_run Client_Role A C (map Receive ws) n) = map (Process_Bytes q) rs"
proof (induction arbitrary: n rule: carries.induct)
  case (carries_one b w r b1 ws rs b2)
  have "process_received_data Client_Role A C w n = (n\<lparr>n_dtls := Some b1\<rparr>, [Process_Bytes q r])"
    using carries_one by (simp add: process_received_data_def node_event_def tls_record_received_def
        keep_channel_def Let_def)
  then show ?case using carries_one.IH [of "n\<lparr>n_dtls := Some b1\<rparr>"] carries_one.prems
    by (simp add: split_beta)
qed simp

lemma chunks_for_map [simp]: "chunks_for q (map (Process_Bytes q) rs) = rs"
  by (induction rs) (simp_all add: chunks_for_def)

text \<open>
  Property C8.  From protocol to protocol: the packets a protocol prepares for a sequence of messages,
  written to its node, sent as datagrams over channels that are in step and received in order by the
  node of a client, make the client's protocol hand exactly these messages to its application, in
  order and under consecutive numbers.
\<close>

theorem messages_delivered_over_dtls:
  fixes R :: role
    and A A' :: app
  assumes "qt_documented Q" "clean r" "next_rx_msg_id r = next_tx_msg_id s" "ms \<noteq> []"
    and "\<forall>(t1, t2, m) \<in> set ms. plain m \<and> length (compress Q (content m)) \<le> 2 ^ 31 \<and>
           length (content m) \<le> 2 ^ 31"
    and "\<forall>e. \<not> throws E e" "prepare_all Q ms s = (packets, s')"
    and "line_ok C in_step" "n_dtls sender = Some a" "in_step a b"
    and "n_dtls receiver = Some b" "n_protocol receiver = Some q"
  defines "wire \<equiv> datagrams (snd (node_run R A C (map Write_Bytes packets) sender))"
  defines "got \<equiv> chunks_for q (snd (node_run Client_Role A' C (map Receive wire) receiver))"
  shows "\<exists>r'. process_chunks Q E got r = Inr r' \<and> clean r' \<and>
    next_rx_msg_id r' = next_tx_msg_id s' \<and>
    effects r' = effects r @ deliveries (next_tx_msg_id s) (map (snd \<circ> snd) ms)"
proof -
  obtain rs b' where c: "carries C wire b rs b'" "concat rs = concat packets"
    using sent_is_carried [OF assms(8,9,10)] unfolding wire_def by blast
  have "got = rs"
    using carried_is_received [OF c(1) assms(11,12)] by (simp add: got_def)
  with c(2) have "concat got = concat packets" by simp
  then show ?thesis by (rule delivery [OF assms(1-7)])
qed

section \<open>Examples\<close>

lemma plain_line_ok: "line_ok plain_channel (\<lambda>a b. a = 1 \<and> b = 1)"
proof -
  have "carries plain_channel [data] 1 [data] 1" for data
    by (rule carries_one [OF _ _ carries_none]) (simp_all add: plain_channel_def)
  moreover have "ch_send plain_channel data a = ([data], a)" "ch_is_active plain_channel 1" for data a
    by (simp_all add: plain_channel_def)
  ultimately show ?thesis
    unfolding line_ok_def by (metis concat.simps append_Nil2 fst_conv snd_conv)
qed

text \<open>The same messages as before, now through two nodes.\<close>

theorem messages_delivered_over_dtls_witness:
  "\<exists>r'. process_chunks qt_sample quiet
      (chunks_for 7 (snd (node_run Client_Role plain_app plain_channel
        (map Receive (datagrams (snd (node_run Server_Role plain_app plain_channel
           (map Write_Bytes (fst (prepare_all qt_sample
              [(0, 0, sample_item None [4, 5]), (0, 0, sample_item None [])] protocol_new)))
           ((node_new False)\<lparr>n_dtls := Some 1\<rparr>)))))
        ((node_new False)\<lparr>n_dtls := Some 1, n_protocol := Some 7\<rparr>)))) protocol_new = Inr r' \<and>
    effects r' = [Process_Message 0 16 [4, 5], Process_Message 1 16 []]"
proof -
  let ?ms = "[(0, 0, sample_item None [4, 5]), (0, 0, sample_item None [])]"
  let ?n = "(node_new False)\<lparr>n_dtls := Some 1\<rparr>" and ?m = "(node_new False)\<lparr>n_dtls := Some 1, n_protocol := Some 7\<rparr>"
  obtain packets s' where p: "prepare_all qt_sample ?ms protocol_new = (packets, s')"
    by (cases "prepare_all qt_sample ?ms protocol_new")
  have m: "\<forall>(t1, t2, m) \<in> set ?ms. plain m \<and> length (compress qt_sample (content m)) \<le> 2 ^ 31 \<and>
      length (content m) \<le> 2 ^ 31"
    by (simp add: plain_def content_def sample_item_def message_item_new_def cmd_defs qt_sample_def)
  have q: "next_rx_msg_id protocol_new = next_tx_msg_id protocol_new" "\<forall>e. \<not> throws quiet e"
    by (simp_all add: protocol_new_def quiet_def)
  from messages_delivered_over_dtls [OF qt_sample_documented protocol_new_clean q(1) _ m q(2) p plain_line_ok,
      where sender = ?n and receiver = ?m and a = 1 and b = 1 and q = 7 and R = Server_Role and A = plain_app
      and A' = plain_app] p
  show ?thesis
    by (simp add: protocol_new_def content_def sample_item_def message_item_new_def) blast
qed

end
